(* ===== verification/HalidePrelude.thy ===== *)
theory HalidePrelude
  imports Main "HOL-Library.Word" "HOL-Library.Signed_Division"
begin

text \<open>
  Shared vocabulary of the development: the error values the C++ code can end in, the
  error monad the components are written in, C++ integer arithmetic with its undefined
  cases, and the generic lemmas the component proofs use.

  An \<open>internal_assert\<close>, \<open>user_assert\<close>, \<open>internal_error\<close> or
  \<open>user_error\<close> of \<open>src/Error.h\<close> aborts the compilation: it is the
  constructor of \<open>halide_error\<close> that carries the message. Signed overflow, a
  division by zero and the other undefined operations of C++ are
  \<open>Undefined_behaviour\<close>: no theorem that concludes \<open>Inr\<close> can pass
  through them.
\<close>

subsection \<open>Errors and the error monad\<close>

datatype halide_error =
    Internal_error string
  | User_error string
  | Undefined_behaviour

type_synonym 'a result = "halide_error + 'a"

definition rbind :: "'a result \<Rightarrow> ('a \<Rightarrow> 'b result) \<Rightarrow> 'b result" where
  "rbind m f = (case m of Inl e \<Rightarrow> Inl e | Inr x \<Rightarrow> f x)"

definition internal_assert :: "bool \<Rightarrow> string \<Rightarrow> unit result" where
  "internal_assert b msg = (if b then Inr () else Inl (Internal_error msg))"

definition user_assert :: "bool \<Rightarrow> string \<Rightarrow> unit result" where
  "user_assert b msg = (if b then Inr () else Inl (User_error msg))"

fun rmap :: "('a \<Rightarrow> 'b result) \<Rightarrow> 'a list \<Rightarrow> 'b list result" where
  "rmap f [] = Inr []"
| "rmap f (x # xs) = rbind (f x) (\<lambda>y. rbind (rmap f xs) (\<lambda>ys. Inr (y # ys)))"

lemma rbind_Inl [simp]: "rbind (Inl e) f = Inl e"
  by (simp add: rbind_def)

lemma rbind_Inr [simp]: "rbind (Inr x) f = f x"
  by (simp add: rbind_def)

lemma rbind_eq_Inr [simp]: "rbind m f = Inr y \<longleftrightarrow> (\<exists>x. m = Inr x \<and> f x = Inr y)"
  by (cases m) auto

lemma internal_assert_eq_Inr [simp]: "internal_assert b msg = Inr u \<longleftrightarrow> b"
  by (simp add: internal_assert_def)

lemma user_assert_eq_Inr [simp]: "user_assert b msg = Inr u \<longleftrightarrow> b"
  by (simp add: user_assert_def)

lemma internal_assert_True [simp]: "internal_assert True msg = Inr ()"
  by (simp add: internal_assert_def)

lemma user_assert_True [simp]: "user_assert True msg = Inr ()"
  by (simp add: user_assert_def)

lemma rbind_cong [fundef_cong]:
  assumes "m = m'" and "\<And>x. m' = Inr x \<Longrightarrow> f x = g x"
  shows "rbind m f = rbind m' g"
  using assms by (cases m') auto

lemma rmap_cong [fundef_cong]:
  assumes "xs = ys" and "\<And>x. x \<in> set ys \<Longrightarrow> f x = g x"
  shows "rmap f xs = rmap g ys"
proof -
  have "(\<forall>x \<in> set ys. f x = g x) \<Longrightarrow> rmap f ys = rmap g ys"
    by (induction ys) (auto intro!: rbind_cong)
  with assms show ?thesis by blast
qed

lemma rmap_eq_Inr_iff:
  "rmap f xs = Inr ys \<longleftrightarrow> list_all2 (\<lambda>x y. f x = Inr y) xs ys"
proof (induction xs arbitrary: ys)
  case Nil
  then show ?case by auto
next
  case (Cons x xs)
  then show ?case by (cases ys) auto
qed

lemma rmap_Inr_length: "rmap f xs = Inr ys \<Longrightarrow> length ys = length xs"
  by (auto simp: rmap_eq_Inr_iff list_all2_lengthD)

lemma rmap_Inr_id [simp]: "rmap Inr xs = Inr xs"
  by (induction xs) auto

lemma list_all2_last:
  assumes "list_all2 P xs ys" and "ys \<noteq> []"
  shows "P (last xs) (last ys) \<and> last xs \<in> set xs"
proof -
  from assms have "xs \<noteq> []" by auto
  with assms show ?thesis
    by (simp add: list_all2_conv_all_nth last_conv_nth)
qed

subsection \<open>C++ integer arithmetic\<close>

text \<open>
  A value of C++ type \<open>int\<close> or \<open>int64_t\<close> is an \<open>int\<close> in range;
  an operation whose exact result leaves the range is undefined behaviour. C++ division
  and remainder truncate towards zero, which is \<open>sdiv\<close> and \<open>smod\<close> of
  HOL-Library.
\<close>

definition in_int32 :: "int \<Rightarrow> bool" where
  "in_int32 x \<longleftrightarrow> - (2 ^ 31) \<le> x \<and> x < 2 ^ 31"

definition in_int64 :: "int \<Rightarrow> bool" where
  "in_int64 x \<longleftrightarrow> - (2 ^ 63) \<le> x \<and> x < 2 ^ 63"

definition in_uint64 :: "int \<Rightarrow> bool" where
  "in_uint64 x \<longleftrightarrow> 0 \<le> x \<and> x < 2 ^ 64"

definition check32 :: "int \<Rightarrow> int result" where
  "check32 x = (if in_int32 x then Inr x else Inl Undefined_behaviour)"

definition c_rem32 :: "int \<Rightarrow> int \<Rightarrow> int result" where
  "c_rem32 a b =
     (if b = 0 \<or> (a = - (2 ^ 31) \<and> b = - 1) then Inl Undefined_behaviour
      else Inr (a smod b))"

definition c_div32 :: "int \<Rightarrow> int \<Rightarrow> int result" where
  "c_div32 a b =
     (if b = 0 \<or> (a = - (2 ^ 31) \<and> b = - 1) then Inl Undefined_behaviour
      else Inr (a sdiv b))"

lemma check32_Inr [simp]: "check32 x = Inr y \<longleftrightarrow> in_int32 x \<and> y = x"
  by (auto simp: check32_def)

lemma c_rem32_Inr [simp]:
  "c_rem32 a b = Inr r \<longleftrightarrow> b \<noteq> 0 \<and> \<not> (a = - (2 ^ 31) \<and> b = - 1) \<and> r = a smod b"
  by (auto simp: c_rem32_def)

lemma smod_eq_diff: "(a::int) smod b = a - (a sdiv b) * b"
  by (rule minus_sdiv_mult_eq_smod [symmetric])

lemma dvd_diff_smod: "(b::int) dvd a - a smod b"
  by (simp add: smod_eq_diff)

lemma abs_smod_less: "(b::int) \<noteq> 0 \<Longrightarrow> \<bar>a smod b\<bar> < \<bar>b\<bar>"
proof -
  assume "b \<noteq> 0"
  have "a smod b = sgn a * (\<bar>a\<bar> mod \<bar>b\<bar>)"
    by (rule smod_int_alt_def)
  then show ?thesis
    using \<open>b \<noteq> 0\<close> by (cases "a = 0") (auto simp: abs_mult abs_sgn_eq)
qed

lemma smod_sign: "(a::int) smod b \<noteq> 0 \<Longrightarrow> sgn (a smod b) = sgn a"
proof -
  assume nz: "a smod b \<noteq> 0"
  have eq: "a smod b = sgn a * (\<bar>a\<bar> mod \<bar>b\<bar>)"
    by (rule smod_int_alt_def)
  have "b \<noteq> 0 \<Longrightarrow> 0 \<le> \<bar>a\<bar> mod \<bar>b\<bar>" by simp
  moreover have "b = 0 \<Longrightarrow> 0 \<le> \<bar>a\<bar> mod \<bar>b\<bar>" by simp
  ultimately have "0 \<le> \<bar>a\<bar> mod \<bar>b\<bar>" by blast
  with nz eq show ?thesis
    by (auto simp: sgn_mult sgn_if split: if_splits)
qed

end
