(* ===== verification/FloatBits.thy ===== *)
theory FloatBits
  imports HalidePrelude
begin

text \<open>
  IEEE 754 values as the IR stores them. A \<open>FloatImm\<close> node holds a C++
  \<open>double\<close>; it is modelled by its 64 bits. Comparisons, and the conversions the
  compiler applies to constants (integer to floating point, \<open>double\<close> to
  \<open>float\<close>, \<open>double\<close> to \<open>float16_t\<close>, \<open>double\<close> to an
  integer), are computed on the bits, rounding to nearest with ties to even. The
  conversion to \<open>float16_t\<close> (\<open>src/Float16.cpp\<close>) is an error of the user
  when it overflows, and is silent in \<open>float\<close>.
\<close>

type_synonym double = "64 word"

definition dbl_neg :: "double \<Rightarrow> bool" where
  "dbl_neg d \<longleftrightarrow> 2 ^ 63 \<le> uint d"

definition dbl_magnitude :: "double \<Rightarrow> int" where
  "dbl_magnitude d = uint d mod 2 ^ 63"

definition dbl_exp :: "double \<Rightarrow> int" where
  "dbl_exp d = dbl_magnitude d div 2 ^ 52"

definition dbl_frac :: "double \<Rightarrow> int" where
  "dbl_frac d = uint d mod 2 ^ 52"

definition dbl_nan :: "double \<Rightarrow> bool" where
  "dbl_nan d \<longleftrightarrow> dbl_exp d = 2047 \<and> dbl_frac d \<noteq> 0"

definition dbl_finite :: "double \<Rightarrow> bool" where
  "dbl_finite d \<longleftrightarrow> dbl_exp d \<noteq> 2047"

text \<open>
  The order of the values that are not NaN is the order of the signed magnitudes, where
  the two zeros coincide; a comparison with a NaN is false.
\<close>

definition dbl_key :: "double \<Rightarrow> int" where
  "dbl_key d = (if dbl_neg d then - dbl_magnitude d else dbl_magnitude d)"

definition dbl_less :: "double \<Rightarrow> double \<Rightarrow> bool" where
  "dbl_less a b \<longleftrightarrow> \<not> dbl_nan a \<and> \<not> dbl_nan b \<and> dbl_key a < dbl_key b"

definition dbl_le :: "double \<Rightarrow> double \<Rightarrow> bool" where
  "dbl_le a b \<longleftrightarrow> \<not> dbl_nan a \<and> \<not> dbl_nan b \<and> dbl_key a \<le> dbl_key b"

definition dbl_eq :: "double \<Rightarrow> double \<Rightarrow> bool" where
  "dbl_eq a b \<longleftrightarrow> \<not> dbl_nan a \<and> \<not> dbl_nan b \<and> dbl_key a = dbl_key b"

subsection \<open>Rounding to nearest, ties to even\<close>

text \<open>
  A finite magnitude is \<open>m * 2 ^ e\<close> with \<open>m\<close> not negative. Rounding to
  \<open>p\<close> bits, with exponents from \<open>emin\<close> on, drops the low bits of
  \<open>m\<close>.
\<close>

function bits_len :: "int \<Rightarrow> int" where
  "bits_len n = (if n \<le> 0 then 0 else 1 + bits_len (n div 2))"
  by pat_completeness auto
termination
  by (relation "measure nat") auto

declare bits_len.simps [simp del]

definition rne_shift :: "int \<Rightarrow> nat \<Rightarrow> int" where
  "rne_shift m k =
     (let q = m div 2 ^ k; r = m mod 2 ^ k; half = 2 ^ (k - 1) in
      if half < r \<or> (r = half \<and> odd q) then q + 1 else q)"

definition round_fp :: "int \<Rightarrow> int \<Rightarrow> int \<Rightarrow> int \<Rightarrow> int \<times> int" where
  "round_fp p emin m e =
     (let q = max (e + bits_len m - p) emin in
      if q \<le> e then (m, e) else (rne_shift m (nat (q - e)), q))"

definition dbl_pack :: "bool \<Rightarrow> int \<Rightarrow> double" where
  "dbl_pack neg mag = word_of_int (if neg then 2 ^ 63 + mag else mag)"

definition dbl_inf :: "bool \<Rightarrow> double" where
  "dbl_inf neg = dbl_pack neg (2047 * 2 ^ 52)"

definition dbl_make :: "bool \<Rightarrow> int \<Rightarrow> int \<Rightarrow> double" where
  "dbl_make neg m e =
     (let (m', q) = round_fp 53 (- 1074) m e;
          len = bits_len m';
          ex = len + q - 1 in
      if m' = 0 then dbl_pack neg 0
      else if 1023 < ex then dbl_inf neg
      else if - 1022 \<le> ex then
        dbl_pack neg ((ex + 1023) * 2 ^ 52 +
          ((if len \<le> 53 then m' * 2 ^ nat (53 - len) else m' div 2 ^ nat (len - 53)) - 2 ^ 52))
      else dbl_pack neg (m' * 2 ^ nat (q + 1074)))"

definition dbl_of_int :: "int \<Rightarrow> double" where
  "dbl_of_int v = dbl_make (v < 0) \<bar>v\<bar> 0"

definition dbl_mantissa :: "double \<Rightarrow> int" where
  "dbl_mantissa d = (if dbl_exp d = 0 then dbl_frac d else dbl_frac d + 2 ^ 52)"

definition dbl_power :: "double \<Rightarrow> int" where
  "dbl_power d = max (dbl_exp d) 1 - 1075"

text \<open>Conversion of a \<open>double\<close> to \<open>float\<close> and back.\<close>

definition dbl_to_float :: "double \<Rightarrow> double" where
  "dbl_to_float d =
     (if \<not> dbl_finite d then d
      else let (m, q) = round_fp 24 (- 149) (dbl_mantissa d) (dbl_power d) in
        if 128 < bits_len m + q then dbl_inf (dbl_neg d) else dbl_make (dbl_neg d) m q)"

text \<open>
  Conversion of a \<open>double\<close> to \<open>float16_t\<close> and back. The overflow of a finite
  value is reported by \<open>checkConversion\<close> in \<open>src/Float16.cpp\<close> as a user
  error; an infinity or a NaN converts without a flag.
\<close>

definition dbl_to_float16 :: "double \<Rightarrow> double result" where
  "dbl_to_float16 d =
     (if \<not> dbl_finite d then Inr d
      else let (m, q) = round_fp 11 (- 24) (dbl_mantissa d) (dbl_power d) in
        if 16 < bits_len m + q
        then Inl (User_error ''Converting to float16_t results in overflow'')
        else Inr (dbl_make (dbl_neg d) m q))"

text \<open>Truncation to an integer, as a cast to an integer type that can hold it.\<close>

definition dbl_trunc :: "double \<Rightarrow> int option" where
  "dbl_trunc d =
     (if \<not> dbl_finite d then None
      else let m = dbl_mantissa d; e = dbl_power d;
               a = (if 0 \<le> e then m * 2 ^ nat e else m div 2 ^ nat (- e)) in
        Some (if dbl_neg d then - a else a))"

subsection \<open>Facts\<close>

lemma dbl_less_irrefl [simp]: "\<not> dbl_less a a"
  by (simp add: dbl_less_def)

lemma dbl_less_asym: "dbl_less a b \<Longrightarrow> \<not> dbl_less b a"
  by (simp add: dbl_less_def)

lemma dbl_less_trans: "dbl_less a b \<Longrightarrow> dbl_less b c \<Longrightarrow> dbl_less a c"
  by (simp add: dbl_less_def)

lemma dbl_less_total:
  "\<not> dbl_nan a \<Longrightarrow> \<not> dbl_nan b \<Longrightarrow> \<not> dbl_less a b \<Longrightarrow> \<not> dbl_less b a \<Longrightarrow> dbl_eq a b"
  by (simp add: dbl_less_def dbl_eq_def)

lemma bits_len_0 [simp]: "bits_len 0 = 0"
  by (simp add: bits_len.simps)

lemma bits_len_le: "n < 2 ^ k \<Longrightarrow> bits_len n \<le> int k"
proof (induction k arbitrary: n)
  case 0
  then show ?case by (simp add: bits_len.simps)
next
  case (Suc k)
  then have "n div 2 < 2 ^ k" by simp
  from Suc.IH [OF this] show ?case
    by (subst bits_len.simps) auto
qed

text \<open>An integer of at most \<open>p\<close> bits is not changed by rounding to \<open>p\<close> bits.\<close>

lemma round_fp_exact:
  assumes "m < 2 ^ p"
  shows "round_fp (int p) 0 m 0 = (m, 0)"
  using bits_len_le [OF assms] by (simp add: round_fp_def Let_def)

end
