(* ===== verification/HalideType.thy ===== *)
theory HalideType
  imports FloatBits
begin

text \<open>
  The type system of the compiler: \<open>halide_type_t\<close> of
  \<open>src/runtime/HalideRuntime.h\<close>, the descriptors of C++ handle types, and
  \<open>struct Type\<close> of \<open>src/Type.h\<close> with the predicates of
  \<open>src/Type.cpp\<close>. \<open>Type::max\<close> and \<open>Type::min\<close>, which build
  expressions, are in theory \<open>IR\<close>.
\<close>

subsection \<open>Type codes and handle types\<close>

datatype halide_type_code_t =
    halide_type_int
  | halide_type_uint
  | halide_type_float
  | halide_type_handle

datatype CPPTypeType = Simple | Struct | Class | Union | Enum

record halide_cplusplus_type_name =
  cpp_type_type :: CPPTypeType
  cpp_name :: string

datatype ReferenceType = NotReference | LValueReference | RValueReference

text \<open>
  The eight modifier bytes of a handle type, filled with zeros: more than eight levels of
  indirection are rejected.
\<close>

definition CPPTypeModifiers :: "nat list \<Rightarrow> nat list result" where
  "CPPTypeModifiers vals =
     rbind (user_assert (length vals \<le> 8) ''Too many levels of indirection in handle type'')
       (\<lambda>_. Inr (vals @ replicate (8 - length vals) 0))"

record halide_handle_cplusplus_type =
  inner_name :: halide_cplusplus_type_name
  namespaces :: "string list"
  enclosing_types :: "halide_cplusplus_type_name list"
  cpp_type_modifiers :: "nat list"
  reference_type :: ReferenceType

text \<open>
  \<open>halide_handle_traits<void*>::type_info()\<close>, which stands for the null pointer
  when handle types are compared: \<open>Pointer\<close> is bit 3 of the modifiers.
\<close>

definition void_pointer_type_info :: halide_handle_cplusplus_type where
  "void_pointer_type_info =
     \<lparr>inner_name = \<lparr>cpp_type_type = Simple, cpp_name = ''void''\<rparr>,
      namespaces = [], enclosing_types = [],
      cpp_type_modifiers = [8, 0, 0, 0, 0, 0, 0, 0],
      reference_type = NotReference\<rparr>"

subsection \<open>Type\<close>

record Type =
  code :: halide_type_code_t
  bits :: nat
  lanes :: nat
  handle_type :: "halide_handle_cplusplus_type option"

text \<open>
  The constructor narrows: \<open>bits\<close> is a \<open>uint8_t\<close> and \<open>lanes\<close> is
  cast to \<open>uint16_t\<close>.
\<close>

definition mk_Type ::
  "halide_type_code_t \<Rightarrow> nat \<Rightarrow> int \<Rightarrow> halide_handle_cplusplus_type option \<Rightarrow> Type" where
  "mk_Type c b l h =
     \<lparr>code = c, bits = b mod 2 ^ 8, lanes = nat (l mod 2 ^ 16), handle_type = h\<rparr>"

definition bytes :: "Type \<Rightarrow> nat" where
  "bytes t = (bits t + 7) div 8"

definition with_code :: "halide_type_code_t \<Rightarrow> Type \<Rightarrow> Type" where
  "with_code new_code t = mk_Type new_code (bits t) (int (lanes t)) None"

definition with_bits :: "nat \<Rightarrow> Type \<Rightarrow> Type" where
  "with_bits new_bits t = mk_Type (code t) new_bits (int (lanes t)) None"

definition with_lanes :: "int \<Rightarrow> Type \<Rightarrow> Type" where
  "with_lanes new_lanes t = mk_Type (code t) (bits t) new_lanes None"

definition element_of :: "Type \<Rightarrow> Type" where
  "element_of t = mk_Type (code t) (bits t) 1 None"

definition is_bool :: "Type \<Rightarrow> bool" where
  "is_bool t \<longleftrightarrow> code t = halide_type_uint \<and> bits t = 1"

definition is_vector :: "Type \<Rightarrow> bool" where
  "is_vector t \<longleftrightarrow> lanes t \<noteq> 1"

definition is_scalar :: "Type \<Rightarrow> bool" where
  "is_scalar t \<longleftrightarrow> lanes t = 1"

definition is_float :: "Type \<Rightarrow> bool" where
  "is_float t \<longleftrightarrow> code t = halide_type_float"

definition is_int :: "Type \<Rightarrow> bool" where
  "is_int t \<longleftrightarrow> code t = halide_type_int"

definition is_uint :: "Type \<Rightarrow> bool" where
  "is_uint t \<longleftrightarrow> code t = halide_type_uint"

definition is_handle :: "Type \<Rightarrow> bool" where
  "is_handle t \<longleftrightarrow> code t = halide_type_handle"

lemmas type_predicates = is_bool_def is_vector_def is_scalar_def is_float_def is_int_def
  is_uint_def is_handle_def

definition same_handle_type :: "Type \<Rightarrow> Type \<Rightarrow> bool" where
  "same_handle_type t other =
     (let first = (case handle_type t of None \<Rightarrow> void_pointer_type_info | Some h \<Rightarrow> h);
          second = (case handle_type other of None \<Rightarrow> void_pointer_type_info | Some h \<Rightarrow> h) in
      if handle_type t = handle_type other then True
      else inner_name first = inner_name second \<and>
        namespaces first = namespaces second \<and>
        enclosing_types first = enclosing_types second \<and>
        cpp_type_modifiers first = cpp_type_modifiers second \<and>
        reference_type first = reference_type second)"

text \<open>\<open>Type::operator==\<close> and \<open>Type::operator!=\<close>.\<close>

definition type_eq :: "Type \<Rightarrow> Type \<Rightarrow> bool" where
  "type_eq t other \<longleftrightarrow>
     code t = code other \<and> bits t = bits other \<and> lanes t = lanes other \<and>
     (code t \<noteq> halide_type_handle \<or> same_handle_type t other)"

definition type_neq :: "Type \<Rightarrow> Type \<Rightarrow> bool" where
  "type_neq t other \<longleftrightarrow>
     code t \<noteq> code other \<or> bits t \<noteq> bits other \<or> lanes t \<noteq> lanes other \<or>
     (code t = halide_type_handle \<and> \<not> same_handle_type t other)"

definition Int_t :: "nat \<Rightarrow> int \<Rightarrow> Type" where
  "Int_t b l = mk_Type halide_type_int b l None"

definition UInt_t :: "nat \<Rightarrow> int \<Rightarrow> Type" where
  "UInt_t b l = mk_Type halide_type_uint b l None"

definition Float_t :: "nat \<Rightarrow> int \<Rightarrow> Type" where
  "Float_t b l = mk_Type halide_type_float b l None"

definition Bool_t :: "int \<Rightarrow> Type" where
  "Bool_t l = UInt_t 1 l"

definition Handle_t :: "int \<Rightarrow> halide_handle_cplusplus_type option \<Rightarrow> Type" where
  "Handle_t l h = mk_Type halide_type_handle 64 l h"

subsection \<open>Ranges\<close>

text \<open>
  The shifts of \<open>max_uint\<close>, \<open>max_int\<close> and \<open>min_int\<close> are defined in
  C++ for widths from 1 to 64, the only ones an integer type of the language has.
\<close>

definition max_uint :: "nat \<Rightarrow> int" where
  "max_uint b = drop_bit (64 - b) 0xffffffffffffffff"

definition max_int :: "nat \<Rightarrow> int" where
  "max_int b = drop_bit (64 - b) 0x7fffffffffffffff"

definition min_int :: "nat \<Rightarrow> int" where
  "min_int b = - max_int b - 1"

definition is_max_uint64 :: "Type \<Rightarrow> int \<Rightarrow> bool" where
  "is_max_uint64 t x =
     (if is_int t then x = max_int (bits t)
      else if is_uint t then x = max_uint (bits t)
      else False)"

definition is_max_int64 :: "Type \<Rightarrow> int \<Rightarrow> bool" where
  "is_max_int64 t x \<longleftrightarrow> x > 0 \<and> is_max_uint64 t x"

definition is_min_int64 :: "Type \<Rightarrow> int \<Rightarrow> bool" where
  "is_min_int64 t x =
     (if is_int t then x = min_int (bits t)
      else if is_uint t then x = 0
      else False)"

definition is_min_uint64 :: "Type \<Rightarrow> int \<Rightarrow> bool" where
  "is_min_uint64 t x \<longleftrightarrow> False"

definition can_represent_type :: "Type \<Rightarrow> Type \<Rightarrow> bool" where
  "can_represent_type t other =
     (if lanes t \<noteq> lanes other then False
      else if is_int t then
        (is_int other \<and> bits other \<le> bits t) \<or> (is_uint other \<and> bits other < bits t)
      else if is_uint t then is_uint other \<and> bits other \<le> bits t
      else if is_float t then
        (is_float other \<and> bits other \<le> bits t) \<or>
        (bits t = 64 \<and> bits other \<le> 32) \<or>
        (bits t = 32 \<and> bits other \<le> 16)
      else False)"

text \<open>
  The integer \<open>x\<close> survives the round trip through a floating point type when
  rounding it to the precision of the type does not change it. Through
  \<open>float16_t\<close>, an \<open>x\<close> beyond its range is a user error.
\<close>

definition int_via_float :: "int \<Rightarrow> int \<Rightarrow> int" where
  "int_via_float p x =
     (let (m, q) = round_fp p 0 \<bar>x\<bar> 0 in sgn x * m * 2 ^ nat q)"

definition int_via_float16 :: "int \<Rightarrow> int result" where
  "int_via_float16 x =
     (let y = int_via_float 11 (int_via_float 24 x) in
      if 2 ^ 16 \<le> \<bar>y\<bar> then Inl (User_error ''Converting to float16_t results in overflow'')
      else Inr y)"

definition can_represent_int64 :: "Type \<Rightarrow> int \<Rightarrow> bool result" where
  "can_represent_int64 t x =
     (if is_int t then Inr (min_int (bits t) \<le> x \<and> x \<le> max_int (bits t))
      else if is_uint t then Inr (0 \<le> x \<and> x \<le> max_uint (bits t))
      else if is_float t then
        (if bits t = 16 then rbind (int_via_float16 x) (\<lambda>y. Inr (y = x))
         else if bits t = 32 then Inr (int_via_float 24 x = x)
         else if bits t = 64 then Inr (int_via_float 53 x = x)
         else Inr False)
      else Inr False)"

definition can_represent_uint64 :: "Type \<Rightarrow> int \<Rightarrow> bool result" where
  "can_represent_uint64 t x =
     (if is_int t then Inr (x \<le> max_int (bits t))
      else if is_uint t then Inr (x \<le> max_uint (bits t))
      else if is_float t then
        (if bits t = 16 then rbind (int_via_float16 x) (\<lambda>y. Inr (y = x))
         else if bits t = 32 then Inr (int_via_float 24 x = x)
         else if bits t = 64 then Inr (int_via_float 53 x = x)
         else Inr False)
      else Inr False)"

text \<open>
  The cast \<open>int64_t i = x\<close> of a value that does not fit is only compared after the
  range tests failed, so it is the truncation where there is one.
\<close>

definition can_represent_double :: "Type \<Rightarrow> double \<Rightarrow> bool result" where
  "can_represent_double t x =
     (if is_int t then
        Inr (dbl_le (dbl_of_int (min_int (bits t))) x \<and> dbl_le x (dbl_of_int (max_int (bits t))) \<and>
             (case dbl_trunc x of None \<Rightarrow> False | Some i \<Rightarrow> dbl_eq x (dbl_of_int i)))
      else if is_uint t then
        Inr (dbl_le (dbl_of_int 0) x \<and> dbl_le x (dbl_of_int (max_uint (bits t))) \<and>
             (case dbl_trunc x of None \<Rightarrow> False | Some i \<Rightarrow> dbl_eq x (dbl_of_int i)))
      else if is_float t then
        (if bits t = 16 then rbind (dbl_to_float16 x) (\<lambda>y. Inr (dbl_eq y x))
         else if bits t = 32 then Inr (dbl_eq (dbl_to_float x) x)
         else if bits t = 64 then Inr True
         else Inr False)
      else Inr False)"

end
