(* ===== verification/IR.thy ===== *)
theory IR
  imports HalideType
begin

text \<open>
  The intermediate representation: the nodes of \<open>src/Expr.h\<close> and
  \<open>src/IR.h\<close>, their constructors (the static \<open>make\<close> functions of
  \<open>src/Expr.h\<close> and \<open>src/IR.cpp\<close>) with every assertion, the type each
  node gets, and \<open>Type::max\<close> and \<open>Type::min\<close> of
  \<open>src/Type.cpp\<close>.

  An \<open>Expr\<close> or \<open>Stmt\<close> handle that may be undefined is an
  \<open>option\<close>; the children that \<open>make\<close> requires to be defined are plain.
  IR nodes are immutable and compared by value here: the pointer comparison
  \<open>same_as\<close> is only used by the code as a shortcut for equality. The fifteen binary
  node classes \<open>Add\<close> to \<open>Or\<close> have the same fields \<open>a\<close> and \<open>b\<close>
  and are treated by one template in every visitor; they are the constructor
  \<open>Binary\<close> with the class as its first argument.
\<close>

unbundle bit_operations_syntax

subsection \<open>Node types\<close>

datatype IRNodeType =
    NT_IntImm | NT_UIntImm | NT_FloatImm | NT_StringImm | NT_Cast | NT_Variable
  | NT_Add | NT_Sub | NT_Mul | NT_Div | NT_Mod | NT_Min | NT_Max
  | NT_EQ | NT_NE | NT_LT | NT_LE | NT_GT | NT_GE | NT_And | NT_Or | NT_Not
  | NT_Select | NT_Load | NT_Ramp | NT_Broadcast | NT_Call | NT_Let
  | NT_LetStmt | NT_AssertStmt | NT_ProducerConsumer | NT_For | NT_Store | NT_Provide
  | NT_Allocate | NT_Free | NT_Realize | NT_Block | NT_IfThenElse | NT_Evaluate

text \<open>The handles a node only holds on to, by the identity of what they refer to.\<close>

type_synonym Buffer = "nat option"
type_synonym Parameter = "nat option"
type_synonym ReductionDomain = "nat option"
type_synonym FunctionContents = "nat option"

datatype CallType =
    Image | Extern | ExternCPlusPlus | PureExtern | Halide | Intrinsic | PureIntrinsic

datatype ForType = Serial | Parallel | Vectorized | Unrolled

datatype DeviceAPI =
    DeviceNone | Host | Default_GPU | CUDA | OpenCL | GLSL | Renderscript | OpenGLCompute
  | Metal | Hexagon

datatype binop =
    AddOp | SubOp | MulOp | DivOp | ModOp | MinOp | MaxOp
  | EQOp | NEOp | LTOp | LEOp | GTOp | GEOp | AndOp | OrOp

subsection \<open>Expressions\<close>

datatype expr =
    IntImm Type int
  | UIntImm Type int
  | FloatImm Type double
  | StringImm string
  | Cast Type expr
  | Variable Type string Buffer Parameter ReductionDomain
  | Binary binop expr expr
  | NotE expr
  | Select expr expr expr
  | Load Type string expr Buffer Parameter
  | Ramp expr expr int
  | Broadcast expr int
  | Call Type string "expr list" CallType FunctionContents int Buffer Parameter
  | LetE string expr expr

type_synonym Expr = "expr option"

abbreviation Add :: "expr \<Rightarrow> expr \<Rightarrow> expr" where "Add \<equiv> Binary AddOp"
abbreviation Sub :: "expr \<Rightarrow> expr \<Rightarrow> expr" where "Sub \<equiv> Binary SubOp"
abbreviation Mul :: "expr \<Rightarrow> expr \<Rightarrow> expr" where "Mul \<equiv> Binary MulOp"
abbreviation Div :: "expr \<Rightarrow> expr \<Rightarrow> expr" where "Div \<equiv> Binary DivOp"
abbreviation Mod :: "expr \<Rightarrow> expr \<Rightarrow> expr" where "Mod \<equiv> Binary ModOp"
abbreviation MinE :: "expr \<Rightarrow> expr \<Rightarrow> expr" where "MinE \<equiv> Binary MinOp"
abbreviation MaxE :: "expr \<Rightarrow> expr \<Rightarrow> expr" where "MaxE \<equiv> Binary MaxOp"
abbreviation EQ :: "expr \<Rightarrow> expr \<Rightarrow> expr" where "EQ \<equiv> Binary EQOp"
abbreviation NE :: "expr \<Rightarrow> expr \<Rightarrow> expr" where "NE \<equiv> Binary NEOp"
abbreviation LT :: "expr \<Rightarrow> expr \<Rightarrow> expr" where "LT \<equiv> Binary LTOp"
abbreviation LE :: "expr \<Rightarrow> expr \<Rightarrow> expr" where "LE \<equiv> Binary LEOp"
abbreviation GT :: "expr \<Rightarrow> expr \<Rightarrow> expr" where "GT \<equiv> Binary GTOp"
abbreviation GE :: "expr \<Rightarrow> expr \<Rightarrow> expr" where "GE \<equiv> Binary GEOp"
abbreviation AndE :: "expr \<Rightarrow> expr \<Rightarrow> expr" where "AndE \<equiv> Binary AndOp"
abbreviation OrE :: "expr \<Rightarrow> expr \<Rightarrow> expr" where "OrE \<equiv> Binary OrOp"

fun binop_info :: "binop \<Rightarrow> IRNodeType" where
  "binop_info AddOp = NT_Add"
| "binop_info SubOp = NT_Sub"
| "binop_info MulOp = NT_Mul"
| "binop_info DivOp = NT_Div"
| "binop_info ModOp = NT_Mod"
| "binop_info MinOp = NT_Min"
| "binop_info MaxOp = NT_Max"
| "binop_info EQOp = NT_EQ"
| "binop_info NEOp = NT_NE"
| "binop_info LTOp = NT_LT"
| "binop_info LEOp = NT_LE"
| "binop_info GTOp = NT_GT"
| "binop_info GEOp = NT_GE"
| "binop_info AndOp = NT_And"
| "binop_info OrOp = NT_Or"

fun expr_type_info :: "expr \<Rightarrow> IRNodeType" where
  "expr_type_info (IntImm t v) = NT_IntImm"
| "expr_type_info (UIntImm t v) = NT_UIntImm"
| "expr_type_info (FloatImm t v) = NT_FloatImm"
| "expr_type_info (StringImm s) = NT_StringImm"
| "expr_type_info (Cast t v) = NT_Cast"
| "expr_type_info (Variable t n i p r) = NT_Variable"
| "expr_type_info (Binary op a b) = binop_info op"
| "expr_type_info (NotE a) = NT_Not"
| "expr_type_info (Select c t f) = NT_Select"
| "expr_type_info (Load t n i im p) = NT_Load"
| "expr_type_info (Ramp b s n) = NT_Ramp"
| "expr_type_info (Broadcast v n) = NT_Broadcast"
| "expr_type_info (Call t n args ct f vi im p) = NT_Call"
| "expr_type_info (LetE n v b) = NT_Let"

text \<open>
  The type of a node, as the \<open>make\<close> functions set it. A string constant has the
  type of \<open>const char *\<close>, whose descriptor is a constant of
  \<open>src/Type.h\<close>.
\<close>

definition const_char_pointer_type_info :: halide_handle_cplusplus_type where
  "const_char_pointer_type_info =
     \<lparr>inner_name = \<lparr>cpp_type_type = Simple, cpp_name = ''char''\<rparr>,
      namespaces = [], enclosing_types = [],
      cpp_type_modifiers = [9, 0, 0, 0, 0, 0, 0, 0],
      reference_type = NotReference\<rparr>"

definition is_comparison :: "binop \<Rightarrow> bool" where
  "is_comparison op \<longleftrightarrow> op \<in> {EQOp, NEOp, LTOp, LEOp, GTOp, GEOp}"

definition is_logical :: "binop \<Rightarrow> bool" where
  "is_logical op \<longleftrightarrow> op \<in> {AndOp, OrOp}"

definition is_arith :: "binop \<Rightarrow> bool" where
  "is_arith op \<longleftrightarrow> op \<in> {AddOp, SubOp, MulOp, DivOp, ModOp, MinOp, MaxOp}"

fun type_of :: "expr \<Rightarrow> Type" where
  "type_of (IntImm t v) = t"
| "type_of (UIntImm t v) = t"
| "type_of (FloatImm t v) = t"
| "type_of (StringImm s) = Handle_t 1 (Some const_char_pointer_type_info)"
| "type_of (Cast t v) = t"
| "type_of (Variable t n i p r) = t"
| "type_of (Binary op a b) =
     (if is_arith op then type_of a else Bool_t (int (lanes (type_of a))))"
| "type_of (NotE a) = Bool_t (int (lanes (type_of a)))"
| "type_of (Select c t f) = type_of t"
| "type_of (Load t n i im p) = t"
| "type_of (Ramp b s n) = with_lanes n (type_of b)"
| "type_of (Broadcast v n) = with_lanes n (type_of v)"
| "type_of (Call t n args ct f vi im p) = t"
| "type_of (LetE n v b) = type_of b"

subsection \<open>Constants\<close>

text \<open>
  \<open>IntImm::make\<close> keeps the low bits of the value and extends their sign, by shifts of
  a 64-bit integer; \<open>UIntImm::make\<close> extends with zeros.
\<close>

definition norm_int :: "nat \<Rightarrow> int \<Rightarrow> int" where
  "norm_int b v = sint (signed_drop_bit (64 - b) (push_bit (64 - b) (word_of_int v :: 64 word)))"

definition norm_uint :: "nat \<Rightarrow> int \<Rightarrow> int" where
  "norm_uint b v = uint (drop_bit (64 - b) (push_bit (64 - b) (word_of_int v :: 64 word)))"

definition IntImm_make :: "Type \<Rightarrow> int \<Rightarrow> expr result" where
  "IntImm_make t v =
     rbind (internal_assert (is_int t \<and> is_scalar t) ''IntImm must be a scalar Int'') (\<lambda>_.
     rbind (internal_assert (bits t \<in> {8, 16, 32, 64}) ''IntImm must be 8, 16, 32, or 64-bit'') (\<lambda>_.
     Inr (IntImm t (norm_int (bits t) v))))"

definition UIntImm_make :: "Type \<Rightarrow> int \<Rightarrow> expr result" where
  "UIntImm_make t v =
     rbind (internal_assert (is_uint t \<and> is_scalar t) ''UIntImm must be a scalar UInt'') (\<lambda>_.
     rbind (internal_assert (bits t \<in> {1, 8, 16, 32, 64}) ''UIntImm must be 1, 8, 16, 32, or 64-bit'') (\<lambda>_.
     Inr (UIntImm t (norm_uint (bits t) v))))"

definition FloatImm_make :: "Type \<Rightarrow> double \<Rightarrow> expr result" where
  "FloatImm_make t v =
     rbind (internal_assert (is_float t \<and> is_scalar t) ''FloatImm must be a scalar Float'') (\<lambda>_.
     if bits t = 16 then rbind (dbl_to_float16 v) (\<lambda>h. Inr (FloatImm t h))
     else if bits t = 32 then Inr (FloatImm t (dbl_to_float v))
     else if bits t = 64 then Inr (FloatImm t v)
     else Inl (Internal_error ''FloatImm must be 16, 32, or 64-bit''))"

definition StringImm_make :: "string \<Rightarrow> expr" where
  "StringImm_make s = StringImm s"

subsection \<open>The constructors of expressions\<close>

fun binop_name :: "binop \<Rightarrow> string" where
  "binop_name AddOp = ''Add''"
| "binop_name SubOp = ''Sub''"
| "binop_name MulOp = ''Mul''"
| "binop_name DivOp = ''Div''"
| "binop_name ModOp = ''Mod''"
| "binop_name MinOp = ''Min''"
| "binop_name MaxOp = ''Max''"
| "binop_name EQOp = ''EQ''"
| "binop_name NEOp = ''NE''"
| "binop_name LTOp = ''LT''"
| "binop_name LEOp = ''LE''"
| "binop_name GTOp = ''GT''"
| "binop_name GEOp = ''GE''"
| "binop_name AndOp = ''And''"
| "binop_name OrOp = ''Or''"

definition defined_handle :: "'a option \<Rightarrow> string \<Rightarrow> 'a result" where
  "defined_handle h msg = (case h of None \<Rightarrow> Inl (Internal_error msg) | Some x \<Rightarrow> Inr x)"

definition Cast_make :: "Type \<Rightarrow> Expr \<Rightarrow> expr result" where
  "Cast_make t v =
     rbind (defined_handle v ''Cast of undefined'') (\<lambda>v.
     rbind (internal_assert (lanes t = lanes (type_of v)) ''Cast may not change vector widths'') (\<lambda>_.
     Inr (Cast t v)))"

definition binary_make :: "binop \<Rightarrow> Expr \<Rightarrow> Expr \<Rightarrow> expr result" where
  "binary_make op a b =
     rbind (defined_handle a (binop_name op @ '' of undefined'')) (\<lambda>a.
     rbind (defined_handle b (binop_name op @ '' of undefined'')) (\<lambda>b.
     rbind (internal_assert (is_logical op \<longrightarrow> is_bool (type_of a))
              (''lhs of '' @ binop_name op @ '' is not a bool'')) (\<lambda>_.
     rbind (internal_assert (is_logical op \<longrightarrow> is_bool (type_of b))
              (''rhs of '' @ binop_name op @ '' is not a bool'')) (\<lambda>_.
     rbind (internal_assert (type_eq (type_of a) (type_of b))
              (binop_name op @ '' of mismatched types'')) (\<lambda>_.
     Inr (Binary op a b))))))"

definition Not_make :: "Expr \<Rightarrow> expr result" where
  "Not_make a =
     rbind (defined_handle a ''Not of undefined'') (\<lambda>a.
     rbind (internal_assert (is_bool (type_of a)) ''argument of Not is not a bool'') (\<lambda>_.
     Inr (NotE a)))"

definition Select_make :: "Expr \<Rightarrow> Expr \<Rightarrow> Expr \<Rightarrow> expr result" where
  "Select_make c t f =
     rbind (defined_handle c ''Select of undefined'') (\<lambda>c.
     rbind (defined_handle t ''Select of undefined'') (\<lambda>t.
     rbind (defined_handle f ''Select of undefined'') (\<lambda>f.
     rbind (internal_assert (is_bool (type_of c)) ''First argument to Select is not a bool'') (\<lambda>_.
     rbind (internal_assert (type_eq (type_of f) (type_of t)) ''Select of mismatched types'') (\<lambda>_.
     rbind (internal_assert (is_scalar (type_of c) \<or> lanes (type_of c) = lanes (type_of t))
       ''In Select, vector lanes of condition must either be 1, or equal to vector lanes of arguments'') (\<lambda>_.
     Inr (Select c t f)))))))"

definition Load_make :: "Type \<Rightarrow> string \<Rightarrow> Expr \<Rightarrow> Buffer \<Rightarrow> Parameter \<Rightarrow> expr result" where
  "Load_make t n index im p =
     rbind (defined_handle index ''Load of undefined'') (\<lambda>index.
     rbind (internal_assert (lanes t = lanes (type_of index))
       ''Vector lanes of Load must match vector lanes of index'') (\<lambda>_.
     Inr (Load t n index im p)))"

definition Ramp_make :: "Expr \<Rightarrow> Expr \<Rightarrow> int \<Rightarrow> expr result" where
  "Ramp_make base stride n =
     rbind (defined_handle base ''Ramp of undefined'') (\<lambda>base.
     rbind (defined_handle stride ''Ramp of undefined'') (\<lambda>stride.
     rbind (internal_assert (is_scalar (type_of base)) ''Ramp with vector base'') (\<lambda>_.
     rbind (internal_assert (is_scalar (type_of stride)) ''Ramp with vector stride'') (\<lambda>_.
     rbind (internal_assert (n > 1) ''Ramp of lanes <= 1'') (\<lambda>_.
     rbind (internal_assert (type_eq (type_of stride) (type_of base)) ''Ramp of mismatched types'') (\<lambda>_.
     Inr (Ramp base stride n)))))))"

definition Broadcast_make :: "Expr \<Rightarrow> int \<Rightarrow> expr result" where
  "Broadcast_make v n =
     rbind (defined_handle v ''Broadcast of undefined'') (\<lambda>v.
     rbind (internal_assert (is_scalar (type_of v)) ''Broadcast of vector'') (\<lambda>_.
     rbind (internal_assert (n \<noteq> 1) ''Broadcast of lanes 1'') (\<lambda>_.
     Inr (Broadcast v n))))"

definition Let_make :: "string \<Rightarrow> Expr \<Rightarrow> Expr \<Rightarrow> expr result" where
  "Let_make n v b =
     rbind (defined_handle v ''Let of undefined'') (\<lambda>v.
     rbind (defined_handle b ''Let of undefined'') (\<lambda>b.
     Inr (LetE n v b)))"

definition Variable_make ::
  "Type \<Rightarrow> string \<Rightarrow> Buffer \<Rightarrow> Parameter \<Rightarrow> ReductionDomain \<Rightarrow> expr result" where
  "Variable_make t n im p rd =
     rbind (internal_assert (n \<noteq> []) []) (\<lambda>_. Inr (Variable t n im p rd))"

definition Call_make ::
  "Type \<Rightarrow> string \<Rightarrow> Expr list \<Rightarrow> CallType \<Rightarrow> FunctionContents \<Rightarrow> int \<Rightarrow> Buffer \<Rightarrow> Parameter \<Rightarrow>
   expr result" where
  "Call_make t n args ct f vi im p =
     rbind (rmap (\<lambda>a. defined_handle a ''Call of undefined'') args) (\<lambda>args.
     rbind (if ct = Halide then
              internal_assert (\<forall>a \<in> set args. type_eq (type_of a) (Int_t 32 1))
                ''Args to call to halide function must be type Int(32)''
            else if ct = Image then
              rbind (internal_assert (p \<noteq> None \<or> im \<noteq> None) ''Call node to undefined image'') (\<lambda>_.
              internal_assert (\<forall>a \<in> set args. type_eq (type_of a) (Int_t 32 1))
                ''Args to load from image must be type Int(32)'')
            else Inr ()) (\<lambda>_.
     Inr (Call t n args ct f vi im p)))"

text \<open>\<open>Call::is_pure\<close> and \<open>Call::is_intrinsic\<close>.\<close>

definition call_is_pure :: "CallType \<Rightarrow> bool" where
  "call_is_pure ct \<longleftrightarrow> ct = PureExtern \<or> ct = Image \<or> ct = PureIntrinsic"

definition call_is_intrinsic :: "CallType \<Rightarrow> string \<Rightarrow> string \<Rightarrow> bool" where
  "call_is_intrinsic ct n intrin_name \<longleftrightarrow> (ct = Intrinsic \<or> ct = PureIntrinsic) \<and> n = intrin_name"

subsection \<open>Statements\<close>

datatype Range = Range (range_min: expr) (range_extent: expr)

definition Range_make :: "expr \<Rightarrow> expr \<Rightarrow> Range result" where
  "Range_make mn ext =
     rbind (internal_assert (type_eq (type_of mn) (type_of ext))
       ''Region min and extent must have same type'') (\<lambda>_. Inr (Range mn ext))"

datatype stmt =
    LetStmt string expr stmt
  | AssertStmt expr expr
  | ProducerConsumer string stmt "stmt option" stmt
  | For string expr expr ForType DeviceAPI stmt
  | Store string expr expr Parameter
  | Provide string "expr list" "expr list"
  | Allocate string Type "expr list" expr "expr option" string stmt
  | Free string
  | Realize string "Type list" "Range list" expr stmt
  | Block stmt stmt
  | IfThenElse expr stmt "stmt option"
  | Evaluate expr

type_synonym Stmt = "stmt option"

fun stmt_type_info :: "stmt \<Rightarrow> IRNodeType" where
  "stmt_type_info (LetStmt n v b) = NT_LetStmt"
| "stmt_type_info (AssertStmt c m) = NT_AssertStmt"
| "stmt_type_info (ProducerConsumer n p u c) = NT_ProducerConsumer"
| "stmt_type_info (For n mn ex ft d b) = NT_For"
| "stmt_type_info (Store n v i p) = NT_Store"
| "stmt_type_info (Provide n vs args) = NT_Provide"
| "stmt_type_info (Allocate n t exts c ne ff b) = NT_Allocate"
| "stmt_type_info (Free n) = NT_Free"
| "stmt_type_info (Realize n ts bs c b) = NT_Realize"
| "stmt_type_info (Block f r) = NT_Block"
| "stmt_type_info (IfThenElse c t e) = NT_IfThenElse"
| "stmt_type_info (Evaluate v) = NT_Evaluate"

definition LetStmt_make :: "string \<Rightarrow> Expr \<Rightarrow> Stmt \<Rightarrow> stmt result" where
  "LetStmt_make n v b =
     rbind (defined_handle v ''Let of undefined'') (\<lambda>v.
     rbind (defined_handle b ''Let of undefined'') (\<lambda>b.
     Inr (LetStmt n v b)))"

definition AssertStmt_make :: "Expr \<Rightarrow> expr \<Rightarrow> stmt result" where
  "AssertStmt_make c m =
     rbind (defined_handle c ''AssertStmt of undefined'') (\<lambda>c.
     rbind (internal_assert (type_eq (type_of m) (Int_t 32 1)) ''AssertStmt message must be an int'') (\<lambda>_.
     Inr (AssertStmt c m)))"

definition ProducerConsumer_make :: "string \<Rightarrow> Stmt \<Rightarrow> Stmt \<Rightarrow> Stmt \<Rightarrow> stmt result" where
  "ProducerConsumer_make n p u c =
     rbind (defined_handle p ''ProducerConsumer of undefined'') (\<lambda>p.
     rbind (defined_handle c ''ProducerConsumer of undefined'') (\<lambda>c.
     Inr (ProducerConsumer n p u c)))"

definition For_make ::
  "string \<Rightarrow> Expr \<Rightarrow> Expr \<Rightarrow> ForType \<Rightarrow> DeviceAPI \<Rightarrow> Stmt \<Rightarrow> stmt result" where
  "For_make n mn ex ft d b =
     rbind (defined_handle mn ''For of undefined'') (\<lambda>mn.
     rbind (defined_handle ex ''For of undefined'') (\<lambda>ex.
     rbind (internal_assert (is_scalar (type_of mn)) ''For with vector min'') (\<lambda>_.
     rbind (internal_assert (is_scalar (type_of ex)) ''For with vector extent'') (\<lambda>_.
     rbind (defined_handle b ''For of undefined'') (\<lambda>b.
     Inr (For n mn ex ft d b))))))"

definition Store_make :: "string \<Rightarrow> Expr \<Rightarrow> Expr \<Rightarrow> Parameter \<Rightarrow> stmt result" where
  "Store_make n v i p =
     rbind (defined_handle v ''Store of undefined'') (\<lambda>v.
     rbind (defined_handle i ''Store of undefined'') (\<lambda>i.
     Inr (Store n v i p)))"

definition Provide_make :: "string \<Rightarrow> Expr list \<Rightarrow> Expr list \<Rightarrow> stmt result" where
  "Provide_make n vs args =
     rbind (internal_assert (vs \<noteq> []) ''Provide of no values'') (\<lambda>_.
     rbind (rmap (\<lambda>v. defined_handle v ''Provide of undefined value'') vs) (\<lambda>vs.
     rbind (rmap (\<lambda>a. defined_handle a ''Provide to undefined location'') args) (\<lambda>args.
     Inr (Provide n vs args))))"

definition Allocate_make ::
  "string \<Rightarrow> Type \<Rightarrow> Expr list \<Rightarrow> Expr \<Rightarrow> Stmt \<Rightarrow> Expr \<Rightarrow> string \<Rightarrow> stmt result" where
  "Allocate_make n t exts c b new_expr free_function =
     rbind (rmap (\<lambda>e. rbind (defined_handle e ''Allocate of undefined extent'') (\<lambda>e.
       rbind (internal_assert (is_scalar (type_of e)) ''Allocate of vector extent'') (\<lambda>_. Inr e))) exts) (\<lambda>exts.
     rbind (defined_handle b ''Allocate of undefined'') (\<lambda>b.
     rbind (defined_handle c ''Allocate with undefined condition'') (\<lambda>c.
     rbind (internal_assert (is_bool (type_of c)) ''Allocate condition is not boolean'') (\<lambda>_.
     Inr (Allocate n t exts c new_expr free_function b)))))"

definition Free_make :: "string \<Rightarrow> stmt" where
  "Free_make n = Free n"

definition Realize_make ::
  "string \<Rightarrow> Type list \<Rightarrow> Range list \<Rightarrow> Expr \<Rightarrow> Stmt \<Rightarrow> stmt result" where
  "Realize_make n ts bs c b =
     rbind (rmap (\<lambda>r.
       rbind (internal_assert (is_scalar (type_of (range_min r))) ''Realize of vector size'') (\<lambda>_.
       rbind (internal_assert (is_scalar (type_of (range_extent r))) ''Realize of vector size'') (\<lambda>_.
       Inr r))) bs) (\<lambda>bs.
     rbind (defined_handle b ''Realize of undefined'') (\<lambda>b.
     rbind (internal_assert (ts \<noteq> []) ''Realize has empty type'') (\<lambda>_.
     rbind (defined_handle c ''Realize with undefined condition'') (\<lambda>c.
     rbind (internal_assert (is_bool (type_of c)) ''Realize condition is not boolean'') (\<lambda>_.
     Inr (Realize n ts bs c b))))))"

text \<open>
  \<open>Block::make\<close> nests to the right: a block in first position is taken apart. The
  recursive call passes the \<open>rest\<close> of a block, which is always defined.
\<close>

fun block_append :: "stmt \<Rightarrow> stmt \<Rightarrow> stmt" where
  "block_append (Block f r) rest = Block f (block_append r rest)"
| "block_append first rest = Block first rest"

definition Block_make :: "Stmt \<Rightarrow> Stmt \<Rightarrow> stmt result" where
  "Block_make first rest =
     rbind (defined_handle first ''Block of undefined'') (\<lambda>first.
     rbind (defined_handle rest ''Block of undefined'') (\<lambda>rest.
     Inr (block_append first rest)))"

text \<open>The loop of \<open>Block::make(stmts)\<close> goes from the last statement to the first.\<close>

fun block_loop :: "Stmt list \<Rightarrow> Stmt \<Rightarrow> Stmt result" where
  "block_loop [] acc = Inr acc"
| "block_loop (s # rev_stmts) acc =
     rbind (Block_make s acc) (\<lambda>b. block_loop rev_stmts (Some b))"

definition Block_make_list :: "Stmt list \<Rightarrow> Stmt result" where
  "Block_make_list stmts =
     (if stmts = [] then Inr None else block_loop (tl (rev stmts)) (last stmts))"

definition IfThenElse_make :: "Expr \<Rightarrow> Stmt \<Rightarrow> Stmt \<Rightarrow> stmt result" where
  "IfThenElse_make c t e =
     rbind (defined_handle c ''IfThenElse of undefined'') (\<lambda>c.
     rbind (defined_handle t ''IfThenElse of undefined'') (\<lambda>t.
     Inr (IfThenElse c t e)))"

definition Evaluate_make :: "Expr \<Rightarrow> stmt result" where
  "Evaluate_make v = rbind (defined_handle v ''Evaluate of undefined'') (\<lambda>v. Inr (Evaluate v))"

text \<open>
  \<open>Allocate::constant_allocation_size\<close>: the product of the extents in a 64-bit
  integer, 0 as soon as one extent is not a constant.
\<close>

fun const_alloc_loop :: "expr list \<Rightarrow> int \<Rightarrow> int result" where
  "const_alloc_loop [] acc = Inr (sint (word_of_int acc :: 32 word))"
| "const_alloc_loop (IntImm t v # exts) acc =
     (if \<not> in_int64 (acc * v) then Inl Undefined_behaviour
      else if acc * v > 2 ^ 31 - 1
      then Inl (User_error ''Total size for allocation is constant but exceeds 2^31 - 1.'')
      else const_alloc_loop exts (acc * v))"
| "const_alloc_loop (e # exts) acc = Inr 0"

definition constant_allocation_size :: "expr list \<Rightarrow> int result" where
  "constant_allocation_size exts = const_alloc_loop exts 1"

subsection \<open>The extreme values of a type\<close>

text \<open>\<open>FLT_MAX\<close> and \<open>DBL_MAX\<close> as bits of a \<open>double\<close>.\<close>

definition flt_max :: double where
  "flt_max = 0x47efffffe0000000"

definition dbl_max :: double where
  "dbl_max = 0x7fefffffffffffff"

definition dbl_negate :: "double \<Rightarrow> double" where
  "dbl_negate d = d XOR (2 ^ 63)"

definition type_max_scalar :: "Type \<Rightarrow> expr result" where
  "type_max_scalar t =
     (if is_int t then IntImm_make t (max_int (bits t))
      else if is_uint t then UIntImm_make t (max_uint (bits t))
      else rbind (internal_assert (is_float t) []) (\<lambda>_.
        if bits t = 16 then FloatImm_make t (dbl_of_int 65504)
        else if bits t = 32 then FloatImm_make t flt_max
        else if bits t = 64 then FloatImm_make t dbl_max
        else Inl (Internal_error ''Unknown float type'')))"

definition type_max :: "Type \<Rightarrow> expr result" where
  "type_max t =
     (if is_vector t
      then rbind (type_max_scalar (element_of t)) (\<lambda>e. Broadcast_make (Some e) (int (lanes t)))
      else type_max_scalar t)"

definition type_min_scalar :: "Type \<Rightarrow> expr result" where
  "type_min_scalar t =
     (if is_int t then IntImm_make t (min_int (bits t))
      else if is_uint t then UIntImm_make t 0
      else rbind (internal_assert (is_float t) []) (\<lambda>_.
        if bits t = 16 then FloatImm_make t (dbl_of_int (- 65504))
        else if bits t = 32 then FloatImm_make t (dbl_negate flt_max)
        else if bits t = 64 then FloatImm_make t (dbl_negate dbl_max)
        else Inl (Internal_error ''Unknown float type'')))"

definition type_min :: "Type \<Rightarrow> expr result" where
  "type_min t =
     (if is_vector t
      then rbind (type_min_scalar (element_of t)) (\<lambda>e. Broadcast_make (Some e) (int (lanes t)))
      else type_min_scalar t)"

subsection \<open>Properties\<close>

text \<open>The statements of a block in order, and the nesting that \<open>Block::make\<close> calls canonical.\<close>

fun block_stmts :: "stmt \<Rightarrow> stmt list" where
  "block_stmts (Block f r) = block_stmts f @ block_stmts r"
| "block_stmts s = [s]"

fun right_nested :: "stmt \<Rightarrow> bool" where
  "right_nested (Block f r) \<longleftrightarrow> stmt_type_info f \<noteq> NT_Block \<and> right_nested r"
| "right_nested s \<longleftrightarrow> True"

lemma block_append_stmts: "block_stmts (block_append f r) = block_stmts f @ block_stmts r"
  by (induction f r rule: block_append.induct) simp_all

lemma block_append_nested: "right_nested f \<Longrightarrow> right_nested r \<Longrightarrow> right_nested (block_append f r)"
  by (induction f r rule: block_append.induct) simp_all

lemma block_loop_stmts:
  "\<exists>b. block_loop (map Some ss) (Some s) = Inr (Some b) \<and>
     block_stmts b = concat (map block_stmts (rev ss)) @ block_stmts s \<and>
     ((\<forall>x \<in> set ss. right_nested x) \<and> right_nested s \<longrightarrow> right_nested b)"
proof (induction ss arbitrary: s)
  case Nil
  then show ?case by simp
next
  case (Cons x ss)
  from Cons.IH [of "block_append x s"] show ?case
    by (auto simp: Block_make_def defined_handle_def block_append_stmts block_append_nested)
qed

text \<open>\<open>Block::make\<close> of a list of statements that is not empty succeeds; the block has
  the statements of the list in order, nested to the right.\<close>

theorem Block_make_list_correct:
  assumes "ss \<noteq> []"
  shows "\<exists>b. Block_make_list (map Some ss) = Inr (Some b) \<and> block_stmts b = concat (map block_stmts ss) \<and>
    ((\<forall>x \<in> set ss. right_nested x) \<longrightarrow> right_nested b)"
proof -
  obtain ts s where ss: "ss = ts @ [s]" using assms by (cases ss rule: rev_cases) auto
  from block_loop_stmts [of "rev ts" s] show ?thesis
    by (auto simp: ss Block_make_list_def rev_map)
qed

theorem Block_make_list_correct_witness:
  "\<exists>b. Block_make_list (map Some [Free ''a'', Block (Free ''b'') (Free ''c''), Free ''d'']) = Inr (Some b) \<and>
    block_stmts b = [Free ''a'', Free ''b'', Free ''c'', Free ''d''] \<and> right_nested b"
  using Block_make_list_correct [of "[Free ''a'', Block (Free ''b'') (Free ''c''), Free ''d'']"] by simp

lemma one_le_mult: "(1::int) \<le> a \<Longrightarrow> 1 \<le> b \<Longrightarrow> 1 \<le> a * b"
  using mult_mono [of 1 a 1 b] by simp

lemma const_alloc_loop_product:
  assumes "1 \<le> acc" and "acc \<le> 2 ^ 31 - 1" and "\<forall>v \<in> set vs. 1 \<le> v \<and> v < 2 ^ 31"
  shows "const_alloc_loop (map (IntImm t) vs) acc =
    (if acc * prod_list vs \<le> 2 ^ 31 - 1 then Inr (acc * prod_list vs)
     else Inl (User_error ''Total size for allocation is constant but exceeds 2^31 - 1.''))"
  using assms
proof (induction vs arbitrary: acc)
  case Nil
  then have "signed_take_bit 31 acc = acc" by (intro signed_take_bit_int_eq_self) auto
  with Nil show ?case by (simp add: sint_uint take_bit_int_eq_self uint_word_of_int_eq signed_take_bit_take_bit)
next
  case (Cons v vs)
  have v: "1 \<le> v" "v < 2 ^ 31" using Cons.prems by auto
  have pos: "1 \<le> prod_list vs" using Cons.prems(3) by (induction vs) (auto intro: one_le_mult)
  have small: "acc * v < 2 ^ 62"
  proof -
    have "acc * v \<le> (2 ^ 31 - 1) * 2 ^ 31" using Cons.prems v by (intro mult_mono) auto
    also have "\<dots> < 2 ^ 62" by simp
    finally show ?thesis .
  qed
  have ge: "1 \<le> acc * v" using Cons.prems(1) v(1) by (rule one_le_mult)
  have i64: "in_int64 (acc * v)" using small ge by (simp add: in_int64_def)
  show ?case
  proof (cases "acc * v \<le> 2 ^ 31 - 1")
    case True
    with Cons.IH [OF ge True] Cons.prems i64 show ?thesis by (simp add: mult.assoc)
  next
    case False
    have "acc * v * 1 \<le> acc * v * prod_list vs" using pos ge by (intro mult_left_mono) auto
    with False i64 show ?thesis by (simp add: mult.assoc)
  qed
qed

text \<open>The size of an allocation with constant positive extents is their product when it
  is at most \<open>2 ^ 31 - 1\<close>, and a user error otherwise: the 64-bit product never wraps.\<close>

theorem constant_allocation_size_product:
  assumes "\<forall>v \<in> set vs. 1 \<le> v \<and> v < 2 ^ 31"
  shows "constant_allocation_size (map (IntImm t) vs) =
    (if prod_list vs \<le> 2 ^ 31 - 1 then Inr (prod_list vs)
     else Inl (User_error ''Total size for allocation is constant but exceeds 2^31 - 1.''))"
  using const_alloc_loop_product [of 1 vs t] assms by (simp add: constant_allocation_size_def)

theorem constant_allocation_size_product_witness:
  "constant_allocation_size (map (IntImm (Int_t 32 1)) [1920, 1080, 3]) = Inr 6220800"
  using constant_allocation_size_product [of "[1920, 1080, 3]" "Int_t 32 1"] by simp

end
