(* ===== verification/IRSem.thy ===== *)
theory IRSem
  imports IR
begin

text \<open>
  The reference semantics of integer and boolean expressions, against which the analyses
  and rewrites are proved. It follows the documentation of the nodes in
  \<open>src/IR.h\<close> and \<open>src/Simplify.h\<close>: Euclidean division and remainder,
  element \<open>i\<close> of a ramp is \<open>base + i * stride\<close>, a \<open>Select\<close> evaluates
  both values. A value is the list of its lanes.

  Arithmetic wraps at the width of its type, except that overflow of a signed type of at
  least 32 bits is undefined (\<open>no_overflow_scalar_int\<close> of
  \<open>src/Simplify.cpp\<close>). Undefined evaluations, divisions by zero and expressions
  over floating point values or handles have the value \<open>None\<close>. Loads and calls are
  interpreted by the environment, as functions of their arguments: this is what the
  compiler itself assumes of the calls it moves.
\<close>

type_synonym lane_values = "int list"

record env =
  var_val :: "string \<Rightarrow> lane_values option"
  load_val :: "string \<Rightarrow> Type \<Rightarrow> int \<Rightarrow> int option"
  call_val :: "Type \<Rightarrow> string \<Rightarrow> CallType \<Rightarrow> int \<Rightarrow> lane_values list \<Rightarrow> lane_values option"

definition no_overflow_int :: "Type \<Rightarrow> bool" where
  "no_overflow_int t \<longleftrightarrow> is_int t \<and> 32 \<le> bits t"

definition type_lo :: "Type \<Rightarrow> int" where
  "type_lo t = (if is_int t then - (2 ^ (bits t - 1)) else 0)"

definition type_hi :: "Type \<Rightarrow> int" where
  "type_hi t = (if is_int t then 2 ^ (bits t - 1) - 1 else 2 ^ bits t - 1)"

definition in_range :: "Type \<Rightarrow> int \<Rightarrow> bool" where
  "in_range t x \<longleftrightarrow> (is_int t \<or> is_uint t) \<and> type_lo t \<le> x \<and> x \<le> type_hi t"

definition wrap :: "Type \<Rightarrow> int \<Rightarrow> int" where
  "wrap t x = (if is_int t then signed_take_bit (bits t - 1) x else take_bit (bits t) x)"

definition fit :: "Type \<Rightarrow> int \<Rightarrow> int option" where
  "fit t x =
     (if \<not> (is_int t \<or> is_uint t) then None
      else if in_range t x then Some x
      else if no_overflow_int t then None
      else Some (wrap t x))"

definition emod :: "int \<Rightarrow> int \<Rightarrow> int" where
  "emod a b = a mod \<bar>b\<bar>"

definition ediv :: "int \<Rightarrow> int \<Rightarrow> int" where
  "ediv a b = sgn b * (a div \<bar>b\<bar>)"

fun binop_val :: "binop \<Rightarrow> Type \<Rightarrow> int \<Rightarrow> int \<Rightarrow> int option" where
  "binop_val AddOp t x y = fit t (x + y)"
| "binop_val SubOp t x y = fit t (x - y)"
| "binop_val MulOp t x y = fit t (x * y)"
| "binop_val DivOp t x y = (if y = 0 then None else fit t (ediv x y))"
| "binop_val ModOp t x y = (if y = 0 then None else fit t (emod x y))"
| "binop_val MinOp t x y = Some (min x y)"
| "binop_val MaxOp t x y = Some (max x y)"
| "binop_val EQOp t x y = Some (of_bool (x = y))"
| "binop_val NEOp t x y = Some (of_bool (x \<noteq> y))"
| "binop_val LTOp t x y = Some (of_bool (x < y))"
| "binop_val LEOp t x y = Some (of_bool (x \<le> y))"
| "binop_val GTOp t x y = Some (of_bool (x > y))"
| "binop_val GEOp t x y = Some (of_bool (x \<ge> y))"
| "binop_val AndOp t x y = Some (of_bool (x \<noteq> 0 \<and> y \<noteq> 0))"
| "binop_val OrOp t x y = Some (of_bool (x \<noteq> 0 \<or> y \<noteq> 0))"

text \<open>
  The analyses of bounds and the simplifier work under the assumption that the arithmetic of
  signed types of at least 32 bits does not overflow. An expression that one of them builds
  is given a value under the same assumption by the \<^emph>\<open>exact\<close> evaluation, which does that
  arithmetic on unbounded integers; where the expression has a value, it has the same value
  exactly.
\<close>

definition fit_in :: "bool \<Rightarrow> Type \<Rightarrow> int \<Rightarrow> int option" where
  "fit_in exact t x = (if exact \<and> no_overflow_int t then Some x else fit t x)"

definition range_in :: "bool \<Rightarrow> Type \<Rightarrow> int \<Rightarrow> bool" where
  "range_in exact t x \<longleftrightarrow> exact \<and> no_overflow_int t \<or> in_range t x"

definition binop_in :: "bool \<Rightarrow> binop \<Rightarrow> Type \<Rightarrow> int \<Rightarrow> int \<Rightarrow> int option" where
  "binop_in exact op t x y =
     (if exact \<and> no_overflow_int t then
        (case op of
           AddOp \<Rightarrow> Some (x + y)
         | SubOp \<Rightarrow> Some (x - y)
         | MulOp \<Rightarrow> Some (x * y)
         | DivOp \<Rightarrow> (if y = 0 then None else Some (ediv x y))
         | ModOp \<Rightarrow> (if y = 0 then None else Some (emod x y))
         | _ \<Rightarrow> binop_val op t x y)
      else binop_val op t x y)"

lemma modes_False [simp]:
  "fit_in False = fit" "range_in False = in_range" "binop_in False = binop_val"
  by (intro ext; simp add: fit_in_def range_in_def binop_in_def)+

lemma binop_in_simps [simp]:
  "binop_in m MinOp t x y = Some (min x y)" "binop_in m MaxOp t x y = Some (max x y)"
  "binop_in m EQOp t x y = Some (of_bool (x = y))" "binop_in m NEOp t x y = Some (of_bool (x \<noteq> y))"
  "binop_in m LTOp t x y = Some (of_bool (x < y))" "binop_in m LEOp t x y = Some (of_bool (x \<le> y))"
  "binop_in m GTOp t x y = Some (of_bool (x > y))" "binop_in m GEOp t x y = Some (of_bool (x \<ge> y))"
  "binop_in m AndOp t x y = Some (of_bool (x \<noteq> 0 \<and> y \<noteq> 0))"
  "binop_in m OrOp t x y = Some (of_bool (x \<noteq> 0 \<or> y \<noteq> 0))"
  "binop_in m AddOp t x y = fit_in m t (x + y)" "binop_in m SubOp t x y = fit_in m t (x - y)"
  "binop_in m MulOp t x y = fit_in m t (x * y)"
  "binop_in m DivOp t x y = (if y = 0 then None else fit_in m t (ediv x y))"
  "binop_in m ModOp t x y = (if y = 0 then None else fit_in m t (emod x y))"
  by (simp_all add: binop_in_def fit_in_def)

definition lift2 :: "(int \<Rightarrow> int \<Rightarrow> int option) \<Rightarrow> lane_values \<Rightarrow> lane_values \<Rightarrow> lane_values option" where
  "lift2 f xs ys =
     (if length xs = length ys then those (map2 f xs ys) else None)"

definition select_val :: "lane_values \<Rightarrow> lane_values \<Rightarrow> lane_values \<Rightarrow> lane_values option" where
  "select_val cs ts fs =
     (if length ts \<noteq> length fs then None
      else if length cs = 1 then Some (if hd cs \<noteq> 0 then ts else fs)
      else if length cs = length ts
      then Some (map2 (\<lambda>c (t, f). if c \<noteq> 0 then t else f) cs (zip ts fs))
      else None)"

definition identity_intrinsic :: "CallType \<Rightarrow> string \<Rightarrow> bool" where
  "identity_intrinsic ct n \<longleftrightarrow>
     call_is_intrinsic ct n ''likely'' \<or> call_is_intrinsic ct n ''likely_if_innermost'' \<or>
     call_is_intrinsic ct n ''return_second''"

fun eval_in :: "bool \<Rightarrow> env \<Rightarrow> expr \<Rightarrow> lane_values option" where
  "eval_in m r (IntImm t v) = (if range_in m t v then Some [v] else None)"
| "eval_in m r (UIntImm t v) = (if range_in m t v then Some [v] else None)"
| "eval_in m r (FloatImm t v) = None"
| "eval_in m r (StringImm s) = None"
| "eval_in m r (Cast t v) = Option.bind (eval_in m r v) (\<lambda>xs. those (map (fit_in m t) xs))"
| "eval_in m r (Variable t n im p rd) =
     (case var_val r n of
        Some xs \<Rightarrow> if length xs = lanes t \<and> (\<forall>x \<in> set xs. range_in m t x) then Some xs else None
      | None \<Rightarrow> None)"
| "eval_in m r (Binary op a b) =
     Option.bind (eval_in m r a) (\<lambda>xs. Option.bind (eval_in m r b) (\<lambda>ys. lift2 (binop_in m op (type_of a)) xs ys))"
| "eval_in m r (NotE a) = Option.bind (eval_in m r a) (\<lambda>xs. Some (map (\<lambda>x. of_bool (x = 0)) xs))"
| "eval_in m r (Select c t f) =
     Option.bind (eval_in m r c) (\<lambda>cs. Option.bind (eval_in m r t) (\<lambda>ts. Option.bind (eval_in m r f) (\<lambda>fs.
       select_val cs ts fs)))"
| "eval_in m r (Load t n i im p) =
     Option.bind (eval_in m r i) (\<lambda>xs. those (map (\<lambda>x.
       Option.bind (load_val r n t x) (\<lambda>v. if range_in m t v then Some v else None)) xs))"
| "eval_in m r (Ramp b s n) =
     Option.bind (eval_in m r b) (\<lambda>bs. Option.bind (eval_in m r s) (\<lambda>ss.
       if length bs = 1 \<and> length ss = 1
       then those (map (\<lambda>i. fit_in m (type_of b) (hd bs + i * hd ss)) [0..n - 1]) else None))"
| "eval_in m r (Broadcast v n) =
     Option.bind (eval_in m r v) (\<lambda>xs. if length xs = 1 then Some (replicate (nat n) (hd xs)) else None)"
| "eval_in m r (Call t n args ct f vi im p) =
     Option.bind (those (map (eval_in m r) args)) (\<lambda>vs.
       if identity_intrinsic ct n then (if vs = [] then None else Some (last vs))
       else Option.bind (call_val r t n ct vi vs) (\<lambda>xs.
         if length xs = lanes t \<and> (\<forall>x \<in> set xs. range_in m t x) then Some xs else None))"
| "eval_in m r (LetE n v b) =
     Option.bind (eval_in m r v) (\<lambda>xs. eval_in m (r\<lparr>var_val := (var_val r)(n \<mapsto> xs)\<rparr>) b)"

abbreviation eval :: "env \<Rightarrow> expr \<Rightarrow> lane_values option" where
  "eval \<equiv> eval_in False"

subsection \<open>Scalar evaluation\<close>

definition evals :: "env \<Rightarrow> expr \<Rightarrow> int \<Rightarrow> bool" where
  "evals r e x \<longleftrightarrow> eval r e = Some [x]"

subsection \<open>Well-formed expressions\<close>

text \<open>
  What the constructors enforce, for a whole tree. The lanes of a vector node must also fit
  the 16 bits of the type's lane count, which \<open>make\<close> does not check.
\<close>

definition type_wf :: "Type \<Rightarrow> bool" where
  "type_wf t \<longleftrightarrow> bits t < 2 ^ 8 \<and> lanes t < 2 ^ 16"

fun wf_expr :: "expr \<Rightarrow> bool" where
  "wf_expr (IntImm t v) \<longleftrightarrow> type_wf t \<and> is_int t \<and> is_scalar t \<and> bits t \<in> {8, 16, 32, 64} \<and> in_range t v"
| "wf_expr (UIntImm t v) \<longleftrightarrow> type_wf t \<and> is_uint t \<and> is_scalar t \<and> bits t \<in> {1, 8, 16, 32, 64} \<and> in_range t v"
| "wf_expr (FloatImm t v) \<longleftrightarrow> type_wf t \<and> is_float t \<and> is_scalar t \<and> bits t \<in> {16, 32, 64}"
| "wf_expr (StringImm s) \<longleftrightarrow> True"
| "wf_expr (Cast t v) \<longleftrightarrow> type_wf t \<and> wf_expr v \<and> lanes t = lanes (type_of v)"
| "wf_expr (Variable t n im p rd) \<longleftrightarrow> type_wf t \<and> n \<noteq> []"
| "wf_expr (Binary op a b) \<longleftrightarrow> wf_expr a \<and> wf_expr b \<and> type_eq (type_of a) (type_of b) \<and>
     (is_logical op \<longrightarrow> is_bool (type_of a) \<and> is_bool (type_of b))"
| "wf_expr (NotE a) \<longleftrightarrow> wf_expr a \<and> is_bool (type_of a)"
| "wf_expr (Select c t f) \<longleftrightarrow> wf_expr c \<and> wf_expr t \<and> wf_expr f \<and> is_bool (type_of c) \<and>
     type_eq (type_of f) (type_of t) \<and>
     (is_scalar (type_of c) \<or> lanes (type_of c) = lanes (type_of t))"
| "wf_expr (Load t n i im p) \<longleftrightarrow> type_wf t \<and> wf_expr i \<and> lanes t = lanes (type_of i)"
| "wf_expr (Ramp b s n) \<longleftrightarrow> wf_expr b \<and> wf_expr s \<and> is_scalar (type_of b) \<and> is_scalar (type_of s) \<and>
     1 < n \<and> n < 2 ^ 16 \<and> type_eq (type_of s) (type_of b)"
| "wf_expr (Broadcast v n) \<longleftrightarrow> wf_expr v \<and> is_scalar (type_of v) \<and> n \<noteq> 1 \<and> 0 \<le> n \<and> n < 2 ^ 16"
| "wf_expr (Call t n args ct f vi im p) \<longleftrightarrow> type_wf t \<and> (\<forall>a \<in> set args. wf_expr a) \<and>
     (ct \<in> {Halide, Image} \<longrightarrow> (\<forall>a \<in> set args. type_eq (type_of a) (Int_t 32 1))) \<and>
     (ct = Image \<longrightarrow> p \<noteq> None \<or> im \<noteq> None) \<and>
     (identity_intrinsic ct n \<longrightarrow> args \<noteq> [] \<and> type_eq t (type_of (last args)))"
| "wf_expr (LetE n v b) \<longleftrightarrow> wf_expr v \<and> wf_expr b"

subsection \<open>Facts\<close>

lemma those_eq_Some: "those xs = Some ys \<longleftrightarrow> xs = map Some ys"
proof (induction xs arbitrary: ys)
  case Nil
  then show ?case by auto
next
  case (Cons x xs)
  show ?case
  proof (cases x)
    case None
    then show ?thesis by (cases ys) auto
  next
    case (Some y)
    then show ?thesis using Cons.IH by (cases ys) auto
  qed
qed

lemma those_map_eq_Some:
  "those (map f xs) = Some ys \<longleftrightarrow> list_all2 (\<lambda>x y. f x = Some y) xs ys"
  by (induction xs arbitrary: ys) (auto simp: those_eq_Some list_all2_Cons1 Cons_eq_map_conv map_eq_Cons_conv
    split: option.splits)

lemma bind_eq_SomeE:
  "Option.bind m f = Some y \<Longrightarrow> (\<And>x. m = Some x \<Longrightarrow> f x = Some y \<Longrightarrow> P) \<Longrightarrow> P"
  by (cases m) auto

lemma lift2_Some:
  "lift2 f xs ys = Some zs \<longleftrightarrow>
     length xs = length ys \<and> length zs = length xs \<and>
     (\<forall>i < length xs. f (xs ! i) (ys ! i) = Some (zs ! i))"
proof -
  have "those (map2 f xs ys) = Some zs \<longleftrightarrow>
      length zs = length xs \<and> (\<forall>i < length xs. f (xs ! i) (ys ! i) = Some (zs ! i))"
    if "length xs = length ys"
    using that by (auto simp: those_map_eq_Some list_all2_conv_all_nth)
  then show ?thesis by (auto simp: lift2_def)
qed

lemma lift2_singleton [simp]:
  "lift2 f [x] [y] = Some zs \<longleftrightarrow> (\<exists>z. zs = [z] \<and> f x y = Some z)"
  by (auto simp: lift2_def split: option.splits)

lemma emod_range: "b \<noteq> 0 \<Longrightarrow> 0 \<le> emod a b \<and> emod a b < \<bar>b\<bar>"
  by (simp add: emod_def)

lemma ediv_emod: "ediv a b * b + emod a b = a"
proof -
  have "ediv a b * b = (a div \<bar>b\<bar>) * \<bar>b\<bar>"
    by (simp add: ediv_def abs_sgn mult.commute mult.left_commute)
  then show ?thesis by (simp add: emod_def)
qed

lemma fit_Some_range:
  assumes "fit t x = Some y"
  shows "in_range t y"
proof (cases "in_range t x")
  case True
  with assms show ?thesis by (auto simp: fit_def split: if_splits)
next
  case False
  with assms have ty: "is_int t \<or> is_uint t" and y: "y = wrap t x"
    by (auto simp: fit_def split: if_splits)
  show ?thesis
  proof (cases "is_int t")
    case True
    then have "y = signed_take_bit (bits t - 1) x" using y by (simp add: wrap_def)
    then show ?thesis
      using True signed_take_bit_int_less_exp [of "bits t - 1" x]
        signed_take_bit_int_greater_eq_minus_exp [of "bits t - 1" x]
      by (auto simp: in_range_def type_lo_def type_hi_def)
  next
    case False
    then have "y = take_bit (bits t) x" using y by (simp add: wrap_def)
    then show ?thesis
      using False ty take_bit_int_less_exp [of "bits t" x]
      by (auto simp: in_range_def type_lo_def type_hi_def)
  qed
qed

lemma fit_no_overflow: "no_overflow_int t \<Longrightarrow> fit t x = Some y \<Longrightarrow> y = x \<and> in_range t x"
  by (auto simp: fit_def split: if_splits)

lemma fit_in_range [simp]: "in_range t x \<Longrightarrow> fit t x = Some x"
  by (auto simp: fit_def in_range_def)

lemma binop_arith_range:
  assumes "binop_val op t x y = Some z" and "is_arith op"
    and "in_range t x" and "in_range t y"
  shows "in_range t z"
  using assms by (cases op) (auto simp: is_arith_def min_def max_def intro: fit_Some_range
      split: if_splits)

lemma binop_bool_range:
  assumes "binop_val op t x y = Some z" and "\<not> is_arith op"
  shows "z = 0 \<or> z = 1"
  using assms by (cases op) (auto simp: is_arith_def)

lemma type_eq_sym: "type_eq s t \<Longrightarrow> type_eq t s"
  by (auto simp: type_eq_def same_handle_type_def Let_def split: if_splits)

lemma type_eq_range: "type_eq s t \<Longrightarrow> in_range s = in_range t"
  by (rule ext) (simp add: type_eq_def in_range_def type_lo_def type_hi_def is_int_def is_uint_def)

lemma type_eq_lanes: "type_eq s t \<Longrightarrow> lanes s = lanes t"
  by (simp add: type_eq_def)

lemma lanes_Bool_t: "n < 2 ^ 16 \<Longrightarrow> lanes (Bool_t (int n)) = n"
  by (simp add: Bool_t_def UInt_t_def mk_Type_def nat_mod_distrib)

lemma in_range_Bool_t: "in_range (Bool_t n) x \<longleftrightarrow> x = 0 \<or> x = 1"
  by (auto simp: Bool_t_def UInt_t_def mk_Type_def in_range_def is_int_def is_uint_def
      type_lo_def type_hi_def)

lemma is_bool_range: "is_bool t \<Longrightarrow> in_range t x \<longleftrightarrow> x = 0 \<or> x = 1"
  by (auto simp: is_bool_def in_range_def is_int_def is_uint_def type_lo_def type_hi_def)

lemma with_lanes_simps [simp]:
  "code (with_lanes n t) = code t"
  "type_wf t \<Longrightarrow> bits (with_lanes n t) = bits t"
  "0 \<le> n \<Longrightarrow> n < 2 ^ 16 \<Longrightarrow> lanes (with_lanes n t) = nat n"
  by (simp_all add: with_lanes_def mk_Type_def type_wf_def)

lemma in_range_with_lanes: "type_wf t \<Longrightarrow> in_range (with_lanes n t) = in_range t"
  by (rule ext) (simp add: in_range_def type_lo_def type_hi_def is_int_def is_uint_def)

lemma type_wf_mk_Type: "type_wf (mk_Type c b l h)"
  by (simp add: type_wf_def mk_Type_def nat_less_iff)

lemma wf_expr_type_wf: "wf_expr e \<Longrightarrow> type_wf (type_of e)"
  by (induction e) (auto simp: Bool_t_def UInt_t_def Handle_t_def with_lanes_def type_wf_mk_Type)

subsection \<open>Exact evaluation\<close>

lemma no_overflow_type_eq: "type_eq s t \<Longrightarrow> no_overflow_int s = no_overflow_int t"
  by (auto simp: type_eq_def no_overflow_int_def is_int_def)

lemma range_in_type_eq: "type_eq s t \<Longrightarrow> range_in m s = range_in m t"
  by (intro ext) (simp add: range_in_def no_overflow_type_eq type_eq_range)

lemma range_in_with_lanes: "type_wf t \<Longrightarrow> range_in m (with_lanes n t) = range_in m t"
  by (intro ext) (simp add: range_in_def in_range_with_lanes no_overflow_int_def is_int_def)

lemma range_in_Bool_t: "range_in m (Bool_t n) x \<longleftrightarrow> x = 0 \<or> x = 1"
proof -
  have "\<not> no_overflow_int (Bool_t n)" by (simp add: no_overflow_int_def Bool_t_def UInt_t_def mk_Type_def is_int_def)
  then show ?thesis by (simp add: range_in_def in_range_Bool_t)
qed

lemma fit_in_Some_range: "fit_in m t x = Some y \<Longrightarrow> range_in m t y"
  by (auto simp: fit_in_def range_in_def intro: fit_Some_range split: if_splits)

lemma binop_in_arith_range:
  assumes "binop_in m op t x y = Some z" and "is_arith op" and "range_in m t x" and "range_in m t y"
  shows "range_in m t z"
  using assms binop_arith_range [of op t x y z] by (auto simp: binop_in_def range_in_def split: if_splits)

lemma binop_in_bool_range:
  "binop_in m op t x y = Some z \<Longrightarrow> \<not> is_arith op \<Longrightarrow> z = 0 \<or> z = 1"
  using binop_bool_range [of op t x y z] by (cases op) (auto simp: binop_in_def is_arith_def split: if_splits)

subsection \<open>Type soundness\<close>

lemma list_all2_Some_all:
  "list_all2 (\<lambda>x y. f x = Some y) xs ys \<Longrightarrow> (\<And>x y. f x = Some y \<Longrightarrow> P y) \<Longrightarrow> \<forall>y \<in> set ys. P y"
  by (induction rule: list_all2_induct) auto

lemma lift2_binop_sound:
  assumes "lift2 (binop_in m op t) xs ys = Some zs" and "is_arith op"
    and "\<forall>x \<in> set xs. range_in m t x" and "\<forall>y \<in> set ys. range_in m t y"
  shows "\<forall>z \<in> set zs. range_in m t z"
proof
  fix z
  assume "z \<in> set zs"
  then obtain i where "i < length zs" and "z = zs ! i" by (auto simp: in_set_conv_nth)
  with assms(1) have "i < length xs" "i < length ys" "binop_in m op t (xs ! i) (ys ! i) = Some z"
    by (auto simp: lift2_Some)
  with assms(2-4) show "range_in m t z" by (meson binop_in_arith_range nth_mem)
qed

lemma lift2_binop_bool:
  assumes "lift2 (binop_in m op t) xs ys = Some zs" and "\<not> is_arith op"
  shows "\<forall>z \<in> set zs. z = 0 \<or> z = 1"
proof
  fix z
  assume "z \<in> set zs"
  then obtain i where "i < length zs" and "z = zs ! i" by (auto simp: in_set_conv_nth)
  with assms show "z = 0 \<or> z = 1" by (auto simp: lift2_Some dest!: binop_in_bool_range)
qed

lemma select_val_sound:
  assumes "select_val cs ts fs = Some zs"
  shows "length zs = length ts \<and> set zs \<subseteq> set ts \<union> set fs"
proof (cases "length cs = 1")
  case True
  with assms show ?thesis by (auto simp: select_val_def split: if_splits)
next
  case False
  with assms have zs: "zs = map2 (\<lambda>c (t, f). if c \<noteq> 0 then t else f) cs (zip ts fs)"
    and len: "length ts = length fs" "length cs = length ts"
    by (auto simp: select_val_def split: if_splits)
  then show ?thesis by (auto dest!: set_zip_leftD set_zip_rightD elim!: in_set_zipE)
qed

text \<open>The values of a type: the right number of lanes, each in range.\<close>

definition has_type :: "lane_values \<Rightarrow> Type \<Rightarrow> bool" where
  "has_type xs t \<longleftrightarrow> length xs = lanes t \<and> (\<forall>x \<in> set xs. in_range t x)"

lemma has_type_cong: "type_eq s t \<Longrightarrow> has_type xs s = has_type xs t"
  by (simp add: has_type_def type_eq_range type_eq_lanes)

definition has_type_in :: "bool \<Rightarrow> lane_values \<Rightarrow> Type \<Rightarrow> bool" where
  "has_type_in m xs t \<longleftrightarrow> length xs = lanes t \<and> (\<forall>x \<in> set xs. range_in m t x)"

lemma has_type_in_False [simp]: "has_type_in False = has_type"
  by (intro ext) (simp add: has_type_in_def has_type_def)

lemma has_type_in_cong: "type_eq s t \<Longrightarrow> has_type_in m xs s = has_type_in m xs t"
  by (simp add: has_type_in_def range_in_type_eq type_eq_lanes)

lemma eval_in_sound:
  "wf_expr e \<Longrightarrow> eval_in m r e = Some xs \<Longrightarrow> has_type_in m xs (type_of e)"
proof (induction e arbitrary: r xs)
  case (IntImm t v)
  then show ?case by (auto simp: has_type_in_def is_scalar_def split: if_splits)
next
  case (UIntImm t v)
  then show ?case by (auto simp: has_type_in_def is_scalar_def split: if_splits)
next
  case (FloatImm t v)
  then show ?case by simp
next
  case (StringImm s)
  then show ?case by simp
next
  case (Cast t v)
  then obtain ys where ys: "eval_in m r v = Some ys" "list_all2 (\<lambda>x y. fit_in m t x = Some y) ys xs"
    by (auto simp: those_map_eq_Some elim!: bind_eq_SomeE)
  with Cast have "length ys = lanes t" by (auto simp: has_type_in_def)
  moreover have "\<forall>x \<in> set xs. range_in m t x"
    by (rule list_all2_Some_all [OF ys(2)]) (rule fit_in_Some_range)
  ultimately show ?case using list_all2_lengthD [OF ys(2)] by (simp add: has_type_in_def)
next
  case (Variable t n im p rd)
  then show ?case by (auto simp: has_type_in_def split: option.splits if_splits)
next
  case (Binary op a b)
  then obtain ys zs where ys: "eval_in m r a = Some ys" and zs: "eval_in m r b = Some zs"
    and l: "lift2 (binop_in m op (type_of a)) ys zs = Some xs"
    by (auto elim!: bind_eq_SomeE)
  have ta: "has_type_in m ys (type_of a)" and "has_type_in m zs (type_of b)"
    using Binary ys zs by auto
  moreover have teq: "type_eq (type_of a) (type_of b)" using Binary.prems by simp
  ultimately have tb: "has_type_in m zs (type_of a)" by (simp add: has_type_in_cong)
  have len: "length xs = lanes (type_of a)" using l ta by (simp add: lift2_Some has_type_in_def)
  show ?case
  proof (cases "is_arith op")
    case True
    with lift2_binop_sound [OF l True] ta tb len show ?thesis by (simp add: has_type_in_def)
  next
    case False
    moreover have "lanes (type_of a) < 2 ^ 16"
      using wf_expr_type_wf Binary.prems(1) by (auto simp: type_wf_def)
    ultimately show ?thesis
      using lift2_binop_bool [OF l False] len
      by (auto simp: has_type_in_def lanes_Bool_t range_in_Bool_t)
  qed
next
  case (NotE a)
  then obtain ys where ys: "eval_in m r a = Some ys" and xs: "xs = map (\<lambda>x. of_bool (x = 0)) ys"
    by (auto elim!: bind_eq_SomeE)
  moreover have "has_type_in m ys (type_of a)" using NotE ys by auto
  moreover have "lanes (type_of a) < 2 ^ 16"
    using wf_expr_type_wf NotE.prems(1) by (auto simp: type_wf_def)
  ultimately show ?case by (auto simp: has_type_in_def lanes_Bool_t range_in_Bool_t)
next
  case (Select c t f)
  then obtain cs ts fs where v: "eval_in m r t = Some ts" "eval_in m r f = Some fs"
    and s: "select_val cs ts fs = Some xs"
    by (auto elim!: bind_eq_SomeE)
  have "has_type_in m ts (type_of t)" "has_type_in m fs (type_of f)" using Select v by auto
  moreover have "type_eq (type_of f) (type_of t)" using Select.prems by simp
  ultimately have "has_type_in m ts (type_of t)" "has_type_in m fs (type_of t)" by (simp_all add: has_type_in_cong)
  with select_val_sound [OF s] show ?case by (auto simp: has_type_in_def)
next
  case (Load t n i im p)
  then obtain ys where ys: "eval_in m r i = Some ys"
    and l: "list_all2 (\<lambda>x y. Option.bind (load_val r n t x) (\<lambda>v. if range_in m t v then Some v else None) = Some y) ys xs"
    by (auto simp: those_map_eq_Some elim!: bind_eq_SomeE)
  have "has_type_in m ys (type_of i)" using Load ys by auto
  moreover have "\<forall>x \<in> set xs. range_in m t x"
    by (rule list_all2_Some_all [OF l]) (auto elim!: bind_eq_SomeE split: if_splits)
  ultimately show ?case
    using Load.prems(1) list_all2_lengthD [OF l] by (simp add: has_type_in_def)
next
  case (Ramp b s n)
  then obtain bs ss where "eval_in m r b = Some bs"
    and l: "list_all2 (\<lambda>i y. fit_in m (type_of b) (hd bs + i * hd ss) = Some y) [0..n - 1] xs"
    by (auto simp: those_map_eq_Some elim!: bind_eq_SomeE split: if_splits)
  then have "length xs = nat n" using list_all2_lengthD [OF l] by simp
  moreover have "\<forall>x \<in> set xs. range_in m (type_of b) x"
    by (rule list_all2_Some_all [OF l]) (rule fit_in_Some_range)
  ultimately show ?case
    using Ramp.prems(1) by (simp add: has_type_in_def range_in_with_lanes wf_expr_type_wf)
next
  case (Broadcast v n)
  then obtain ys where ys: "eval_in m r v = Some ys" "length ys = 1" "xs = replicate (nat n) (hd ys)"
    by (auto elim!: bind_eq_SomeE split: if_splits)
  have "has_type_in m ys (type_of v)" using Broadcast ys by auto
  with ys Broadcast.prems(1) show ?case
    by (cases ys) (auto simp: has_type_in_def range_in_with_lanes wf_expr_type_wf)
next
  case (Call t n args ct f vi im p)
  then obtain vs where vs: "list_all2 (\<lambda>a v. eval_in m r a = Some v) args vs"
    and res: "(if identity_intrinsic ct n then (if vs = [] then None else Some (last vs))
       else Option.bind (call_val r t n ct vi vs) (\<lambda>xs.
         if length xs = lanes t \<and> (\<forall>x \<in> set xs. range_in m t x) then Some xs else None)) = Some xs"
    by (auto simp: those_map_eq_Some elim!: bind_eq_SomeE)
  show ?case
  proof (cases "identity_intrinsic ct n")
    case True
    with res have "vs \<noteq> []" and xs: "xs = last vs" by (auto split: if_splits)
    with list_all2_last [OF vs] have "eval_in m r (last args) = Some xs" and "last args \<in> set args"
      by simp_all
    with Call have "has_type_in m xs (type_of (last args))" by auto
    moreover have "type_eq t (type_of (last args))" using Call.prems(1) True by simp
    ultimately show ?thesis by (simp add: has_type_in_cong)
  next
    case False
    with res show ?thesis by (auto simp: has_type_in_def elim!: bind_eq_SomeE split: if_splits)
  qed
next
  case (LetE n v b)
  then show ?case by (auto elim!: bind_eq_SomeE)
qed

lemmas eval_sound = eval_in_sound [where m = False, simplified]

text \<open>C29: the type that the constructors give an expression is the type of its value: the
  value of a well-formed expression has as many lanes as the type says, each in the range
  of the type.\<close>

theorem eval_has_type:
  assumes "wf_expr e" and "eval r e = Some xs"
  shows "length xs = lanes (type_of e) \<and> (\<forall>x \<in> set xs. in_range (type_of e) x)"
  using eval_sound [OF assms] by (simp add: has_type_def)

theorem eval_has_type_witness:
  "lanes (type_of (Ramp (IntImm (Int_t 32 1) 4) (IntImm (Int_t 32 1) 2) 3)) = 3 \<and>
   in_range (type_of (Ramp (IntImm (Int_t 32 1) 4) (IntImm (Int_t 32 1) 2) 3)) 8"
proof -
  define e where "e = Ramp (IntImm (Int_t 32 1) 4) (IntImm (Int_t 32 1) 2) 3"
  have "wf_expr e"
    by (simp add: e_def Int_t_def mk_Type_def type_wf_def is_int_def is_scalar_def in_range_def type_lo_def
        type_hi_def type_eq_def)
  moreover have "eval undefined e = Some [4, 6, 8]"
    by (simp add: e_def Int_t_def mk_Type_def is_int_def in_range_def type_lo_def type_hi_def fit_def upto_rec1)
  ultimately show ?thesis using eval_has_type [of e undefined "[4, 6, 8]"] unfolding e_def [symmetric] by simp
qed

end
