(* ===== verification/IROps.thy ===== *)
theory IROps
  imports IRSem
begin

text \<open>
  The helpers that build and inspect expressions: \<open>src/IROperator.cpp\<close>, the casts and
  operators of \<open>src/IROperator.h\<close>, and the division and remainder of
  \<open>src/Simplify.h\<close> that fold constants. The fast transcendental functions and the
  variadic print helpers are not modelled.

  Second half: the C++ division and remainder are the Euclidean ones, the range tests are
  the ranges of the semantics, and a constant evaluates to the number it was made from.
  The properties of the larger helpers are in theory \<open>IROpsFacts\<close>.
\<close>

unbundle bit_operations_syntax

subsection \<open>Division and remainder of constants\<close>

text \<open>
  \<open>div_imp\<close> and \<open>mod_imp\<close> at the C++ type \<open>intN_t\<close>, with \<open>w\<close> its
  width: the truncating results are corrected by sign masks. \<open>b >> (w - 1)\<close> is the sign
  of \<open>b\<close>. Operands narrower than \<open>int\<close> are promoted, so only the cast back wraps;
  at 32 and 64 bits overflow is undefined.
\<close>

definition int_min :: "nat \<Rightarrow> int" where
  "int_min w = - (2 ^ (w - 1))"

definition cast_back :: "nat \<Rightarrow> int \<Rightarrow> int" where
  "cast_back w x = (if w < 32 then signed_take_bit (w - 1) x else x)"

definition div_imp :: "nat \<Rightarrow> int \<Rightarrow> int \<Rightarrow> int result" where
  "div_imp w a b =
     (if b = 0 \<or> (32 \<le> w \<and> a = int_min w \<and> b = - 1) then Inl Undefined_behaviour
      else let q = a sdiv b; r = a - q * b;
               bs = drop_bit (w - 1) b; rs = drop_bit (w - 1) r in
           Inr (cast_back w (q - (rs AND bs) + (rs AND NOT bs))))"

definition mod_imp :: "nat \<Rightarrow> int \<Rightarrow> int \<Rightarrow> int result" where
  "mod_imp w a b =
     (if b = 0 \<or> (32 \<le> w \<and> a = int_min w \<and> b = - 1) then Inl Undefined_behaviour
      else let r = a smod b in
           if r < 0 then
             (if 32 \<le> w \<and> b = int_min w then Inl Undefined_behaviour
              else Inr (cast_back w (r + cast_back w \<bar>b\<bar>)))
           else Inr r)"

subsection \<open>Constants\<close>

fun is_const :: "expr \<Rightarrow> bool" where
  "is_const (IntImm t v) = True"
| "is_const (UIntImm t v) = True"
| "is_const (FloatImm t v) = True"
| "is_const (StringImm s) = True"
| "is_const (Cast t v) = is_const v"
| "is_const (Ramp b s n) = (is_const b \<and> is_const s)"
| "is_const (Broadcast v n) = is_const v"
| "is_const _ = False"

fun is_const_value :: "expr \<Rightarrow> int \<Rightarrow> bool" where
  "is_const_value (IntImm t i) value = (i = value)"
| "is_const_value (UIntImm t i) value = (value \<ge> 0 \<and> i = value)"
| "is_const_value (FloatImm t f) value = dbl_eq f (dbl_of_int value)"
| "is_const_value (Cast t v) value = is_const_value v value"
| "is_const_value (Broadcast v n) value = is_const_value v value"
| "is_const_value _ value = False"

definition is_no_op :: "Stmt \<Rightarrow> bool" where
  "is_no_op s =
     (case s of None \<Rightarrow> True
      | Some (Evaluate v) \<Rightarrow> is_const v
      | Some _ \<Rightarrow> False)"

fun as_const_int :: "expr \<Rightarrow> int option" where
  "as_const_int (Broadcast v n) = as_const_int v"
| "as_const_int (IntImm t i) = Some i"
| "as_const_int _ = None"

fun as_const_uint :: "expr \<Rightarrow> int option" where
  "as_const_uint (Broadcast v n) = as_const_uint v"
| "as_const_uint (UIntImm t i) = Some i"
| "as_const_uint _ = None"

fun as_const_float :: "expr \<Rightarrow> double option" where
  "as_const_float (Broadcast v n) = as_const_float v"
| "as_const_float (FloatImm t f) = Some f"
| "as_const_float _ = None"

text \<open>The loop that counts the bits of a power of two.\<close>

fun pow2_loop :: "nat \<Rightarrow> nat \<Rightarrow> nat option" where
  "pow2_loop val b =
     (if val = 0 then None else if val = 1 then Some b else pow2_loop (val div 2) (Suc b))"

declare pow2_loop.simps [simp del]

definition pow2_bits :: "int \<Rightarrow> nat option" where
  "pow2_bits val =
     (if val \<noteq> 0 \<and> val AND (val - 1) = 0 then pow2_loop (nat val) 0 else None)"

fun is_const_power_of_two_integer :: "expr \<Rightarrow> nat option" where
  "is_const_power_of_two_integer (Broadcast v n) =
     (if is_int (type_of (Broadcast v n)) \<or> is_uint (type_of (Broadcast v n))
      then is_const_power_of_two_integer v else None)"
| "is_const_power_of_two_integer (Cast t v) =
     (if is_int t \<or> is_uint t then is_const_power_of_two_integer v else None)"
| "is_const_power_of_two_integer e =
     (if is_int (type_of e) \<or> is_uint (type_of e) then
        (case as_const_int e of
           Some i \<Rightarrow> if i < 0 then None else pow2_bits i
         | None \<Rightarrow> (case as_const_uint e of Some u \<Rightarrow> pow2_bits u | None \<Rightarrow> pow2_bits 0))
      else None)"

fun is_positive_const :: "expr \<Rightarrow> bool" where
  "is_positive_const (IntImm t i) = (i > 0)"
| "is_positive_const (UIntImm t u) = (u > 0)"
| "is_positive_const (FloatImm t f) = dbl_less 0 f"
| "is_positive_const (Cast t v) = is_positive_const v"
| "is_positive_const (Ramp b s n) = (is_positive_const b \<and> is_positive_const s)"
| "is_positive_const (Broadcast v n) = is_positive_const v"
| "is_positive_const _ = False"

fun is_negative_const :: "expr \<Rightarrow> bool" where
  "is_negative_const (IntImm t i) = (i < 0)"
| "is_negative_const (FloatImm t f) = dbl_less f 0"
| "is_negative_const (Cast t v) = is_negative_const v"
| "is_negative_const (Ramp b s n) = (is_negative_const b \<and> is_negative_const s)"
| "is_negative_const (Broadcast v n) = is_negative_const v"
| "is_negative_const _ = False"

text \<open>
  The two overloads of \<open>is_negative_negatable_const\<close>: the one of a single argument
  passes the type of the expression.
\<close>

fun is_negative_negatable_const_t :: "expr \<Rightarrow> Type \<Rightarrow> bool" where
  "is_negative_negatable_const_t (IntImm t i) T = (i < 0 \<and> \<not> is_min_int64 T i)"
| "is_negative_negatable_const_t (FloatImm t f) T = dbl_less f 0"
| "is_negative_negatable_const_t (Cast t v) T = is_negative_negatable_const_t v t"
| "is_negative_negatable_const_t (Ramp b s n) T =
     (is_negative_negatable_const_t b (type_of b) \<and> is_negative_const s)"
| "is_negative_negatable_const_t (Broadcast v n) T = is_negative_negatable_const_t v (type_of v)"
| "is_negative_negatable_const_t _ T = False"

definition is_negative_negatable_const :: "expr \<Rightarrow> bool" where
  "is_negative_negatable_const e = is_negative_negatable_const_t e (type_of e)"

fun is_zero :: "expr \<Rightarrow> bool" where
  "is_zero (IntImm t i) = (i = 0)"
| "is_zero (UIntImm t u) = (u = 0)"
| "is_zero (FloatImm t f) = dbl_eq f 0"
| "is_zero (Cast t v) = is_zero v"
| "is_zero (Broadcast v n) = is_zero v"
| "is_zero _ = False"

fun is_one :: "expr \<Rightarrow> bool" where
  "is_one (IntImm t i) = (i = 1)"
| "is_one (UIntImm t u) = (u = 1)"
| "is_one (FloatImm t f) = dbl_eq f (dbl_of_int 1)"
| "is_one (Cast t v) = is_one v"
| "is_one (Broadcast v n) = is_one v"
| "is_one _ = False"

fun is_two :: "expr \<Rightarrow> bool" where
  "is_two (IntImm t i) = (i = 2)"
| "is_two (UIntImm t u) = (u = 2)"
| "is_two (FloatImm t f) = dbl_eq f (dbl_of_int 2)"
| "is_two (Cast t v) = is_two v"
| "is_two (Broadcast v n) = is_two v"
| "is_two _ = False"

subsection \<open>Making constants\<close>

text \<open>
  \<open>make_const_helper\<close> at \<open>int64_t\<close>, \<open>uint64_t\<close> and \<open>double\<close>. The
  element type of a vector type is scalar, so the recursion has one level.
\<close>

definition make_vector_const :: "Type \<Rightarrow> (Type \<Rightarrow> expr result) \<Rightarrow> expr result" where
  "make_vector_const t mk =
     (if is_vector t then rbind (mk (element_of t)) (\<lambda>e. Broadcast_make (Some e) (int (lanes t)))
      else mk t)"

definition make_const_int :: "Type \<Rightarrow> int \<Rightarrow> expr result" where
  "make_const_int t val =
     make_vector_const t (\<lambda>t.
       if is_int t then IntImm_make t val
       else if is_uint t then UIntImm_make t val
       else if is_float t then FloatImm_make t (dbl_of_int val)
       else Inl (Internal_error ''Can't make a constant of type''))"

definition make_const_uint :: "Type \<Rightarrow> int \<Rightarrow> expr result" where
  "make_const_uint t val =
     make_vector_const t (\<lambda>t.
       if is_int t then IntImm_make t val
       else if is_uint t then UIntImm_make t val
       else if is_float t then FloatImm_make t (dbl_of_int val)
       else Inl (Internal_error ''Can't make a constant of type''))"

definition make_const_double :: "Type \<Rightarrow> double \<Rightarrow> expr result" where
  "make_const_double t val =
     make_vector_const t (\<lambda>t.
       if is_int t then
         (case dbl_trunc val of
            Some i \<Rightarrow> if in_int64 i then IntImm_make t i else Inl Undefined_behaviour
          | None \<Rightarrow> Inl Undefined_behaviour)
       else if is_uint t then
         (case dbl_trunc val of
            Some i \<Rightarrow> if in_uint64 i then UIntImm_make t i else Inl Undefined_behaviour
          | None \<Rightarrow> Inl Undefined_behaviour)
       else if is_float t then FloatImm_make t val
       else Inl (Internal_error ''Can't make a constant of type''))"

definition make_bool :: "bool \<Rightarrow> int \<Rightarrow> expr result" where
  "make_bool val w = make_const_uint (UInt_t 1 w) (of_bool val)"

definition make_zero :: "Type \<Rightarrow> expr result" where
  "make_zero t =
     (if is_handle t then Call_make t ''null_handle'' [] PureIntrinsic None 0 None None
      else make_const_int t 0)"

definition make_one :: "Type \<Rightarrow> expr result" where
  "make_one t = make_const_int t 1"

definition make_two :: "Type \<Rightarrow> expr result" where
  "make_two t = make_const_int t 2"

definition const_true :: "int \<Rightarrow> expr result" where
  "const_true w = make_one (UInt_t 1 w)"

definition const_false :: "int \<Rightarrow> expr result" where
  "const_false w = make_zero (UInt_t 1 w)"

subsection \<open>Casts\<close>

definition fold_cast :: "Type \<Rightarrow> expr \<Rightarrow> expr result \<Rightarrow> expr result" where
  "fold_cast t a rest =
     (if type_eq (type_of a) t then Inr a
      else if is_handle t \<and> \<not> is_handle (type_of a) then Inl (User_error ''Can't cast to a handle'')
      else if is_handle (type_of a) \<and> \<not> is_handle t then Inl (User_error ''Can't cast handle'')
      else case as_const_int a of Some i \<Rightarrow> make_const_int t i
      | None \<Rightarrow> (case as_const_uint a of Some u \<Rightarrow> make_const_uint t u
      | None \<Rightarrow> (case as_const_float a of Some f \<Rightarrow> make_const_double t f
      | None \<Rightarrow> rest)))"

definition cast_scalar :: "Type \<Rightarrow> expr \<Rightarrow> expr result" where
  "cast_scalar t a = fold_cast t a (Cast_make t (Some a))"

definition cast :: "Type \<Rightarrow> expr \<Rightarrow> expr result" where
  "cast t a =
     fold_cast t a
       (if is_vector t then
          (if is_scalar (type_of a) then
             rbind (cast_scalar (element_of t) a) (\<lambda>v. Broadcast_make (Some v) (int (lanes t)))
           else case a of
             Broadcast v n \<Rightarrow>
               rbind (internal_assert (n = int (lanes t)) []) (\<lambda>_.
               rbind (cast_scalar (element_of t) v) (\<lambda>v. Broadcast_make (Some v) (int (lanes t))))
           | _ \<Rightarrow> Cast_make t (Some a))
        else Cast_make t (Some a))"

text \<open>\<open>lossless_cast\<close> returns an undefined handle when it cannot be done.\<close>

fun lossless_cast :: "Type \<Rightarrow> expr \<Rightarrow> Expr result" where
  "lossless_cast t e =
     (if type_eq t (type_of e) then Inr (Some e)
      else if can_represent_type t (type_of e) then rbind (cast t e) (\<lambda>c. Inr (Some c))
      else case e of
        Cast ct v \<Rightarrow> if can_represent_type t (type_of v) then lossless_cast t v else Inr None
      | Broadcast v n \<Rightarrow>
          rbind (lossless_cast (element_of t) v) (\<lambda>r. case r of
            Some v' \<Rightarrow> rbind (Broadcast_make (Some v') n) (\<lambda>b. Inr (Some b))
          | None \<Rightarrow> Inr None)
      | IntImm it i \<Rightarrow>
          rbind (can_represent_int64 t i) (\<lambda>ok.
            if ok then rbind (make_const_int t i) (\<lambda>c. Inr (Some c)) else Inr None)
      | UIntImm it i \<Rightarrow>
          rbind (can_represent_uint64 t i) (\<lambda>ok.
            if ok then rbind (make_const_uint t i) (\<lambda>c. Inr (Some c)) else Inr None)
      | FloatImm it f \<Rightarrow>
          rbind (can_represent_double t f) (\<lambda>ok.
            if ok then rbind (make_const_double t f) (\<lambda>c. Inr (Some c)) else Inr None)
      | _ \<Rightarrow> Inr None)"

declare lossless_cast.simps [simp del]

definition check_representable :: "Type \<Rightarrow> int \<Rightarrow> unit result" where
  "check_representable dst x =
     rbind (can_represent_int64 dst x) (\<lambda>ok.
       user_assert ok (if is_handle dst
         then ''Halide does not support pointer arithmetic''
         else ''Integer constant will be implicitly coerced, which changes its value''))"

definition match_widths :: "expr \<Rightarrow> expr \<Rightarrow> (expr \<times> expr) result" where
  "match_widths a b =
     (if is_scalar (type_of a) \<and> is_vector (type_of b) then
        rbind (Broadcast_make (Some a) (int (lanes (type_of b)))) (\<lambda>a. Inr (a, b))
      else if is_vector (type_of a) \<and> is_scalar (type_of b) then
        rbind (Broadcast_make (Some b) (int (lanes (type_of a)))) (\<lambda>b. Inr (a, b))
      else
        rbind (internal_assert (lanes (type_of a) = lanes (type_of b))
          ''Can't match types of differing widths'') (\<lambda>_. Inr (a, b)))"

definition match_codes :: "expr \<Rightarrow> expr \<Rightarrow> (expr \<times> expr) result" where
  "match_codes a b =
     (let ta = type_of a; tb = type_of b;
          cast_a = (\<lambda>t. rbind (cast t a) (\<lambda>a. Inr (a, b)));
          cast_b = (\<lambda>t. rbind (cast t b) (\<lambda>b. Inr (a, b))) in
      if type_eq ta tb then Inr (a, b)
      else if \<not> is_float ta \<and> is_float tb then cast_a tb
      else if is_float ta \<and> \<not> is_float tb then cast_b ta
      else if is_float ta \<and> is_float tb then
        (if bits ta > bits tb then cast_b ta else cast_a tb)
      else if is_uint ta \<and> is_uint tb then
        (if bits ta > bits tb then cast_b ta else cast_a tb)
      else if \<not> is_float ta \<and> \<not> is_float tb then
        (let t = Int_t (max (bits ta) (bits tb)) (int (lanes ta)) in
         rbind (cast t a) (\<lambda>a. rbind (cast t b) (\<lambda>b. Inr (a, b))))
      else Inl (Internal_error ''Could not match types''))"

definition match_types :: "expr \<Rightarrow> expr \<Rightarrow> (expr \<times> expr) result" where
  "match_types a b =
     rbind (user_assert (\<not> is_handle (type_of a) \<and> \<not> is_handle (type_of b))
       ''Can't do arithmetic on opaque pointer types'') (\<lambda>_.
     if type_eq (type_of a) (type_of b) then Inr (a, b)
     else rbind (match_widths a b) (\<lambda>(a, b). match_codes a b))"

subsection \<open>Operators\<close>

text \<open>
  The overloads of the arithmetic and comparison operators differ only in the node they
  build: two expressions; an expression and a constant; a constant and an expression. The
  remainder also rejects a constant zero modulus.
\<close>

definition user_defined :: "'a option \<Rightarrow> 'a result" where
  "user_defined h = (case h of None \<Rightarrow> Inl (User_error ''operator of undefined Expr'') | Some x \<Rightarrow> Inr x)"

text \<open>\<open>operator&&\<close> and \<open>operator||\<close> do not check their operands before
  \<open>match_types\<close> reads the types.\<close>

definition operand :: "binop \<Rightarrow> Expr \<Rightarrow> expr result" where
  "operand op h =
     (if is_logical op then (case h of None \<Rightarrow> Inl Undefined_behaviour | Some x \<Rightarrow> Inr x)
      else user_defined h)"

definition operator_ee :: "binop \<Rightarrow> Expr \<Rightarrow> Expr \<Rightarrow> expr result" where
  "operator_ee op a b =
     rbind (operand op a) (\<lambda>a. rbind (operand op b) (\<lambda>b.
     rbind (user_assert (op = ModOp \<longrightarrow> \<not> is_zero b) ''operator% with constant 0 modulus'') (\<lambda>_.
     rbind (match_types a b) (\<lambda>(a, b). binary_make op (Some a) (Some b)))))"

text \<open>
  The compound assignments of \<open>+\<close>, \<open>-\<close>, \<open>*\<close> and \<open>/\<close> keep the type of
  the left operand.
\<close>

definition operator_assign :: "binop \<Rightarrow> Expr \<Rightarrow> Expr \<Rightarrow> expr result" where
  "operator_assign op a b =
     rbind (user_defined a) (\<lambda>a. rbind (user_defined b) (\<lambda>b.
     rbind (cast (type_of a) b) (\<lambda>b. binary_make op (Some a) (Some b))))"

text \<open>The operators with an \<open>int\<close> operand exist for all but \<open>&&\<close> and \<open>||\<close>.\<close>

definition operator_ei :: "binop \<Rightarrow> Expr \<Rightarrow> int \<Rightarrow> expr result" where
  "operator_ei op a b =
     rbind (user_defined a) (\<lambda>a.
     rbind (user_assert (op = ModOp \<longrightarrow> b \<noteq> 0) ''operator% with constant 0 modulus'') (\<lambda>_.
     rbind (check_representable (type_of a) b) (\<lambda>_.
     rbind (make_const_int (type_of a) b) (\<lambda>c. binary_make op (Some a) (Some c)))))"

definition operator_ie :: "binop \<Rightarrow> int \<Rightarrow> Expr \<Rightarrow> expr result" where
  "operator_ie op a b =
     rbind (user_defined b) (\<lambda>b.
     rbind (user_assert (op = ModOp \<longrightarrow> \<not> is_zero b) ''operator% with constant 0 modulus'') (\<lambda>_.
     rbind (check_representable (type_of b) a) (\<lambda>_.
     rbind (make_const_int (type_of b) a) (\<lambda>c. binary_make op (Some c) (Some b)))))"

definition operator_neg :: "Expr \<Rightarrow> expr result" where
  "operator_neg a =
     rbind (user_defined a) (\<lambda>a. rbind (make_zero (type_of a)) (\<lambda>z.
     binary_make SubOp (Some z) (Some a)))"

definition operator_and_bool :: "expr \<Rightarrow> bool \<Rightarrow> expr result" where
  "operator_and_bool a b =
     rbind (internal_assert (is_bool (type_of a)) ''operator&& of Expr'') (\<lambda>_.
     if b then Inr a else make_zero (type_of a))"

definition operator_or_bool :: "expr \<Rightarrow> bool \<Rightarrow> expr result" where
  "operator_or_bool a b =
     rbind (internal_assert (is_bool (type_of a)) ''operator|| of Expr'') (\<lambda>_.
     if b then make_one (type_of a) else Inr a)"

definition clamp :: "expr \<Rightarrow> expr \<Rightarrow> expr \<Rightarrow> expr result" where
  "clamp a min_val max_val =
     rbind (cast (type_of a) min_val) (\<lambda>min_val.
     rbind (cast (type_of a) max_val) (\<lambda>max_val.
     rbind (binary_make MinOp (Some a) (Some max_val)) (\<lambda>m.
     binary_make MaxOp (Some m) (Some min_val))))"

definition abs_expr :: "expr \<Rightarrow> expr result" where
  "abs_expr a =
     (let t = type_of a in
      if is_uint t then Inr a
      else Call_make (with_code (if is_int t then halide_type_uint else code t) t) ''abs''
             [Some a] PureIntrinsic None 0 None None)"

definition absd :: "expr \<Rightarrow> expr \<Rightarrow> expr result" where
  "absd a b =
     rbind (match_types a b) (\<lambda>(a, b).
     let t = type_of a in
     if is_float t then rbind (operator_ee SubOp (Some a) (Some b)) abs_expr
     else Call_make (with_code (if is_int t then halide_type_uint else code t) t) ''absd''
            [Some a, Some b] PureIntrinsic None 0 None None)"

definition select :: "expr \<Rightarrow> expr \<Rightarrow> expr \<Rightarrow> expr result" where
  "select c t f =
     rbind (if as_const_int c \<noteq> None then cast (Bool_t 1) c else Inr c) (\<lambda>c.
     rbind (if as_const_int t \<noteq> None then cast (type_of f) t else Inr t) (\<lambda>t.
     rbind (if as_const_int f \<noteq> None then cast (type_of t) f else Inr f) (\<lambda>f.
     rbind (user_assert (is_bool (type_of c)) ''The first argument to a select must be a boolean'') (\<lambda>_.
     rbind (user_assert (type_eq (type_of t) (type_of f))
       ''The second and third arguments to a select do not have a matching type'') (\<lambda>_.
     Select_make (Some c) (Some t) (Some f))))))"

text \<open>The multi-way \<open>select\<close>, with its conditions and values in pairs.\<close>

fun select_chain :: "(expr \<times> expr) list \<Rightarrow> expr \<Rightarrow> expr result" where
  "select_chain [] default_val = Inr default_val"
| "select_chain ((c, v) # cvs) default_val =
     rbind (select_chain cvs default_val) (\<lambda>f. select c v f)"

text \<open>
  \<open>raise_to_integer_power\<close> halves the exponent; a negative exponent divides one by the
  positive power.
\<close>

fun raise_nat :: "expr \<Rightarrow> nat \<Rightarrow> expr result" where
  "raise_nat e p =
     (if p = 0 then make_one (type_of e)
      else if p = 1 then Inr e
      else rbind (raise_nat e (p div 2)) (\<lambda>y.
        rbind (operator_ee MulOp (Some y) (Some y)) (\<lambda>yy.
        if odd p then operator_ee MulOp (Some yy) (Some e) else Inr yy)))"

declare raise_nat.simps [simp del]

definition raise_to_integer_power :: "expr \<Rightarrow> int \<Rightarrow> expr result" where
  "raise_to_integer_power e p =
     (if p \<ge> 0 then raise_nat e (nat p)
      else rbind (make_one (type_of e)) (\<lambda>one.
        if p = - (2 ^ 63) then Inl Undefined_behaviour
        else rbind (raise_nat e (nat (- p))) (\<lambda>d. operator_ee DivOp (Some one) (Some d))))"

fun split_into_ands :: "expr \<Rightarrow> expr list result" where
  "split_into_ands cond =
     rbind (internal_assert (is_bool (type_of cond)) ''Should be a boolean condition'') (\<lambda>_.
     case cond of
       Binary AndOp a b \<Rightarrow> rbind (split_into_ands a) (\<lambda>xs. rbind (split_into_ands b) (\<lambda>ys. Inr (xs @ ys)))
     | _ \<Rightarrow> Inr (if is_one cond then [] else [cond]))"

declare split_into_ands.simps [simp del]

subsection \<open>Facts: constant division\<close>

lemma drop_bit_sign:
  assumes "- (2 ^ (w - 1)) \<le> (b::int)" and "b < 2 ^ (w - 1)"
  shows "drop_bit (w - 1) b = (if b < 0 then - 1 else 0)"
proof (cases "b < 0")
  case True
  have "b div 2 ^ (w - 1) = - 1"
    using True assms(1)
    by (intro int_div_pos_eq [where r = "b + 2 ^ (w - 1)"]) auto
  then show ?thesis using True by (simp add: drop_bit_eq_div)
next
  case False
  then show ?thesis using assms(2) by (simp add: drop_bit_eq_div)
qed

lemma ediv_unique:
  assumes "a = q * b + r" and "0 \<le> r" and "r < \<bar>b\<bar>"
  shows "ediv a b = q" and "emod a b = r"
proof -
  have "\<bar>b\<bar> * (sgn b * q) = b * q"
    by (simp only: mult.assoc [symmetric] abs_mult_sgn)
  moreover have "a = b * q + r" using assms(1) by (simp add: mult.commute)
  ultimately have "a = \<bar>b\<bar> * (sgn b * q) + r" by (simp only:)
  then have "a div \<bar>b\<bar> = sgn b * q" and m: "a mod \<bar>b\<bar> = r"
    using assms(2,3) by (auto intro: int_div_pos_eq int_mod_pos_eq)
  then show "ediv a b = q"
    using assms(2,3) by (auto simp: ediv_def sgn_if)
  show "emod a b = r" using m by (simp add: emod_def)
qed

definition in_width :: "nat \<Rightarrow> int \<Rightarrow> bool" where
  "in_width w x \<longleftrightarrow> - (2 ^ (w - 1)) \<le> x \<and> x < 2 ^ (w - 1)"

lemma smod_in_width:
  assumes "in_width w b" and "b \<noteq> 0"
  shows "in_width w (a smod b)"
  using abs_smod_less [OF assms(2), of a] assms(1) by (auto simp: in_width_def)

lemma cast_back_id: "in_width w x \<Longrightarrow> cast_back w x = x"
  by (simp add: cast_back_def in_width_def signed_take_bit_int_eq_self)

lemma cast_back_add: "cast_back w (x + cast_back w y) = cast_back w (x + y)"
proof -
  have "signed_take_bit n (x + signed_take_bit n y) = signed_take_bit n (x + y)" for n
    using signed_take_bit_add [of n x "signed_take_bit n y"] signed_take_bit_add [of n x y] by simp
  then show ?thesis by (simp add: cast_back_def)
qed

lemma ediv_in_width:
  assumes "in_width w a" and "in_width w b" and "b \<noteq> 0" and "\<not> (a = int_min w \<and> b = - 1)"
  shows "in_width w (ediv a b)"
proof (cases "\<bar>b\<bar> = 1")
  case True
  then have "b = 1 \<or> b = - 1" by linarith
  with assms(1,4) show ?thesis by (auto simp: ediv_def in_width_def int_min_def)
next
  case False
  define M :: int where "M = 2 ^ (w - 1)"
  have M: "- M \<le> a" "a < M" "\<bar>b\<bar> \<le> M" using assms(1,2) by (auto simp: M_def in_width_def)
  have b2: "2 \<le> \<bar>b\<bar>" using False assms(3) by linarith
  have "- M div 2 \<le> - M div \<bar>b\<bar>" using M b2 by (intro zdiv_mono2_neg) auto
  also have "\<dots> \<le> a div \<bar>b\<bar>" using M b2 by (intro zdiv_mono1) auto
  finally have lo: "- M < a div \<bar>b\<bar>" using M b2 by linarith
  have "a div \<bar>b\<bar> \<le> M div \<bar>b\<bar>" using M b2 by (intro zdiv_mono1) auto
  also have "\<dots> \<le> M div 2" using M b2 by (intro zdiv_mono2) auto
  finally have "a div \<bar>b\<bar> < M" using M b2 by linarith
  with lo show ?thesis
    unfolding in_width_def M_def [symmetric] by (auto simp: ediv_def sgn_if)
qed

lemma div_imp_correct:
  assumes "in_width w a" and "in_width w b" and "b \<noteq> 0" and "\<not> (a = int_min w \<and> b = - 1)"
  shows "div_imp w a b = Inr (ediv a b)"
proof -
  define q r where "q = a sdiv b" and "r = a smod b"
  have r: "a - q * b = r" by (simp add: q_def r_def smod_eq_diff)
  have bs: "drop_bit (w - 1) b = (if b < 0 then - 1 else 0)"
    using assms(2) unfolding in_width_def by (intro drop_bit_sign) auto
  have rs: "drop_bit (w - 1) r = (if r < 0 then - 1 else 0)"
    using smod_in_width [OF assms(2,3), of a] unfolding in_width_def r_def
    by (intro drop_bit_sign) auto
  have small: "\<bar>r\<bar> < \<bar>b\<bar>" unfolding r_def by (rule abs_smod_less [OF assms(3)])
  have "ediv a b = (if r < 0 then (if b < 0 then q + 1 else q - 1) else q)"
  proof (cases "r < 0")
    case True
    then show ?thesis
      using small r by (intro ediv_unique(1) [where r = "r + \<bar>b\<bar>"]) (auto simp: algebra_simps)
  next
    case False
    then show ?thesis
      using small r by (intro ediv_unique(1) [where r = r]) auto
  qed
  then have "div_imp w a b = Inr (cast_back w (ediv a b))"
    using assms(3,4)
    by (auto simp add: div_imp_def Let_def r bs [simplified] rs [simplified] simp flip: q_def)
  then show ?thesis
    using cast_back_id [OF ediv_in_width [OF assms]] by simp
qed

lemma mod_imp_correct:
  assumes "in_width w b" and "b \<noteq> 0" and "\<not> (a = int_min w \<and> b = - 1)"
    and "b \<noteq> int_min w \<or> 0 \<le> a"
  shows "mod_imp w a b = Inr (emod a b)"
proof -
  define q r where "q = a sdiv b" and "r = a smod b"
  have a: "a = q * b + r" by (simp add: q_def r_def smod_eq_diff)
  have small: "\<bar>r\<bar> < \<bar>b\<bar>" unfolding r_def by (rule abs_smod_less [OF assms(2)])
  show ?thesis
  proof (cases "r < 0")
    case True
    have "emod a b = r + \<bar>b\<bar>"
      using a small True
      by (intro ediv_unique(2) [where q = "q - sgn b"]) (auto simp: algebra_simps abs_sgn)
    moreover have "in_width w (r + \<bar>b\<bar>)"
      using True small assms(1) by (auto simp: in_width_def)
    moreover have "b \<noteq> int_min w"
      using assms(4) True smod_sign [of a b] by (auto simp: r_def sgn_if split: if_splits)
    ultimately show ?thesis
      using True assms(2,3) by (auto simp add: mod_imp_def Let_def cast_back_add cast_back_id simp flip: r_def)
  next
    case False
    have "emod a b = r" using a small False by (intro ediv_unique(2)) auto
    then show ?thesis using False assms(2,3) by (auto simp add: mod_imp_def Let_def simp flip: r_def)
  qed
qed

subsection \<open>Facts: constants\<close>

lemma norm_int_eq:
  assumes "1 \<le> b" and "b \<le> 64"
  shows "norm_int b v = signed_take_bit (b - 1) v"
proof (rule bit_eqI)
  fix n
  show "bit (norm_int b v) n \<longleftrightarrow> bit (signed_take_bit (b - 1) v) n"
    using assms
    by (cases "n = b - 1") (auto simp: norm_int_def bit_sint_iff bit_signed_drop_bit_iff
        bit_push_bit_iff bit_signed_take_bit_iff bit_word_of_int_iff min_def)
qed

lemma norm_uint_eq:
  assumes "1 \<le> b" and "b \<le> 64"
  shows "norm_uint b v = take_bit b v"
proof (rule bit_eqI)
  fix n
  show "bit (norm_uint b v) n \<longleftrightarrow> bit (take_bit b v) n"
    using assms
    by (auto simp: norm_uint_def bit_uint_iff bit_drop_bit_eq bit_push_bit_iff
        bit_take_bit_iff bit_word_of_int_iff)
qed

lemma drop_bit_64_mask: "k \<le> n \<Longrightarrow> drop_bit (n - k) (2 ^ n - 1 :: int) = 2 ^ k - 1"
proof -
  assume "k \<le> n"
  have "drop_bit (n - k) (mask n :: int) = mask (n - (n - k))"
    by (rule drop_bit_mask_eq)
  with \<open>k \<le> n\<close> show ?thesis by (simp add: mask_eq_exp_minus_1)
qed

lemma max_uint_eq: "b \<le> 64 \<Longrightarrow> max_uint b = 2 ^ b - 1"
  using drop_bit_64_mask [of b 64] by (simp add: max_uint_def)

lemma max_int_eq: "1 \<le> b \<Longrightarrow> b \<le> 64 \<Longrightarrow> max_int b = 2 ^ (b - 1) - 1"
proof -
  assume b: "1 \<le> b" "b \<le> 64"
  then have "63 - (b - 1) = 64 - b" by simp
  moreover from b have "b - 1 \<le> 63" by simp
  ultimately show ?thesis using drop_bit_64_mask [of "b - 1" 63] by (simp add: max_int_def)
qed

lemma min_int_eq: "1 \<le> b \<Longrightarrow> b \<le> 64 \<Longrightarrow> min_int b = - (2 ^ (b - 1))"
  by (simp add: min_int_def max_int_eq)

text \<open>The range tests of \<open>src/Type.cpp\<close> are the ranges of the semantics.\<close>

definition int_width :: "Type \<Rightarrow> bool" where
  "int_width t \<longleftrightarrow> (is_int t \<or> is_uint t) \<and> 1 \<le> bits t \<and> bits t \<le> 64"

lemma int_not_uint [simp]: "is_int t \<Longrightarrow> \<not> is_uint t" "is_uint t \<Longrightarrow> \<not> is_int t"
  by (simp_all add: is_int_def is_uint_def)

lemma in_range_int:
  "int_width t \<Longrightarrow> is_int t \<Longrightarrow> in_range t x \<longleftrightarrow> min_int (bits t) \<le> x \<and> x \<le> max_int (bits t)"
  by (simp add: in_range_def int_width_def type_lo_def type_hi_def min_int_eq max_int_eq)

lemma in_range_uint:
  "int_width t \<Longrightarrow> is_uint t \<Longrightarrow> in_range t x \<longleftrightarrow> 0 \<le> x \<and> x \<le> max_uint (bits t)"
  by (simp add: in_range_def int_width_def type_lo_def type_hi_def max_uint_eq)

lemma can_represent_int64_int:
  "int_width t \<Longrightarrow> can_represent_int64 t x = Inr (in_range t x)"
  by (cases "is_int t") (auto simp: can_represent_int64_def in_range_int in_range_uint int_width_def)

lemma can_represent_uint64_int:
  "int_width t \<Longrightarrow> 0 \<le> x \<Longrightarrow> can_represent_uint64 t x = Inr (in_range t x)"
  by (cases "is_int t")
    (auto simp: can_represent_uint64_def in_range_int in_range_uint int_width_def min_int_eq
      intro: order.trans [of _ 0])

lemma in_range_bounds: "in_range t x \<longleftrightarrow> (is_int t \<or> is_uint t) \<and> type_lo t \<le> x \<and> x \<le> type_hi t"
  by (simp add: in_range_def)

lemma type_bounds_int: "is_int t \<Longrightarrow> type_lo t = - (2 ^ (bits t - 1))" "is_int t \<Longrightarrow> type_hi t = 2 ^ (bits t - 1) - 1"
  and type_bounds_uint: "is_uint t \<Longrightarrow> type_lo t = 0" "is_uint t \<Longrightarrow> type_hi t = 2 ^ bits t - 1"
  by (auto simp: type_lo_def type_hi_def)

lemma in_range_mono_int:
  assumes "is_int t \<or> is_uint t" and "can_represent_type t s" and "in_range s x"
  shows "in_range t x"
proof -
  consider "is_int t" "is_int s" "bits s \<le> bits t" | "is_int t" "is_uint s" "bits s < bits t"
    | "is_uint t" "is_uint s" "bits s \<le> bits t"
    using assms(1,2) by (auto simp: can_represent_type_def split: if_splits)
  then have "type_lo t \<le> type_lo s \<and> type_hi s \<le> type_hi t"
  proof cases
    case 1
    then have "bits s - 1 \<le> bits t - 1" by simp
    then have "(2::int) ^ (bits s - 1) \<le> 2 ^ (bits t - 1)" by (rule power_increasing) simp
    then show ?thesis unfolding type_bounds_int [OF 1(1)] type_bounds_int [OF 1(2)] by linarith
  next
    case 2
    then have "bits s \<le> bits t - 1" by simp
    then have "(2::int) ^ (bits s) \<le> 2 ^ (bits t - 1)" by (rule power_increasing) simp
    moreover have "(1::int) \<le> 2 ^ (bits t - 1)" by simp
    ultimately show ?thesis unfolding type_bounds_int [OF 2(1)] type_bounds_uint [OF 2(2)] by linarith
  next
    case 3
    then have "(2::int) ^ (bits s) \<le> 2 ^ bits t" by (intro power_increasing) auto
    then show ?thesis unfolding type_bounds_uint [OF 3(1)] type_bounds_uint [OF 3(2)] by linarith
  qed
  with assms(1,3) show ?thesis by (auto simp: in_range_bounds)
qed

lemma can_represent_complete_int:
  assumes "int_width t" and "int_width s" and "lanes t = lanes s"
    and all: "\<And>x. in_range s x \<Longrightarrow> in_range t x"
  shows "can_represent_type t s"
proof -
  have w: "1 \<le> bits t" "1 \<le> bits s" using assms(1,2) by (auto simp: int_width_def)
  have "in_range s (type_hi s)" and "in_range s (type_lo s)"
    using assms(2) by (auto simp: in_range_def int_width_def type_lo_def type_hi_def)
  then have hi: "type_hi s \<le> type_hi t" and lo: "type_lo t \<le> type_lo s"
    using all by (auto simp: in_range_def)
  show ?thesis
  proof (cases "is_int t"; cases "is_int s")
    assume c: "is_int t" "is_int s"
    then have "(2::int) ^ (bits s - 1) \<le> 2 ^ (bits t - 1)" using lo by (simp add: type_lo_def)
    then have "bits s - 1 \<le> bits t - 1" by simp
    with c w assms(3) show ?thesis by (simp add: can_represent_type_def)
  next
    assume c: "is_int t" "\<not> is_int s"
    then have "type_hi s = 2 ^ bits s - 1" and "type_hi t = 2 ^ (bits t - 1) - 1"
      by (simp_all add: type_hi_def)
    with hi have "(2::int) ^ bits s \<le> 2 ^ (bits t - 1)" by linarith
    then have "bits s \<le> bits t - 1" by simp
    with c w assms(2,3) show ?thesis by (auto simp: can_represent_type_def int_width_def)
  next
    assume c: "\<not> is_int t" "is_int s"
    with lo show ?thesis by (simp add: type_lo_def not_le)
  next
    assume c: "\<not> is_int t" "\<not> is_int s"
    then have "type_hi s = 2 ^ bits s - 1" and "type_hi t = 2 ^ bits t - 1"
      by (simp_all add: type_hi_def)
    with hi have "(2::int) ^ bits s \<le> 2 ^ bits t" by linarith
    then have "bits s \<le> bits t" by simp
    with c assms(1-3) show ?thesis by (auto simp: can_represent_type_def int_width_def)
  qed
qed

lemma int_via_float_exact:
  assumes "\<bar>x\<bar> < 2 ^ p"
  shows "int_via_float (int p) x = x"
  using round_fp_exact [OF assms] by (simp add: int_via_float_def sgn_mult_abs)

lemma wrap_in_range: "in_range t x \<Longrightarrow> wrap t x = x"
proof -
  assume r: "in_range t x"
  show ?thesis
  proof (cases "is_int t")
    case True
    then have "signed_take_bit (bits t - 1) x = x"
      using r by (intro signed_take_bit_int_eq_self) (auto simp: in_range_def type_lo_def type_hi_def)
    with True show ?thesis by (simp add: wrap_def)
  next
    case False
    then have "take_bit (bits t) x = x"
      using r by (intro take_bit_int_eq_self) (auto simp: in_range_def type_lo_def type_hi_def)
    with False show ?thesis by (simp add: wrap_def)
  qed
qed

lemma fit_eq_wrap: "fit t x = Some y \<Longrightarrow> y = wrap t x"
  by (auto simp: fit_def wrap_in_range split: if_splits)

text \<open>Whatever the type, what an operation returns is its exact result modulo the width.\<close>

lemma wrap_cong: "0 < bits t \<Longrightarrow> (2 ^ bits t :: int) dvd wrap t x - x"
proof -
  assume b: "0 < bits t"
  have "take_bit (bits t) (wrap t x) = take_bit (bits t) x"
    using b by (auto simp: wrap_def take_bit_signed_take_bit)
  then show ?thesis
    by (simp add: take_bit_eq_mod mod_eq_dvd_iff)
qed

subsection \<open>Facts: making constants\<close>

lemma imm_make_eval:
  assumes "is_int t" and "IntImm_make t v = Inr e"
  shows "e = IntImm t (wrap t v)" and "eval r e = Some [wrap t v]"
proof -
  have b: "bits t \<in> {8, 16, 32, 64}" and e: "e = IntImm t (norm_int (bits t) v)"
    using assms(2) by (auto simp: IntImm_make_def)
  then show e': "e = IntImm t (wrap t v)"
    using assms(1) by (auto simp: norm_int_eq wrap_def)
  have "in_range t (wrap t v)"
    using assms(1) signed_take_bit_int_less_exp [of "bits t - 1" v]
      signed_take_bit_int_greater_eq_minus_exp [of "bits t - 1" v]
    by (simp add: in_range_def wrap_def type_lo_def type_hi_def)
  with e' show "eval r e = Some [wrap t v]" by simp
qed

lemma uimm_make_eval:
  assumes "is_uint t" and "UIntImm_make t v = Inr e"
  shows "e = UIntImm t (wrap t v)" and "eval r e = Some [wrap t v]"
proof -
  have b: "bits t \<in> {1, 8, 16, 32, 64}" and e: "e = UIntImm t (norm_uint (bits t) v)"
    using assms(2) by (auto simp: UIntImm_make_def)
  then show e': "e = UIntImm t (wrap t v)"
    using assms(1) by (auto simp: norm_uint_eq wrap_def)
  have "in_range t (wrap t v)"
    using assms(1) take_bit_int_less_exp [of "bits t" v]
    by (simp add: in_range_def wrap_def type_lo_def type_hi_def)
  with e' show "eval r e = Some [wrap t v]" by simp
qed

lemma element_of_simps [simp]:
  "is_int (element_of t) = is_int t" "is_uint (element_of t) = is_uint t"
  "is_float (element_of t) = is_float t" "is_handle (element_of t) = is_handle t"
  "is_scalar (element_of t)" "\<not> is_vector (element_of t)"
  "type_wf t \<Longrightarrow> bits (element_of t) = bits t" "lanes (element_of t) = 1"
  by (simp_all add: element_of_def mk_Type_def type_predicates type_wf_def)

lemma wrap_element_of: "type_wf t \<Longrightarrow> wrap (element_of t) = wrap t"
  by (rule ext) (simp add: wrap_def)

lemma in_range_element_of: "type_wf t \<Longrightarrow> in_range (element_of t) = in_range t"
  by (rule ext) (simp add: in_range_def type_lo_def type_hi_def)

lemma fit_element_of: "type_wf t \<Longrightarrow> fit (element_of t) = fit t"
  by (rule ext) (simp add: fit_def in_range_element_of wrap_element_of no_overflow_int_def)

lemma make_const_int_eval:
  assumes "type_wf t" and "is_int t \<or> is_uint t" and "make_const_int t v = Inr e"
  shows "eval r e = Some (replicate (lanes t) (wrap t v))"
proof (cases "is_vector t")
  case True
  then obtain c where c: "(if is_int t then IntImm_make (element_of t) v else UIntImm_make (element_of t) v) = Inr c"
    and e: "e = Broadcast c (int (lanes t))"
    using assms(2,3) by (auto simp: make_const_int_def make_vector_const_def Broadcast_make_def
        defined_handle_def split: if_splits)
  have "eval r c = Some [wrap t v]"
    using c assms(1,2) imm_make_eval(2) [of "element_of t" v c r] uimm_make_eval(2) [of "element_of t" v c r]
    by (auto simp: wrap_element_of split: if_splits)
  with e show ?thesis by simp
next
  case False
  then have "lanes t = 1" by (simp add: is_vector_def)
  with False assms(2,3) show ?thesis
    by (auto simp: make_const_int_def make_vector_const_def imm_make_eval(2) uimm_make_eval(2))
qed

lemma make_const_uint_int: "is_int t \<or> is_uint t \<Longrightarrow> make_const_uint t v = make_const_int t v"
  by (auto simp: make_const_uint_def make_const_int_def make_vector_const_def)

lemma type_eq_refl [simp]: "type_eq t t"
  by (simp add: type_eq_def same_handle_type_def)

lemma type_eq_trans: "type_eq s t \<Longrightarrow> type_eq t u \<Longrightarrow> type_eq s u"
  by (auto simp: type_eq_def same_handle_type_def Let_def split: if_splits)

lemma type_eq_with_lanes_element:
  "type_wf t \<Longrightarrow> \<not> is_handle t \<Longrightarrow> type_eq s (element_of t) \<Longrightarrow> type_wf s \<Longrightarrow>
   type_eq (with_lanes (int (lanes t)) s) t"
  by (auto simp: type_eq_def element_of_def mk_Type_def type_wf_def is_handle_def)

lemma make_vector_const_type:
  assumes "type_wf t" and "\<not> is_handle t" and "make_vector_const t mk = Inr e"
    and "\<And>t c. mk t = Inr c \<Longrightarrow> type_of c = t"
  shows "type_eq (type_of e) t"
  using assms
  by (auto simp: make_vector_const_def Broadcast_make_def defined_handle_def element_of_def
      type_wf_mk_Type intro!: type_eq_with_lanes_element split: if_splits)

lemma imm_make_type:
  "IntImm_make t v = Inr e \<Longrightarrow> type_of e = t" "UIntImm_make t v = Inr e \<Longrightarrow> type_of e = t"
  "FloatImm_make t d = Inr e \<Longrightarrow> type_of e = t"
  by (auto simp: IntImm_make_def UIntImm_make_def FloatImm_make_def split: if_splits)

lemma make_const_type:
  assumes "type_wf t" and "\<not> is_handle t"
  shows "make_const_int t v = Inr e \<Longrightarrow> type_eq (type_of e) t"
    and "make_const_uint t v = Inr e \<Longrightarrow> type_eq (type_of e) t"
    and "make_const_double t d = Inr e \<Longrightarrow> type_eq (type_of e) t"
  unfolding make_const_int_def make_const_uint_def make_const_double_def
  by (erule make_vector_const_type [OF assms];
      auto dest: imm_make_type split: if_splits option.splits)+

end
