(* ===== verification/IREquality.thy ===== *)
theory IREquality
  imports IROps "HOL-Library.Char_ord" "HOL-Library.List_Lexorder"
begin

text \<open>
  Comparison of IR nodes by value: \<open>src/IREquality.cpp\<close> and the cache of
  \<open>src/IREquality.h\<close>. The state of the class \<open>IRComparer\<close> is its result so
  far and the optional cache of pairs known to be equal; every \<open>compare_\<close> method
  returns at once when the result is decided. The hash of a pair of handles is computed
  from their addresses, and \<open>same_as\<close> compares the addresses: both are arguments of
  the definitions.

  The second half gives the order its specification, a lexicographic comparison without
  state or cache, shows that the code refines it whatever the cache holds, and that on
  expressions without a NaN it is a total order up to the equality it defines.
\<close>

subsection \<open>The enumerations are ordered as declared\<close>

fun node_rank :: "IRNodeType \<Rightarrow> nat" where
  "node_rank NT_IntImm = 0"
| "node_rank NT_UIntImm = 1"
| "node_rank NT_FloatImm = 2"
| "node_rank NT_StringImm = 3"
| "node_rank NT_Cast = 4"
| "node_rank NT_Variable = 5"
| "node_rank NT_Add = 6"
| "node_rank NT_Sub = 7"
| "node_rank NT_Mul = 8"
| "node_rank NT_Div = 9"
| "node_rank NT_Mod = 10"
| "node_rank NT_Min = 11"
| "node_rank NT_Max = 12"
| "node_rank NT_EQ = 13"
| "node_rank NT_NE = 14"
| "node_rank NT_LT = 15"
| "node_rank NT_LE = 16"
| "node_rank NT_GT = 17"
| "node_rank NT_GE = 18"
| "node_rank NT_And = 19"
| "node_rank NT_Or = 20"
| "node_rank NT_Not = 21"
| "node_rank NT_Select = 22"
| "node_rank NT_Load = 23"
| "node_rank NT_Ramp = 24"
| "node_rank NT_Broadcast = 25"
| "node_rank NT_Call = 26"
| "node_rank NT_Let = 27"
| "node_rank NT_LetStmt = 28"
| "node_rank NT_AssertStmt = 29"
| "node_rank NT_ProducerConsumer = 30"
| "node_rank NT_For = 31"
| "node_rank NT_Store = 32"
| "node_rank NT_Provide = 33"
| "node_rank NT_Allocate = 34"
| "node_rank NT_Free = 35"
| "node_rank NT_Realize = 36"
| "node_rank NT_Block = 37"
| "node_rank NT_IfThenElse = 38"
| "node_rank NT_Evaluate = 39"

fun call_type_rank :: "CallType \<Rightarrow> nat" where
  "call_type_rank Image = 0"
| "call_type_rank Extern = 1"
| "call_type_rank ExternCPlusPlus = 2"
| "call_type_rank PureExtern = 3"
| "call_type_rank Halide = 4"
| "call_type_rank Intrinsic = 5"
| "call_type_rank PureIntrinsic = 6"

fun for_type_rank :: "ForType \<Rightarrow> nat" where
  "for_type_rank Serial = 0"
| "for_type_rank Parallel = 1"
| "for_type_rank Vectorized = 2"
| "for_type_rank Unrolled = 3"

fun type_code_rank :: "halide_type_code_t \<Rightarrow> nat" where
  "type_code_rank halide_type_int = 0"
| "type_code_rank halide_type_uint = 1"
| "type_code_rank halide_type_float = 2"
| "type_code_rank halide_type_handle = 3"

lemma node_rank_inj [simp]: "node_rank x = node_rank y \<longleftrightarrow> x = y"
proof -
  have "[NT_IntImm, NT_UIntImm, NT_FloatImm, NT_StringImm, NT_Cast, NT_Variable, NT_Add, NT_Sub, NT_Mul, NT_Div, NT_Mod, NT_Min, NT_Max, NT_EQ, NT_NE, NT_LT, NT_LE, NT_GT, NT_GE, NT_And, NT_Or, NT_Not, NT_Select, NT_Load, NT_Ramp, NT_Broadcast, NT_Call, NT_Let, NT_LetStmt, NT_AssertStmt, NT_ProducerConsumer, NT_For, NT_Store, NT_Provide, NT_Allocate, NT_Free, NT_Realize, NT_Block, NT_IfThenElse, NT_Evaluate] ! node_rank z = z" for z
    by (cases z) simp_all
  then show ?thesis by metis
qed

lemma call_type_rank_inj [simp]: "call_type_rank x = call_type_rank y \<longleftrightarrow> x = y"
  by (cases x; cases y) simp_all

lemma for_type_rank_inj [simp]: "for_type_rank x = for_type_rank y \<longleftrightarrow> x = y"
  by (cases x; cases y) simp_all

lemma type_code_rank_inj [simp]: "type_code_rank x = type_code_rank y \<longleftrightarrow> x = y"
  by (cases x; cases y) simp_all

instantiation IRNodeType :: linorder
begin

definition less_eq_IRNodeType :: "IRNodeType \<Rightarrow> IRNodeType \<Rightarrow> bool" where
  "less_eq_IRNodeType x y \<longleftrightarrow> node_rank x \<le> node_rank y"

definition less_IRNodeType :: "IRNodeType \<Rightarrow> IRNodeType \<Rightarrow> bool" where
  "less_IRNodeType x y \<longleftrightarrow> node_rank x < node_rank y"

instance
  by standard (auto simp: less_eq_IRNodeType_def less_IRNodeType_def)

end

instantiation CallType :: linorder
begin

definition less_eq_CallType :: "CallType \<Rightarrow> CallType \<Rightarrow> bool" where
  "less_eq_CallType x y \<longleftrightarrow> call_type_rank x \<le> call_type_rank y"

definition less_CallType :: "CallType \<Rightarrow> CallType \<Rightarrow> bool" where
  "less_CallType x y \<longleftrightarrow> call_type_rank x < call_type_rank y"

instance
  by standard (auto simp: less_eq_CallType_def less_CallType_def)

end

instantiation ForType :: linorder
begin

definition less_eq_ForType :: "ForType \<Rightarrow> ForType \<Rightarrow> bool" where
  "less_eq_ForType x y \<longleftrightarrow> for_type_rank x \<le> for_type_rank y"

definition less_ForType :: "ForType \<Rightarrow> ForType \<Rightarrow> bool" where
  "less_ForType x y \<longleftrightarrow> for_type_rank x < for_type_rank y"

instance
  by standard (auto simp: less_eq_ForType_def less_ForType_def)

end

instantiation halide_type_code_t :: linorder
begin

definition less_eq_halide_type_code_t :: "halide_type_code_t \<Rightarrow> halide_type_code_t \<Rightarrow> bool" where
  "less_eq_halide_type_code_t x y \<longleftrightarrow> type_code_rank x \<le> type_code_rank y"

definition less_halide_type_code_t :: "halide_type_code_t \<Rightarrow> halide_type_code_t \<Rightarrow> bool" where
  "less_halide_type_code_t x y \<longleftrightarrow> type_code_rank x < type_code_rank y"

instance
  by standard (auto simp: less_eq_halide_type_code_t_def less_halide_type_code_t_def)

end

subsection \<open>The comparer\<close>

datatype CmpResult = Unknown | Equal | LessThan | GreaterThan

text \<open>
  The cache is a table of \<open>2 ^ bits\<close> entries; an entry starts as two undefined
  handles. The hash of the model must be the one of the code reduced to the table.
\<close>

record cache_entry =
  entry_a :: Expr
  entry_b :: Expr

type_synonym IRCompareCache = "cache_entry list"

record addresses =
  addr_hash :: "expr \<Rightarrow> expr \<Rightarrow> nat"
  same_as :: "expr \<Rightarrow> expr \<Rightarrow> bool"

text \<open>Two handles with the same address hold the same value.\<close>

definition addresses_ok :: "addresses \<Rightarrow> bool" where
  "addresses_ok h \<longleftrightarrow> (\<forall>a b. same_as h a b \<longrightarrow> a = b)"

definition new_cache :: "nat \<Rightarrow> IRCompareCache" where
  "new_cache b = replicate (2 ^ b) \<lparr>entry_a = None, entry_b = None\<rparr>"

definition cache_insert :: "addresses \<Rightarrow> IRCompareCache \<Rightarrow> expr \<Rightarrow> expr \<Rightarrow> IRCompareCache" where
  "cache_insert h c a b = c[addr_hash h a b := \<lparr>entry_a = Some a, entry_b = Some b\<rparr>]"

definition same_handle :: "addresses \<Rightarrow> expr \<Rightarrow> Expr \<Rightarrow> bool" where
  "same_handle h a e = (case e of None \<Rightarrow> False | Some b \<Rightarrow> same_as h a b)"

definition cache_contains :: "addresses \<Rightarrow> IRCompareCache \<Rightarrow> expr \<Rightarrow> expr \<Rightarrow> bool" where
  "cache_contains h c a b =
     (let e = c ! addr_hash h a b in
      (same_handle h a (entry_a e) \<and> same_handle h b (entry_b e)) \<or>
      (same_handle h a (entry_b e) \<and> same_handle h b (entry_a e)))"

definition cache_clear :: "IRCompareCache \<Rightarrow> IRCompareCache" where
  "cache_clear c = map (\<lambda>e. \<lparr>entry_a = None, entry_b = None\<rparr>) c"

record IRComparer =
  cmp_result :: CmpResult
  cmp_cache :: "IRCompareCache option"

definition comparer :: "IRCompareCache option \<Rightarrow> IRComparer" where
  "comparer c = \<lparr>cmp_result = Equal, cmp_cache = c\<rparr>"

definition decide :: "CmpResult \<Rightarrow> IRComparer \<Rightarrow> IRComparer" where
  "decide res st = st\<lparr>cmp_result := res\<rparr>"

definition compare_scalar :: "('a \<Rightarrow> 'a \<Rightarrow> bool) \<Rightarrow> IRComparer \<Rightarrow> 'a \<Rightarrow> 'a \<Rightarrow> IRComparer" where
  "compare_scalar lt st a b =
     (if cmp_result st \<noteq> Equal then st
      else if lt a b then decide LessThan st
      else if lt b a then decide GreaterThan st
      else st)"

text \<open>\<open>std::string::compare\<close> orders by the bytes, a prefix before its extensions.\<close>

definition compare_names :: "IRComparer \<Rightarrow> string \<Rightarrow> string \<Rightarrow> IRComparer" where
  "compare_names st a b =
     (if cmp_result st \<noteq> Equal then st
      else if a < b then decide LessThan st
      else if b < a then decide GreaterThan st
      else st)"

definition compare_types :: "IRComparer \<Rightarrow> Type \<Rightarrow> Type \<Rightarrow> IRComparer" where
  "compare_types st a b =
     (if cmp_result st \<noteq> Equal then st
      else
        let st = compare_scalar (<) st (code a) (code b);
            st = compare_scalar (<) st (bits a) (bits b) in
        compare_scalar (<) st (lanes a) (lanes b))"

fun compare_type_list :: "IRComparer \<Rightarrow> Type list \<Rightarrow> Type list \<Rightarrow> IRComparer" where
  "compare_type_list st (x # xs) (y # ys) =
     (if cmp_result st \<noteq> Equal then st else compare_type_list (compare_types st x y) xs ys)"
| "compare_type_list st _ _ = st"

text \<open>
  \<open>compare_expr\<close> on two defined expressions: what surrounds the call of
  \<open>accept\<close>, and then the \<open>visit\<close> methods as the cases of the right operand;
  \<open>expr.as<T>()\<close> is the inner case.
\<close>

definition compare_frame ::
  "addresses \<Rightarrow> IRComparer \<Rightarrow> expr \<Rightarrow> expr \<Rightarrow> (IRComparer \<Rightarrow> IRComparer) \<Rightarrow> IRComparer" where
  "compare_frame h st a b visit =
     (if cmp_result st \<noteq> Equal then st
      else if same_as h a b then st
      else
        let st1 = compare_scalar (<) st (expr_type_info a) (expr_type_info b) in
        if cmp_result st1 \<noteq> Equal then st1
        else
          let st2 = compare_types st1 (type_of a) (type_of b) in
          if cmp_result st2 \<noteq> Equal then st2
          else if (case cmp_cache st2 of Some c \<Rightarrow> cache_contains h c a b | None \<Rightarrow> False)
          then decide Equal st2
          else
            let st3 = visit st2 in
            (case cmp_cache st3 of
               Some c \<Rightarrow> if cmp_result st3 = Equal then st3\<lparr>cmp_cache := Some (cache_insert h c a b)\<rparr> else st3
             | None \<Rightarrow> st3))"

lemma compare_frame_cong [fundef_cong]:
  assumes "st = st'" and "a = a'" and "b = b'" and "\<And>st. visit st = visit' st"
  shows "compare_frame h st a b visit = compare_frame h st' a' b' visit'"
proof -
  have "visit = visit'" using assms(4) by (rule ext)
  with assms(1-3) show ?thesis by simp
qed

fun compare_exprs ::
  "(IRComparer \<Rightarrow> expr \<Rightarrow> expr \<Rightarrow> IRComparer) \<Rightarrow> IRComparer \<Rightarrow> expr list \<Rightarrow> expr list \<Rightarrow> IRComparer" where
  "compare_exprs f st (x # xs) (y # ys) =
     (if cmp_result st \<noteq> Equal then st else compare_exprs f (f st x y) xs ys)"
| "compare_exprs f st _ _ = st"

lemma compare_exprs_cong [fundef_cong]:
  assumes "st = st'" and "xs = xs'" and "ys = ys'"
    and "\<And>st x y. x \<in> set xs' \<Longrightarrow> y \<in> set ys' \<Longrightarrow> f st x y = g st x y"
  shows "compare_exprs f st xs ys = compare_exprs g st' xs' ys'"
  unfolding assms(1-3) using assms(4)
  by (induction g st' xs' ys' rule: compare_exprs.induct) auto

definition compare_expr_vector ::
  "(IRComparer \<Rightarrow> expr \<Rightarrow> expr \<Rightarrow> IRComparer) \<Rightarrow> IRComparer \<Rightarrow> expr list \<Rightarrow> expr list \<Rightarrow> IRComparer" where
  "compare_expr_vector f st a b =
     (if cmp_result st \<noteq> Equal then st
      else compare_exprs f (compare_scalar (<) st (length a) (length b)) a b)"

lemma compare_expr_vector_cong [fundef_cong]:
  assumes "st = st'" and "xs = xs'" and "ys = ys'"
    and "\<And>st x y. x \<in> set xs' \<Longrightarrow> y \<in> set ys' \<Longrightarrow> f st x y = g st x y"
  shows "compare_expr_vector f st xs ys = compare_expr_vector g st' xs' ys'"
  unfolding compare_expr_vector_def assms(1-3) using assms(4)
  by (simp cong: compare_exprs_cong)

fun compare_e :: "addresses \<Rightarrow> IRComparer \<Rightarrow> expr \<Rightarrow> expr \<Rightarrow> IRComparer" where
  "compare_e h st a b = compare_frame h st a b (\<lambda>st2.
     (case b of
        IntImm tb vb \<Rightarrow> (case a of IntImm ta va \<Rightarrow> compare_scalar (<) st2 va vb | _ \<Rightarrow> st2)
      | UIntImm tb vb \<Rightarrow> (case a of UIntImm ta va \<Rightarrow> compare_scalar (<) st2 va vb | _ \<Rightarrow> st2)
      | FloatImm tb vb \<Rightarrow> (case a of FloatImm ta va \<Rightarrow> compare_scalar dbl_less st2 va vb | _ \<Rightarrow> st2)
      | StringImm sb \<Rightarrow> (case a of StringImm sa \<Rightarrow> compare_names st2 sa sb | _ \<Rightarrow> st2)
      | Cast tb vb \<Rightarrow> (case a of Cast ta va \<Rightarrow> compare_e h st2 va vb | _ \<Rightarrow> st2)
      | Variable tb nb ib pb rb \<Rightarrow>
          (case a of Variable ta na ia pa ra \<Rightarrow> compare_names st2 na nb | _ \<Rightarrow> st2)
      | Binary opb b1 b2 \<Rightarrow>
          (case a of Binary opa a1 a2 \<Rightarrow> compare_e h (compare_e h st2 a1 b1) a2 b2 | _ \<Rightarrow> st2)
      | NotE b1 \<Rightarrow> (case a of NotE a1 \<Rightarrow> compare_e h st2 a1 b1 | _ \<Rightarrow> st2)
      | Select cb tb fb \<Rightarrow>
          (case a of Select ca ta fa \<Rightarrow>
             compare_e h (compare_e h (compare_e h st2 ca cb) ta tb) fa fb | _ \<Rightarrow> st2)
      | Load tb nb ib imb pb \<Rightarrow>
          (case a of Load ta na ia ima pa \<Rightarrow> compare_e h (compare_names st2 nb na) ia ib | _ \<Rightarrow> st2)
      | Ramp bb sb lb \<Rightarrow>
          (case a of Ramp ba sa la \<Rightarrow> compare_e h (compare_e h st2 ba bb) sa sb | _ \<Rightarrow> st2)
      | Broadcast vb lb \<Rightarrow> (case a of Broadcast va la \<Rightarrow> compare_e h st2 va vb | _ \<Rightarrow> st2)
      | Call tb nb argsb ctb fb vib imb pb \<Rightarrow>
          (case a of Call ta na argsa cta fa via ima pa \<Rightarrow>
             let st = compare_names st2 na nb;
                 st = compare_scalar (<) st cta ctb;
                 st = compare_scalar (<) st via vib in
             compare_expr_vector (compare_e h) st argsa argsb
           | _ \<Rightarrow> st2)
      | LetE nb vb bb \<Rightarrow>
          (case a of LetE na va ba \<Rightarrow>
             compare_e h (compare_e h (compare_names st2 na nb) va vb) ba bb | _ \<Rightarrow> st2)))"

declare compare_e.simps [simp del]

text \<open>\<open>compare_stmt\<close> on two defined statements; undefined handles are compared first.\<close>

definition compare_defined :: "('a \<Rightarrow> 'a \<Rightarrow> IRComparer) \<Rightarrow> IRComparer \<Rightarrow> 'a option \<Rightarrow> 'a option \<Rightarrow> IRComparer" where
  "compare_defined f st a b =
     (if cmp_result st \<noteq> Equal then st
      else case (a, b) of
        (None, None) \<Rightarrow> st
      | (None, Some _) \<Rightarrow> decide LessThan st
      | (Some _, None) \<Rightarrow> decide GreaterThan st
      | (Some a, Some b) \<Rightarrow> f a b)"

lemma compare_defined_cong [fundef_cong]:
  assumes "st = st'" and "a = a'" and "b = b'"
    and "\<And>x y. a' = Some x \<Longrightarrow> b' = Some y \<Longrightarrow> f x y = g x y"
  shows "compare_defined f st a b = compare_defined g st' a' b'"
  using assms by (auto simp: compare_defined_def split: option.splits)

definition compare_expr :: "addresses \<Rightarrow> IRComparer \<Rightarrow> Expr \<Rightarrow> Expr \<Rightarrow> IRComparer" where
  "compare_expr h st a b = compare_defined (compare_e h st) st a b"

fun compare_region :: "addresses \<Rightarrow> IRComparer \<Rightarrow> Range list \<Rightarrow> Range list \<Rightarrow> IRComparer" where
  "compare_region h st (x # xs) (y # ys) =
     (if cmp_result st \<noteq> Equal then st
      else compare_region h
        (compare_e h (compare_e h st (range_min x) (range_min y)) (range_extent x) (range_extent y)) xs ys)"
| "compare_region h st _ _ = st"

fun compare_s :: "addresses \<Rightarrow> (stmt \<Rightarrow> stmt \<Rightarrow> bool) \<Rightarrow> IRComparer \<Rightarrow> stmt \<Rightarrow> stmt \<Rightarrow> IRComparer" where
  "compare_s h same st a b =
     (if cmp_result st \<noteq> Equal then st
      else if same a b then st
      else
        let st1 = compare_scalar (<) st (stmt_type_info a) (stmt_type_info b) in
        if cmp_result st1 \<noteq> Equal then st1
        else
          (case b of
             LetStmt nb vb bb \<Rightarrow>
               (case a of LetStmt na va ba \<Rightarrow>
                  compare_s h same (compare_e h (compare_names st1 na nb) va vb) ba bb | _ \<Rightarrow> st1)
           | AssertStmt cb mb \<Rightarrow>
               (case a of AssertStmt ca ma \<Rightarrow> compare_e h (compare_e h st1 ca cb) ma mb | _ \<Rightarrow> st1)
           | ProducerConsumer nb pb ub cb \<Rightarrow>
               (case a of ProducerConsumer na pa ua ca \<Rightarrow>
                  let s = compare_s h same (compare_names st1 na nb) pa pb;
                      s = compare_defined (compare_s h same s) s ua ub in
                  compare_s h same s ca cb
                | _ \<Rightarrow> st1)
           | For nb minb extb ftb db bb \<Rightarrow>
               (case a of For na mina exta fta da ba \<Rightarrow>
                  let s = compare_scalar (<) (compare_names st1 na nb) fta ftb;
                      s = compare_e h (compare_e h s mina minb) exta extb in
                  compare_s h same s ba bb
                | _ \<Rightarrow> st1)
           | Store nb vb ib pb \<Rightarrow>
               (case a of Store na va ia pa \<Rightarrow>
                  compare_e h (compare_e h (compare_names st1 na nb) va vb) ia ib | _ \<Rightarrow> st1)
           | Provide nb vsb argsb \<Rightarrow>
               (case a of Provide na vsa argsa \<Rightarrow>
                  compare_expr_vector (compare_e h) (compare_expr_vector (compare_e h) (compare_names st1 na nb) argsa argsb) vsa vsb
                | _ \<Rightarrow> st1)
           | Allocate nb tb extsb cb newb ffb bb \<Rightarrow>
               (case a of Allocate na ta extsa ca newa ffa ba \<Rightarrow>
                  let s = compare_expr_vector (compare_e h) (compare_names st1 na nb) extsa extsb;
                      s = compare_s h same s ba bb;
                      s = compare_expr h (compare_e h s ca cb) newa newb in
                  compare_names s ffa ffb
                | _ \<Rightarrow> st1)
           | Free nb \<Rightarrow> (case a of Free na \<Rightarrow> compare_names st1 na nb | _ \<Rightarrow> st1)
           | Realize nb tsb bsb cb bb \<Rightarrow>
               (case a of Realize na tsa bsa ca ba \<Rightarrow>
                  let s = compare_scalar (<) (compare_names st1 na nb) (length tsa) (length tsb);
                      s = compare_scalar (<) s (length bsa) (length bsb);
                      s = compare_region h (compare_type_list s tsa tsb) bsa bsb;
                      s = compare_s h same s ba bb in
                  compare_e h s ca cb
                | _ \<Rightarrow> st1)
           | Block fb rb \<Rightarrow>
               (case a of Block fa ra \<Rightarrow> compare_s h same (compare_s h same st1 fa fb) ra rb | _ \<Rightarrow> st1)
           | IfThenElse cb tb eb \<Rightarrow>
               (case a of IfThenElse ca ta ea \<Rightarrow>
                  let s = compare_s h same (compare_e h st1 ca cb) ta tb in
                  compare_defined (compare_s h same s) s ea eb
                | _ \<Rightarrow> st1)
           | Evaluate vb \<Rightarrow>
               (case a of Evaluate va \<Rightarrow> compare_e h st1 va vb | _ \<Rightarrow> st1)))"

declare compare_s.simps [simp del]

definition compare_stmt ::
  "addresses \<Rightarrow> (stmt \<Rightarrow> stmt \<Rightarrow> bool) \<Rightarrow> IRComparer \<Rightarrow> Stmt \<Rightarrow> Stmt \<Rightarrow> IRComparer" where
  "compare_stmt h same st a b = compare_defined (compare_s h same st) st a b"

subsection \<open>The functions of the header\<close>

definition equal_expr :: "addresses \<Rightarrow> Expr \<Rightarrow> Expr \<Rightarrow> bool" where
  "equal_expr h a b \<longleftrightarrow> cmp_result (compare_expr h (comparer None) a b) = Equal"


definition equal_stmt :: "addresses \<Rightarrow> (stmt \<Rightarrow> stmt \<Rightarrow> bool) \<Rightarrow> Stmt \<Rightarrow> Stmt \<Rightarrow> bool" where
  "equal_stmt h same a b \<longleftrightarrow> cmp_result (compare_stmt h same (comparer None) a b) = Equal"

definition graph_equal_stmt :: "addresses \<Rightarrow> (stmt \<Rightarrow> stmt \<Rightarrow> bool) \<Rightarrow> Stmt \<Rightarrow> Stmt \<Rightarrow> bool" where
  "graph_equal_stmt h same a b \<longleftrightarrow>
     cmp_result (compare_stmt h same (comparer (Some (new_cache 8))) a b) = Equal"

text \<open>\<open>IRDeepCompare\<close> and \<open>ExprWithCompareCache::operator<\<close>, which keeps its cache.\<close>

definition deep_compare :: "addresses \<Rightarrow> Expr \<Rightarrow> Expr \<Rightarrow> bool" where
  "deep_compare h a b \<longleftrightarrow> cmp_result (compare_expr h (comparer None) a b) = LessThan"

definition deep_compare_stmt :: "addresses \<Rightarrow> (stmt \<Rightarrow> stmt \<Rightarrow> bool) \<Rightarrow> Stmt \<Rightarrow> Stmt \<Rightarrow> bool" where
  "deep_compare_stmt h same a b \<longleftrightarrow>
     cmp_result (compare_stmt h same (comparer None) a b) = LessThan"

definition less_with_cache ::
  "addresses \<Rightarrow> IRCompareCache \<Rightarrow> Expr \<Rightarrow> Expr \<Rightarrow> bool \<times> IRCompareCache option" where
  "less_with_cache h c a b =
     (let st = compare_expr h (comparer (Some c)) a b in
      (cmp_result st = LessThan, cmp_cache st))"

subsection \<open>The order without state\<close>

text \<open>
  The specification: a lexicographic comparison of the fields, in the order of the code,
  where \<open>andthen\<close> goes on to the next field when the last ones are equal.
\<close>

definition andthen :: "CmpResult \<Rightarrow> CmpResult \<Rightarrow> CmpResult" where
  "andthen x y = (if x = Equal then y else x)"

definition cmp_by :: "('a \<Rightarrow> 'a \<Rightarrow> bool) \<Rightarrow> 'a \<Rightarrow> 'a \<Rightarrow> CmpResult" where
  "cmp_by lt a b = (if lt a b then LessThan else if lt b a then GreaterThan else Equal)"

definition cmp_type :: "Type \<Rightarrow> Type \<Rightarrow> CmpResult" where
  "cmp_type a b = andthen (cmp_by (<) (code a) (code b))
     (andthen (cmp_by (<) (bits a) (bits b)) (cmp_by (<) (lanes a) (lanes b)))"

fun cmp_e :: "expr \<Rightarrow> expr \<Rightarrow> CmpResult"
  and cmp_es :: "expr list \<Rightarrow> expr list \<Rightarrow> CmpResult" where
  "cmp_e a b = andthen (cmp_by (<) (expr_type_info a) (expr_type_info b))
     (andthen (cmp_type (type_of a) (type_of b))
       (case (a, b) of
          (IntImm ta va, IntImm tb vb) \<Rightarrow> cmp_by (<) va vb
        | (UIntImm ta va, UIntImm tb vb) \<Rightarrow> cmp_by (<) va vb
        | (FloatImm ta va, FloatImm tb vb) \<Rightarrow> cmp_by dbl_less va vb
        | (StringImm sa, StringImm sb) \<Rightarrow> cmp_by (<) sa sb
        | (Cast ta va, Cast tb vb) \<Rightarrow> cmp_e va vb
        | (Variable ta na ia pa ra, Variable tb nb ib pb rb) \<Rightarrow> cmp_by (<) na nb
        | (Binary opa a1 a2, Binary opb b1 b2) \<Rightarrow> andthen (cmp_e a1 b1) (cmp_e a2 b2)
        | (NotE a1, NotE b1) \<Rightarrow> cmp_e a1 b1
        | (Select ca ta fa, Select cb tb fb) \<Rightarrow>
            andthen (cmp_e ca cb) (andthen (cmp_e ta tb) (cmp_e fa fb))
        | (Load ta na ia ima pa, Load tb nb ib imb pb) \<Rightarrow> andthen (cmp_by (<) nb na) (cmp_e ia ib)
        | (Ramp ba sa la, Ramp bb sb lb) \<Rightarrow> andthen (cmp_e ba bb) (cmp_e sa sb)
        | (Broadcast va la, Broadcast vb lb) \<Rightarrow> cmp_e va vb
        | (Call ta na argsa cta fa via ima pa, Call tb nb argsb ctb fb vib imb pb) \<Rightarrow>
            andthen (cmp_by (<) na nb) (andthen (cmp_by (<) cta ctb) (andthen (cmp_by (<) via vib)
              (andthen (cmp_by (<) (length argsa) (length argsb)) (cmp_es argsa argsb))))
        | (LetE na va ba, LetE nb vb bb) \<Rightarrow>
            andthen (cmp_by (<) na nb) (andthen (cmp_e va vb) (cmp_e ba bb))
        | _ \<Rightarrow> Equal))"
| "cmp_es (x # xs) (y # ys) = andthen (cmp_e x y) (cmp_es xs ys)"
| "cmp_es _ _ = Equal"

declare cmp_e.simps [simp del]

subsection \<open>Facts: nodes of one kind\<close>

lemma binop_info_inj [simp]: "binop_info x = binop_info y \<longleftrightarrow> x = y"
  by (cases x; cases y) simp_all

lemma binop_info_neq [simp]:
  "binop_info op \<noteq> NT_IntImm" "binop_info op \<noteq> NT_UIntImm" "binop_info op \<noteq> NT_FloatImm"
  "binop_info op \<noteq> NT_StringImm" "binop_info op \<noteq> NT_Cast" "binop_info op \<noteq> NT_Variable"
  "binop_info op \<noteq> NT_Not" "binop_info op \<noteq> NT_Select" "binop_info op \<noteq> NT_Load"
  "binop_info op \<noteq> NT_Ramp" "binop_info op \<noteq> NT_Broadcast" "binop_info op \<noteq> NT_Call"
  "binop_info op \<noteq> NT_Let"
  by (cases op; simp)+

lemmas binop_info_neq' [simp] = binop_info_neq [symmetric]

lemma expr_type_info_iff:
  "expr_type_info a = NT_IntImm \<longleftrightarrow> (\<exists>t v. a = IntImm t v)"
  "expr_type_info a = NT_UIntImm \<longleftrightarrow> (\<exists>t v. a = UIntImm t v)"
  "expr_type_info a = NT_FloatImm \<longleftrightarrow> (\<exists>t v. a = FloatImm t v)"
  "expr_type_info a = NT_StringImm \<longleftrightarrow> (\<exists>s. a = StringImm s)"
  "expr_type_info a = NT_Cast \<longleftrightarrow> (\<exists>t v. a = Cast t v)"
  "expr_type_info a = NT_Variable \<longleftrightarrow> (\<exists>t n i p r. a = Variable t n i p r)"
  "expr_type_info a = binop_info op \<longleftrightarrow> (\<exists>x y. a = Binary op x y)"
  "expr_type_info a = NT_Not \<longleftrightarrow> (\<exists>x. a = NotE x)"
  "expr_type_info a = NT_Select \<longleftrightarrow> (\<exists>c t f. a = Select c t f)"
  "expr_type_info a = NT_Load \<longleftrightarrow> (\<exists>t n i im p. a = Load t n i im p)"
  "expr_type_info a = NT_Ramp \<longleftrightarrow> (\<exists>b s n. a = Ramp b s n)"
  "expr_type_info a = NT_Broadcast \<longleftrightarrow> (\<exists>v n. a = Broadcast v n)"
  "expr_type_info a = NT_Call \<longleftrightarrow> (\<exists>t n args ct f vi im p. a = Call t n args ct f vi im p)"
  "expr_type_info a = NT_Let \<longleftrightarrow> (\<exists>n v b. a = LetE n v b)"
  by (cases a; auto)+

subsection \<open>Facts: comparison results\<close>

fun flip_result :: "CmpResult \<Rightarrow> CmpResult" where
  "flip_result LessThan = GreaterThan"
| "flip_result Equal = Equal"
| "flip_result GreaterThan = LessThan"
| "flip_result Unknown = Unknown"

lemma andthen_Equal [simp]: "andthen Equal y = y" "andthen x Equal = x"
  by (simp_all add: andthen_def)

lemma andthen_eq_Equal [simp]: "andthen x y = Equal \<longleftrightarrow> x = Equal \<and> y = Equal"
  by (simp add: andthen_def)

lemma andthen_assoc: "andthen (andthen x y) z = andthen x (andthen y z)"
  by (simp add: andthen_def)

lemma flip_eq_Equal [simp]: "flip_result x = Equal \<longleftrightarrow> x = Equal"
  by (cases x) simp_all


lemma cmp_by_eq [simp]: "cmp_by (<) (a :: 'a :: linorder) b = Equal \<longleftrightarrow> a = b"
  by (auto simp: cmp_by_def)

lemma cmp_e_same:
  "cmp_e (IntImm t v) (IntImm t' v') = andthen (cmp_type t t') (cmp_by (<) v v')"
  "cmp_e (UIntImm t v) (UIntImm t' v') = andthen (cmp_type t t') (cmp_by (<) v v')"
  "cmp_e (FloatImm t d) (FloatImm t' d') = andthen (cmp_type t t') (cmp_by dbl_less d d')"
  "cmp_e (StringImm s) (StringImm s') = cmp_by (<) s s'"
  "cmp_e (Cast t a) (Cast t' a') = andthen (cmp_type t t') (cmp_e a a')"
  "cmp_e (Variable t n im p rd) (Variable t' n' im' p' rd') = andthen (cmp_type t t') (cmp_by (<) n n')"
  "cmp_e (Binary op a b) (Binary op a' b') =
     andthen (cmp_type (type_of (Binary op a b)) (type_of (Binary op a' b')))
       (andthen (cmp_e a a') (cmp_e b b'))"
  "cmp_e (NotE a) (NotE a') = andthen (cmp_type (type_of (NotE a)) (type_of (NotE a'))) (cmp_e a a')"
  "cmp_e (Select a b c) (Select a' b' c') =
     andthen (cmp_type (type_of b) (type_of b')) (andthen (cmp_e a a') (andthen (cmp_e b b') (cmp_e c c')))"
  "cmp_e (Load t n a im p) (Load t' n' a' im' p') =
     andthen (cmp_type t t') (andthen (cmp_by (<) n' n) (cmp_e a a'))"
  "cmp_e (Ramp a b l) (Ramp a' b' l') =
     andthen (cmp_type (type_of (Ramp a b l)) (type_of (Ramp a' b' l')))
       (andthen (cmp_e a a') (cmp_e b b'))"
  "cmp_e (Broadcast a l) (Broadcast a' l') =
     andthen (cmp_type (type_of (Broadcast a l)) (type_of (Broadcast a' l'))) (cmp_e a a')"
  "cmp_e (Call t n args ct f vi im p) (Call t' n' args' ct' f' vi' im' p') =
     andthen (cmp_type t t') (andthen (cmp_by (<) n n') (andthen (cmp_by (<) ct ct')
       (andthen (cmp_by (<) vi vi') (andthen (cmp_by (<) (length args) (length args'))
         (cmp_es args args')))))"
  "cmp_e (LetE n a b) (LetE n' a' b') =
     andthen (cmp_type (type_of b) (type_of b'))
       (andthen (cmp_by (<) n n') (andthen (cmp_e a a') (cmp_e b b')))"
  by (subst cmp_e.simps, simp add: cmp_by_def cmp_type_def andthen_def)+

definition flips :: "CmpResult \<Rightarrow> CmpResult \<Rightarrow> bool" where
  "flips x y \<longleftrightarrow> y = flip_result x"

lemma flips_Equal: "flips Equal Equal"
  by (simp add: flips_def)

lemma flips_andthen: "flips x x' \<Longrightarrow> (x = Equal \<Longrightarrow> flips y y') \<Longrightarrow> flips (andthen x y) (andthen x' y')"
  by (cases x) (auto simp add: andthen_def flips_def)

lemma flips_by_less: "flips (cmp_by (<) a b) (cmp_by (<) b (a :: 'a :: linorder))"
  by (auto simp: flips_def cmp_by_def)

lemma flips_by_dbl: "flips (cmp_by dbl_less a b) (cmp_by dbl_less b a)"
  by (auto simp: flips_def cmp_by_def dest: dbl_less_asym)

lemma flips_type: "flips (cmp_type a b) (cmp_type b a)"
  unfolding cmp_type_def by (intro flips_andthen flips_by_less)

lemmas flips_intros = flips_Equal flips_andthen flips_by_less flips_by_dbl flips_type

lemma flips_es: "(\<And>x y. x \<in> set xs \<Longrightarrow> flips (cmp_e x y) (cmp_e y x)) \<Longrightarrow> flips (cmp_es xs ys) (cmp_es ys xs)"
proof (induction xs arbitrary: ys)
  case Nil
  then show ?case by (cases ys) (auto intro: flips_intros)
next
  case (Cons x xs)
  then show ?case by (cases ys) (auto intro!: flips_intros)
qed

lemma flips_e_info:
  assumes "expr_type_info b = expr_type_info a \<Longrightarrow> flips (cmp_e a b) (cmp_e b a)"
  shows "flips (cmp_e a b) (cmp_e b a)"
proof (cases "expr_type_info b = expr_type_info a")
  case True
  with assms show ?thesis by simp
next
  case False
  then show ?thesis
    unfolding cmp_e.simps [of a] cmp_e.simps [of b] by (intro flips_andthen flips_by_less) simp_all
qed

lemma flips_e: "flips (cmp_e a b) (cmp_e b a)"
proof (induction a arbitrary: b)
  case (IntImm t v)
  show ?case by (rule flips_e_info) (auto simp: expr_type_info_iff cmp_e_same simp del: type_of.simps intro!: flips_intros)
next
  case (Call t n args ct f vi im p)
  show ?case
    by (rule flips_e_info)
      (auto simp: expr_type_info_iff cmp_e_same simp del: type_of.simps intro!: flips_intros flips_es intro: Call)
qed (rule flips_e_info; auto simp: expr_type_info_iff cmp_e_same simp del: type_of.simps intro!: flips_intros)+

lemma cmp_e_sym: "cmp_e b a = flip_result (cmp_e a b)"
  by (rule flips_e [unfolded flips_def])

lemma cmp_type_refl [simp]: "cmp_type t t = Equal"
  by (simp add: cmp_type_def)

lemma cmp_es_refl: "(\<And>x. x \<in> set xs \<Longrightarrow> cmp_e x x = Equal) \<Longrightarrow> cmp_es xs xs = Equal"
  by (induction xs) auto

lemma cmp_e_refl [simp]: "cmp_e a a = Equal"
proof (induction a)
  case (FloatImm t v)
  show ?case by (simp add: cmp_e_same cmp_by_def)
qed (simp_all add: cmp_e_same cmp_es_refl)

subsection \<open>The comparison is transitive\<close>

definition tri :: "CmpResult \<Rightarrow> CmpResult \<Rightarrow> CmpResult \<Rightarrow> bool" where
  "tri x y z \<longleftrightarrow> (x = Equal \<longrightarrow> z = y) \<and> (y = Equal \<longrightarrow> z = x) \<and> (x = y \<longrightarrow> z = x)"

lemma tri_Equal: "tri Equal Equal Equal"
  by (simp add: tri_def)

lemma tri_andthen:
  "tri x y z \<Longrightarrow> (x = Equal \<Longrightarrow> y = Equal \<Longrightarrow> tri x' y' z') \<Longrightarrow>
   tri (andthen x x') (andthen y y') (andthen z z')"
  by (auto simp: tri_def andthen_def)

lemma tri_by_less: "tri (cmp_by (<) a b) (cmp_by (<) b c) (cmp_by (<) a (c :: 'a :: linorder))"
  by (auto simp: tri_def cmp_by_def)

text \<open>Names in a \<open>Load\<close> are compared the other way round.\<close>

lemma tri_by_greater: "tri (cmp_by (<) b a) (cmp_by (<) c b) (cmp_by (<) c (a :: 'a :: linorder))"
  by (auto simp: tri_def cmp_by_def)

lemma tri_by_dbl:
  "\<not> dbl_nan a \<Longrightarrow> \<not> dbl_nan b \<Longrightarrow> \<not> dbl_nan c \<Longrightarrow>
   tri (cmp_by dbl_less a b) (cmp_by dbl_less b c) (cmp_by dbl_less a c)"
  by (auto simp: tri_def cmp_by_def dbl_less_def)

lemma tri_type: "tri (cmp_type a b) (cmp_type b c) (cmp_type a c)"
  unfolding cmp_type_def by (intro tri_andthen tri_by_less)

lemmas tri_intros = tri_Equal tri_andthen tri_by_less tri_by_greater tri_by_dbl tri_type

fun nan_free :: "expr \<Rightarrow> bool" where
  "nan_free (FloatImm t v) \<longleftrightarrow> \<not> dbl_nan v"
| "nan_free (Cast t v) \<longleftrightarrow> nan_free v"
| "nan_free (Binary op a b) \<longleftrightarrow> nan_free a \<and> nan_free b"
| "nan_free (NotE a) \<longleftrightarrow> nan_free a"
| "nan_free (Select c t f) \<longleftrightarrow> nan_free c \<and> nan_free t \<and> nan_free f"
| "nan_free (Load t n i im p) \<longleftrightarrow> nan_free i"
| "nan_free (Ramp b s n) \<longleftrightarrow> nan_free b \<and> nan_free s"
| "nan_free (Broadcast v n) \<longleftrightarrow> nan_free v"
| "nan_free (Call t n args ct f vi im p) \<longleftrightarrow> (\<forall>a \<in> set args. nan_free a)"
| "nan_free (LetE n v b) \<longleftrightarrow> nan_free v \<and> nan_free b"
| "nan_free _ \<longleftrightarrow> True"

lemma tri_e_info:
  assumes "expr_type_info b = expr_type_info a \<Longrightarrow> expr_type_info c = expr_type_info a \<Longrightarrow>
     tri (cmp_e a b) (cmp_e b c) (cmp_e a c)"
  shows "tri (cmp_e a b) (cmp_e b c) (cmp_e a c)"
proof (cases "expr_type_info b = expr_type_info a \<and> expr_type_info c = expr_type_info a")
  case True
  with assms show ?thesis by simp
next
  case False
  then show ?thesis
    unfolding cmp_e.simps [of a] cmp_e.simps [of b]
    by (intro tri_andthen tri_by_less) auto
qed

lemma tri_es:
  "(\<And>x y z. x \<in> set xs \<Longrightarrow> y \<in> set ys \<Longrightarrow> z \<in> set zs \<Longrightarrow> tri (cmp_e x y) (cmp_e y z) (cmp_e x z)) \<Longrightarrow>
   length xs = length ys \<Longrightarrow> length ys = length zs \<Longrightarrow> tri (cmp_es xs ys) (cmp_es ys zs) (cmp_es xs zs)"
proof (induction xs arbitrary: ys zs)
  case Nil
  then show ?case by (auto intro: tri_intros)
next
  case (Cons x xs)
  then obtain y ys' z zs' where "ys = y # ys'" "zs = z # zs'" by (auto simp: length_Suc_conv Suc_length_conv)
  with Cons show ?case by (auto intro!: tri_intros)
qed

lemma tri_e: "nan_free a \<Longrightarrow> nan_free b \<Longrightarrow> nan_free c \<Longrightarrow> tri (cmp_e a b) (cmp_e b c) (cmp_e a c)"
proof (induction a arbitrary: b c)
  case (Call t n args ct f vi im p)
  show ?case
  proof (rule tri_e_info)
    assume "expr_type_info b = expr_type_info (Call t n args ct f vi im p)"
      and "expr_type_info c = expr_type_info (Call t n args ct f vi im p)"
    then obtain t' n' args' ct' f' vi' im' p' t'' n'' args'' ct'' f'' vi'' im'' p''
      where bc: "b = Call t' n' args' ct' f' vi' im' p'" "c = Call t'' n'' args'' ct'' f'' vi'' im'' p''"
      by (auto simp: expr_type_info_iff)
    show "tri (cmp_e (Call t n args ct f vi im p) b) (cmp_e b c) (cmp_e (Call t n args ct f vi im p) c)"
      unfolding bc cmp_e_same
      by (intro tri_intros tri_es) (use Call bc in auto)
  qed
qed (rule tri_e_info, auto simp: expr_type_info_iff cmp_e_same simp del: type_of.simps intro!: tri_intros)+

subsection \<open>The code refines the order\<close>

definition cache_entry_ok :: "cache_entry \<Rightarrow> bool" where
  "cache_entry_ok e =
     (case (entry_a e, entry_b e) of (Some a, Some b) \<Rightarrow> cmp_e a b = Equal | _ \<Rightarrow> True)"

definition cache_ok :: "addresses \<Rightarrow> IRCompareCache \<Rightarrow> bool" where
  "cache_ok h c \<longleftrightarrow> (\<forall>a b. addr_hash h a b < length c) \<and> (\<forall>e \<in> set c. cache_entry_ok e)"

definition comparer_ok :: "addresses \<Rightarrow> IRComparer \<Rightarrow> bool" where
  "comparer_ok h st \<longleftrightarrow> addresses_ok h \<and> (\<forall>c. cmp_cache st = Some c \<longrightarrow> cache_ok h c)"

text \<open>\<open>refines h st st' r\<close>: the step from \<open>st\<close> to \<open>st'\<close> compared by \<open>r\<close>.\<close>

definition refines :: "addresses \<Rightarrow> IRComparer \<Rightarrow> IRComparer \<Rightarrow> CmpResult \<Rightarrow> bool" where
  "refines h st st' r \<longleftrightarrow>
     (comparer_ok h st \<longrightarrow> comparer_ok h st' \<and> cmp_result st' = andthen (cmp_result st) r)"

lemma refines_refl: "refines h st st Equal"
  by (simp add: refines_def)

lemma refines_step:
  assumes "refines h st st' r" and "refines h st' st'' r'"
  shows "refines h st st'' (andthen r r')"
  using assms by (auto simp: refines_def andthen_assoc)

lemma refines_decided: "cmp_result st \<noteq> Equal \<Longrightarrow> refines h st st r"
  by (simp add: refines_def andthen_def)

lemma decide_simps [simp]: "cmp_result (decide r st) = r" "cmp_cache (decide r st) = cmp_cache st"
  by (simp_all add: decide_def)

lemma refines_scalar: "refines h st (compare_scalar lt st a b) (cmp_by lt a b)"
  by (auto simp: refines_def compare_scalar_def cmp_by_def comparer_ok_def andthen_def)

lemma refines_names: "refines h st (compare_names st a b) (cmp_by (<) a b)"
  by (auto simp: refines_def compare_names_def cmp_by_def comparer_ok_def andthen_def)

lemma refines_types: "refines h st (compare_types st a b) (cmp_type a b)"
proof (cases "cmp_result st = Equal")
  case True
  then show ?thesis
    unfolding compare_types_def cmp_type_def Let_def
    by (simp add: refines_step [OF refines_scalar refines_step [OF refines_scalar refines_scalar]])
next
  case False
  then show ?thesis by (simp add: compare_types_def refines_decided)
qed

lemma refines_cong: "refines h st st' r \<Longrightarrow> r = r' \<Longrightarrow> refines h st st' r'"
  by simp

lemma cmp_e_sym_Equal: "cmp_e a b = Equal \<Longrightarrow> cmp_e b a = Equal"
  using cmp_e_sym [of a b] by simp

lemma cache_contains_sound:
  assumes "addresses_ok h" and "cache_ok h c" and "cache_contains h c a b"
  shows "cmp_e a b = Equal"
proof -
  have "c ! addr_hash h a b \<in> set c" using assms(2) by (simp add: cache_ok_def)
  then have "cache_entry_ok (c ! addr_hash h a b)" using assms(2) by (simp add: cache_ok_def)
  then show ?thesis
    using assms(1,3) cmp_e_sym_Equal [of b a]
    unfolding cache_contains_def cache_entry_ok_def Let_def same_handle_def addresses_ok_def
    by (auto split: option.splits; metis)
qed

lemma cache_insert_ok:
  "cache_ok h c \<Longrightarrow> cmp_e a b = Equal \<Longrightarrow> cache_ok h (cache_insert h c a b)"
  using set_update_subset_insert [of c "addr_hash h a b" "\<lparr>entry_a = Some a, entry_b = Some b\<rparr>"]
  by (auto simp: cache_ok_def cache_insert_def cache_entry_ok_def)

text \<open>
  The frame of \<open>compare_expr\<close>: once the kinds and types are equal, what remains is to
  refine the rest of the lexicographic order.
\<close>

lemma refines_frame:
  assumes visit: "\<And>st. expr_type_info b = expr_type_info a \<Longrightarrow> refines h st (visit st) r"
    and e: "cmp_e a b = andthen (cmp_by (<) (expr_type_info a) (expr_type_info b))
        (andthen (cmp_type (type_of a) (type_of b)) r)"
  shows "refines h st (compare_frame h st a b visit) (cmp_e a b)"
  unfolding refines_def
proof (intro impI)
  assume ok: "comparer_ok h st"
  define st1 where "st1 = compare_scalar (<) st (expr_type_info a) (expr_type_info b)"
  define st2 where "st2 = compare_types st1 (type_of a) (type_of b)"
  define st3 where "st3 = visit st2"
  have 1: "comparer_ok h st1" "cmp_result st1 = andthen (cmp_result st) (cmp_by (<) (expr_type_info a) (expr_type_info b))"
    using ok refines_scalar [of h st "(<)" "expr_type_info a" "expr_type_info b"]
    by (simp_all add: refines_def st1_def)
  have 2: "comparer_ok h st2" "cmp_result st2 = andthen (cmp_result st1) (cmp_type (type_of a) (type_of b))"
    using 1(1) refines_types [of h st1 "type_of a" "type_of b"] by (simp_all add: refines_def st2_def)
  have 3: "comparer_ok h st3 \<and> cmp_result st3 = andthen (cmp_result st2) r" if "cmp_result st1 = Equal"
    using visit [of st2] that 1(2) 2(1) by (simp add: refines_def st3_def)
  have c: "compare_frame h st a b visit =
     (if cmp_result st \<noteq> Equal then st
      else if same_as h a b then st
      else if cmp_result st1 \<noteq> Equal then st1
      else if cmp_result st2 \<noteq> Equal then st2
      else if (case cmp_cache st2 of Some c \<Rightarrow> cache_contains h c a b | None \<Rightarrow> False)
      then decide Equal st2
      else (case cmp_cache st3 of
               Some c \<Rightarrow> if cmp_result st3 = Equal then st3\<lparr>cmp_cache := Some (cache_insert h c a b)\<rparr> else st3
             | None \<Rightarrow> st3))"
    by (simp add: compare_frame_def Let_def st1_def [symmetric] st2_def [symmetric] st3_def [symmetric])
  consider "cmp_result st \<noteq> Equal" | "cmp_result st = Equal" "same_as h a b"
    | "cmp_result st = Equal" "\<not> same_as h a b" "cmp_result st1 \<noteq> Equal"
    | "cmp_result st = Equal" "\<not> same_as h a b" "cmp_result st1 = Equal" "cmp_result st2 \<noteq> Equal"
    | d where "cmp_result st = Equal" "\<not> same_as h a b" "cmp_result st1 = Equal" "cmp_result st2 = Equal"
        "cmp_cache st2 = Some d" "cache_contains h d a b"
    | "cmp_result st = Equal" "\<not> same_as h a b" "cmp_result st1 = Equal" "cmp_result st2 = Equal"
        "\<not> (case cmp_cache st2 of Some c \<Rightarrow> cache_contains h c a b | None \<Rightarrow> False)"
    by (cases "cmp_cache st2") (auto split: option.splits)
  then show "comparer_ok h (compare_frame h st a b visit) \<and>
      cmp_result (compare_frame h st a b visit) = andthen (cmp_result st) (cmp_e a b)"
  proof cases
    case 1
    with ok show ?thesis by (simp add: c andthen_def)
  next
    case 2
    then have "a = b" using ok by (auto simp: comparer_ok_def addresses_ok_def)
    moreover have "compare_frame h st a b visit = st" using 2 by (simp add: c)
    ultimately show ?thesis using 2 ok by simp
  next
    case 3
    with 1 show ?thesis by (simp add: c e andthen_def)
  next
    case 4
    with 1 2 show ?thesis by (simp add: c e andthen_def split: if_splits)
  next
    case 5
    then have "cmp_e a b = Equal"
      using 2(1) by (auto simp: comparer_ok_def intro: cache_contains_sound)
    with 5 2(1) show ?thesis by (simp add: c comparer_ok_def)
  next
    case 6
    with 1(2) 2(2) 3 have r: "comparer_ok h st3" "cmp_result st3 = r" "cmp_e a b = r"
      by (auto simp: e)
    with 6 show ?thesis
      by (auto simp: c comparer_ok_def cache_insert_ok split: option.splits)
  qed
qed

lemma refines_es:
  assumes "\<And>st x y. x \<in> set xs \<Longrightarrow> y \<in> set ys \<Longrightarrow> refines h st (compare_e h st x y) (cmp_e x y)"
  shows "refines h st (compare_exprs (compare_e h) st xs ys) (cmp_es xs ys)"
  using assms
proof (induction xs arbitrary: ys st)
  case Nil
  then show ?case by (simp add: refines_refl)
next
  case (Cons x xs)
  show ?case
  proof (cases "cmp_result st \<noteq> Equal \<or> ys = []")
    case True
    then show ?thesis by (cases ys) (auto simp: refines_decided refines_refl)
  next
    case False
    then obtain y ys' where ys: "ys = y # ys'" by (cases ys) auto
    have "refines h (compare_e h st x y) (compare_exprs (compare_e h) (compare_e h st x y) xs ys') (cmp_es xs ys')"
      using Cons.prems ys by (intro Cons.IH) auto
    with Cons.prems [of x y st] False ys show ?thesis by (auto intro: refines_step)
  qed
qed

lemma refines_vector:
  assumes "\<And>st x y. x \<in> set xs \<Longrightarrow> refines h st (compare_e h st x y) (cmp_e x y)"
  shows "refines h st (compare_expr_vector (compare_e h) st xs ys)
    (andthen (cmp_by (<) (length xs) (length ys)) (cmp_es xs ys))"
proof (cases "cmp_result st = Equal")
  case True
  then show ?thesis
    by (simp add: compare_expr_vector_def refines_step [OF refines_scalar refines_es] assms)
next
  case False
  then show ?thesis by (simp add: compare_expr_vector_def refines_decided)
qed

lemma compare_e_refines: "refines h st (compare_e h st a b) (cmp_e a b)"
proof (induction a arbitrary: b st)
  case (Call t n args ct f vi im p)
  show ?case
    by (subst compare_e.simps, rule refines_frame [OF _ cmp_e.simps [of "Call t n args ct f vi im p"]])
      (auto simp: expr_type_info_iff intro!: refines_step refines_names refines_scalar refines_vector
        intro: Call)
next
  case (NotE a)
  show ?case
    by (subst compare_e.simps, rule refines_frame [OF _ cmp_e.simps])
      (auto simp: expr_type_info_iff intro!: refines_step refines_names NotE)
next
  case (Select c t f)
  show ?case
    by (subst compare_e.simps, rule refines_frame [OF _ cmp_e.simps])
      (auto simp: expr_type_info_iff intro!: refines_step refines_names Select)
next
  case (Load t n i im p)
  show ?case
    by (subst compare_e.simps, rule refines_frame [OF _ cmp_e.simps])
      (auto simp: expr_type_info_iff intro!: refines_step refines_names Load)
next
  case (Ramp b s n)
  show ?case
    by (subst compare_e.simps, rule refines_frame [OF _ cmp_e.simps])
      (auto simp: expr_type_info_iff intro!: refines_step refines_names Ramp)
next
  case (Broadcast v n)
  show ?case
    by (subst compare_e.simps, rule refines_frame [OF _ cmp_e.simps])
      (auto simp: expr_type_info_iff intro!: refines_step refines_names Broadcast)
next
  case (LetE n v b)
  show ?case
    by (subst compare_e.simps, rule refines_frame [OF _ cmp_e.simps])
      (auto simp: expr_type_info_iff intro!: refines_step refines_names LetE)
next
  case (Cast t v)
  show ?case
    by (subst compare_e.simps, rule refines_frame [OF _ cmp_e.simps])
      (auto simp: expr_type_info_iff intro!: refines_step refines_names Cast)
next
  case (Binary op a b)
  show ?case
    by (subst compare_e.simps, rule refines_frame [OF _ cmp_e.simps])
      (auto simp: expr_type_info_iff intro!: refines_step refines_names Binary)
qed (subst compare_e.simps, rule refines_frame [OF _ cmp_e.simps];
    auto simp: expr_type_info_iff intro!: refines_names refines_scalar refines_refl)+

subsection \<open>Equal expressions have equal values\<close>

text \<open>The comparison of types ignores the descriptor of a handle; so must the environment.\<close>

definition env_type_ok :: "env \<Rightarrow> bool" where
  "env_type_ok r \<longleftrightarrow> (\<forall>s t. code s = code t \<and> bits s = bits t \<and> lanes s = lanes t \<longrightarrow>
     (\<forall>n. load_val r n s = load_val r n t) \<and> call_val r s = call_val r t)"

lemma cmp_type_Equal: "cmp_type s t = Equal \<longleftrightarrow> code s = code t \<and> bits s = bits t \<and> lanes s = lanes t"
  by (auto simp: cmp_type_def)

lemma cmp_type_fit:
  assumes "cmp_type s t = Equal"
  shows "fit s = fit t" and "in_range s = in_range t" and "binop_val op s = binop_val op t"
proof -
  have r: "in_range s = in_range t"
    using assms by (intro ext) (simp add: cmp_type_Equal in_range_def type_lo_def type_hi_def type_predicates)
  have w: "wrap s = wrap t"
    using assms by (intro ext) (simp add: cmp_type_Equal wrap_def type_predicates)
  have f: "fit s = fit t"
    using assms r w
    by (intro ext) (simp add: cmp_type_Equal fit_def no_overflow_int_def type_predicates)
  then show "fit s = fit t" "in_range s = in_range t" using r by auto
  show "binop_val op s = binop_val op t"
    using f by (intro ext) (cases op; simp)
qed

lemma cmp_type_fit_in:
  assumes "cmp_type s t = Equal"
  shows "fit_in m s = fit_in m t" and "range_in m s = range_in m t" and "binop_in m op s = binop_in m op t"
proof -
  have "no_overflow_int s = no_overflow_int t"
    using assms by (simp add: cmp_type_Equal no_overflow_int_def type_predicates)
  then show "fit_in m s = fit_in m t" "range_in m s = range_in m t" "binop_in m op s = binop_in m op t"
    using cmp_type_fit [OF assms] by (intro ext; cases op; simp add: fit_in_def range_in_def binop_in_def)+
qed

lemma cmp_es_Equal:
  "cmp_es xs ys = Equal \<Longrightarrow> length xs = length ys \<Longrightarrow> list_all2 (\<lambda>x y. cmp_e x y = Equal) xs ys"
proof (induction xs arbitrary: ys)
  case Nil
  then show ?case by simp
next
  case (Cons x xs)
  then show ?case by (cases ys) auto
qed

lemma cmp_e_Equal_info: "cmp_e a b = Equal \<Longrightarrow> expr_type_info b = expr_type_info a"
  by (subst (asm) cmp_e.simps) simp

lemma cmp_e_Equal_type: "cmp_e a b = Equal \<Longrightarrow> cmp_type (type_of a) (type_of b) = Equal"
  by (subst (asm) cmp_e.simps) simp

lemma eval_args_cong:
  assumes "list_all2 (\<lambda>x y. cmp_e x y = Equal) xs ys"
    and "\<And>x y. x \<in> set xs \<Longrightarrow> y \<in> set ys \<Longrightarrow> cmp_e x y = Equal \<Longrightarrow> eval_in ex r x = eval_in ex r y"
  shows "map (eval_in ex r) xs = map (eval_in ex r) ys"
  using assms by (induction rule: list_all2_induct) auto

lemma env_type_ok_update: "env_type_ok r \<Longrightarrow> env_type_ok (r\<lparr>var_val := f\<rparr>)"
proof -
  have "load_val (r\<lparr>var_val := f\<rparr>) = load_val r" and "call_val (r\<lparr>var_val := f\<rparr>) = call_val r"
    by simp_all
  then show "env_type_ok r \<Longrightarrow> env_type_ok (r\<lparr>var_val := f\<rparr>)"
    unfolding env_type_ok_def by metis
qed

lemma env_type_okD:
  assumes "env_type_ok r" and "cmp_type s t = Equal"
  shows "load_val r n s = load_val r n t" and "call_val r s = call_val r t" and "lanes s = lanes t"
  using assms unfolding env_type_ok_def cmp_type_Equal by blast+

lemma eval_in_cmp_e:
  assumes "cmp_e a b = Equal" and "wf_expr a" and "wf_expr b" and "env_type_ok r"
  shows "eval_in ex r a = eval_in ex r b"
  using assms
proof (induction a arbitrary: b r)
  case (Cast t v)
  then obtain t' v' where b: "b = Cast t' v'"
    using cmp_e_Equal_info [OF Cast.prems(1)] by (auto simp: expr_type_info_iff)
  with Cast.prems have "cmp_type t t' = Equal" "cmp_e v v' = Equal" by (simp_all add: cmp_e_same)
  with Cast b show ?case by (simp add: cmp_type_fit_in)
next
  case (Binary op x y)
  then obtain x' y' where b: "b = Binary op x' y'"
    using cmp_e_Equal_info [OF Binary.prems(1)] by (auto simp: expr_type_info_iff)
  with Binary.prems have e: "cmp_e x x' = Equal" "cmp_e y y' = Equal" by (simp_all add: cmp_e_same)
  have "binop_in ex op (type_of x) = binop_in ex op (type_of x')"
    using cmp_type_fit_in(3) [OF cmp_e_Equal_type [OF e(1)]] by blast
  with e Binary b show ?case by simp
next
  case (Ramp x y n)
  then obtain x' y' m where b: "b = Ramp x' y' m"
    using cmp_e_Equal_info [OF Ramp.prems(1)] by (auto simp: expr_type_info_iff)
  with Ramp.prems have e: "cmp_e x x' = Equal" "cmp_e y y' = Equal" by (simp_all add: cmp_e_same)
  have "lanes (with_lanes n (type_of x)) = lanes (with_lanes m (type_of x'))"
    using cmp_e_Equal_type [OF Ramp.prems(1)] b by (simp only: cmp_type_Equal type_of.simps)
  then have "n = m" using Ramp.prems(2,3) b by (simp add: eq_nat_nat_iff)
  moreover have "fit_in ex (type_of x) v = fit_in ex (type_of x') v" for v
    using cmp_type_fit_in(1) [OF cmp_e_Equal_type [OF e(1)]] by simp
  ultimately show ?case using e Ramp b by (simp cong: if_cong)
next
  case (Broadcast x n)
  then obtain x' m where b: "b = Broadcast x' m"
    using cmp_e_Equal_info [OF Broadcast.prems(1)] by (auto simp: expr_type_info_iff)
  with Broadcast.prems have e: "cmp_e x x' = Equal" by (simp_all add: cmp_e_same)
  have "lanes (with_lanes n (type_of x)) = lanes (with_lanes m (type_of x'))"
    using cmp_e_Equal_type [OF Broadcast.prems(1)] b by (simp only: cmp_type_Equal type_of.simps)
  then have "n = m" using Broadcast.prems(2,3) b by (simp add: eq_nat_nat_iff)
  with e Broadcast b show ?case by simp
next
  case (Call t n args ct f vi im p)
  then obtain t' args' f' im' p' where b: "b = Call t' n args' ct f' vi im' p'"
    and t: "cmp_type t t' = Equal" and l: "list_all2 (\<lambda>x y. cmp_e x y = Equal) args args'"
    using cmp_e_Equal_info [OF Call.prems(1)] cmp_es_Equal by (auto simp: expr_type_info_iff cmp_e_same)
  have "map (eval_in ex r) args = map (eval_in ex r) args'"
    using l Call b by (intro eval_args_cong) auto
  moreover have "call_val r t = call_val r t'" "lanes t = lanes t'"
    using env_type_okD [OF Call.prems(4) t] by simp_all
  ultimately show ?case by (simp add: b cmp_type_fit_in(2) [OF t] cong: if_cong)
next
  case (Load t n i im p)
  then obtain t' i' im' p' where b: "b = Load t' n i' im' p'"
    and t: "cmp_type t t' = Equal" and i: "cmp_e i i' = Equal"
    using cmp_e_Equal_info [OF Load.prems(1)] by (auto simp: expr_type_info_iff cmp_e_same)
  then have "load_val r n t = load_val r n t'"
    using env_type_okD [OF Load.prems(4)] by simp
  with i Load b show ?case by (simp add: cmp_type_fit_in(2) [OF t])
next
  case (LetE n v x)
  then obtain v' x' where b: "b = LetE n v' x'" and e: "cmp_e v v' = Equal" "cmp_e x x' = Equal"
    using cmp_e_Equal_info [OF LetE.prems(1)] by (auto simp: expr_type_info_iff cmp_e_same)
  with LetE have "eval_in ex r v = eval_in ex r v'" by simp
  moreover have "eval_in ex (r\<lparr>var_val := f\<rparr>) x = eval_in ex (r\<lparr>var_val := f\<rparr>) x'" for f
    using LetE.IH(2) [OF e(2)] LetE.prems b env_type_ok_update by simp
  ultimately show ?case by (simp add: b)
next
  case (Variable t n im p rd)
  then obtain t' im' p' rd' where b: "b = Variable t' n im' p' rd'" and t: "cmp_type t t' = Equal"
    using cmp_e_Equal_info [OF Variable.prems(1)] by (auto simp: expr_type_info_iff cmp_e_same)
  then have "lanes t = lanes t'" by (simp add: cmp_type_Equal)
  with b show ?case by (simp add: cmp_type_fit_in(2) [OF t] cong: option.case_cong)
next
  case (IntImm t v)
  then obtain t' where "b = IntImm t' v" and "cmp_type t t' = Equal"
    using cmp_e_Equal_info [OF IntImm.prems(1)] by (auto simp: expr_type_info_iff cmp_e_same)
  then show ?case by (simp add: cmp_type_fit_in)
next
  case (UIntImm t v)
  then obtain t' where "b = UIntImm t' v" and "cmp_type t t' = Equal"
    using cmp_e_Equal_info [OF UIntImm.prems(1)] by (auto simp: expr_type_info_iff cmp_e_same)
  then show ?case by (simp add: cmp_type_fit_in)
next
  case (FloatImm t v)
  then show ?case using cmp_e_Equal_info [OF FloatImm.prems(1)] by (auto simp: expr_type_info_iff)
next
  case (StringImm s)
  then show ?case using cmp_e_Equal_info [OF StringImm.prems(1)] by (auto simp: expr_type_info_iff)
next
  case (NotE x)
  then obtain x' where "b = NotE x'" and "cmp_e x x' = Equal"
    using cmp_e_Equal_info [OF NotE.prems(1)] by (auto simp: expr_type_info_iff cmp_e_same)
  with NotE show ?case by simp
next
  case (Select c x y)
  then obtain c' x' y' where "b = Select c' x' y'"
    and "cmp_e c c' = Equal" "cmp_e x x' = Equal" "cmp_e y y' = Equal"
    using cmp_e_Equal_info [OF Select.prems(1)] by (auto simp: expr_type_info_iff cmp_e_same)
  with Select show ?case by simp
qed

lemmas eval_cmp_e = eval_in_cmp_e [where ex = False]

subsection \<open>The functions of the header\<close>

lemma comparer_ok_none: "addresses_ok h \<Longrightarrow> comparer_ok h (comparer None)"
  by (simp add: comparer_ok_def comparer_def)


fun cmp_handles :: "Expr \<Rightarrow> Expr \<Rightarrow> CmpResult" where
  "cmp_handles None None = Equal"
| "cmp_handles None (Some b) = LessThan"
| "cmp_handles (Some a) None = GreaterThan"
| "cmp_handles (Some a) (Some b) = cmp_e a b"

lemma compare_expr_result:
  assumes "comparer_ok h (comparer c)"
  shows "cmp_result (compare_expr h (comparer c) a b) = cmp_handles a b"
  using assms compare_e_refines [of h "comparer c"]
  by (cases a; cases b) (auto simp: compare_expr_def compare_defined_def refines_def comparer_def)

lemma equal_expr_cmp: "addresses_ok h \<Longrightarrow> equal_expr h a b \<longleftrightarrow> cmp_handles a b = Equal"
  by (simp add: equal_expr_def compare_expr_result comparer_ok_none)

lemma deep_compare_cmp: "addresses_ok h \<Longrightarrow> deep_compare h a b \<longleftrightarrow> cmp_handles a b = LessThan"
  by (simp add: deep_compare_def compare_expr_result comparer_ok_none)

definition plain_addresses :: addresses where
  "plain_addresses = \<lparr>addr_hash = (\<lambda>a b. 0), same_as = (\<lambda>a b. False)\<rparr>"

lemma plain_addresses_ok [simp]: "addresses_ok plain_addresses"
  by (simp add: addresses_ok_def plain_addresses_def)

lemma addr_hash_plain [simp]: "addr_hash plain_addresses a b = 0"
  by (simp add: plain_addresses_def)


lemma tri_LessThan: "tri LessThan LessThan z \<Longrightarrow> z = LessThan"
  by (simp add: tri_def)

lemma tri_Equal_Equal: "tri Equal Equal z \<Longrightarrow> z = Equal"
  by (simp add: tri_def)

lemma cmp_by_not_Unknown: "cmp_by lt a b \<noteq> Unknown"
  by (simp add: cmp_by_def)

definition nan_free_handle :: "Expr \<Rightarrow> bool" where
  "nan_free_handle a = (case a of None \<Rightarrow> True | Some e \<Rightarrow> nan_free e)"

lemma tri_handles:
  "nan_free_handle a \<Longrightarrow> nan_free_handle b \<Longrightarrow> nan_free_handle c \<Longrightarrow>
   tri (cmp_handles a b) (cmp_handles b c) (cmp_handles a c)"
proof (cases a; cases b; cases c)
  fix x y z
  assume "nan_free_handle a" "nan_free_handle b" "nan_free_handle c"
    and "a = Some x" "b = Some y" "c = Some z"
  then show ?thesis using tri_e [of x y z] by (simp add: nan_free_handle_def)
qed (simp_all add: tri_def)

lemma cmp_handles_sym: "cmp_handles b a = flip_result (cmp_handles a b)"
  by (cases a; cases b) (auto intro: cmp_e_sym)

lemma cmp_handles_refl [simp]: "cmp_handles a a = Equal"
  by (cases a) auto

lemma andthen_Unknown: "andthen x y = Unknown \<longleftrightarrow> x = Unknown \<or> (x = Equal \<and> y = Unknown)"
  by (auto simp: andthen_def)

lemma cmp_by_Unknown [simp]: "cmp_by lt a b \<noteq> Unknown"
  by (simp add: cmp_by_def)

lemma cmp_type_Unknown [simp]: "cmp_type s t \<noteq> Unknown"
  by (simp add: cmp_type_def andthen_Unknown)

lemma cmp_es_Unknown:
  "(\<And>x y. x \<in> set xs \<Longrightarrow> cmp_e x y \<noteq> Unknown) \<Longrightarrow> cmp_es xs ys \<noteq> Unknown"
proof (induction xs arbitrary: ys)
  case Nil
  then show ?case by simp
next
  case (Cons x xs)
  then show ?case by (cases ys) (auto simp: andthen_Unknown)
qed

lemma cmp_e_Unknown: "cmp_e a b \<noteq> Unknown"
proof (induction a arbitrary: b)
  case (Call t n args ct f vi im p)
  then show ?case
    using cmp_es_Unknown [of args]
    by (subst cmp_e.simps) (auto simp: andthen_Unknown split: expr.splits)
qed (subst cmp_e.simps; auto simp: andthen_Unknown split: expr.splits)+

lemma cmp_handles_Unknown: "cmp_handles a b \<noteq> Unknown"
  by (cases a; cases b) (auto simp: cmp_e_Unknown)

subsection \<open>Properties\<close>



text \<open>C6: on expressions without a NaN, the comparison object of the maps keyed by
  expressions is a strict order, and two expressions it does not order are the ones
  that \<open>equal\<close> accepts, an equivalence.\<close>

theorem deep_compare_strict_weak_order:
  assumes "addresses_ok h" and "nan_free_handle a" and "nan_free_handle b" and "nan_free_handle c"
  shows "\<not> deep_compare h a a \<and>
    (deep_compare h a b \<longrightarrow> deep_compare h b c \<longrightarrow> deep_compare h a c) \<and>
    (equal_expr h a b \<longleftrightarrow> \<not> deep_compare h a b \<and> \<not> deep_compare h b a) \<and>
    (equal_expr h a b \<longrightarrow> equal_expr h b c \<longrightarrow> equal_expr h a c)"
proof -
  have t: "tri (cmp_handles a b) (cmp_handles b c) (cmp_handles a c)"
    using assms by (simp add: tri_handles)
  have f: "cmp_handles b a = flip_result (cmp_handles a b)" by (rule cmp_handles_sym)
  show ?thesis
    unfolding deep_compare_cmp [OF assms(1)] equal_expr_cmp [OF assms(1)] f
    using t cmp_handles_Unknown [of a b] by (cases "cmp_handles a b") (auto simp: tri_def)
qed

theorem deep_compare_strict_weak_order_witness:
  "equal_expr plain_addresses None (Some (StringImm ''x'')) \<longleftrightarrow>
   \<not> deep_compare plain_addresses None (Some (StringImm ''x'')) \<and>
   \<not> deep_compare plain_addresses (Some (StringImm ''x'')) None"
  using deep_compare_strict_weak_order [of plain_addresses None "Some (StringImm ''x'')" None]
  by (simp add: nan_free_handle_def)

text \<open>C7: well-formed expressions that \<open>equal\<close> accepts have the same value in
  every environment that does not look at the descriptors of handle types.\<close>

theorem equal_expr_same_value:
  assumes "addresses_ok h" and "equal_expr h (Some a) (Some b)"
    and "wf_expr a" and "wf_expr b" and "env_type_ok r"
  shows "eval r a = eval r b"
  using assms by (simp add: equal_expr_cmp eval_cmp_e)

theorem equal_expr_same_value_witness:
  "eval \<lparr>var_val = (\<lambda>n. Some [3]), load_val = (\<lambda>n t i. None), call_val = (\<lambda>t n ct i vs. None)\<rparr>
     (Variable (Int_t 32 1) ''x'' None None None) =
   eval \<lparr>var_val = (\<lambda>n. Some [3]), load_val = (\<lambda>n t i. None), call_val = (\<lambda>t n ct i vs. None)\<rparr>
     (Variable (Int_t 32 1) ''x'' None (Some 7) None)"
  by (rule equal_expr_same_value [of plain_addresses])
    (simp_all add: equal_expr_cmp cmp_e_same Int_t_def type_wf_mk_Type env_type_ok_def)

text \<open>A floating point constant that is a NaN compares equal to every constant of its
  type, so that with NaNs the equality is not transitive: 1.0 equals the NaN, the NaN
  equals 2.0, and 1.0 is less than 2.0.\<close>

theorem nan_equals_every_constant:
  "let F = FloatImm (Float_t 64 1); nan = F 0x7ff8000000000000; h = plain_addresses in
   equal_expr h (Some (F (dbl_of_int 1))) (Some nan) \<and>
   equal_expr h (Some nan) (Some (F (dbl_of_int 2))) \<and>
   deep_compare h (Some (F (dbl_of_int 1))) (Some (F (dbl_of_int 2)))"
proof -
  have "dbl_of_int 1 = 0x3ff0000000000000" "dbl_of_int 2 = 0x4000000000000000" by code_simp+
  moreover have "dbl_nan 0x7ff8000000000000" "dbl_less 0x3ff0000000000000 0x4000000000000000"
    by code_simp+
  ultimately show ?thesis
    by (simp add: Let_def equal_expr_cmp deep_compare_cmp cmp_e_same cmp_by_def dbl_less_def)
qed

end
