(* ===== verification/Scope.thy ===== *)
theory Scope
  imports HalidePrelude
begin

text \<open>
  \<open>src/Scope.h\<close>: the symbol table every visitor keeps, a map from names to stacks of
  values with an optional containing scope. \<open>SmallStack\<close> keeps its top element
  outside the vector of the rest; a popped empty stack holds the default value of its
  element type, here \<open>None\<close>. The iterators and the printer are not modelled.

  The interface the analyses rely on is the locale \<open>name_scope\<close>; it is interpreted
  on this model at the end of the theory.
\<close>

subsection \<open>SmallStack\<close>

record 'a small_stack =
  stack_top :: "'a option"
  stack_rest :: "'a list"
  stack_empty :: bool

definition stack_new :: "'a small_stack" where
  "stack_new = \<lparr>stack_top = None, stack_rest = [], stack_empty = True\<rparr>"

definition stack_pop :: "'a small_stack \<Rightarrow> 'a small_stack" where
  "stack_pop s =
     (if stack_rest s = [] then s\<lparr>stack_empty := True, stack_top := None\<rparr>
      else s\<lparr>stack_top := Some (last (stack_rest s)), stack_rest := butlast (stack_rest s)\<rparr>)"

definition stack_push :: "'a \<Rightarrow> 'a small_stack \<Rightarrow> 'a small_stack" where
  "stack_push t s =
     (let s' = (if stack_empty s then s\<lparr>stack_empty := False\<rparr>
                else s\<lparr>stack_rest := stack_rest s @ (case stack_top s of None \<Rightarrow> [] | Some x \<Rightarrow> [x])\<rparr>)
      in s'\<lparr>stack_top := Some t\<rparr>)"

text \<open>The stack as a list, top first, and the invariant of the three fields.\<close>

definition stack_list :: "'a small_stack \<Rightarrow> 'a list" where
  "stack_list s =
     (if stack_empty s then [] else
      case stack_top s of None \<Rightarrow> [] | Some x \<Rightarrow> x # rev (stack_rest s))"

definition stack_wf :: "'a small_stack \<Rightarrow> bool" where
  "stack_wf s \<longleftrightarrow>
     (if stack_empty s then stack_top s = None \<and> stack_rest s = [] else stack_top s \<noteq> None)"

lemma stack_wf_new: "stack_wf stack_new" "stack_list stack_new = []"
  by (simp_all add: stack_wf_def stack_new_def stack_list_def)

lemma stack_wf_push: "stack_wf s \<Longrightarrow> stack_wf (stack_push x s)"
  by (auto simp: stack_wf_def stack_push_def Let_def)

lemma stack_list_push: "stack_wf s \<Longrightarrow> stack_list (stack_push x s) = x # stack_list s"
  by (auto simp: stack_wf_def stack_push_def stack_list_def Let_def)

lemma stack_wf_pop: "stack_wf s \<Longrightarrow> stack_wf (stack_pop s)"
  by (auto simp: stack_wf_def stack_pop_def)

lemma stack_list_pop: "stack_wf s \<Longrightarrow> stack_list (stack_pop s) = tl (stack_list s)"
proof (cases "stack_rest s" rule: rev_cases)
  case Nil
  then show "stack_wf s \<Longrightarrow> ?thesis"
    by (auto simp: stack_wf_def stack_pop_def stack_list_def split: option.splits)
next
  case (snoc ys y)
  then show "stack_wf s \<Longrightarrow> ?thesis"
    by (auto simp: stack_wf_def stack_pop_def stack_list_def)
qed

lemma stack_pop_push: "stack_wf s \<Longrightarrow> stack_pop (stack_push x s) = s"
  by (cases s) (auto simp: stack_wf_def stack_pop_def stack_push_def Let_def)

lemma stack_empty_iff: "stack_wf s \<Longrightarrow> stack_empty s \<longleftrightarrow> stack_list s = []"
  by (auto simp: stack_wf_def stack_list_def)

lemma stack_top_hd: "stack_wf s \<Longrightarrow> \<not> stack_empty s \<Longrightarrow> stack_top s = Some (hd (stack_list s))"
  by (auto simp: stack_wf_def stack_list_def)

subsection \<open>Scope\<close>

datatype 'a scope = Scope (table: "string \<Rightarrow> 'a small_stack option") (containing: "'a scope option")

definition scope_new :: "'a scope" where
  "scope_new = Scope Map.empty None"

definition set_containing_scope :: "'a scope option \<Rightarrow> 'a scope \<Rightarrow> 'a scope" where
  "set_containing_scope c s = Scope (table s) c"

text \<open>\<open>find\<close> fails when the name has no stack or an empty one.\<close>

fun scope_get :: "'a scope \<Rightarrow> string \<Rightarrow> 'a result" where
  "scope_get (Scope t c) name =
     (case t name of
        Some st \<Rightarrow>
          (if stack_empty st
           then (case c of Some s \<Rightarrow> scope_get s name
                 | None \<Rightarrow> Inl (Internal_error (''Symbol '' @ name @ '' not found'')))
           else (case stack_top st of Some v \<Rightarrow> Inr v | None \<Rightarrow> Inl Undefined_behaviour))
      | None \<Rightarrow>
          (case c of Some s \<Rightarrow> scope_get s name
           | None \<Rightarrow> Inl (Internal_error (''Symbol '' @ name @ '' not found''))))"

fun scope_contains :: "'a scope \<Rightarrow> string \<Rightarrow> bool" where
  "scope_contains (Scope t c) name =
     (if (case t name of Some st \<Rightarrow> stack_empty st | None \<Rightarrow> True)
      then (case c of Some s \<Rightarrow> scope_contains s name | None \<Rightarrow> False)
      else True)"

definition scope_ref :: "'a scope \<Rightarrow> string \<Rightarrow> 'a result" where
  "scope_ref s name =
     (case table s name of
        Some st \<Rightarrow>
          (if stack_empty st then Inl (Internal_error (''Symbol '' @ name @ '' not found''))
           else (case stack_top st of Some v \<Rightarrow> Inr v | None \<Rightarrow> Inl Undefined_behaviour))
      | None \<Rightarrow> Inl (Internal_error (''Symbol '' @ name @ '' not found'')))"

definition scope_push :: "string \<Rightarrow> 'a \<Rightarrow> 'a scope \<Rightarrow> 'a scope" where
  "scope_push name v s =
     Scope ((table s)(name \<mapsto>
       stack_push v (case table s name of Some st \<Rightarrow> st | None \<Rightarrow> stack_new))) (containing s)"

definition scope_pop :: "string \<Rightarrow> 'a scope \<Rightarrow> 'a scope result" where
  "scope_pop name s =
     (case table s name of
        None \<Rightarrow> Inl (Internal_error (''Name not in symbol table: '' @ name))
      | Some st \<Rightarrow>
          (let st' = stack_pop st in
           Inr (Scope ((table s)(name := (if stack_empty st' then None else Some st'))) (containing s))))"

definition scope_swap :: "'a scope \<Rightarrow> 'a scope \<Rightarrow> 'a scope \<times> 'a scope" where
  "scope_swap a b = (Scope (table b) (containing b), Scope (table a) (containing a))"

subsection \<open>The abstract scope\<close>

text \<open>
  A scope stands for a map from names to values; its invariant is that the table holds no
  empty stack, which \<open>pop\<close> maintains by erasing.
\<close>

fun scope_lookup :: "'a scope \<Rightarrow> string \<Rightarrow> 'a option" where
  "scope_lookup (Scope t c) name =
     (case t name of
        Some st \<Rightarrow> (case stack_list st of x # _ \<Rightarrow> Some x
          | [] \<Rightarrow> (case c of Some s \<Rightarrow> scope_lookup s name | None \<Rightarrow> None))
      | None \<Rightarrow> (case c of Some s \<Rightarrow> scope_lookup s name | None \<Rightarrow> None))"

fun scope_wf :: "'a scope \<Rightarrow> bool" where
  "scope_wf (Scope t c) =
     ((\<forall>name st. t name = Some st \<longrightarrow> stack_wf st \<and> \<not> stack_empty st) \<and>
      (case c of Some s \<Rightarrow> scope_wf s | None \<Rightarrow> True))"

lemma scope_wf_new: "scope_wf scope_new"
  by (simp add: scope_new_def)

lemma scope_lookup_new: "scope_lookup scope_new = Map.empty"
  by (rule ext) (simp add: scope_new_def)

lemma scope_wf_push: "scope_wf s \<Longrightarrow> scope_wf (scope_push name v s)"
  by (cases s) (auto simp: scope_push_def stack_push_def Let_def stack_wf_def stack_new_def
      split: option.splits if_splits)

lemma scope_lookup_push:
  "scope_wf s \<Longrightarrow> scope_lookup (scope_push name v s) = (scope_lookup s)(name \<mapsto> v)"
proof (cases s)
  case (Scope t c)
  assume wf: "scope_wf s"
  show ?thesis
  proof
    fix n
    have "stack_wf (case t name of Some st \<Rightarrow> st | None \<Rightarrow> stack_new)"
      using wf Scope by (auto simp: stack_wf_new split: option.splits)
    then show "scope_lookup (scope_push name v s) n = ((scope_lookup s)(name \<mapsto> v)) n"
      using Scope by (simp add: scope_push_def stack_list_push)
  qed
qed

lemma scope_pop_push: "scope_wf s \<Longrightarrow> scope_pop name (scope_push name v s) = Inr s"
proof (cases s)
  case (Scope t c)
  assume "scope_wf s"
  with Scope show ?thesis
    by (cases "t name")
      (auto simp: scope_pop_def scope_push_def stack_pop_push stack_wf_new fun_upd_idem
        stack_new_def stack_wf_def)
qed

lemma scope_contains_lookup: "scope_wf s \<Longrightarrow> scope_contains s name \<longleftrightarrow> scope_lookup s name \<noteq> None"
proof (induction s)
  case (Scope t c)
  show ?case
  proof (cases "t name")
    case None
    then show ?thesis using Scope by (auto split: option.splits)
  next
    case (Some st)
    with Scope.prems have "stack_wf st" and "\<not> stack_empty st" by auto
    then have "stack_list st \<noteq> []" by (simp add: stack_empty_iff)
    with Some \<open>\<not> stack_empty st\<close> show ?thesis by (auto split: list.splits)
  qed
qed

lemma scope_get_lookup:
  "scope_wf s \<Longrightarrow> scope_lookup s name = Some v \<Longrightarrow> scope_get s name = Inr v"
proof (induction s)
  case (Scope t c)
  show ?case
  proof (cases "t name")
    case None
    then show ?thesis using Scope by (auto split: option.splits)
  next
    case (Some st)
    with Scope.prems have "stack_wf st" and ne: "\<not> stack_empty st" by auto
    then have top: "stack_top st = Some (hd (stack_list st))" and "stack_list st \<noteq> []"
      by (simp_all add: stack_top_hd stack_empty_iff)
    with Some ne Scope.prems show ?thesis by (auto split: list.splits)
  qed
qed

lemma scope_get_none:
  "scope_wf s \<Longrightarrow> scope_lookup s name = None \<Longrightarrow>
   scope_get s name = Inl (Internal_error (''Symbol '' @ name @ '' not found''))"
proof (induction s)
  case (Scope t c)
  show ?case
  proof (cases "t name")
    case None
    then show ?thesis using Scope by (auto split: option.splits)
  next
    case (Some st)
    with Scope.prems have "stack_wf st" and ne: "\<not> stack_empty st" by auto
    then have "stack_list st \<noteq> []" by (simp add: stack_empty_iff)
    with Some Scope.prems show ?thesis by (auto split: list.splits)
  qed
qed

subsection \<open>The interface of a scope\<close>

text \<open>
  What a visitor relies on: pushing shadows, popping undoes the last push exactly, lookups
  agree with a map.
\<close>

locale name_scope =
  fixes empty :: "'s"
    and push :: "string \<Rightarrow> 'a \<Rightarrow> 's \<Rightarrow> 's"
    and pop :: "string \<Rightarrow> 's \<Rightarrow> 's result"
    and contains :: "'s \<Rightarrow> string \<Rightarrow> bool"
    and get :: "'s \<Rightarrow> string \<Rightarrow> 'a result"
    and lookup :: "'s \<Rightarrow> string \<Rightarrow> 'a option"
    and invar :: "'s \<Rightarrow> bool"
  assumes invar_empty: "invar empty"
    and lookup_empty: "lookup empty = Map.empty"
    and invar_push: "invar s \<Longrightarrow> invar (push n v s)"
    and lookup_push: "invar s \<Longrightarrow> lookup (push n v s) = (lookup s)(n \<mapsto> v)"
    and pop_push: "invar s \<Longrightarrow> pop n (push n v s) = Inr s"
    and contains_lookup: "invar s \<Longrightarrow> contains s n \<longleftrightarrow> lookup s n \<noteq> None"
    and get_lookup: "invar s \<Longrightarrow> lookup s n = Some v \<Longrightarrow> get s n = Inr v"
begin

text \<open>
  A traversal pushes the names of the binders it enters and pops them on the way out, in
  the opposite order: it leaves the scope as it found it.
\<close>

fun push_all :: "(string \<times> 'a) list \<Rightarrow> 's \<Rightarrow> 's" where
  "push_all [] s = s"
| "push_all ((n, v) # bs) s = push_all bs (push n v s)"

fun pop_all :: "string list \<Rightarrow> 's \<Rightarrow> 's result" where
  "pop_all [] s = Inr s"
| "pop_all (n # ns) s = rbind (pop n s) (pop_all ns)"

lemma invar_push_all: "invar s \<Longrightarrow> invar (push_all bs s)"
  by (induction bs s rule: push_all.induct) (auto intro: invar_push)

lemma lookup_push_all: "invar s \<Longrightarrow> lookup (push_all bs s) = lookup s ++ map_of (rev bs)"
  by (induction bs s rule: push_all.induct) (auto simp: lookup_push invar_push)

lemma pop_all_append: "pop_all (ns @ ms) s = rbind (pop_all ns s) (pop_all ms)"
proof (induction ns arbitrary: s)
  case Nil
  then show ?case by simp
next
  case (Cons n ns)
  then show ?case by (cases "pop n s") auto
qed

lemma pop_all_push_all:
  "invar s \<Longrightarrow> pop_all (rev (map fst bs)) (push_all bs s) = Inr s"
proof (induction bs s rule: push_all.induct)
  case (1 s)
  then show ?case by simp
next
  case (2 n v bs s)
  then show ?case by (simp add: pop_all_append invar_push pop_push)
qed

lemma get_push: "invar s \<Longrightarrow> get (push n v s) n = Inr v"
  by (simp add: get_lookup invar_push lookup_push)

lemma contains_push: "invar s \<Longrightarrow> contains (push n v s) m \<longleftrightarrow> m = n \<or> contains s m"
  by (simp add: contains_lookup invar_push lookup_push)

end

interpretation scp: name_scope scope_new scope_push scope_pop scope_contains scope_get
  scope_lookup scope_wf
  by unfold_locales
    (auto simp: scope_wf_new scope_lookup_new scope_wf_push scope_lookup_push scope_pop_push
      scope_contains_lookup scope_get_lookup)

subsection \<open>Properties\<close>

lemma push_all_fold: "scp.push_all bs s = fold (\<lambda>(n, v). scope_push n v) bs s"
  by (induction bs s rule: scp.push_all.induct) simp_all

lemma pop_all_fold: "rbind r (scp.pop_all ns) = fold (\<lambda>n r. rbind r (scope_pop n)) ns r"
proof (induction ns arbitrary: r)
  case Nil
  then show ?case by (cases r) simp_all
next
  case (Cons n ns)
  from Cons [of "rbind r (scope_pop n)"] show ?case by (cases r) simp_all
qed

text \<open>C30: a traversal that pushes names and values and pops the names in the opposite order
  leaves the scope as it was, and inside it \<open>get\<close> returns the value pushed last for a
  name.\<close>

theorem scope_traversal_restores:
  assumes "scope_wf s"
  shows "fold (\<lambda>n r. rbind r (scope_pop n)) (rev (map fst bs)) (Inr (fold (\<lambda>(n, v). scope_push n v) bs s)) = Inr s
    \<and> (\<forall>n v. map_of (rev bs) n = Some v \<longrightarrow> scope_get (fold (\<lambda>(n, v). scope_push n v) bs s) n = Inr v)"
  using scp.pop_all_push_all [OF assms, of bs] scp.get_lookup [OF scp.invar_push_all [OF assms], of bs]
    scp.lookup_push_all [OF assms, of bs] pop_all_fold [of "Inr (scp.push_all bs s)" "rev (map fst bs)"]
  by (simp add: push_all_fold map_add_Some_iff)

theorem scope_traversal_restores_witness:
  "fold (\<lambda>n r. rbind r (scope_pop n)) [''x'', ''y'', ''x'']
     (Inr (fold (\<lambda>(n, v). scope_push n v) [(''x'', 1::int), (''y'', 2), (''x'', 3)] scope_new)) = Inr scope_new \<and>
   scope_get (fold (\<lambda>(n, v). scope_push n v) [(''x'', 1::int), (''y'', 2), (''x'', 3)] scope_new) ''x'' = Inr 3"
  using scope_traversal_restores [OF scope_wf_new, of "[(''x'', 1::int), (''y'', 2), (''x'', 3)]"] by simp

text \<open>\<open>get\<close> returns the value the name is bound to, in this scope or in a containing
  one, fails the internal assertion for a name that is not bound, and \<open>contains\<close> tells the
  two cases apart.\<close>

theorem scope_get_exact:
  assumes "scope_wf s"
  shows "scope_get s n =
      (case scope_lookup s n of Some v \<Rightarrow> Inr v
       | None \<Rightarrow> Inl (Internal_error (''Symbol '' @ n @ '' not found''))) \<and>
    (scope_contains s n \<longleftrightarrow> scope_lookup s n \<noteq> None)"
  using scope_get_lookup [OF assms] scope_get_none [OF assms] scope_contains_lookup [OF assms]
  by (auto split: option.splits)

theorem scope_get_exact_witness:
  "scope_get (scope_push ''x'' (5::int) scope_new) ''x'' = Inr 5 \<and>
   scope_contains (scope_push ''x'' (5::int) scope_new) ''x''"
  using scope_get_exact [OF scope_wf_push [OF scope_wf_new], of "''x''" 5 "''x''"]
  by (simp add: scope_lookup_push [OF scope_wf_new])

end
