(* ===== verification/IRMutate.thy ===== *)
theory IRMutate
  imports IREquality Scope
begin

text \<open>
  Rewriting of IR trees: the \<open>visit\<close> methods of \<open>IRMutator\<close>
  (\<open>src/IRMutator.cpp\<close>), the substitutions of \<open>src/Substitute.cpp\<close>, and the
  variable test of \<open>src/ExprUsesVar.h\<close>.

  A mutator is given by what \<open>mutate\<close> does on a defined node; the methods that
  rebuild a node from its mutated children take that function as an argument, so that a
  subclass overrides a case by handling it before. A \<open>Scope\<close> that a visitor pushes
  to and pops from around a call is passed down to the call: the pop restores it
  (\<open>scp.pop_all_push_all\<close>). The replacement tables of \<open>IRGraphMutator\<close> only
  remember results of the same function and are not modelled.

  Second half: the interface of a mutator that keeps types and values, and the
  correctness of the substitutions as instances of it.
\<close>

subsection \<open>The base mutator\<close>

definition mutate_handle :: "('a \<Rightarrow> 'a option result) \<Rightarrow> 'a option \<Rightarrow> 'a option result" where
  "mutate_handle m h = (case h of None \<Rightarrow> Inr None | Some x \<Rightarrow> m x)"

text \<open>\<open>op\<close> itself when no child changed, a new node otherwise.\<close>

definition rebuild :: "bool \<Rightarrow> 'a \<Rightarrow> 'a result \<Rightarrow> 'a option result" where
  "rebuild same op mk = (if same then Inr (Some op) else rbind mk (\<lambda>e. Inr (Some e)))"

fun mutate_expr_children :: "(expr \<Rightarrow> Expr result) \<Rightarrow> expr \<Rightarrow> Expr result" where
  "mutate_expr_children m (IntImm t v) = Inr (Some (IntImm t v))"
| "mutate_expr_children m (UIntImm t v) = Inr (Some (UIntImm t v))"
| "mutate_expr_children m (FloatImm t v) = Inr (Some (FloatImm t v))"
| "mutate_expr_children m (StringImm s) = Inr (Some (StringImm s))"
| "mutate_expr_children m (Variable t n im p rd) = Inr (Some (Variable t n im p rd))"
| "mutate_expr_children m (Cast t v) =
     rbind (m v) (\<lambda>v'. rebuild (v' = Some v) (Cast t v) (Cast_make t v'))"
| "mutate_expr_children m (Binary op a b) =
     rbind (m a) (\<lambda>a'. rbind (m b) (\<lambda>b'.
     rebuild (a' = Some a \<and> b' = Some b) (Binary op a b) (binary_make op a' b')))"
| "mutate_expr_children m (NotE a) =
     rbind (m a) (\<lambda>a'. rebuild (a' = Some a) (NotE a) (Not_make a'))"
| "mutate_expr_children m (Select c t f) =
     rbind (m c) (\<lambda>c'. rbind (m t) (\<lambda>t'. rbind (m f) (\<lambda>f'.
     rebuild (c' = Some c \<and> t' = Some t \<and> f' = Some f) (Select c t f) (Select_make c' t' f'))))"
| "mutate_expr_children m (Load t n i im p) =
     rbind (m i) (\<lambda>i'. rebuild (i' = Some i) (Load t n i im p) (Load_make t n i' im p))"
| "mutate_expr_children m (Ramp b s n) =
     rbind (m b) (\<lambda>b'. rbind (m s) (\<lambda>s'.
     rebuild (b' = Some b \<and> s' = Some s) (Ramp b s n) (Ramp_make b' s' n)))"
| "mutate_expr_children m (Broadcast v n) =
     rbind (m v) (\<lambda>v'. rebuild (v' = Some v) (Broadcast v n) (Broadcast_make v' n))"
| "mutate_expr_children m (Call t n args ct f vi im p) =
     rbind (rmap m args) (\<lambda>args'.
     rebuild (args' = map Some args) (Call t n args ct f vi im p) (Call_make t n args' ct f vi im p))"
| "mutate_expr_children m (LetE n v b) =
     rbind (m v) (\<lambda>v'. rbind (m b) (\<lambda>b'.
     rebuild (v' = Some v \<and> b' = Some b) (LetE n v b) (Let_make n v' b')))"

text \<open>
  The bounds of a \<open>Realize\<close> are always built anew by the constructor of
  \<open>Range\<close>, which dereferences both handles to compare their types.
\<close>

definition mutate_range :: "(expr \<Rightarrow> Expr result) \<Rightarrow> Range \<Rightarrow> Range result" where
  "mutate_range m r =
     rbind (m (range_min r)) (\<lambda>mn. rbind (m (range_extent r)) (\<lambda>ext.
     case (mn, ext) of
       (Some a, Some b) \<Rightarrow> Range_make a b
     | _ \<Rightarrow> Inl Undefined_behaviour))"

text \<open>The message of an \<open>AssertStmt\<close> is dereferenced by \<open>make\<close>.\<close>

definition deref :: "'a option \<Rightarrow> 'a result" where
  "deref h = (case h of None \<Rightarrow> Inl Undefined_behaviour | Some x \<Rightarrow> Inr x)"

fun mutate_stmt_children ::
  "(expr \<Rightarrow> Expr result) \<Rightarrow> (stmt \<Rightarrow> Stmt result) \<Rightarrow> stmt \<Rightarrow> Stmt result" where
  "mutate_stmt_children me ms (LetStmt n v b) =
     rbind (me v) (\<lambda>v'. rbind (ms b) (\<lambda>b'.
     rebuild (v' = Some v \<and> b' = Some b) (LetStmt n v b) (LetStmt_make n v' b')))"
| "mutate_stmt_children me ms (AssertStmt c msg) =
     rbind (me c) (\<lambda>c'. rbind (me msg) (\<lambda>msg'.
     rebuild (c' = Some c \<and> msg' = Some msg) (AssertStmt c msg)
       (rbind (defined_handle c' ''AssertStmt of undefined'') (\<lambda>c.
        rbind (deref msg') (\<lambda>msg. AssertStmt_make (Some c) msg)))))"
| "mutate_stmt_children me ms (ProducerConsumer n p u c) =
     rbind (ms p) (\<lambda>p'. rbind (mutate_handle ms u) (\<lambda>u'. rbind (ms c) (\<lambda>c'.
     rebuild (p' = Some p \<and> u' = u \<and> c' = Some c) (ProducerConsumer n p u c)
       (ProducerConsumer_make n p' u' c'))))"
| "mutate_stmt_children me ms (For n mn ext ft d b) =
     rbind (me mn) (\<lambda>mn'. rbind (me ext) (\<lambda>ext'. rbind (ms b) (\<lambda>b'.
     rebuild (mn' = Some mn \<and> ext' = Some ext \<and> b' = Some b) (For n mn ext ft d b)
       (For_make n mn' ext' ft d b'))))"
| "mutate_stmt_children me ms (Store n v i p) =
     rbind (me v) (\<lambda>v'. rbind (me i) (\<lambda>i'.
     rebuild (v' = Some v \<and> i' = Some i) (Store n v i p) (Store_make n v' i' p)))"
| "mutate_stmt_children me ms (Provide n vs args) =
     rbind (rmap me args) (\<lambda>args'. rbind (rmap me vs) (\<lambda>vs'.
     rebuild (args' = map Some args \<and> vs' = map Some vs) (Provide n vs args)
       (Provide_make n vs' args')))"
| "mutate_stmt_children me ms (Allocate n t exts c ne ff b) =
     rbind (rmap me exts) (\<lambda>exts'. rbind (ms b) (\<lambda>b'. rbind (me c) (\<lambda>c'.
     rbind (mutate_handle me ne) (\<lambda>ne'.
     rebuild (exts' = map Some exts \<and> b' = Some b \<and> c' = Some c \<and> ne' = ne)
       (Allocate n t exts c ne ff b) (Allocate_make n t exts' c' b' ne' ff)))))"
| "mutate_stmt_children me ms (Free n) = Inr (Some (Free n))"
| "mutate_stmt_children me ms (Realize n ts bs c b) =
     rbind (rmap (mutate_range me) bs) (\<lambda>bs'. rbind (ms b) (\<lambda>b'. rbind (me c) (\<lambda>c'.
     rebuild (bs' = bs \<and> b' = Some b \<and> c' = Some c) (Realize n ts bs c b)
       (Realize_make n ts bs' c' b'))))"
| "mutate_stmt_children me ms (Block f r) =
     rbind (ms f) (\<lambda>f'. rbind (ms r) (\<lambda>r'.
     rebuild (f' = Some f \<and> r' = Some r) (Block f r) (Block_make f' r')))"
| "mutate_stmt_children me ms (IfThenElse c t e) =
     rbind (me c) (\<lambda>c'. rbind (ms t) (\<lambda>t'. rbind (mutate_handle ms e) (\<lambda>e'.
     rebuild (c' = Some c \<and> t' = Some t \<and> e' = e) (IfThenElse c t e) (IfThenElse_make c' t' e'))))"
| "mutate_stmt_children me ms (Evaluate v) =
     rbind (me v) (\<lambda>v'. rebuild (v' = Some v) (Evaluate v) (Evaluate_make v'))"

subsection \<open>Children and sizes\<close>

fun expr_children :: "expr \<Rightarrow> expr list" where
  "expr_children (Cast t v) = [v]"
| "expr_children (Binary op a b) = [a, b]"
| "expr_children (NotE a) = [a]"
| "expr_children (Select c t f) = [c, t, f]"
| "expr_children (Load t n i im p) = [i]"
| "expr_children (Ramp b s n) = [b, s]"
| "expr_children (Broadcast v n) = [v]"
| "expr_children (Call t n args ct f vi im p) = args"
| "expr_children (LetE n v b) = [v, b]"
| "expr_children _ = []"

datatype ir_node = Expr_node expr | Stmt_node stmt

definition opt_expr_node :: "Expr \<Rightarrow> ir_node list" where
  "opt_expr_node h = (case h of None \<Rightarrow> [] | Some e \<Rightarrow> [Expr_node e])"

definition opt_stmt_node :: "Stmt \<Rightarrow> ir_node list" where
  "opt_stmt_node h = (case h of None \<Rightarrow> [] | Some s \<Rightarrow> [Stmt_node s])"

text \<open>The children of a statement in the order in which \<open>IRGraphVisitor\<close> visits them.\<close>

fun stmt_nodes :: "stmt \<Rightarrow> ir_node list" where
  "stmt_nodes (LetStmt n v b) = [Expr_node v, Stmt_node b]"
| "stmt_nodes (AssertStmt c m) = [Expr_node c, Expr_node m]"
| "stmt_nodes (ProducerConsumer n p u c) = [Stmt_node p] @ opt_stmt_node u @ [Stmt_node c]"
| "stmt_nodes (For n mn ext ft d b) = [Expr_node mn, Expr_node ext, Stmt_node b]"
| "stmt_nodes (Store n v i p) = [Expr_node v, Expr_node i]"
| "stmt_nodes (Provide n vs args) = map Expr_node vs @ map Expr_node args"
| "stmt_nodes (Allocate n t exts c ne ff b) =
     map Expr_node exts @ [Expr_node c] @ opt_expr_node ne @ [Stmt_node b]"
| "stmt_nodes (Free n) = []"
| "stmt_nodes (Realize n ts bs c b) =
     concat (map (\<lambda>r. [Expr_node (range_min r), Expr_node (range_extent r)]) bs) @
     [Expr_node c, Stmt_node b]"
| "stmt_nodes (Block f r) = [Stmt_node f, Stmt_node r]"
| "stmt_nodes (IfThenElse c t e) = [Expr_node c, Stmt_node t] @ opt_stmt_node e"
| "stmt_nodes (Evaluate v) = [Expr_node v]"

lemma opt_node_iff [simp]:
  "Expr_node e \<in> set (opt_expr_node h) \<longleftrightarrow> h = Some e"
  "Stmt_node s \<in> set (opt_stmt_node k) \<longleftrightarrow> k = Some s"
  "Stmt_node s \<notin> set (opt_expr_node h)" "Expr_node e \<notin> set (opt_stmt_node k)"
  by (auto simp: opt_expr_node_def opt_stmt_node_def split: option.splits)

lemma expr_children_size [termination_simp]: "c \<in> set (expr_children e) \<Longrightarrow> size c < size e"
  by (cases e) (auto simp: less_Suc_eq_le intro: size_list_estimation' le_SucI trans_le_add1 trans_le_add2)

lemma stmt_children_size [termination_simp]: "Stmt_node c \<in> set (stmt_nodes s) \<Longrightarrow> size c < size s"
  by (cases s) auto

lemma rebuild_Inr [simp]:
  "rebuild same op mk = Inr r \<longleftrightarrow> (same \<and> r = Some op) \<or> (\<not> same \<and> (\<exists>e. mk = Inr e \<and> r = Some e))"
  by (auto simp: rebuild_def)

lemma mutate_expr_children_cong [fundef_cong]:
  assumes "e = e'" and "\<And>c. c \<in> set (expr_children e') \<Longrightarrow> m c = m' c"
  shows "mutate_expr_children m e = mutate_expr_children m' e'"
  unfolding assms(1) using assms(2)
  by (cases e') (auto cong: rmap_cong)

lemma mutate_handle_cong [fundef_cong]:
  "h = h' \<Longrightarrow> (\<And>x. h' = Some x \<Longrightarrow> m x = m' x) \<Longrightarrow> mutate_handle m h = mutate_handle m' h'"
  by (auto simp: mutate_handle_def split: option.splits)

lemma mutate_range_cong [fundef_cong]:
  "r = r' \<Longrightarrow> m (range_min r') = m' (range_min r') \<Longrightarrow> m (range_extent r') = m' (range_extent r') \<Longrightarrow>
   mutate_range m r = mutate_range m' r'"
  by (simp add: mutate_range_def)

lemma mutate_stmt_children_cong [fundef_cong]:
  assumes "s = s'" and "\<And>e. Expr_node e \<in> set (stmt_nodes s') \<Longrightarrow> me e = me' e"
    and "\<And>c. Stmt_node c \<in> set (stmt_nodes s') \<Longrightarrow> ms c = ms' c"
  shows "mutate_stmt_children me ms s = mutate_stmt_children me' ms' s'"
proof (cases s')
  case (Realize n ts bs c b)
  have "mutate_range me r = mutate_range me' r" if "r \<in> set bs" for r
    using that Realize by (intro mutate_range_cong assms(2)) auto
  then have "rmap (mutate_range me) bs = rmap (mutate_range me') bs"
    by (intro rmap_cong) auto
  with Realize assms show ?thesis by simp
qed (use assms in \<open>auto cong: rmap_cong mutate_handle_cong\<close>)

subsection \<open>Using a variable\<close>

text \<open>
  \<open>ExprUsesVars\<close> with an empty scope of definitions, as \<open>expr_uses_var\<close> and
  \<open>stmt_uses_var\<close> call it: whether a variable of \<open>vars\<close> is named anywhere.
\<close>

fun expr_uses_vars :: "'a scope \<Rightarrow> expr \<Rightarrow> bool" where
  "expr_uses_vars vars e =
     (case e of Variable t n im p rd \<Rightarrow> scope_contains vars n
      | _ \<Rightarrow> list_ex (expr_uses_vars vars) (expr_children e))"

declare expr_uses_vars.simps [simp del]

fun stmt_uses_vars :: "'a scope \<Rightarrow> stmt \<Rightarrow> bool" where
  "stmt_uses_vars vars s =
     list_ex (\<lambda>x. case x of Expr_node e \<Rightarrow> expr_uses_vars vars e | Stmt_node c \<Rightarrow> stmt_uses_vars vars c)
       (stmt_nodes s)"

declare stmt_uses_vars.simps [simp del]

definition expr_uses_var :: "expr \<Rightarrow> string \<Rightarrow> bool" where
  "expr_uses_var e v = expr_uses_vars (scope_push v (0 :: int) scope_new) e"

definition stmt_uses_var :: "stmt \<Rightarrow> string \<Rightarrow> bool" where
  "stmt_uses_var s v = stmt_uses_vars (scope_push v (0 :: int) scope_new) s"

subsection \<open>Substitute\<close>

text \<open>The names bound on the way are hidden from the substitution.\<close>

definition find_replacement :: "(string \<Rightarrow> Expr option) \<Rightarrow> int scope \<Rightarrow> string \<Rightarrow> Expr" where
  "find_replacement replace hidden s =
     (case replace s of Some r \<Rightarrow> if \<not> scope_contains hidden s then r else None | None \<Rightarrow> None)"

fun substitute_e :: "(string \<Rightarrow> Expr option) \<Rightarrow> int scope \<Rightarrow> expr \<Rightarrow> Expr result" where
  "substitute_e replace hidden e =
     (case e of
        Variable t n im p rd \<Rightarrow>
          (case find_replacement replace hidden n of
             Some r \<Rightarrow> Inr (Some r)
           | None \<Rightarrow> Inr (Some e))
      | LetE n v b \<Rightarrow>
          rbind (substitute_e replace hidden v) (\<lambda>v'.
          rbind (substitute_e replace (scope_push n 0 hidden) b) (\<lambda>b'.
          rebuild (v' = Some v \<and> b' = Some b) e (Let_make n v' b')))
      | _ \<Rightarrow> mutate_expr_children (substitute_e replace hidden) e)"

declare substitute_e.simps [simp del]

fun substitute_s :: "(string \<Rightarrow> Expr option) \<Rightarrow> int scope \<Rightarrow> stmt \<Rightarrow> Stmt result" where
  "substitute_s replace hidden s =
     (case s of
        LetStmt n v b \<Rightarrow>
          rbind (substitute_e replace hidden v) (\<lambda>v'.
          rbind (substitute_s replace (scope_push n 0 hidden) b) (\<lambda>b'.
          rebuild (v' = Some v \<and> b' = Some b) s (LetStmt_make n v' b')))
      | For n mn ext ft d b \<Rightarrow>
          rbind (substitute_e replace hidden mn) (\<lambda>mn'.
          rbind (substitute_e replace hidden ext) (\<lambda>ext'.
          rbind (substitute_s replace (scope_push n 0 hidden) b) (\<lambda>b'.
          rebuild (mn' = Some mn \<and> ext' = Some ext \<and> b' = Some b) s
            (For_make n mn' ext' ft d b'))))
      | _ \<Rightarrow> mutate_stmt_children (substitute_e replace hidden) (substitute_s replace hidden) s)"

declare substitute_s.simps [simp del]

definition substitute_map :: "(string \<Rightarrow> Expr option) \<Rightarrow> Expr \<Rightarrow> Expr result" where
  "substitute_map m e = mutate_handle (substitute_e m scope_new) e"

definition substitute_map_stmt :: "(string \<Rightarrow> Expr option) \<Rightarrow> Stmt \<Rightarrow> Stmt result" where
  "substitute_map_stmt m s = mutate_handle (substitute_s m scope_new) s"

definition substitute :: "string \<Rightarrow> Expr \<Rightarrow> Expr \<Rightarrow> Expr result" where
  "substitute name replacement e = substitute_map [name \<mapsto> replacement] e"

definition substitute_stmt :: "string \<Rightarrow> Expr \<Rightarrow> Stmt \<Rightarrow> Stmt result" where
  "substitute_stmt name replacement s = substitute_map_stmt [name \<mapsto> replacement] s"

subsection \<open>Substitute an expression for an expression\<close>

fun substitute_expr_e :: "addresses \<Rightarrow> Expr \<Rightarrow> Expr \<Rightarrow> expr \<Rightarrow> Expr result" where
  "substitute_expr_e h fnd replacement e =
     (if equal_expr h (Some e) fnd then Inr replacement
      else mutate_expr_children (substitute_expr_e h fnd replacement) e)"

declare substitute_expr_e.simps [simp del]

fun substitute_expr_s :: "addresses \<Rightarrow> Expr \<Rightarrow> Expr \<Rightarrow> stmt \<Rightarrow> Stmt result" where
  "substitute_expr_s h fnd replacement s =
     mutate_stmt_children (substitute_expr_e h fnd replacement)
       (substitute_expr_s h fnd replacement) s"

declare substitute_expr_s.simps [simp del]

definition substitute_expr :: "addresses \<Rightarrow> Expr \<Rightarrow> Expr \<Rightarrow> Expr \<Rightarrow> Expr result" where
  "substitute_expr h fnd replacement e =
     (case e of
        None \<Rightarrow> Inr (if equal_expr h None fnd then replacement else None)
      | Some x \<Rightarrow> substitute_expr_e h fnd replacement x)"

definition substitute_expr_stmt :: "addresses \<Rightarrow> Expr \<Rightarrow> Expr \<Rightarrow> Stmt \<Rightarrow> Stmt result" where
  "substitute_expr_stmt h fnd replacement s = mutate_handle (substitute_expr_s h fnd replacement) s"

subsection \<open>Substitution in graphs\<close>

fun graph_substitute_e :: "string \<Rightarrow> Expr \<Rightarrow> expr \<Rightarrow> Expr result" where
  "graph_substitute_e var val e =
     (case e of
        Variable t n im p rd \<Rightarrow> Inr (if n = var then val else Some e)
      | _ \<Rightarrow> mutate_expr_children (graph_substitute_e var val) e)"

declare graph_substitute_e.simps [simp del]

fun graph_substitute_s :: "string \<Rightarrow> Expr \<Rightarrow> stmt \<Rightarrow> Stmt result" where
  "graph_substitute_s var val s =
     mutate_stmt_children (graph_substitute_e var val) (graph_substitute_s var val) s"

declare graph_substitute_s.simps [simp del]

definition graph_substitute :: "string \<Rightarrow> Expr \<Rightarrow> Expr \<Rightarrow> Expr result" where
  "graph_substitute name replacement e = mutate_handle (graph_substitute_e name replacement) e"

definition graph_substitute_stmt :: "string \<Rightarrow> Expr \<Rightarrow> Stmt \<Rightarrow> Stmt result" where
  "graph_substitute_stmt name replacement s = mutate_handle (graph_substitute_s name replacement) s"

text \<open>\<open>GraphSubstituteExpr\<close> compares handles by their address.\<close>

definition find_by_address :: "addresses \<Rightarrow> expr \<Rightarrow> Expr \<Rightarrow> bool" where
  "find_by_address h e fnd = (case fnd of None \<Rightarrow> False | Some f \<Rightarrow> same_as h e f)"

fun graph_substitute_expr_e :: "addresses \<Rightarrow> Expr \<Rightarrow> Expr \<Rightarrow> expr \<Rightarrow> Expr result" where
  "graph_substitute_expr_e h fnd repl e =
     (if find_by_address h e fnd then Inr repl
      else mutate_expr_children (graph_substitute_expr_e h fnd repl) e)"

declare graph_substitute_expr_e.simps [simp del]

fun graph_substitute_expr_s :: "addresses \<Rightarrow> Expr \<Rightarrow> Expr \<Rightarrow> stmt \<Rightarrow> Stmt result" where
  "graph_substitute_expr_s h fnd repl s =
     mutate_stmt_children (graph_substitute_expr_e h fnd repl) (graph_substitute_expr_s h fnd repl) s"

declare graph_substitute_expr_s.simps [simp del]

fun substitute_in_all_lets_e :: "expr \<Rightarrow> Expr result" where
  "substitute_in_all_lets_e e =
     (case e of
        LetE n v b \<Rightarrow>
          rbind (substitute_in_all_lets_e v) (\<lambda>v'.
          rbind (substitute_in_all_lets_e b) (\<lambda>b'.
          graph_substitute n v' b'))
      | _ \<Rightarrow> mutate_expr_children substitute_in_all_lets_e e)"

declare substitute_in_all_lets_e.simps [simp del]

fun substitute_in_all_lets_s :: "stmt \<Rightarrow> Stmt result" where
  "substitute_in_all_lets_s s =
     mutate_stmt_children substitute_in_all_lets_e substitute_in_all_lets_s s"

declare substitute_in_all_lets_s.simps [simp del]

subsection \<open>Facts: what a rebuilt node is\<close>

lemmas make_defs = Cast_make_def binary_make_def Not_make_def Select_make_def Load_make_def
  Ramp_make_def Broadcast_make_def Call_make_def Let_make_def

lemma defined_handle_Inr [simp]: "defined_handle h msg = Inr x \<longleftrightarrow> h = Some x"
  by (cases h) (auto simp: defined_handle_def)

lemma defined_handle_Some [simp]: "defined_handle (Some x) msg = Inr x"
  by (simp add: defined_handle_def)

lemma rmap_defined_handle [simp]: "rmap (\<lambda>a. defined_handle a msg) hs = Inr xs \<longleftrightarrow> hs = map Some xs"
proof (induction hs arbitrary: xs)
  case Nil
  then show ?case by auto
next
  case (Cons h hs)
  then show ?case by (cases xs) auto
qed

lemma rmap_Inr_map: "rmap m xs = Inr (map Some ys) \<longleftrightarrow> list_all2 (\<lambda>x y. m x = Inr (Some y)) xs ys"
  by (simp add: rmap_eq_Inr_iff list_all2_map2)

lemma mutate_expr_children_result:
  assumes "mutate_expr_children m e = Inr (Some e')"
  shows "expr_type_info e' = expr_type_info e \<and>
    list_all2 (\<lambda>c c'. m c = Inr (Some c')) (expr_children e) (expr_children e')"
  using assms
  by (cases e) (auto simp: make_defs rmap_Inr_map dest!: rmap_Inr_map [THEN iffD1])

text \<open>
  What a mutator that keeps types and values promises for an expression: a well-formed
  result of the same type that has the value of the original, wherever the original has one.
\<close>

definition refines_to :: "env \<Rightarrow> env \<Rightarrow> expr \<Rightarrow> expr \<Rightarrow> bool" where
  "refines_to r r' e e' \<longleftrightarrow>
     wf_expr e' \<and> type_eq (type_of e') (type_of e) \<and>
     (\<forall>ys. eval r e = Some ys \<longrightarrow> eval r' e' = Some ys)"

definition same_memory :: "env \<Rightarrow> env \<Rightarrow> bool" where
  "same_memory r r' \<longleftrightarrow> load_val r = load_val r' \<and> call_val r = call_val r'"

lemma refines_to_refl: "wf_expr e \<Longrightarrow> refines_to r r e e"
  by (simp add: refines_to_def)

lemma refines_to_trans:
  "refines_to r1 r2 a b \<Longrightarrow> refines_to r2 r3 b c \<Longrightarrow> refines_to r1 r3 a c"
  by (auto simp: refines_to_def intro: type_eq_trans)

lemma type_eq_cmp: "type_eq s t \<Longrightarrow> cmp_type s t = Equal"
  by (simp add: type_eq_def cmp_type_Equal)

lemmas type_eq_fit = cmp_type_fit [OF type_eq_cmp]

lemma type_eq_predicates:
  "type_eq s t \<Longrightarrow> is_bool s = is_bool t" "type_eq s t \<Longrightarrow> is_scalar s = is_scalar t"
  "type_eq s t \<Longrightarrow> lanes s = lanes t" "type_eq s t \<Longrightarrow> is_handle s = is_handle t"
  "type_eq s t \<Longrightarrow> is_int s = is_int t" "type_eq s t \<Longrightarrow> is_uint s = is_uint t"
  by (simp_all add: type_eq_def type_predicates)

lemma type_eq_with_lanes: "type_eq s t \<Longrightarrow> with_lanes n s = with_lanes n t"
  by (simp add: type_eq_def with_lanes_def)

lemma type_eq_Binary:
  "type_eq (type_of a') (type_of a) \<Longrightarrow> type_eq (type_of (Binary op a' b')) (type_of (Binary op a b))"
  by (auto simp: type_eq_predicates)

lemma option_bind_mono:
  "Option.bind m f = Some y \<Longrightarrow> (\<And>x. m = Some x \<Longrightarrow> m' = Some x) \<Longrightarrow>
   (\<And>x. f x = Some y \<Longrightarrow> f' x = Some y) \<Longrightarrow> Option.bind m' f' = Some y"
  by (cases m) auto

lemma binary_refines:
  assumes wf: "wf_expr (Binary op a b)" and a: "refines_to r r' a a'" and b: "refines_to r r' b b'"
  shows "binary_make op (Some a') (Some b') = Inr (Binary op a' b')"
    and "refines_to r r' (Binary op a b) (Binary op a' b')"
proof -
  have ta: "type_eq (type_of a') (type_of a)" and tb: "type_eq (type_of b') (type_of b)"
    using a b by (simp_all add: refines_to_def)
  have t: "type_eq (type_of a') (type_of b')"
    using ta tb wf by (auto intro: type_eq_trans type_eq_sym)
  have l: "is_logical op \<longrightarrow> is_bool (type_of a') \<and> is_bool (type_of b')"
    using wf ta tb by (auto simp: type_eq_predicates)
  show "binary_make op (Some a') (Some b') = Inr (Binary op a' b')"
    using t l by (simp add: binary_make_def)
  have "binop_val op (type_of a) = binop_val op (type_of a')"
    using type_eq_fit(3) [OF ta] by metis
  then have "eval r' (Binary op a' b') = Some ys" if "eval r (Binary op a b) = Some ys" for ys
    using that a b by (auto simp: refines_to_def elim!: bind_eq_SomeE)
  then show "refines_to r r' (Binary op a b) (Binary op a' b')"
    using t l a b type_eq_Binary [OF ta] by (simp add: refines_to_def)
qed

lemma select_refines:
  assumes wf: "wf_expr (Select c t f)"
    and c: "refines_to r r' c c'" and t: "refines_to r r' t t'" and f: "refines_to r r' f f'"
  shows "Select_make (Some c') (Some t') (Some f') = Inr (Select c' t' f')"
    and "refines_to r r' (Select c t f) (Select c' t' f')"
proof -
  have ty: "type_eq (type_of c') (type_of c)" "type_eq (type_of t') (type_of t)"
      "type_eq (type_of f') (type_of f)"
    using c t f by (simp_all add: refines_to_def)
  have tf: "type_eq (type_of f') (type_of t')"
    using ty wf by (auto intro: type_eq_trans type_eq_sym)
  have l: "is_bool (type_of c')" "is_scalar (type_of c') \<or> lanes (type_of c') = lanes (type_of t')"
    using wf ty by (auto simp: type_eq_predicates)
  show "Select_make (Some c') (Some t') (Some f') = Inr (Select c' t' f')"
    using tf l by (simp add: Select_make_def)
  show "refines_to r r' (Select c t f) (Select c' t' f')"
    using tf l c t f by (auto simp: refines_to_def elim!: bind_eq_SomeE)
qed

lemma ramp_refines:
  assumes wf: "wf_expr (Ramp b s n)" and b: "refines_to r r' b b'" and s: "refines_to r r' s s'"
  shows "Ramp_make (Some b') (Some s') n = Inr (Ramp b' s' n)"
    and "refines_to r r' (Ramp b s n) (Ramp b' s' n)"
proof -
  have ty: "type_eq (type_of b') (type_of b)" "type_eq (type_of s') (type_of s)"
    using b s by (simp_all add: refines_to_def)
  have t: "type_eq (type_of s') (type_of b')"
    using ty wf by (auto intro: type_eq_trans type_eq_sym)
  have l: "is_scalar (type_of b')" "is_scalar (type_of s')"
    using wf ty by (auto simp: type_eq_predicates)
  show "Ramp_make (Some b') (Some s') n = Inr (Ramp b' s' n)"
    using t l wf by (simp add: Ramp_make_def)
  have "fit (type_of b) = fit (type_of b')"
    using type_eq_fit(1) [OF ty(1)] by simp
  then have "eval r' (Ramp b' s' n) = Some ys" if "eval r (Ramp b s n) = Some ys" for ys
    using that b s by (auto simp: refines_to_def elim!: bind_eq_SomeE split: if_splits)
  then show "refines_to r r' (Ramp b s n) (Ramp b' s' n)"
    using t l b s wf type_eq_with_lanes [OF ty(1)] by (simp add: refines_to_def)
qed

lemma eval_args_refine:
  assumes "list_all2 (refines_to r r') args args'" and "those (map (eval r) args) = Some vs"
  shows "those (map (eval r') args') = Some vs"
proof -
  have "list_all2 (\<lambda>a v. eval r a = Some v) args vs"
    using assms(2) by (simp add: those_map_eq_Some)
  then have "list_all2 (\<lambda>a v. eval r' a = Some v) args' vs"
    using assms(1) by (auto simp: list_all2_conv_all_nth refines_to_def)
  then show ?thesis by (simp add: those_map_eq_Some)
qed

lemma call_refines:
  assumes wf: "wf_expr (Call t n args ct f vi im p)" and args: "list_all2 (refines_to r r') args args'"
    and mem: "same_memory r r'"
  shows "Call_make t n (map Some args') ct f vi im p = Inr (Call t n args' ct f vi im p)"
    and "refines_to r r' (Call t n args ct f vi im p) (Call t n args' ct f vi im p)"
proof -
  have ty: "list_all2 (\<lambda>a a'. type_eq (type_of a') (type_of a) \<and> wf_expr a') args args'"
    using args by (rule list_all2_mono) (simp add: refines_to_def)
  have same: "(\<forall>a \<in> set args. type_eq (type_of a) s) \<Longrightarrow> (\<forall>a \<in> set args'. type_eq (type_of a) s)" for s
    using ty by (induction rule: list_all2_induct) (auto intro: type_eq_trans)
  have wf': "\<forall>a \<in> set args'. wf_expr a"
    using ty by (induction rule: list_all2_induct) auto
  have last: "args \<noteq> [] \<Longrightarrow> type_eq t (type_of (last args)) \<Longrightarrow> args' \<noteq> [] \<and> type_eq t (type_of (last args'))"
    using ty list_all2_last [OF ty] by (auto intro: type_eq_trans type_eq_sym)
  show "Call_make t n (map Some args') ct f vi im p = Inr (Call t n args' ct f vi im p)"
  proof -
    have "rmap (\<lambda>a. defined_handle a ''Call of undefined'') (map Some args') = Inr args'" by simp
    moreover have "(if ct = Halide then
              internal_assert (\<forall>a \<in> set args'. type_eq (type_of a) (Int_t 32 1))
                ''Args to call to halide function must be type Int(32)''
            else if ct = Image then
              rbind (internal_assert (p \<noteq> None \<or> im \<noteq> None) ''Call node to undefined image'') (\<lambda>_.
              internal_assert (\<forall>a \<in> set args'. type_eq (type_of a) (Int_t 32 1))
                ''Args to load from image must be type Int(32)'')
            else Inr ()) = Inr ()"
      using wf same [of "Int_t 32 1"] by (auto simp: internal_assert_def)
    ultimately show ?thesis by (simp add: Call_make_def)
  qed
  have "eval r' (Call t n args' ct f vi im p) = Some ys" if "eval r (Call t n args ct f vi im p) = Some ys" for ys
    using that eval_args_refine [OF args] mem
    by (auto simp: same_memory_def elim!: bind_eq_SomeE split: if_splits)
  then show "refines_to r r' (Call t n args ct f vi im p) (Call t n args' ct f vi im p)"
    using wf wf' same [of "Int_t 32 1"] last by (auto simp: refines_to_def)
qed

lemma cast_refines:
  assumes "wf_expr (Cast t v)" and "refines_to r r' v v'"
  shows "Cast_make t (Some v') = Inr (Cast t v')" and "refines_to r r' (Cast t v) (Cast t v')"
  using assms by (auto simp: refines_to_def Cast_make_def type_eq_predicates elim!: bind_eq_SomeE)

lemma not_refines:
  assumes "wf_expr (NotE v)" and "refines_to r r' v v'"
  shows "Not_make (Some v') = Inr (NotE v')" and "refines_to r r' (NotE v) (NotE v')"
  using assms by (auto simp: refines_to_def Not_make_def type_eq_predicates elim!: bind_eq_SomeE)

lemma load_refines:
  assumes "wf_expr (Load t n i im p)" and "refines_to r r' i i'" and "same_memory r r'"
  shows "Load_make t n (Some i') im p = Inr (Load t n i' im p)"
    and "refines_to r r' (Load t n i im p) (Load t n i' im p)"
  using assms
  by (auto simp: refines_to_def Load_make_def type_eq_predicates same_memory_def elim!: bind_eq_SomeE)

lemma broadcast_refines:
  assumes "wf_expr (Broadcast v n)" and "refines_to r r' v v'"
  shows "Broadcast_make (Some v') n = Inr (Broadcast v' n)"
    and "refines_to r r' (Broadcast v n) (Broadcast v' n)"
  using assms type_eq_with_lanes [of "type_of v'" "type_of v" n]
  by (auto simp: refines_to_def Broadcast_make_def type_eq_predicates elim!: bind_eq_SomeE)

lemma let_refines:
  assumes "wf_expr (LetE n v b)" and "refines_to r r' v v'"
    and "\<And>xs. eval r v = Some xs \<Longrightarrow>
      \<forall>ys. eval (r\<lparr>var_val := (var_val r)(n \<mapsto> xs)\<rparr>) b = Some ys \<longrightarrow>
        eval (r'\<lparr>var_val := (var_val r')(n \<mapsto> xs)\<rparr>) b' = Some ys"
    and "wf_expr b'" and "type_eq (type_of b') (type_of b)"
  shows "Let_make n (Some v') (Some b') = Inr (LetE n v' b')"
    and "refines_to r r' (LetE n v b) (LetE n v' b')"
  using assms by (auto simp: refines_to_def Let_make_def elim!: bind_eq_SomeE)

text \<open>The children of a node that binds nothing are mutated in one environment.\<close>

lemma mutate_expr_children_refines:
  assumes wf: "wf_expr e" and nv: "expr_type_info e \<noteq> NT_Variable" and nl: "expr_type_info e \<noteq> NT_Let"
    and mem: "same_memory r r'"
    and m: "\<And>c. c \<in> set (expr_children e) \<Longrightarrow> \<exists>c'. m c = Inr (Some c') \<and> refines_to r r' c c'"
  shows "\<exists>e'. mutate_expr_children m e = Inr (Some e') \<and> refines_to r r' e e'"
proof (cases e)
  case (Cast t v)
  then obtain v' where "m v = Inr (Some v')" "refines_to r r' v v'" using m by auto
  then show ?thesis using cast_refines [of t v r r' v'] wf Cast by (auto simp: rebuild_def)
next
  case (Binary op a b)
  then obtain a' b' where "m a = Inr (Some a')" "refines_to r r' a a'" "m b = Inr (Some b')" "refines_to r r' b b'"
    using m [of a] m [of b] by auto
  then show ?thesis using binary_refines [of op a b r r' a' b'] wf Binary by (auto simp: rebuild_def)
next
  case (NotE v)
  then obtain v' where "m v = Inr (Some v')" "refines_to r r' v v'" using m by auto
  then show ?thesis using not_refines [of v r r' v'] wf NotE by (auto simp: rebuild_def)
next
  case (Select c t f)
  then obtain c' t' f' where "m c = Inr (Some c')" "refines_to r r' c c'" "m t = Inr (Some t')" "refines_to r r' t t'"
     "m f = Inr (Some f')" "refines_to r r' f f'"
    using m [of c] m [of t] m [of f] by auto
  then show ?thesis using select_refines [of c t f r r' c' t' f'] wf Select by (auto simp: rebuild_def)
next
  case (Load t n i im p)
  then obtain v' where "m i = Inr (Some v')" "refines_to r r' i v'" using m by auto
  then show ?thesis using load_refines [of t n i im p r r' v'] wf mem Load by (auto simp: rebuild_def)
next
  case (Ramp a b n)
  then obtain a' b' where "m a = Inr (Some a')" "refines_to r r' a a'" "m b = Inr (Some b')" "refines_to r r' b b'"
    using m [of a] m [of b] by auto
  then show ?thesis using ramp_refines [of a b n r r' a' b'] wf Ramp by (auto simp: rebuild_def)
next
  case (Broadcast v n)
  then obtain v' where "m v = Inr (Some v')" "refines_to r r' v v'" using m by auto
  then show ?thesis using broadcast_refines [of v n r r' v'] wf Broadcast by (auto simp: rebuild_def)
next
  case (Call t n args ct f vi im p)
  have "\<exists>as. list_all2 (\<lambda>c c'. m c = Inr (Some c') \<and> refines_to r r' c c') cs as"
    if "set cs \<subseteq> set args" for cs
    using that
  proof (induction cs)
    case Nil
    show ?case by (rule exI [of _ "[]"]) simp
  next
    case (Cons c cs)
    then obtain c' as where "m c = Inr (Some c') \<and> refines_to r r' c c'"
      "list_all2 (\<lambda>c c'. m c = Inr (Some c') \<and> refines_to r r' c c') cs as"
      using m [of c] Call by auto
    then show ?case by (intro exI [of _ "c' # as"]) simp
  qed
  then obtain as where as: "list_all2 (\<lambda>c c'. m c = Inr (Some c') \<and> refines_to r r' c c') args as"
    by blast
  then have 1: "rmap m args = Inr (map Some as)" and 2: "list_all2 (refines_to r r') args as"
    by (auto simp: rmap_Inr_map intro: list_all2_mono)
  show ?thesis
    using call_refines [of t n args ct f vi im p r r' as] wf mem Call 1 2
    by (auto simp: rebuild_def inj_map_eq_map)
qed (use wf nv nl in \<open>auto simp: refines_to_def\<close>)

subsection \<open>The contract of a mutator that keeps types and values\<close>

text \<open>
  \<open>m c\<close> is \<open>mutate\<close> in the context \<open>c\<close> (what the visitor keeps of the
  binders around the node), \<open>ok c\<close> what the expression must satisfy, \<open>rel c\<close> how
  the environments of the old and the new expression correspond.
\<close>

definition same_env_push :: "(string \<Rightarrow> 'c \<Rightarrow> 'c) \<Rightarrow> ('c \<Rightarrow> env \<Rightarrow> env \<Rightarrow> bool) \<Rightarrow> string \<Rightarrow> 'c \<Rightarrow> env \<Rightarrow> env \<Rightarrow> bool" where
  "same_env_push push rel n c r r' \<longleftrightarrow>
     (\<forall>xs. rel (push n c) (r\<lparr>var_val := (var_val r)(n \<mapsto> xs)\<rparr>) (r'\<lparr>var_val := (var_val r')(n \<mapsto> xs)\<rparr>))"

locale value_mutator =
  fixes m :: "'c \<Rightarrow> expr \<Rightarrow> Expr result"
    and ok :: "'c \<Rightarrow> expr \<Rightarrow> bool"
    and rel :: "'c \<Rightarrow> env \<Rightarrow> env \<Rightarrow> bool"
    and push :: "string \<Rightarrow> 'c \<Rightarrow> 'c"
  assumes memory: "rel c r r' \<Longrightarrow> same_memory r r'"
    and step: "wf_expr e \<Longrightarrow> ok c e \<Longrightarrow> rel c r r' \<Longrightarrow>
      (\<exists>e'. m c e = Inr (Some e') \<and> refines_to r r' e e') \<or>
      (expr_type_info e \<noteq> NT_Variable \<and> expr_type_info e \<noteq> NT_Let \<and>
        m c e = mutate_expr_children (m c) e \<and> (\<forall>x \<in> set (expr_children e). ok c x)) \<or>
      (\<exists>n v b. e = LetE n v b \<and>
        m c e = rbind (m c v) (\<lambda>v'. rbind (m (push n c) b) (\<lambda>b'.
          rebuild (v' = Some v \<and> b' = Some b) e (Let_make n v' b'))) \<and>
        ok c v \<and> ok (push n c) b \<and> same_env_push push rel n c r r')"
begin

lemma mutate_refines:
  "wf_expr e \<Longrightarrow> ok c e \<Longrightarrow> rel c r r' \<Longrightarrow> \<exists>e'. m c e = Inr (Some e') \<and> refines_to r r' e e'"
proof (induction "size e" arbitrary: e c r r' rule: less_induct)
  case less
  have wf: "x \<in> set (expr_children e) \<Longrightarrow> wf_expr x" for x
    using less.prems(1) by (cases e) auto
  consider "\<exists>e'. m c e = Inr (Some e') \<and> refines_to r r' e e'"
    | "expr_type_info e \<noteq> NT_Variable" "expr_type_info e \<noteq> NT_Let"
      "m c e = mutate_expr_children (m c) e" "\<forall>x \<in> set (expr_children e). ok c x"
    | n v b where "e = LetE n v b"
      "m c e = rbind (m c v) (\<lambda>v'. rbind (m (push n c) b) (\<lambda>b'.
          rebuild (v' = Some v \<and> b' = Some b) e (Let_make n v' b')))"
      "ok c v" "ok (push n c) b" "same_env_push push rel n c r r'"
    using step [OF less.prems] by blast
  then show ?case
  proof cases
    case 1
    then show ?thesis .
  next
    case 2
    show ?thesis
      unfolding 2(3)
    proof (rule mutate_expr_children_refines [OF less.prems(1) 2(1,2) memory [OF less.prems(3)]])
      fix x
      assume "x \<in> set (expr_children e)"
      then show "\<exists>x'. m c x = Inr (Some x') \<and> refines_to r r' x x'"
        using less.hyps [OF expr_children_size] less.prems(3) wf 2(4) by blast
    qed
  next
    case (3 n v b)
    then have wfs: "wf_expr v" "wf_expr b" and sz: "size v < size e" "size b < size e"
      using less.prems(1) by auto
    obtain v' where v': "m c v = Inr (Some v')" "refines_to r r' v v'"
      using less.hyps [OF sz(1) wfs(1) 3(3) less.prems(3)] by blast
    have body: "\<exists>b'. m (push n c) b = Inr (Some b') \<and>
        refines_to (r\<lparr>var_val := (var_val r)(n \<mapsto> xs)\<rparr>) (r'\<lparr>var_val := (var_val r')(n \<mapsto> xs)\<rparr>) b b'" for xs
      using 3(5) less.hyps [OF sz(2) wfs(2) 3(4)] by (simp add: same_env_push_def)
    obtain b' where b': "m (push n c) b = Inr (Some b')" using body [of "[]"] by blast
    have all: "refines_to (r\<lparr>var_val := (var_val r)(n \<mapsto> xs)\<rparr>) (r'\<lparr>var_val := (var_val r')(n \<mapsto> xs)\<rparr>) b b'" for xs
      using body [of xs] b' by auto
    have "Let_make n (Some v') (Some b') = Inr (LetE n v' b') \<and> refines_to r r' (LetE n v b) (LetE n v' b')"
      using let_refines [of n v b r r' v' b'] less.prems(1) v'(2) all 3(1) by (auto simp: refines_to_def)
    with v'(1) b' 3(1,2) show ?thesis by (auto simp: rebuild_def)
  qed
qed

end

subsection \<open>The variables of an expression\<close>

fun expr_vars :: "expr \<Rightarrow> string set" where
  "expr_vars e =
     (case e of Variable t n im p rd \<Rightarrow> {n} | _ \<Rightarrow> (\<Union>c \<in> set (expr_children e). expr_vars c))"

declare expr_vars.simps [simp del]

lemma expr_vars_children:
  "expr_vars (Variable t n im p rd) = {n}"
  "expr_type_info e \<noteq> NT_Variable \<Longrightarrow> expr_vars e = (\<Union>c \<in> set (expr_children e). expr_vars c)"
  by (subst expr_vars.simps; auto split: expr.splits)+

lemma expr_uses_vars_iff: "expr_uses_vars s e \<longleftrightarrow> (\<exists>n \<in> expr_vars e. scope_contains s n)"
proof (induction "size e" arbitrary: e rule: less_induct)
  case less
  show ?case
  proof (cases "expr_type_info e = NT_Variable")
    case True
    then show ?thesis
      by (auto simp: expr_type_info_iff expr_vars_children expr_uses_vars.simps)
  next
    case False
    then have "expr_uses_vars s e = list_ex (expr_uses_vars s) (expr_children e)"
      by (subst expr_uses_vars.simps) (auto split: expr.splits)
    with False show ?thesis
      using less expr_children_size by (auto simp: expr_vars_children list_ex_iff)
  qed
qed

lemma expr_uses_var_iff: "expr_uses_var e v \<longleftrightarrow> v \<in> expr_vars e"
  by (auto simp: expr_uses_var_def expr_uses_vars_iff scp.contains_push scope_wf_new
      scope_contains_lookup scope_lookup_new)

lemma eval_in_vars_cong:
  "(\<And>n. n \<in> expr_vars e \<Longrightarrow> var_val r n = var_val r' n) \<Longrightarrow> same_memory r r' \<Longrightarrow> eval_in m r e = eval_in m r' e"
proof (induction e arbitrary: r r')
  case (Call t n args ct f vi im p)
  have "map (eval_in m r) args = map (eval_in m r') args"
  proof (rule map_cong [OF refl])
    fix x
    assume "x \<in> set args"
    then show "eval_in m r x = eval_in m r' x"
      using Call.prems by (intro Call.IH) (auto simp: expr_vars_children)
  qed
  moreover have "call_val r = call_val r'" using Call.prems by (simp add: same_memory_def)
  ultimately show ?case by (simp only: eval_in.simps)
next
  case (LetE n v b)
  then have v: "eval_in m r v = eval_in m r' v" by (auto simp: expr_vars_children)
  have "eval_in m (r\<lparr>var_val := (var_val r)(n \<mapsto> xs)\<rparr>) b = eval_in m (r'\<lparr>var_val := (var_val r')(n \<mapsto> xs)\<rparr>) b" for xs
    using LetE.prems by (intro LetE.IH(2)) (auto simp: expr_vars_children same_memory_def)
  with v show ?case by simp
next
  case (Binary op a b)
  then have "eval_in m r a = eval_in m r' a" "eval_in m r b = eval_in m r' b" by (auto simp: expr_vars_children)
  then show ?case by simp
next
  case (Select c t f)
  then have "eval_in m r c = eval_in m r' c" "eval_in m r t = eval_in m r' t" "eval_in m r f = eval_in m r' f"
    by (auto simp: expr_vars_children)
  then show ?case by simp
next
  case (Ramp a b n)
  then have "eval_in m r a = eval_in m r' a" "eval_in m r b = eval_in m r' b" by (auto simp: expr_vars_children)
  then show ?case by simp
next
  case (Load t n i im p)
  have "eval_in m r i = eval_in m r' i"
    using Load.prems by (intro Load.IH) (auto simp: expr_vars_children)
  moreover have "load_val r = load_val r'" using Load.prems(2) by (simp add: same_memory_def)
  ultimately show ?case by (simp only: eval_in.simps)
next
  case (Cast t v)
  then have "eval_in m r v = eval_in m r' v" by (auto simp: expr_vars_children)
  then show ?case by simp
next
  case (NotE v)
  then have "eval_in m r v = eval_in m r' v" by (auto simp: expr_vars_children)
  then show ?case by simp
next
  case (Broadcast v n)
  then have "eval_in m r v = eval_in m r' v" by (auto simp: expr_vars_children)
  then show ?case by simp
qed (auto simp: expr_vars_children)

lemmas eval_vars_cong = eval_in_vars_cong [where m = False]

lemma eval_update_unused:
  assumes "\<not> expr_uses_var e n"
  shows "eval (r\<lparr>var_val := (var_val r)(n := x)\<rparr>) e = eval r e"
  using assms by (intro eval_vars_cong) (auto simp: expr_uses_var_iff same_memory_def)

subsection \<open>Substitution keeps types and values\<close>

text \<open>
  The replaced variables have the type of their replacement, and no variable of a
  replacement is bound on the way (the code does not rename binders).
\<close>

fun substitute_ok :: "(string \<Rightarrow> Expr option) \<Rightarrow> int scope \<Rightarrow> expr \<Rightarrow> bool" where
  "substitute_ok replace hidden e \<longleftrightarrow>
     (case e of
        Variable t n im p rd \<Rightarrow>
          (case find_replacement replace hidden n of
             Some q \<Rightarrow> wf_expr q \<and> type_eq (type_of q) t | None \<Rightarrow> True)
      | LetE n v b \<Rightarrow>
          substitute_ok replace hidden v \<and> substitute_ok replace (scope_push n 0 hidden) b \<and>
          (\<forall>x q. replace x = Some (Some q) \<longrightarrow> \<not> expr_uses_var q n)
      | _ \<Rightarrow> list_all (substitute_ok replace hidden) (expr_children e))"

declare substitute_ok.simps [simp del]

definition substitute_rel :: "(string \<Rightarrow> Expr option) \<Rightarrow> int scope \<Rightarrow> env \<Rightarrow> env \<Rightarrow> bool" where
  "substitute_rel replace hidden r r' \<longleftrightarrow> scope_wf hidden \<and> same_memory r r' \<and>
     (\<forall>n. case find_replacement replace hidden n of
        Some q \<Rightarrow> (\<forall>xs. var_val r n = Some xs \<longrightarrow> eval r' q = Some xs)
      | None \<Rightarrow> var_val r n = var_val r' n)"

lemma substitute_relD:
  assumes "substitute_rel replace hidden r r'"
  shows "find_replacement replace hidden n = None \<Longrightarrow> var_val r n = var_val r' n"
    and "find_replacement replace hidden n = Some q \<Longrightarrow> var_val r n = Some xs \<Longrightarrow> eval r' q = Some xs"
proof -
  have "case find_replacement replace hidden n of
        Some q \<Rightarrow> (\<forall>xs. var_val r n = Some xs \<longrightarrow> eval r' q = Some xs)
      | None \<Rightarrow> var_val r n = var_val r' n"
    using assms by (simp add: substitute_rel_def)
  then show "find_replacement replace hidden n = None \<Longrightarrow> var_val r n = var_val r' n"
    and "find_replacement replace hidden n = Some q \<Longrightarrow> var_val r n = Some xs \<Longrightarrow> eval r' q = Some xs"
    by simp_all
qed

lemma find_replacement_push:
  "scope_wf hidden \<Longrightarrow> find_replacement replace (scope_push n 0 hidden) x =
     (if x = n then None else find_replacement replace hidden x)"
  by (auto simp: find_replacement_def scp.contains_push split: option.splits)

lemma find_replacement_in: "find_replacement replace hidden x = Some q \<Longrightarrow> replace x = Some (Some q)"
  by (auto simp: find_replacement_def split: option.splits if_splits)

lemma substitute_rel_push:
  assumes rel: "substitute_rel replace hidden r r'"
    and fresh: "\<forall>x q. replace x = Some (Some q) \<longrightarrow> \<not> expr_uses_var q n"
  shows "same_env_push (\<lambda>n. scope_push n 0) (substitute_rel replace) n hidden r r'"
  unfolding same_env_push_def substitute_rel_def
proof (intro allI conjI)
  have wf: "scope_wf hidden" using rel by (simp add: substitute_rel_def)
  fix xs x
  show "scope_wf (scope_push n 0 hidden)" using wf by (rule scope_wf_push)
  show "same_memory (r\<lparr>var_val := (var_val r)(n \<mapsto> xs)\<rparr>) (r'\<lparr>var_val := (var_val r')(n \<mapsto> xs)\<rparr>)"
    using rel by (simp add: substitute_rel_def same_memory_def)
  show "case find_replacement replace (scope_push n 0 hidden) x of
        Some q \<Rightarrow> \<forall>ys. var_val (r\<lparr>var_val := (var_val r)(n \<mapsto> xs)\<rparr>) x = Some ys \<longrightarrow>
          eval (r'\<lparr>var_val := (var_val r')(n \<mapsto> xs)\<rparr>) q = Some ys
      | None \<Rightarrow> var_val (r\<lparr>var_val := (var_val r)(n \<mapsto> xs)\<rparr>) x = var_val (r'\<lparr>var_val := (var_val r')(n \<mapsto> xs)\<rparr>) x"
  proof (cases "x = n")
    case True
    with wf show ?thesis by (simp add: find_replacement_push)
  next
    case False
    show ?thesis
    proof (cases "find_replacement replace hidden x")
      case None
      with False wf substitute_relD(1) [OF rel None] show ?thesis by (simp add: find_replacement_push)
    next
      case (Some q)
      then have "\<not> expr_uses_var q n" using fresh find_replacement_in by blast
      then have e: "eval (r'\<lparr>var_val := (var_val r')(n \<mapsto> xs)\<rparr>) q = eval r' q"
        by (rule eval_update_unused)
      from substitute_relD(2) [OF rel Some]
      have "\<forall>ys. var_val r x = Some ys \<longrightarrow> eval r' q = Some ys" by blast
      with Some False wf e show ?thesis by (simp add: find_replacement_push)
    qed
  qed
qed

lemma substitute_step_children:
  assumes "expr_type_info e \<noteq> NT_Variable" and "expr_type_info e \<noteq> NT_Let"
  shows "substitute_e replace hidden e = mutate_expr_children (substitute_e replace hidden) e"
    and "substitute_ok replace hidden e = list_all (substitute_ok replace hidden) (expr_children e)"
  using assms
  by (subst substitute_e.simps substitute_ok.simps; auto split: expr.splits)+

interpretation sub: value_mutator "substitute_e replace" "substitute_ok replace"
  "substitute_rel replace" "\<lambda>n. scope_push n 0"
  for replace
proof (unfold_locales, goal_cases)
  case (1 c r r')
  then show ?case by (simp add: substitute_rel_def)
next
  case (2 e c r r')
  show ?case
  proof (cases "expr_type_info e = NT_Variable")
    case True
    then obtain t n im p rd where e: "e = Variable t n im p rd" by (auto simp: expr_type_info_iff)
    show ?thesis
    proof (cases "find_replacement replace c n")
      case None
      then have "var_val r n = var_val r' n" by (rule substitute_relD(1) [OF 2(3)])
      with None 2(1) show ?thesis
        by (intro disjI1 exI [of _ e]) (simp add: e substitute_e.simps refines_to_def)
    next
      case (Some q)
      then have "wf_expr q" "type_eq (type_of q) t"
        using 2(2) by (simp_all add: e substitute_ok.simps)
      moreover have "\<forall>xs. var_val r n = Some xs \<longrightarrow> eval r' q = Some xs"
        using substitute_relD(2) [OF 2(3) Some] by blast
      ultimately show ?thesis
        using Some by (intro disjI1 exI [of _ q])
          (auto simp: e substitute_e.simps refines_to_def split: option.splits if_splits)
    qed
  next
    case nv: False
    show ?thesis
    proof (cases "expr_type_info e = NT_Let")
      case True
      then obtain n v b where e: "e = LetE n v b" by (auto simp: expr_type_info_iff)
      have "substitute_ok replace c v" "substitute_ok replace (scope_push n 0 c) b"
        "\<forall>x q. replace x = Some (Some q) \<longrightarrow> \<not> expr_uses_var q n"
        using 2(2) by (simp_all add: e substitute_ok.simps)
      then show ?thesis
        using substitute_rel_push [OF 2(3)]
        by (intro disjI2 exI [of _ n] exI [of _ v] exI [of _ b])
          (simp add: e substitute_e.simps [of _ _ "LetE n v b"])
    next
      case False
      with nv 2(2) show ?thesis
        using substitute_step_children [OF nv False] by (simp add: list_all_iff)
    qed
  qed
qed


lemma substitute_e_refines:
  "wf_expr e \<Longrightarrow> substitute_ok replace hidden e \<Longrightarrow> substitute_rel replace hidden r r' \<Longrightarrow>
   \<exists>e'. substitute_e replace hidden e = Inr (Some e') \<and> refines_to r r' e e'"
  by (rule sub.mutate_refines)

subsection \<open>Substitution of an expression\<close>

definition substitute_expr_ok :: "addresses \<Rightarrow> expr \<Rightarrow> expr \<Rightarrow> bool" where
  "substitute_expr_ok h f q \<longleftrightarrow> addresses_ok h \<and> wf_expr f \<and> wf_expr q \<and> type_eq (type_of q) (type_of f) \<and>
     (\<forall>r xs. env_type_ok r \<longrightarrow> eval r f = Some xs \<longrightarrow> eval r q = Some xs)"

lemma cmp_e_type_eq:
  assumes "cmp_e a b = Equal" and "\<not> is_handle (type_of a)"
  shows "type_eq (type_of b) (type_of a)"
  using cmp_e_Equal_type [OF assms(1)] assms(2)
  by (auto simp: cmp_type_Equal type_eq_def type_predicates)

interpretation sube: value_mutator "\<lambda>c :: unit. substitute_expr_e h (Some f) (Some q)"
  "\<lambda>c e. substitute_expr_ok h f q \<and> \<not> is_handle (type_of f)"
  "\<lambda>c r r'. r = r' \<and> env_type_ok r" "\<lambda>n c. c"
  for h f q
proof (unfold_locales, goal_cases)
  case (1 c r r')
  then show ?case by (simp add: same_memory_def)
next
  case (2 e c r r')
  then have ok: "addresses_ok h" "wf_expr f" "wf_expr q" "type_eq (type_of q) (type_of f)"
    and val: "\<And>r xs. env_type_ok r \<Longrightarrow> eval r f = Some xs \<Longrightarrow> eval r q = Some xs"
    by (auto simp: substitute_expr_ok_def)
  show ?case
  proof (cases "equal_expr h (Some e) (Some f)")
    case True
    then have eq: "cmp_e e f = Equal" using ok(1) by (simp add: equal_expr_cmp)
    have h: "\<not> is_handle (type_of e)"
      using 2(2) cmp_e_Equal_type [OF eq] by (simp add: cmp_type_Equal is_handle_def)
    have "type_eq (type_of f) (type_of e)" using eq h by (rule cmp_e_type_eq)
    then have "type_eq (type_of q) (type_of e)" using ok(4) type_eq_trans by blast
    moreover have "eval r e = eval r f"
      using eq 2(1,3) ok(2) by (intro eval_cmp_e) auto
    ultimately show ?thesis
      using True ok(3) val 2(3)
      by (intro disjI1 exI [of _ q]) (auto simp: substitute_expr_e.simps refines_to_def)
  next
    case False
    then have m: "substitute_expr_e h (Some f) (Some q) e =
        mutate_expr_children (substitute_expr_e h (Some f) (Some q)) e"
      by (subst substitute_expr_e.simps) simp
    show ?thesis
    proof (cases "expr_type_info e = NT_Let")
      case True
      then obtain n v b where e: "e = LetE n v b" by (auto simp: expr_type_info_iff)
      have "same_env_push (\<lambda>n c. c) (\<lambda>c r r'. r = r' \<and> env_type_ok r) n c r r'"
        using 2(3) unfolding same_env_push_def by (blast intro: env_type_ok_update)
      then show ?thesis
        using m 2(2) by (intro disjI2 exI [of _ n] exI [of _ v] exI [of _ b]) (simp add: e)
    next
      case nl: False
      show ?thesis
      proof (cases "expr_type_info e = NT_Variable")
        case True
        then have "mutate_expr_children k e = Inr (Some e)" for k
          by (auto simp: expr_type_info_iff)
        with m 2 show ?thesis by (intro disjI1 exI [of _ e]) (auto simp: refines_to_refl)
      next
        case False
        with nl m 2 show ?thesis by auto
      qed
    qed
  qed
qed

lemma substitute_expr_refines:
  "wf_expr e \<Longrightarrow> substitute_expr_ok h f q \<Longrightarrow> \<not> is_handle (type_of f) \<Longrightarrow> env_type_ok r \<Longrightarrow>
   \<exists>e'. substitute_expr_e h (Some f) (Some q) e = Inr (Some e') \<and> refines_to r r e e'"
  using sube.mutate_refines [of e h f q r r] by simp

subsection \<open>Substitution in graphs\<close>

fun let_free :: "expr \<Rightarrow> bool" where
  "let_free e \<longleftrightarrow> (case e of LetE n v b \<Rightarrow> False | _ \<Rightarrow> list_all let_free (expr_children e))"

declare let_free.simps [simp del]

text \<open>Variables bound by a \<open>Let\<close> have the type of its value.\<close>

fun vars_typed :: "(string \<Rightarrow> Type option) \<Rightarrow> expr \<Rightarrow> bool" where
  "vars_typed g e \<longleftrightarrow>
     (case e of
        Variable t n im p rd \<Rightarrow> (case g n of Some s \<Rightarrow> type_eq s t | None \<Rightarrow> True)
      | LetE n v b \<Rightarrow> vars_typed g v \<and> vars_typed (g(n \<mapsto> type_of v)) b
      | _ \<Rightarrow> list_all (vars_typed g) (expr_children e))"

declare vars_typed.simps [simp del]

lemma tree_fun_children:
  assumes "expr_type_info e \<noteq> NT_Variable" and "expr_type_info e \<noteq> NT_Let"
  shows "let_free e = list_all let_free (expr_children e)"
    and "vars_typed g e = list_all (vars_typed g) (expr_children e)"
    and "graph_substitute_e var val e = mutate_expr_children (graph_substitute_e var val) e"
    and "substitute_in_all_lets_e e = mutate_expr_children substitute_in_all_lets_e e"
  using assms
  by (subst let_free.simps vars_typed.simps graph_substitute_e.simps substitute_in_all_lets_e.simps;
      auto split: expr.splits)+

lemma let_free_not_let: "let_free e \<Longrightarrow> expr_type_info e \<noteq> NT_Let"
  by (auto simp: expr_type_info_iff let_free.simps)

definition graph_ok :: "string \<Rightarrow> expr \<Rightarrow> expr \<Rightarrow> bool" where
  "graph_ok x q e \<longleftrightarrow> let_free e \<and> wf_expr q \<and> (\<exists>g. vars_typed (g(x \<mapsto> type_of q)) e)"

definition graph_rel :: "string \<Rightarrow> expr \<Rightarrow> env \<Rightarrow> env \<Rightarrow> bool" where
  "graph_rel x q r r' \<longleftrightarrow> same_memory r r' \<and> (\<forall>n. n \<noteq> x \<longrightarrow> var_val r n = var_val r' n) \<and>
     (\<forall>xs. var_val r x = Some xs \<longrightarrow> eval r' q = Some xs)"

interpretation graph: value_mutator "\<lambda>c :: unit. graph_substitute_e x (Some q)" "\<lambda>c. graph_ok x q"
  "\<lambda>c. graph_rel x q" "\<lambda>n c. c"
  for x q
proof (unfold_locales, goal_cases)
  case (1 c r r')
  then show ?case by (simp add: graph_rel_def)
next
  case (2 e c r r')
  have nl: "expr_type_info e \<noteq> NT_Let" using 2(2) by (simp add: graph_ok_def let_free_not_let)
  show ?case
  proof (cases "expr_type_info e = NT_Variable")
    case True
    then obtain t n im p rd where e: "e = Variable t n im p rd" by (auto simp: expr_type_info_iff)
    show ?thesis
    proof (cases "n = x")
      case True
      with 2 show ?thesis
        by (intro disjI1 exI [of _ q])
          (auto simp: e graph_substitute_e.simps graph_ok_def vars_typed.simps graph_rel_def
            refines_to_def split: option.splits if_splits)
    next
      case False
      with 2(3) have "var_val r n = var_val r' n" by (simp add: graph_rel_def)
      with False 2(1) show ?thesis
        by (intro disjI1 exI [of _ e]) (simp add: e graph_substitute_e.simps refines_to_def)
    qed
  next
    case False
    with 2(2) nl show ?thesis
      by (auto simp: tree_fun_children [OF False nl] graph_ok_def list_all_iff)
  qed
qed

lemma mutate_result_induct:
  assumes "mutate_expr_children m e = Inr (Some e')"
    and "\<And>c c'. c \<in> set (expr_children e) \<Longrightarrow> m c = Inr (Some c') \<Longrightarrow> P c'"
  shows "expr_type_info e' = expr_type_info e \<and> list_all P (expr_children e')"
proof -
  have "list_all2 (\<lambda>c c'. m c = Inr (Some c')) (expr_children e) (expr_children e')"
    and i: "expr_type_info e' = expr_type_info e"
    using mutate_expr_children_result [OF assms(1)] by blast+
  then have "\<forall>c' \<in> set (expr_children e'). P c'"
    using assms(2) by (fastforce simp: list_all2_conv_all_nth in_set_conv_nth)
  with i show ?thesis by (simp add: list_all_iff)
qed

lemma graph_substitute_result:
  "let_free e \<Longrightarrow> let_free q \<Longrightarrow> vars_typed (g(x \<mapsto> s)) e \<Longrightarrow> vars_typed g q \<Longrightarrow>
   graph_substitute_e x (Some q) e = Inr (Some e') \<Longrightarrow> let_free e' \<and> vars_typed g e'"
proof (induction "size e" arbitrary: e e' rule: less_induct)
  case less
  have nl: "expr_type_info e \<noteq> NT_Let" using less.prems(1) by (rule let_free_not_let)
  show ?case
  proof (cases "expr_type_info e = NT_Variable")
    case True
    then obtain t n im p rd where e: "e = Variable t n im p rd" by (auto simp: expr_type_info_iff)
    with less.prems show ?thesis
      by (cases "n = x") (auto simp: graph_substitute_e.simps let_free.simps vars_typed.simps split: option.splits)
  next
    case False
    have "expr_type_info e' = expr_type_info e \<and> list_all (\<lambda>c. let_free c \<and> vars_typed g c) (expr_children e')"
    proof (rule mutate_result_induct)
      show "mutate_expr_children (graph_substitute_e x (Some q)) e = Inr (Some e')"
        using less.prems(5) by (simp add: tree_fun_children [OF False nl])
      fix c c'
      assume c: "c \<in> set (expr_children e)" "graph_substitute_e x (Some q) c = Inr (Some c')"
      then show "let_free c' \<and> vars_typed g c'"
        using less.hyps [OF expr_children_size [OF c(1)] _ less.prems(2) _ less.prems(4) c(2)] less.prems(1,3)
        by (simp add: tree_fun_children [OF False nl] list_all_iff)
    qed
    then show ?thesis using False nl by (simp add: tree_fun_children list_all_iff)
  qed
qed

lemma substitute_in_all_lets_refines:
  "wf_expr e \<Longrightarrow> vars_typed g e \<Longrightarrow>
   \<exists>e'. substitute_in_all_lets_e e = Inr (Some e') \<and> let_free e' \<and> vars_typed g e' \<and>
     (\<forall>r. refines_to r r e e')"
proof (induction "size e" arbitrary: e g rule: less_induct)
  case less
  consider t n im p rd where "e = Variable t n im p rd" | n v b where "e = LetE n v b"
    | "expr_type_info e \<noteq> NT_Variable" "expr_type_info e \<noteq> NT_Let"
    using expr_type_info_iff(6) [of e] expr_type_info_iff(14) [of e] by blast
  then show ?case
  proof cases
    case 1
    with less.prems show ?thesis
      by (intro exI [of _ e]) (simp add: substitute_in_all_lets_e.simps let_free.simps refines_to_refl)
  next
    case (2 n v b)
    then have wf: "wf_expr v" "wf_expr b" and ty: "vars_typed g v" "vars_typed (g(n \<mapsto> type_of v)) b"
      using less.prems by (simp_all add: vars_typed.simps [of _ "LetE n v b"])
    have sz: "size v < size e" "size b < size e" using 2 by auto
    obtain v' where v': "substitute_in_all_lets_e v = Inr (Some v')" "let_free v'" "vars_typed g v'"
      "\<forall>r. refines_to r r v v'"
      using less.hyps [OF sz(1) wf(1) ty(1)] by blast
    obtain b' where b': "substitute_in_all_lets_e b = Inr (Some b')" "let_free b'"
      "vars_typed (g(n \<mapsto> type_of v)) b'" "\<forall>r. refines_to r r b b'"
      using less.hyps [OF sz(2) wf(2) ty(2)] by blast
    have t: "type_eq (type_of v') (type_of v)" and wv: "wf_expr v'" and wb: "wf_expr b'"
      using v'(4) b'(4) by (auto simp: refines_to_def)
    have "vars_typed (h(n \<mapsto> s)) x \<Longrightarrow> type_eq u s \<Longrightarrow> let_free x \<Longrightarrow> vars_typed (h(n \<mapsto> u)) x" for h s u x
    proof (induction "size x" arbitrary: x rule: less_induct)
      case less
      show ?case
      proof (cases "expr_type_info x = NT_Variable")
        case True
        with less.prems show ?thesis
          by (auto simp: expr_type_info_iff vars_typed.simps intro: type_eq_trans split: if_splits)
      next
        case False
        with less let_free_not_let [OF less.prems(3)] show ?thesis
          by (simp add: tree_fun_children list_all_iff expr_children_size)
      qed
    qed
    from this [OF b'(3) t b'(2)] have gok: "graph_ok n v' b'"
      using b'(2) wv by (auto simp: graph_ok_def)
    have rel: "graph_rel n v' (r\<lparr>var_val := (var_val r)(n := x)\<rparr>) r"
      if "\<forall>xs. x = Some xs \<longrightarrow> eval r v' = Some xs" for r x
      using that by (auto simp: graph_rel_def same_memory_def)
    obtain e' where e': "graph_substitute_e n (Some v') b' = Inr (Some e')"
      using graph.mutate_refines [OF wb gok rel [of None]] by auto
    have ref: "refines_to (r\<lparr>var_val := (var_val r)(n := x)\<rparr>) r b' e'"
      if "\<forall>xs. x = Some xs \<longrightarrow> eval r v' = Some xs" for r x
      using graph.mutate_refines [OF wb gok rel [OF that]] e' by auto
    have "refines_to r r e e'" for r
    proof -
      have te: "wf_expr e' \<and> type_eq (type_of e') (type_of e)"
        using ref [of None r] b'(4) 2 by (auto simp: refines_to_def intro: type_eq_trans)
      have "eval r e' = Some ys" if ev: "eval r e = Some ys" for ys
      proof -
        obtain xs where xs: "eval r v = Some xs"
          and "eval (r\<lparr>var_val := (var_val r)(n \<mapsto> xs)\<rparr>) b = Some ys"
          using ev 2 by (auto elim!: bind_eq_SomeE)
        then have "eval (r\<lparr>var_val := (var_val r)(n \<mapsto> xs)\<rparr>) b' = Some ys" and "eval r v' = Some xs"
          using b'(4) v'(4) by (auto simp: refines_to_def)
        then show ?thesis using ref [of "Some xs" r] by (simp add: refines_to_def)
      qed
      with te show ?thesis by (simp add: refines_to_def)
    qed
    moreover have "let_free e' \<and> vars_typed g e'"
      using graph_substitute_result [OF b'(2) v'(2) b'(3) v'(3) e'] .
    moreover have "substitute_in_all_lets_e e = Inr (Some e')"
      using v'(1) b'(1) e' 2
      by (simp add: substitute_in_all_lets_e.simps [of "LetE n v b"] graph_substitute_def mutate_handle_def)
    ultimately show ?thesis by blast
  next
    case 3
    have wf: "c \<in> set (expr_children e) \<Longrightarrow> wf_expr c" for c
      using less.prems(1) by (cases e) auto
    have ih: "\<exists>c'. substitute_in_all_lets_e c = Inr (Some c') \<and> let_free c' \<and> vars_typed g c' \<and>
        (\<forall>r. refines_to r r c c')" if c: "c \<in> set (expr_children e)" for c
      using less.prems(2) c wf [OF c]
      by (intro less.hyps [OF expr_children_size [OF c]]) (simp_all add: tree_fun_children [OF 3] list_all_iff)
    have ex: "\<exists>e'. substitute_in_all_lets_e e = Inr (Some e') \<and> refines_to r r e e'" for r
      unfolding tree_fun_children(4) [OF 3]
      using ih by (intro mutate_expr_children_refines [OF less.prems(1) 3]) (auto simp: same_memory_def)
    then obtain e' where e': "substitute_in_all_lets_e e = Inr (Some e')" by blast
    then have "refines_to r r e e'" for r using ex [of r] by auto
    moreover have "expr_type_info e' = expr_type_info e \<and>
        list_all (\<lambda>c. let_free c \<and> vars_typed g c) (expr_children e')"
      using e' ih unfolding tree_fun_children(4) [OF 3]
      by (elim mutate_result_induct) fastforce
    ultimately show ?thesis using e' 3 by (auto simp: tree_fun_children list_all_iff)
  qed
qed

subsection \<open>Nothing to substitute\<close>

lemma rmap_Some_map: "(\<And>x. x \<in> set xs \<Longrightarrow> m x = Inr (Some x)) \<Longrightarrow> rmap m xs = Inr (map Some xs)"
  by (induction xs) auto

lemma mutate_expr_children_id:
  "(\<And>c. c \<in> set (expr_children e) \<Longrightarrow> m c = Inr (Some c)) \<Longrightarrow> mutate_expr_children m e = Inr (Some e)"
  by (cases e) (auto simp: rmap_Some_map rebuild_def)

lemma rmap_range_id:
  "(\<And>b. b \<in> set bs \<Longrightarrow> mutate_range m b = Inr b) \<Longrightarrow> rmap (mutate_range m) bs = Inr bs"
  by (induction bs) auto

text \<open>The two expressions of a range have one type, as its constructor requires.\<close>

fun wf_ranges :: "stmt \<Rightarrow> bool" where
  "wf_ranges s \<longleftrightarrow>
     (case s of Realize n ts bs c b \<Rightarrow>
        list_all (\<lambda>r. type_eq (type_of (range_min r)) (type_of (range_extent r))) bs
      | _ \<Rightarrow> True) \<and>
     list_all (\<lambda>x. case x of Expr_node e \<Rightarrow> True | Stmt_node c \<Rightarrow> wf_ranges c) (stmt_nodes s)"

declare wf_ranges.simps [simp del]

lemma mutate_stmt_children_id:
  assumes "\<And>e. Expr_node e \<in> set (stmt_nodes s) \<Longrightarrow> me e = Inr (Some e)"
    and "\<And>c. Stmt_node c \<in> set (stmt_nodes s) \<Longrightarrow> ms c = Inr (Some c)"
    and "wf_ranges s"
  shows "mutate_stmt_children me ms s = Inr (Some s)"
proof (cases s)
  case (Realize n ts bs c b)
  have "mutate_range me r = Inr r" if "r \<in> set bs" for r
  proof -
    have "me (range_min r) = Inr (Some (range_min r))" "me (range_extent r) = Inr (Some (range_extent r))"
      using assms(1) Realize that by auto
    moreover have "type_eq (type_of (range_min r)) (type_of (range_extent r))"
      using assms(3) that unfolding Realize
      by (subst (asm) wf_ranges.simps) (simp add: list_all_iff)
    ultimately show ?thesis by (simp add: mutate_range_def Range_make_def)
  qed
  then have "rmap (mutate_range me) bs = Inr bs" by (rule rmap_range_id)
  with Realize assms show ?thesis by (simp add: rebuild_def)
next
  case (ProducerConsumer n p u c)
  then have "mutate_handle ms u = Inr u" using assms(2) by (cases u) (auto simp: mutate_handle_def)
  with ProducerConsumer assms show ?thesis by (simp add: rebuild_def)
next
  case (IfThenElse c t u)
  then have "mutate_handle ms u = Inr u" using assms(2) by (cases u) (auto simp: mutate_handle_def)
  with IfThenElse assms show ?thesis by (simp add: rebuild_def)
next
  case (Allocate n t exts c ne ff b)
  then have "mutate_handle me ne = Inr ne" using assms(1) by (cases ne) (auto simp: mutate_handle_def)
  moreover have "rmap me exts = Inr (map Some exts)" using assms(1) Allocate by (intro rmap_Some_map) auto
  ultimately show ?thesis using Allocate assms by (simp add: rebuild_def)
next
  case (Provide n vs args)
  then have "rmap me vs = Inr (map Some vs)" "rmap me args = Inr (map Some args)"
    using assms(1) by (auto intro!: rmap_Some_map)
  with Provide show ?thesis by (simp add: rebuild_def)
qed (use assms in \<open>simp_all add: rebuild_def\<close>)

lemma substitute_e_unused:
  "\<not> expr_uses_var e x \<Longrightarrow> scope_wf hidden \<Longrightarrow> substitute_e [x \<mapsto> q] hidden e = Inr (Some e)"
proof (induction "size e" arbitrary: e hidden rule: less_induct)
  case less
  consider t n im p rd where "e = Variable t n im p rd" | n v b where "e = LetE n v b"
    | "expr_type_info e \<noteq> NT_Variable" "expr_type_info e \<noteq> NT_Let"
    using expr_type_info_iff(6) [of e] expr_type_info_iff(14) [of e] by blast
  then show ?case
  proof cases
    case 1
    with less.prems(1) show ?thesis
      by (auto simp: substitute_e.simps find_replacement_def expr_uses_var_iff expr_vars_children)
  next
    case (2 n v b)
    then have "\<not> expr_uses_var v x" "\<not> expr_uses_var b x"
      using less.prems(1) by (auto simp: expr_uses_var_iff expr_vars_children)
    then have "substitute_e [x \<mapsto> q] hidden v = Inr (Some v)"
      "substitute_e [x \<mapsto> q] (scope_push n 0 hidden) b = Inr (Some b)"
      using less.hyps 2 less.prems(2) by (auto simp: scope_wf_push)
    then show ?thesis by (simp add: 2 substitute_e.simps [of _ _ "LetE n v b"] rebuild_def)
  next
    case 3
    have "substitute_e [x \<mapsto> q] hidden c = Inr (Some c)" if "c \<in> set (expr_children e)" for c
      using that less 3 expr_children_size by (auto simp: expr_uses_var_iff expr_vars_children)
    then show ?thesis by (simp add: substitute_step_children [OF 3] mutate_expr_children_id)
  qed
qed

lemma ex_ir_node:
  "(\<exists>x \<in> A. case x of Expr_node e \<Rightarrow> P e | Stmt_node c \<Rightarrow> Q c) \<longleftrightarrow>
   (\<exists>e. Expr_node e \<in> A \<and> P e) \<or> (\<exists>c. Stmt_node c \<in> A \<and> Q c)"
proof
  assume "\<exists>x \<in> A. case x of Expr_node e \<Rightarrow> P e | Stmt_node c \<Rightarrow> Q c"
  then obtain x where "x \<in> A" "case x of Expr_node e \<Rightarrow> P e | Stmt_node c \<Rightarrow> Q c" by blast
  then show "(\<exists>e. Expr_node e \<in> A \<and> P e) \<or> (\<exists>c. Stmt_node c \<in> A \<and> Q c)"
    by (cases x) auto
qed force

lemma stmt_uses_var_nodes:
  "stmt_uses_var s x \<longleftrightarrow> (\<exists>e. Expr_node e \<in> set (stmt_nodes s) \<and> expr_uses_var e x) \<or>
     (\<exists>c. Stmt_node c \<in> set (stmt_nodes s) \<and> stmt_uses_var c x)"
  unfolding stmt_uses_var_def expr_uses_var_def
  by (subst stmt_uses_vars.simps) (simp add: list_ex_iff ex_ir_node)

lemma wf_ranges_nodes: "wf_ranges s \<Longrightarrow> Stmt_node c \<in> set (stmt_nodes s) \<Longrightarrow> wf_ranges c"
  by (subst (asm) wf_ranges.simps) (auto simp: list_all_iff split: ir_node.splits)

lemma substitute_s_children:
  "stmt_type_info s \<noteq> NT_LetStmt \<Longrightarrow> stmt_type_info s \<noteq> NT_For \<Longrightarrow>
   substitute_s replace hidden s =
     mutate_stmt_children (substitute_e replace hidden) (substitute_s replace hidden) s"
  by (subst substitute_s.simps) (auto split: stmt.splits)

lemma substitute_s_unused:
  "\<not> stmt_uses_var s x \<Longrightarrow> scope_wf hidden \<Longrightarrow> wf_ranges s \<Longrightarrow>
   substitute_s [x \<mapsto> q] hidden s = Inr (Some s)"
proof (induction "size s" arbitrary: s hidden rule: less_induct)
  case less
  have e: "substitute_e [x \<mapsto> q] hidden e = Inr (Some e)" if "Expr_node e \<in> set (stmt_nodes s)" for e
    using that less.prems stmt_uses_var_nodes [of s x] by (blast intro: substitute_e_unused)
  have c: "substitute_s [x \<mapsto> q] h c = Inr (Some c)"
    if "Stmt_node c \<in> set (stmt_nodes s)" and "scope_wf h" for c h
    using less.hyps [OF stmt_children_size [OF that(1)] _ that(2)] that less.prems(1,3)
      stmt_uses_var_nodes [of s x] wf_ranges_nodes by blast
  have id: "mutate_stmt_children (substitute_e [x \<mapsto> q] hidden) (substitute_s [x \<mapsto> q] hidden) s = Inr (Some s)"
    using e c less.prems by (intro mutate_stmt_children_id) auto
  consider n v b where "s = LetStmt n v b" | n mn ext ft d b where "s = For n mn ext ft d b"
    | "stmt_type_info s \<noteq> NT_LetStmt" "stmt_type_info s \<noteq> NT_For"
    by (cases s) auto
  then show ?case
  proof cases
    case (1 n v b)
    with e c less.prems(2) show ?thesis
      by (simp add: substitute_s.simps [of _ _ "LetStmt n v b"] rebuild_def scope_wf_push)
  next
    case (2 n mn ext ft d b)
    with e c less.prems(2) show ?thesis
      by (simp add: substitute_s.simps [of _ _ "For n mn ext ft d b"] rebuild_def scope_wf_push)
  next
    case 3
    then show ?thesis by (rule trans [OF substitute_s_children id])
  qed
qed

subsection \<open>Properties\<close>

text \<open>C8: substituting a well-formed expression for a variable of its type, where
  no binder captures a variable of the replacement, never fails an assertion, keeps the
  type, and gives the value that the expression has when the variable is bound to the
  value of the replacement.\<close>

theorem substitute_correct:
  assumes "wf_expr e" and "substitute_ok [x \<mapsto> Some q] scope_new e"
    and "eval r q = Some xs" and "eval (r\<lparr>var_val := (var_val r)(x \<mapsto> xs)\<rparr>) e = Some ys"
  shows "\<exists>e'. substitute x (Some q) (Some e) = Inr (Some e') \<and> wf_expr e' \<and>
    type_eq (type_of e') (type_of e) \<and> eval r e' = Some ys"
proof -
  have "substitute_rel [x \<mapsto> Some q] scope_new (r\<lparr>var_val := (var_val r)(x \<mapsto> xs)\<rparr>) r"
    using assms(3)
    by (auto simp: substitute_rel_def same_memory_def scope_wf_new find_replacement_def
        scope_contains_lookup scope_lookup_new)
  from substitute_e_refines [OF assms(1,2) this] assms(4) show ?thesis
    by (auto simp: substitute_def substitute_map_def mutate_handle_def refines_to_def)
qed

definition x_plus_2 :: expr where
  "x_plus_2 = Add (Variable (Int_t 32 1) ''x'' None None None) (IntImm (Int_t 32 1) 2)"

definition env0 :: env where
  "env0 = \<lparr>var_val = (\<lambda>n. None), load_val = (\<lambda>n t i. None), call_val = (\<lambda>t n ct i vs. None)\<rparr>"

lemma Int32_facts [simp]:
  "type_wf (Int_t 32 1)" "is_int (Int_t 32 1)" "is_scalar (Int_t 32 1)" "bits (Int_t 32 1) = 32"
  "lanes (Int_t 32 1) = 1" "\<not> is_handle (Int_t 32 1)"
  "in_range (Int_t 32 1) x \<longleftrightarrow> - (2 ^ 31) \<le> x \<and> x < 2 ^ 31"
  by (auto simp: Int_t_def mk_Type_def type_wf_def type_predicates in_range_def type_lo_def type_hi_def)

lemma env_type_ok_env0 [simp]: "env_type_ok env0"
  by (simp add: env0_def env_type_ok_def)

theorem substitute_correct_witness:
  "\<exists>e'. substitute ''x'' (Some (IntImm (Int_t 32 1) 5)) (Some x_plus_2) = Inr (Some e') \<and> wf_expr e' \<and>
    type_eq (type_of e') (type_of x_plus_2) \<and> eval env0 e' = Some [7]"
  by (rule substitute_correct [where xs = "[5]"])
    (simp_all add: x_plus_2_def substitute_ok.simps find_replacement_def
      scope_contains_lookup [OF scope_wf_new] scope_lookup_new is_logical_def)

text \<open>C9: replacing every occurrence of an expression by one of the same type
  that has its value in all environments never fails an assertion and keeps type and
  value.\<close>

theorem substitute_expr_correct:
  assumes "wf_expr e" and "substitute_expr_ok h f q" and "\<not> is_handle (type_of f)"
    and "env_type_ok r" and "eval r e = Some ys"
  shows "\<exists>e'. substitute_expr h (Some f) (Some q) (Some e) = Inr (Some e') \<and> wf_expr e' \<and>
    type_eq (type_of e') (type_of e) \<and> eval r e' = Some ys"
  using substitute_expr_refines [OF assms(1-4)] assms(5)
  by (auto simp: substitute_expr_def refines_to_def)

theorem substitute_expr_correct_witness:
  "\<exists>e'. substitute_expr plain_addresses (Some (IntImm (Int_t 32 1) 2))
      (Some (Add (IntImm (Int_t 32 1) 1) (IntImm (Int_t 32 1) 1))) (Some x_plus_2) = Inr (Some e') \<and>
    wf_expr e' \<and> type_eq (type_of e') (type_of x_plus_2) \<and>
    eval (env0\<lparr>var_val := [''x'' \<mapsto> [3]]\<rparr>) e' = Some [5]"
  by (rule substitute_expr_correct)
    (simp_all add: x_plus_2_def is_logical_def substitute_expr_ok_def env_type_ok_update is_arith_def)

text \<open>C10: \<open>substitute_in_all_lets\<close> removes every \<open>Let\<close> of a well-formed
  expression whose bound variables have the types of their values, and keeps its type
  and its value.\<close>

theorem substitute_in_all_lets_correct:
  assumes "wf_expr e" and "vars_typed Map.empty e"
  shows "\<exists>e'. substitute_in_all_lets_e e = Inr (Some e') \<and> let_free e' \<and> wf_expr e' \<and>
    type_eq (type_of e') (type_of e) \<and> (\<forall>r ys. eval r e = Some ys \<longrightarrow> eval r e' = Some ys)"
  using substitute_in_all_lets_refines [OF assms] by (auto simp: refines_to_def)

theorem substitute_in_all_lets_correct_witness:
  "\<exists>e'. substitute_in_all_lets_e (LetE ''x'' (IntImm (Int_t 32 1) 1) (LetE ''x'' x_plus_2 x_plus_2)) = Inr (Some e') \<and>
    let_free e' \<and> eval env0 e' = Some [5]"
proof -
  define e where "e = LetE ''x'' (IntImm (Int_t 32 1) 1) (LetE ''x'' x_plus_2 x_plus_2)"
  have "wf_expr e" and "vars_typed Map.empty e" and "eval env0 e = Some [5]"
    by (simp_all add: e_def x_plus_2_def is_logical_def vars_typed.simps is_arith_def lift2_def)
  then show ?thesis
    unfolding e_def [symmetric] using substitute_in_all_lets_correct [of e] by blast
qed

text \<open>Substituting a variable that the test of \<open>stmt_uses_var\<close> does not find
  returns the statement itself.\<close>

theorem substitute_stmt_unused:
  assumes "\<not> stmt_uses_var s x" and "wf_ranges s"
  shows "substitute_stmt x q (Some s) = Inr (Some s)"
  using assms substitute_s_unused [of s x scope_new q]
  by (simp add: substitute_stmt_def substitute_map_stmt_def mutate_handle_def scope_wf_new)

theorem substitute_stmt_unused_witness:
  "substitute_stmt ''y'' None (Some (Evaluate x_plus_2)) = Inr (Some (Evaluate x_plus_2))"
proof (rule substitute_stmt_unused)
  show "\<not> stmt_uses_var (Evaluate x_plus_2) ''y''"
    by (subst stmt_uses_var_nodes) (simp add: expr_uses_var_iff expr_vars_children x_plus_2_def)
  show "wf_ranges (Evaluate x_plus_2)"
    by (subst wf_ranges.simps) simp
qed

end
