(* ===== verification/IROpsFacts.thy ===== *)
theory IROpsFacts
  imports IRMutate
begin

text \<open>
  The properties of the helpers of \<open>src/IROperator.cpp\<close> modelled in theory
  \<open>IROps\<close>: division of constants is Euclidean, \<open>can_represent\<close> is
  inclusion of ranges, \<open>cast\<close> folds to the value of the \<open>Cast\<close> node,
  \<open>match_types\<close> makes the types agree, \<open>raise_to_integer_power\<close> is
  exponentiation, \<open>split_into_ands\<close> splits a conjunction, and when
  \<open>lossless_cast\<close> keeps the value.
\<close>

unbundle bit_operations_syntax

subsection \<open>Casts\<close>

lemma type_wf_element_of [simp]: "type_wf (element_of t)"
  by (simp add: element_of_def type_wf_mk_Type)

lemma element_of_handle [simp]: "is_handle (element_of t) = is_handle t"
  by simp

lemma type_eq_element: "type_wf t \<Longrightarrow> is_scalar t \<Longrightarrow> \<not> is_handle t \<Longrightarrow> type_eq (element_of t) t"
  by (simp add: type_eq_def element_of_def mk_Type_def is_scalar_def type_wf_def is_handle_def)

lemma fold_cast_type:
  assumes "type_wf t" and "\<not> is_handle t" and "fold_cast t a rest = Inr e"
    and "rest = Inr e \<Longrightarrow> type_eq (type_of e) t"
  shows "type_eq (type_of e) t"
  using assms make_const_type [OF assms(1,2)]
  by (auto simp: fold_cast_def split: if_splits option.splits)

lemma cast_scalar_type:
  assumes "type_wf t" and "\<not> is_handle t" and "cast_scalar t a = Inr e"
  shows "type_eq (type_of e) t"
  using assms(3) unfolding cast_scalar_def
  by (rule fold_cast_type [OF assms(1,2)]) (auto simp: Cast_make_def)

lemma broadcast_cast_type:
  assumes "type_wf t" and "\<not> is_handle t" and "wf_expr a"
    and "rbind (cast_scalar (element_of t) a) (\<lambda>v. Broadcast_make (Some v) (int (lanes t))) = Inr e"
  shows "type_eq (type_of e) t"
proof -
  obtain v where v: "cast_scalar (element_of t) a = Inr v" "e = Broadcast v (int (lanes t))"
    using assms(4) by (auto simp: Broadcast_make_def)
  have "type_eq (type_of v) (element_of t)"
    using cast_scalar_type [OF _ _ v(1)] assms(2) by simp
  then show ?thesis
    using v(2) assms(1,2)
    by (auto simp: type_eq_def element_of_def with_lanes_def mk_Type_def type_wf_def is_handle_def)
qed

lemma cast_type:
  assumes "type_wf t" and "\<not> is_handle t" and "wf_expr a" and "cast t a = Inr e"
  shows "type_eq (type_of e) t"
  using assms(4) unfolding cast_def
proof (rule fold_cast_type [OF assms(1,2)])
  assume r: "(if is_vector t then
          (if is_scalar (type_of a) then
             rbind (cast_scalar (element_of t) a) (\<lambda>v. Broadcast_make (Some v) (int (lanes t)))
           else case a of
             Broadcast v n \<Rightarrow>
               rbind (internal_assert (n = int (lanes t)) []) (\<lambda>_.
               rbind (cast_scalar (element_of t) v) (\<lambda>v. Broadcast_make (Some v) (int (lanes t))))
           | _ \<Rightarrow> Cast_make t (Some a))
        else Cast_make t (Some a)) = Inr e"
  show "type_eq (type_of e) t"
  proof (cases "is_vector t")
    case False
    with r show ?thesis by (auto simp: Cast_make_def)
  next
    case vec: True
    show ?thesis
    proof (cases "is_scalar (type_of a)")
      case True
      with vec r broadcast_cast_type [OF assms(1-3)] show ?thesis by simp
    next
      case False
      show ?thesis
      proof (cases "expr_type_info a = NT_Broadcast")
        case True
        then obtain v n where a: "a = Broadcast v n" by (auto simp: expr_type_info_iff)
        then have "wf_expr v" using assms(3) by simp
        with vec False r a broadcast_cast_type [OF assms(1,2), of v e] show ?thesis
          by (auto simp: internal_assert_def split: if_splits)
      next
        case no: False
        with vec False r have "Cast_make t (Some a) = Inr e" by (cases a) auto
        then show ?thesis by (auto simp: Cast_make_def)
      qed
    qed
  qed
qed

subsection \<open>Matching of types\<close>

lemma match_widths_types:
  assumes "wf_expr a" and "wf_expr b" and "lanes (type_of a) \<noteq> 0" and "lanes (type_of b) \<noteq> 0"
    and "\<not> is_handle (type_of a)" and "\<not> is_handle (type_of b)" and "match_widths a b = Inr (a', b')"
  shows "wf_expr a' \<and> wf_expr b' \<and> lanes (type_of a') = lanes (type_of b') \<and>
    \<not> is_handle (type_of a') \<and> \<not> is_handle (type_of b')"
proof -
  have "lanes (type_of a) < 2 ^ 16" "lanes (type_of b) < 2 ^ 16"
    using assms(1,2) wf_expr_type_wf by (auto simp: type_wf_def)
  then show ?thesis
    using assms
    by (auto simp: match_widths_def Broadcast_make_def is_vector_def is_scalar_def is_handle_def
        split: if_splits)
qed

lemma Int_t_facts:
  "type_wf (Int_t b n)" "\<not> is_handle (Int_t b n)"
  by (simp_all add: Int_t_def type_wf_mk_Type) (simp add: mk_Type_def is_handle_def)

lemma match_codes_types:
  assumes "wf_expr a" and "wf_expr b" and "\<not> is_handle (type_of a)" and "\<not> is_handle (type_of b)"
    and "match_codes a b = Inr (a', b')"
  shows "type_eq (type_of a') (type_of b')"
proof -
  have wf: "type_wf (type_of a)" "type_wf (type_of b)" using assms(1,2) wf_expr_type_wf by auto
  have ca: "cast (type_of b) a = Inr x \<Longrightarrow> type_eq (type_of x) (type_of b)" for x
    using cast_type [OF wf(2) assms(4,1)] .
  have cb: "cast (type_of a) b = Inr x \<Longrightarrow> type_eq (type_of a) (type_of x)" for x
    using cast_type [OF wf(1) assms(3,2)] type_eq_sym by blast
  have ci: "type_eq (type_of x) (type_of y)"
    if "cast (Int_t k n) a = Inr x" "cast (Int_t k n) b = Inr y" for x y k n
    using cast_type [OF Int_t_facts assms(1) that(1)] cast_type [OF Int_t_facts assms(2) that(2)]
    by (blast intro: type_eq_trans type_eq_sym)
  show ?thesis
    using assms(5) ca cb ci unfolding match_codes_def Let_def
    by (auto split: if_splits)
qed

lemma match_types_agree_lemma:
  assumes "wf_expr a" and "wf_expr b" and "lanes (type_of a) \<noteq> 0" and "lanes (type_of b) \<noteq> 0"
    and "match_types a b = Inr (a', b')"
  shows "type_eq (type_of a') (type_of b')"
proof (cases "type_eq (type_of a) (type_of b)")
  case True
  with assms(5) show ?thesis by (auto simp: match_types_def)
next
  case False
  with assms(5) obtain a1 b1 where h: "\<not> is_handle (type_of a)" "\<not> is_handle (type_of b)"
    and w: "match_widths a b = Inr (a1, b1)" and c: "match_codes a1 b1 = Inr (a', b')"
    by (auto simp: match_types_def)
  from match_widths_types [OF assms(1-4) h w] c show ?thesis
    using match_codes_types by blast
qed

subsection \<open>The value of a cast\<close>

lemma as_const_int_eval:
  assumes "as_const_int a = Some i" and "wf_expr a" and "eval_in m r a = Some xs"
  shows "xs = replicate (lanes (type_of a)) i"
  using assms
proof (induction a arbitrary: xs rule: as_const_int.induct)
  case (1 v n)
  then obtain ys where ys: "eval_in m r v = Some ys" "length ys = 1" "xs = replicate (nat n) (hd ys)"
    by (auto elim!: bind_eq_SomeE split: if_splits)
  have "ys = replicate (lanes (type_of v)) i" using 1 ys(1) by simp
  with ys 1(3) show ?case by (auto simp: is_scalar_def)
qed (auto simp: is_scalar_def split: if_splits)

lemma as_const_uint_eval:
  assumes "as_const_uint a = Some i" and "wf_expr a" and "eval_in m r a = Some xs"
  shows "xs = replicate (lanes (type_of a)) i"
  using assms
proof (induction a arbitrary: xs rule: as_const_uint.induct)
  case (1 v n)
  then obtain ys where ys: "eval_in m r v = Some ys" "length ys = 1" "xs = replicate (nat n) (hd ys)"
    by (auto elim!: bind_eq_SomeE split: if_splits)
  have "ys = replicate (lanes (type_of v)) i" using 1 ys(1) by simp
  with ys 1(3) show ?case by (auto simp: is_scalar_def)
qed (auto simp: is_scalar_def split: if_splits)

lemma as_const_float_eval: "as_const_float a = Some d \<Longrightarrow> eval_in m r a = None"
  by (induction a rule: as_const_float.induct) auto

lemma fit_wrap: "fit t x = Some y \<Longrightarrow> y = wrap t x"
  by (rule fit_eq_wrap)

text \<open>Casting keeps the value modulo the width, as the node \<open>Cast\<close> does.\<close>

lemma those_fit_same: "(\<And>x. x \<in> set xs \<Longrightarrow> in_range t x) \<Longrightarrow> those (map (fit t) xs) = Some xs"
  by (induction xs) auto

lemma fold_cast_cases:
  assumes "fold_cast t a rest = Inr e"
  shows "(type_eq (type_of a) t \<and> e = a) \<or> (\<exists>i. as_const_int a = Some i \<and> make_const_int t i = Inr e) \<or>
    (\<exists>i. as_const_uint a = Some i \<and> make_const_uint t i = Inr e) \<or>
    (\<exists>d. as_const_float a = Some d) \<or> rest = Inr e"
  using assms unfolding fold_cast_def by (simp split: if_splits option.splits)

lemma fold_cast_eval:
  assumes "type_wf t" and "is_int t \<or> is_uint t" and "wf_expr a" and "lanes (type_of a) = lanes t"
    and "fold_cast t a rest = Inr e" and "rest = Inr e \<Longrightarrow> eval r e = Some ys"
    and "eval r (Cast t a) = Some ys"
  shows "eval r e = Some ys"
proof -
  obtain xs where xs: "eval r a = Some xs" and ys: "list_all2 (\<lambda>x y. fit t x = Some y) xs ys"
    using assms(7) by (auto simp: those_map_eq_Some elim!: bind_eq_SomeE)
  have wrap: "ys = map (wrap t) xs"
    using ys by (induction rule: list_all2_induct) (auto dest: fit_wrap)
  have const: "eval r e = Some ys" if "xs = replicate (lanes t) i" "make_const_int t i = Inr e" for i
    using make_const_int_eval [OF assms(1,2) that(2)] wrap that(1) by simp
  consider "type_eq (type_of a) t" "e = a" | i where "as_const_int a = Some i" "make_const_int t i = Inr e"
    | i where "as_const_uint a = Some i" "make_const_uint t i = Inr e"
    | d where "as_const_float a = Some d" | "rest = Inr e"
    using fold_cast_cases [OF assms(5)] by blast
  then show ?thesis
  proof cases
    case 1
    have "has_type xs (type_of a)" using eval_sound [OF assms(3) xs] .
    then have "\<forall>x \<in> set xs. in_range t x" using 1(1) by (simp add: has_type_def type_eq_range)
    then have "those (map (fit t) xs) = Some xs" by (intro those_fit_same) auto
    then have "ys = xs" using assms(7) xs by simp
    with 1 xs show ?thesis by simp
  next
    case (2 i)
    have "xs = replicate (lanes t) i" using as_const_int_eval [OF 2(1) assms(3) xs] assms(4) by simp
    then show ?thesis using 2(2) by (rule const)
  next
    case (3 i)
    have "xs = replicate (lanes t) i" using as_const_uint_eval [OF 3(1) assms(3) xs] assms(4) by simp
    then show ?thesis
      using 3(2) unfolding make_const_uint_int [OF assms(2)] by (rule const)
  next
    case (4 d)
    with as_const_float_eval xs show ?thesis by simp
  next
    case 5
    then show ?thesis by (rule assms(6))
  qed
qed

lemma Cast_make_eval: "Cast_make t (Some a) = Inr e \<Longrightarrow> e = Cast t a"
  by (auto simp: Cast_make_def)

lemma cast_eval:
  assumes "type_wf t" and "is_int t \<or> is_uint t" and "wf_expr a" and "lanes (type_of a) = lanes t"
    and "0 < lanes t" and "cast t a = Inr e" and "eval r (Cast t a) = Some ys"
  shows "eval r e = Some ys"
  using assms(6) unfolding cast_def
proof (rule fold_cast_eval [OF assms(1-4) _ _ assms(7)])
  assume rest: "(if is_vector t then
          (if is_scalar (type_of a) then
             rbind (cast_scalar (element_of t) a) (\<lambda>v. Broadcast_make (Some v) (int (lanes t)))
           else case a of
             Broadcast v n \<Rightarrow>
               rbind (internal_assert (n = int (lanes t)) []) (\<lambda>_.
               rbind (cast_scalar (element_of t) v) (\<lambda>v. Broadcast_make (Some v) (int (lanes t))))
           | _ \<Rightarrow> Cast_make t (Some a))
        else Cast_make t (Some a)) = Inr e"
  have vs: "is_vector t \<longleftrightarrow> \<not> is_scalar (type_of a)"
    using assms(4) by (simp add: is_vector_def is_scalar_def)
  show "eval r e = Some ys"
  proof (cases "is_vector t \<and> expr_type_info a = NT_Broadcast")
    case False
    with rest vs have "Cast_make t (Some a) = Inr e" by (cases a) (auto split: if_splits)
    then show ?thesis using assms(7) Cast_make_eval by simp
  next
    case True
    then obtain v n where a: "a = Broadcast v n" by (auto simp: expr_type_info_iff)
    with rest vs True obtain w where n: "n = int (lanes t)"
      and w: "cast_scalar (element_of t) v = Inr w" and e: "e = Broadcast w (int (lanes t))"
      by (auto simp: Broadcast_make_def)
    obtain x where x: "eval r v = Some [x]"
      and "list_all2 (\<lambda>x y. fit t x = Some y) (replicate (lanes t) x) ys"
      using assms(7) unfolding a
      by (auto simp: those_map_eq_Some n length_Suc_conv elim!: bind_eq_SomeE split: if_splits)
    then have ys: "length ys = lanes t" "\<And>i. i < lanes t \<Longrightarrow> fit t x = Some (ys ! i)"
      by (auto simp: list_all2_conv_all_nth)
    note \<open>0 < lanes t\<close>
    then obtain y where y: "fit t x = Some y" using ys(2) by blast
    have "ys = replicate (lanes t) y"
      using ys y by (intro nth_equalityI) auto
    moreover have "eval r w = Some [y]"
    proof (rule fold_cast_eval)
      show "fold_cast (element_of t) v (Cast_make (element_of t) (Some v)) = Inr w"
        using w by (simp add: cast_scalar_def)
      show ev: "eval r (Cast (element_of t) v) = Some [y]"
        using x y assms(1) by (simp add: fit_element_of)
      show "Cast_make (element_of t) (Some v) = Inr w \<Longrightarrow> eval r w = Some [y]"
        using ev Cast_make_eval by blast
    qed (use assms a in \<open>auto simp: is_scalar_def\<close>)
    ultimately show ?thesis using e by simp
  qed
qed

subsection \<open>Powers\<close>

lemma wrap_mult: "wrap t (wrap t a * wrap t b) = wrap t (a * b)"
  by (simp add: wrap_def signed_take_bit_mult take_bit_mult)

lemma fit_mult_wrap:
  assumes "is_int t \<or> is_uint t" and "\<not> no_overflow_int t"
  shows "fit t (wrap t a * wrap t b) = Some (wrap t (a * b))"
  using assms wrap_in_range [of t "wrap t a * wrap t b"] wrap_mult [of t a b]
  by (auto simp: fit_def)

lemma in_range_no_overflow:
  "no_overflow_int t \<Longrightarrow> in_range t x \<longleftrightarrow> - (2 ^ (bits t - 1)) \<le> x \<and> x < 2 ^ (bits t - 1)"
  by (auto simp: in_range_def no_overflow_int_def type_lo_def type_hi_def)

lemma in_range_power_le:
  assumes "no_overflow_int t" and "in_range t (x ^ p)" and "q \<le> p"
  shows "in_range t (x ^ q)"
proof (cases "\<bar>x\<bar> \<le> 1 \<or> q = p")
  case True
  then have "q = p \<or> \<bar>x ^ q\<bar> \<le> 1" by (auto simp: power_abs intro: power_le_one)
  moreover have "(1::int) < 2 ^ (bits t - 1)"
    using assms(1) by (intro one_less_power) (auto simp: no_overflow_int_def)
  ultimately show ?thesis
    using assms(2) unfolding in_range_no_overflow [OF assms(1)] by (auto simp del: One_nat_def)
next
  case False
  then obtain k where p: "p = Suc k" and "q \<le> k" using assms(3) by (cases p) auto
  have "2 * \<bar>x ^ q\<bar> \<le> \<bar>x\<bar> * \<bar>x\<bar> ^ k"
    using False \<open>q \<le> k\<close> by (intro mult_mono) (auto simp: power_abs intro: power_increasing)
  also have "\<dots> = \<bar>x ^ p\<bar>" by (simp add: p power_abs abs_mult)
  also have "\<dots> \<le> 2 ^ (bits t - 1)"
    using assms(2) unfolding in_range_no_overflow [OF assms(1)] by linarith
  finally have "2 * \<bar>x ^ q\<bar> \<le> 2 ^ (bits t - 1)" .
  moreover have "(0::int) < 2 ^ (bits t - 1)" by simp
  ultimately have "\<bar>x ^ q\<bar> < 2 ^ (bits t - 1)" by linarith
  then show ?thesis
    unfolding in_range_no_overflow [OF assms(1)] by linarith
qed

text \<open>The product of two powers, as \<open>Mul\<close> computes it.\<close>

lemma mul_power_val:
  assumes "is_int t \<or> is_uint t" and "no_overflow_int t \<longrightarrow> in_range t (x ^ (p + q))"
  shows "binop_val MulOp t (wrap t (x ^ p)) (wrap t (x ^ q)) = Some (wrap t (x ^ (p + q)))"
proof (cases "no_overflow_int t")
  case True
  with assms(2) have "in_range t (x ^ (p + q))" "in_range t (x ^ p)" "in_range t (x ^ q)"
    using in_range_power_le [OF True] by auto
  then show ?thesis by (simp add: wrap_in_range power_add [symmetric])
next
  case False
  with assms(1) show ?thesis by (simp add: fit_mult_wrap power_add)
qed

lemma Mul_eval:
  assumes "operator_ee MulOp (Some a) (Some b) = Inr c" and "type_eq (type_of a) (type_of b)"
    and "eval r a = Some xs" and "eval r b = Some ys" and "length xs = length ys" "length zs = length xs"
    and "\<And>i. i < length xs \<Longrightarrow> binop_val MulOp (type_of a) (xs ! i) (ys ! i) = Some (zs ! i)"
  shows "eval r c = Some zs" and "type_of c = type_of a"
  using assms
  by (auto simp: operator_ee_def operand_def user_defined_def match_types_def binary_make_def defined_handle_def
      lift2_Some is_arith_def is_logical_def)

lemma raise_nat_eval:
  assumes "raise_nat e p = Inr e'" and "wf_expr e" and "is_int (type_of e) \<or> is_uint (type_of e)"
    and "eval r e = Some xs" and "\<forall>x \<in> set xs. no_overflow_int (type_of e) \<longrightarrow> in_range (type_of e) (x ^ p)"
  shows "eval r e' = Some (map (\<lambda>x. wrap (type_of e) (x ^ p)) xs) \<and> type_eq (type_of e') (type_of e)"
  using assms
proof (induction e p arbitrary: e' rule: raise_nat.induct)
  case (1 e p)
  let ?t = "type_of e"
  have ht: "has_type xs ?t" using eval_sound 1 by blast
  have twf: "type_wf ?t" using wf_expr_type_wf 1 by blast
  have nh: "\<not> is_handle ?t" using 1 by (auto simp: is_handle_def is_int_def is_uint_def)
  consider "p = 0" | "p = 1" | "1 < p" by linarith
  then show ?case
  proof cases
    assume p: "p = 0"
    then have m: "make_const_int ?t 1 = Inr e'" using "1.prems"(1) by (simp add: raise_nat.simps make_one_def)
    then have "eval r e' = Some (replicate (lanes ?t) (wrap ?t 1))"
      using make_const_int_eval [OF twf] 1 by blast
    moreover have "map (\<lambda>x. wrap ?t (x ^ p)) xs = replicate (lanes ?t) (wrap ?t 1)"
      using ht p by (simp add: has_type_def map_replicate_const)
    ultimately show ?thesis using make_const_type(1) [OF twf nh m] by simp
  next
    assume p: "p = 1"
    have "map (\<lambda>x. wrap ?t (x ^ p)) xs = xs"
      using ht p by (auto simp: has_type_def wrap_in_range intro: map_idI)
    with p 1 show ?thesis by (simp add: raise_nat.simps)
  next
    assume p: "1 < p"
    then obtain y yy where y: "raise_nat e (p div 2) = Inr y"
      and yy: "operator_ee MulOp (Some y) (Some y) = Inr yy"
      and e': "(if odd p then operator_ee MulOp (Some yy) (Some e) else Inr yy) = Inr e'"
      using "1.prems"(1) by (subst (asm) (2) raise_nat.simps) auto
    have small: "\<forall>x \<in> set xs. no_overflow_int ?t \<longrightarrow> in_range ?t (x ^ k)" if "k \<le> p" for k
      using "1.prems"(5) in_range_power_le that by blast
    have ih: "eval r y = Some (map (\<lambda>x. wrap ?t (x ^ (p div 2))) xs)" "type_eq (type_of y) ?t"
      using "1.IH" [OF _ _ y "1.prems"(2-4) small] p by auto
    have h: "p div 2 + p div 2 = 2 * (p div 2)" by simp
    have eyy: "eval r yy = Some (map (\<lambda>x. wrap ?t (x ^ (2 * (p div 2)))) xs)" "type_of yy = type_of y"
      using Mul_eval [OF yy type_eq_refl ih(1) ih(1), of "map (\<lambda>x. wrap ?t (x ^ (2 * (p div 2)))) xs"]
        mul_power_val [OF "1.prems"(3), of _ "p div 2" "p div 2"] small [of "2 * (p div 2)"]
      by (auto simp: type_eq_fit(3) [OF ih(2)] h simp del: binop_val.simps)
    show ?thesis
    proof (cases "odd p")
      case True
      then have p2: "2 * (p div 2) + 1 = p" by presburger
      have x: "wrap ?t x = x" if "x \<in> set xs" for x
        using ht that by (simp add: has_type_def wrap_in_range)
      have m: "operator_ee MulOp (Some yy) (Some e) = Inr e'" using e' True by simp
      have "binop_val MulOp ?t (wrap ?t (x ^ (2 * (p div 2)))) x = Some (wrap ?t (x ^ p))"
        if "x \<in> set xs" for x
        using mul_power_val [OF "1.prems"(3), of x "2 * (p div 2)" 1, unfolded p2] small [of p] x that
        by (simp del: binop_val.simps)
      then have "eval r e' = Some (map (\<lambda>x. wrap ?t (x ^ p)) xs)" "type_of e' = type_of yy"
        using Mul_eval [OF m _ eyy(1) "1.prems"(4), of "map (\<lambda>x. wrap ?t (x ^ p)) xs"] ih(2)
        by (auto simp: eyy(2) type_eq_fit(3) [OF ih(2)] simp del: binop_val.simps)
      then show ?thesis using ih(2) eyy(2) by simp
    next
      case False
      then have "2 * (p div 2) = p" by simp
      then show ?thesis using e' False eyy ih(2) by simp
    qed
  qed
qed

lemma Inr_eq_rbind [simp]: "Inr y = rbind m f \<longleftrightarrow> (\<exists>x. m = Inr x \<and> f x = Inr y)"
  by (metis rbind_eq_Inr)

subsection \<open>Lossless casts\<close>

text \<open>Every cast on the way to the value is itself a widening one.\<close>

fun casts_widen :: "expr \<Rightarrow> bool" where
  "casts_widen (Cast t v) \<longleftrightarrow> can_represent_type t (type_of v) \<and> (is_int t \<or> is_uint t) \<and> casts_widen v"
| "casts_widen (Broadcast v n) \<longleftrightarrow> casts_widen v"
| "casts_widen _ \<longleftrightarrow> True"

lemma cast_widening_eval:
  assumes "type_wf t" and "is_int t \<or> is_uint t" and "0 < lanes t" and "wf_expr e"
    and "can_represent_type t (type_of e)" and "eval r e = Some xs" and "cast t e = Inr c"
  shows "eval r c = Some xs"
proof -
  have "has_type xs (type_of e)" using eval_sound [OF assms(4,6)] .
  then have "\<And>x. x \<in> set xs \<Longrightarrow> in_range t x"
    using in_range_mono_int [OF assms(2,5)] by (auto simp: has_type_def)
  then have "eval r (Cast t e) = Some xs" using assms(6) those_fit_same by simp
  moreover have "lanes (type_of e) = lanes t" using assms(5) by (auto simp: can_represent_type_def split: if_splits)
  ultimately show ?thesis using cast_eval assms by blast
qed

lemma eval_Cast_widening:
  assumes "wf_expr (Cast t v)" and "casts_widen (Cast t v)" and "eval r (Cast t v) = Some xs"
  shows "eval r v = Some xs"
proof -
  obtain ys where ys: "eval r v = Some ys" using assms(3) by (auto elim!: bind_eq_SomeE)
  have "has_type ys (type_of v)" using eval_sound assms(1) ys by simp
  then have "\<And>x. x \<in> set ys \<Longrightarrow> in_range t x"
    using in_range_mono_int assms(2) by (auto simp: has_type_def)
  then show ?thesis using ys assms(3) those_fit_same by simp
qed

lemma int_width_wf: "is_int t \<Longrightarrow> bits t \<in> {8, 16, 32, 64} \<Longrightarrow> int_width t"
  "is_uint t \<Longrightarrow> bits t \<in> {1, 8, 16, 32, 64} \<Longrightarrow> int_width t"
  by (auto simp: int_width_def)

lemma lossless_cast_eval:
  assumes "lossless_cast t e = Inr (Some c)" and "type_wf t" and "int_width t" and "0 < lanes t"
    and "wf_expr e" and "casts_widen e" and "eval r e = Some xs" and "lanes t = lanes (type_of e)"
  shows "eval r c = Some xs \<and> type_eq (type_of c) t"
  using assms
proof (induction t e arbitrary: c xs rule: lossless_cast.induct)
  case (1 t e)
  have it: "is_int t \<or> is_uint t" using "1.prems"(3) by (simp add: int_width_def)
  then have nh: "\<not> is_handle t" by (auto simp: type_predicates)
  consider (same) "type_eq t (type_of e)"
    | (wide) "\<not> type_eq t (type_of e)" "can_represent_type t (type_of e)"
    | (rec) "\<not> type_eq t (type_of e)" "\<not> can_represent_type t (type_of e)" by blast
  then show ?case
  proof cases
    case same
    with "1.prems"(1,7) show ?thesis by (subst (asm) lossless_cast.simps) (simp add: type_eq_sym)
  next
    case wide
    with "1.prems"(1) have "cast t e = Inr c" by (subst (asm) lossless_cast.simps) simp
    then show ?thesis using cast_widening_eval it "1.prems"(2,4,5,7) wide(2) cast_type nh by blast
  next
    case rec
    show ?thesis
    proof (cases e)
      case (Cast ct v)
      with rec "1.prems"(1) have c: "can_represent_type t (type_of v)" "lossless_cast t v = Inr (Some c)"
        using lossless_cast.simps [of t e] by (simp_all split: if_splits)
      have "eval r v = Some xs" using eval_Cast_widening "1.prems"(5-7) Cast by blast
      with "1.IH"(1) [OF rec Cast c(1) c(2)] "1.prems" Cast show ?thesis by simp
    next
      case (Broadcast v n)
      with rec "1.prems"(1) obtain v' where v': "lossless_cast (element_of t) v = Inr (Some v')"
        and c: "c = Broadcast v' n"
        by (subst (asm) lossless_cast.simps)
          (auto simp: Broadcast_make_def split: option.splits)
      obtain x where x: "eval r v = Some [x]" and xs: "xs = replicate (nat n) x"
        using "1.prems"(7) Broadcast by (auto simp: length_Suc_conv elim!: bind_eq_SomeE split: if_splits)
      have n: "nat n = lanes t" "0 \<le> n" "n < 2 ^ 16" and wf: "wf_expr v" "lanes (type_of v) = 1"
        using "1.prems"(5,8) Broadcast by (auto simp: is_scalar_def)
      have "eval r v' = Some [x] \<and> type_eq (type_of v') (element_of t)"
        using "1.IH"(2) [OF rec Broadcast v'] "1.prems" Broadcast x wf
        by (simp add: int_width_def)
      moreover have "type_eq (type_of c) t" if "type_eq (type_of v') (element_of t)"
        using that "1.prems"(2) nh n unfolding c
        by (auto simp: type_eq_def with_lanes_def element_of_def mk_Type_def is_handle_def type_wf_def)
      ultimately show ?thesis using c xs by simp
    next
      case (IntImm it i)
      with rec "1.prems" have c: "in_range t i" "make_const_int t i = Inr c"
        using lossless_cast.simps [of t e] by (simp_all add: can_represent_int64_int split: if_splits)
      then show ?thesis
        using make_const_int_eval [OF "1.prems"(2) it c(2)] make_const_type(1) [OF "1.prems"(2) nh c(2)]
          "1.prems"(5,7,8) IntImm by (auto simp: is_scalar_def wrap_in_range split: if_splits)
    next
      case (UIntImm ut i)
      then have "0 \<le> i" using "1.prems"(5) by (auto simp: in_range_def type_lo_def split: if_splits)
      with rec "1.prems" UIntImm have c: "in_range t i" "make_const_int t i = Inr c"
        using lossless_cast.simps [of t e]
        by (simp_all add: can_represent_uint64_int make_const_uint_int [OF it] split: if_splits)
      then show ?thesis
        using make_const_int_eval [OF "1.prems"(2) it c(2)] make_const_type(1) [OF "1.prems"(2) nh c(2)]
          "1.prems"(5,7,8) UIntImm by (auto simp: is_scalar_def wrap_in_range split: if_splits)
    qed (use rec "1.prems"(1,7) in \<open>subst (asm) lossless_cast.simps, simp\<close>)+
  qed
qed

subsection \<open>Conjunctions\<close>

text \<open>No cast to a type without bits, which the constant tests look through.\<close>

fun sized_casts :: "expr \<Rightarrow> bool" where
  "sized_casts (Cast t v) \<longleftrightarrow> 0 < bits t \<and> sized_casts v"
| "sized_casts (Broadcast v n) \<longleftrightarrow> sized_casts v"
| "sized_casts (Binary op a b) \<longleftrightarrow> sized_casts a \<and> sized_casts b"
| "sized_casts _ \<longleftrightarrow> True"

lemma fit_odd:
  assumes "fit t x = Some y" and "0 < bits t" and "odd x"
  shows "odd y"
proof -
  have "(2::int) ^ bits t dvd y - x"
    using wrap_cong [OF assms(2)] fit_eq_wrap [OF assms(1)] by simp
  moreover have "(2::int) dvd 2 ^ bits t" using assms(2) by simp
  ultimately have "even (y - x)" using dvd_trans by blast
  with assms(3) show ?thesis by simp
qed

lemma fit_in_odd: "fit_in m t x = Some y \<Longrightarrow> 0 < bits t \<Longrightarrow> odd x \<Longrightarrow> odd y"
  using fit_odd by (auto simp: fit_in_def split: if_splits)

lemma is_zero_eval: "is_zero e \<Longrightarrow> eval_in m r e = Some xs \<Longrightarrow> x \<in> set xs \<Longrightarrow> x = 0"
proof (induction e arbitrary: xs x)
  case (Cast t v)
  then obtain ys where ys: "eval_in m r v = Some ys" "list_all2 (\<lambda>x y. fit_in m t x = Some y) ys xs"
    by (auto simp: those_map_eq_Some elim!: bind_eq_SomeE)
  have z: "\<forall>y \<in> set ys. y = 0" using Cast.IH [OF _ ys(1)] Cast.prems(1) by auto
  obtain i where "i < length xs" "x = xs ! i" using Cast.prems(3) by (auto simp: in_set_conv_nth)
  then obtain y where y: "y \<in> set ys" "fit_in m t y = Some x"
    using ys(2) that [of "ys ! i"] by (auto simp: list_all2_conv_all_nth)
  then have "fit_in m t 0 = Some x" using z by auto
  moreover have "fit t 0 = Some w \<Longrightarrow> w = 0" for w
    by (auto simp: fit_def wrap_def split: if_splits)
  ultimately show ?case by (auto simp: fit_in_def split: if_splits)
next
  case (Broadcast v n)
  then obtain ys where ys: "eval_in m r v = Some ys" "length ys = 1" "xs = replicate (nat n) (hd ys)"
    by (auto elim!: bind_eq_SomeE split: if_splits)
  then show ?case using Broadcast by (cases ys) auto
qed (auto split: if_splits)

lemma is_one_eval:
  assumes "is_one e" and "sized_casts e" and "eval_in m r e = Some xs"
  shows "\<forall>x \<in> set xs. odd x"
  using assms
proof (induction e arbitrary: xs)
  case (Cast t v)
  then obtain ys where ys: "eval_in m r v = Some ys" "list_all2 (\<lambda>x y. fit_in m t x = Some y) ys xs"
    by (auto simp: those_map_eq_Some elim!: bind_eq_SomeE)
  have "\<forall>y \<in> set ys. odd y" using Cast ys(1) by simp
  with ys(2) show ?case
    by (induction rule: list_all2_induct) (use Cast.prems(2) fit_in_odd in auto)
next
  case (Broadcast v n)
  then obtain ys where ys: "eval_in m r v = Some ys" "length ys = 1" "xs = replicate (nat n) (hd ys)"
    by (auto elim!: bind_eq_SomeE split: if_splits)
  then show ?case using Broadcast by (cases ys) auto
qed (auto split: if_splits)

text \<open>Lane \<open>i\<close> of every condition of a list holds.\<close>

definition all_hold :: "env \<Rightarrow> expr list \<Rightarrow> nat \<Rightarrow> bool" where
  "all_hold r cs i \<longleftrightarrow> (\<forall>c \<in> set cs. \<exists>xs. eval r c = Some xs \<and> i < length xs \<and> xs ! i \<noteq> 0)"

lemma split_into_ands_eval:
  assumes "split_into_ands cond = Inr cs" and "wf_expr cond" and "sized_casts cond"
    and "eval r cond = Some xs" and "i < length xs"
  shows "xs ! i \<noteq> 0 \<longleftrightarrow> all_hold r cs i"
  using assms
proof (induction cond arbitrary: cs xs rule: split_into_ands.induct)
  case (1 cond)
  show ?case
  proof (cases "\<exists>a b. cond = Binary AndOp a b")
    case True
    then obtain a b where c: "cond = Binary AndOp a b" by blast
    have u: "is_bool (type_of cond)" using "1.prems"(1) split_into_ands.simps [of cond] by simp
    from c u "1.prems"(1) obtain as bs where s: "split_into_ands a = Inr as" "split_into_ands b = Inr bs"
      and cs: "cs = as @ bs"
      using split_into_ands.simps [of cond] by auto
    from "1.prems"(4) c obtain ys zs where e: "eval r a = Some ys" "eval r b = Some zs"
      and l: "lift2 (binop_val AndOp (type_of a)) ys zs = Some xs"
      by (auto elim!: bind_eq_SomeE)
    then have len: "length ys = length xs" "length zs = length xs"
      and v: "xs ! i = of_bool (ys ! i \<noteq> 0 \<and> zs ! i \<noteq> 0)"
      using "1.prems"(5) by (auto simp: lift2_Some)
    have "ys ! i \<noteq> 0 \<longleftrightarrow> all_hold r as i"
      using "1.IH"(1) [OF _ c refl s(1) _ _ e(1)] "1.prems" c u len by simp
    moreover have "zs ! i \<noteq> 0 \<longleftrightarrow> all_hold r bs i"
      using "1.IH"(2) [OF _ c refl s(1) s(2) _ _ e(2)] "1.prems" c u len by simp
    ultimately show ?thesis using v cs by (auto simp: all_hold_def)
  next
    case False
    then have "cs = (if is_one cond then [] else [cond])"
      using "1.prems"(1) split_into_ands.simps [of cond]
      by (auto split: expr.splits binop.splits)
    moreover have "odd (xs ! i)" if "is_one cond"
      using is_one_eval [OF that "1.prems"(3,4)] nth_mem [OF "1.prems"(5)] by blast
    ultimately show ?thesis
      using "1.prems"(4,5) by (cases "is_one cond") (auto simp: all_hold_def)
  qed
qed

subsection \<open>Powers of two\<close>

lemma and_pred_even:
  "0 < n \<Longrightarrow> n AND (n - 1) = 0 \<Longrightarrow> n \<noteq> 1 \<Longrightarrow> even (n::int)"
proof (rule ccontr)
  assume n: "0 < n" "n AND (n - 1) = 0" "n \<noteq> 1" "odd n"
  then obtain k where k: "n = 2 * k + 1" by (auto elim: oddE)
  then have "n AND (n - 1) = 2 * k" by (simp add: and_int_rec [of "2 * k + 1"] and.idem)
  with n k show False by simp
qed

lemma and_pred_half:
  "even n \<Longrightarrow> 0 < n \<Longrightarrow> n AND (n - 1) = 0 \<Longrightarrow> (n div 2) AND (n div 2 - 1) = (0::int)"
proof -
  assume n: "even n" "0 < n" "n AND (n - 1) = 0"
  then obtain k where k: "n = 2 * k" by (auto elim: evenE)
  have "(2 * k - 1) div 2 = k - 1" by presburger
  then have "n AND (n - 1) = 2 * (k AND (k - 1))"
    using k by (simp add: and_int_rec [of "2 * k"])
  with n k show ?thesis by simp
qed

lemma pow2_loop_power:
  "0 < n \<Longrightarrow> int n AND (int n - 1) = 0 \<Longrightarrow> \<exists>k. pow2_loop n b = Some (b + k) \<and> n = 2 ^ k"
proof (induction n b rule: pow2_loop.induct)
  case (1 n b)
  show ?case
  proof (cases "n = 1")
    case True
    then show ?thesis by (simp add: pow2_loop.simps)
  next
    case False
    with 1 have ev: "even (int n)" using and_pred_even [of "int n"] by simp
    then have "int (n div 2) AND (int (n div 2) - 1) = 0"
      using and_pred_half [of "int n"] 1 by (simp add: zdiv_int)
    moreover have "0 < n div 2" using 1 False by auto
    ultimately obtain k where k: "pow2_loop (n div 2) (Suc b) = Some (Suc b + k)" "n div 2 = 2 ^ k"
      using 1 False by auto
    then have "n = 2 ^ Suc k" using ev by auto
    moreover have "pow2_loop n b = Some (b + Suc k)" using 1 False k(1) by (subst pow2_loop.simps) simp
    ultimately show ?thesis by blast
  qed
qed

lemma power_and_pred: "(2 ^ k :: int) AND (2 ^ k - 1) = 0"
  by (simp flip: mask_eq_exp_minus_1 add: take_bit_eq_mask [symmetric])

lemma pow2_bits_iff: "0 \<le> v \<Longrightarrow> pow2_bits v = Some k \<longleftrightarrow> v = 2 ^ k"
proof
  assume v: "0 \<le> v" "pow2_bits v = Some k"
  then have "pow2_loop (nat v) 0 = Some k" "v \<noteq> 0" "v AND (v - 1) = 0"
    by (auto simp: pow2_bits_def split: if_splits)
  with v(1) pow2_loop_power [of "nat v" 0] have "nat v = 2 ^ k" by auto
  with v(1) show "v = 2 ^ k" by (metis int_nat_eq of_nat_numeral of_nat_power)
next
  assume v: "v = 2 ^ k"
  then obtain j where "pow2_loop (nat v) 0 = Some (0 + j)" "nat v = 2 ^ j"
    using pow2_loop_power [of "nat v" 0] power_and_pred [of k] by auto
  with v have "j = k" by (simp add: nat_power_eq)
  with v \<open>pow2_loop (nat v) 0 = _\<close> show "pow2_bits v = Some k"
    by (simp add: pow2_bits_def power_and_pred)
qed

subsection \<open>Building a power never fails\<close>

text \<open>The integer types of which there are constants.\<close>

definition const_type :: "Type \<Rightarrow> bool" where
  "const_type t \<longleftrightarrow> (is_int t \<and> bits t \<in> {8, 16, 32, 64}) \<or> (is_uint t \<and> bits t \<in> {1, 8, 16, 32, 64})"

lemma const_type_int: "const_type t \<Longrightarrow> is_int t \<or> is_uint t"
  by (auto simp: const_type_def)

lemma const_type_not_handle: "const_type t \<Longrightarrow> \<not> is_handle t"
  by (auto simp: const_type_def type_predicates)

lemma make_const_int_ok:
  assumes "type_wf t" and "const_type t"
  shows "\<exists>c. make_const_int t v = Inr c"
  using assms
  by (auto simp: make_const_int_def make_vector_const_def const_type_def IntImm_make_def UIntImm_make_def
      Broadcast_make_def defined_handle_def is_vector_def is_scalar_def)

lemma Mul_ok:
  assumes "type_eq (type_of a) (type_of b)" and "\<not> is_handle (type_of a)"
  shows "\<exists>c. operator_ee MulOp (Some a) (Some b) = Inr c \<and> type_of c = type_of a"
proof -
  have "\<not> is_handle (type_of b)" using assms by (simp add: type_eq_def is_handle_def)
  with assms show ?thesis
    by (simp add: operator_ee_def operand_def user_defined_def match_types_def binary_make_def defined_handle_def
        is_logical_def is_arith_def)
qed

lemma raise_nat_ok:
  assumes "wf_expr e" and "const_type (type_of e)"
  shows "\<exists>e'. raise_nat e p = Inr e' \<and> type_eq (type_of e') (type_of e)"
  using assms
proof (induction e p rule: raise_nat.induct)
  case (1 e p)
  have twf: "type_wf (type_of e)" using 1 wf_expr_type_wf by blast
  have nh: "\<not> is_handle (type_of e)" using 1 const_type_not_handle by blast
  show ?case
  proof (cases "p = 0 \<or> p = 1")
    case True
    obtain c where c: "make_const_int (type_of e) 1 = Inr c" using make_const_int_ok [OF twf] 1 by blast
    have "raise_nat e p = (if p = 0 then Inr c else Inr e)"
      using True c by (subst raise_nat.simps) (auto simp: make_one_def)
    with make_const_type(1) [OF twf nh c] show ?thesis by simp
  next
    case False
    then obtain y where y: "raise_nat e (p div 2) = Inr y" "type_eq (type_of y) (type_of e)"
      using 1 by blast
    then have "\<not> is_handle (type_of y)" using nh by (simp add: type_eq_def is_handle_def)
    then obtain yy where yy: "operator_ee MulOp (Some y) (Some y) = Inr yy" "type_of yy = type_of y"
      using Mul_ok [of y y] by auto
    then obtain z where z: "operator_ee MulOp (Some yy) (Some e) = Inr z" "type_of z = type_of y"
      using Mul_ok [of yy e] y \<open>\<not> is_handle (type_of y)\<close> by auto
    have "raise_nat e p = (if odd p then Inr z else Inr yy)"
      using False y yy z by (subst raise_nat.simps) simp
    with y yy z show ?thesis by simp
  qed
qed

subsection \<open>Properties\<close>

lemma type_ctor_simps:
  "code (Int_t b n) = halide_type_int" "code (UInt_t b n) = halide_type_uint"
  "bits (Int_t b n) = b mod 256" "bits (UInt_t b n) = b mod 256"
  "lanes (Int_t b n) = nat (n mod 65536)" "lanes (UInt_t b n) = nat (n mod 65536)"
  "type_wf (Int_t b n)" "type_wf (UInt_t b n)"
  by (simp_all add: Int_t_def UInt_t_def type_wf_mk_Type) (simp_all add: mk_Type_def)

lemmas eval_concrete = type_ctor_simps type_predicates in_range_def type_lo_def type_hi_def fit_def
  wrap_def no_overflow_int_def int_width_def can_represent_type_def is_logical_def is_arith_def

text \<open>C22: at every width, \<open>div_imp\<close> and \<open>mod_imp\<close> return the quotient and
  the remainder of Euclidean division, except where the C++ expression is undefined: a zero
  divisor, the least integer divided by minus one, and the remainder of a negative number
  by the least integer, whose absolute value overflows.\<close>

theorem div_mod_euclidean:
  assumes "in_width w a" and "in_width w b" and "b \<noteq> 0" and "\<not> (a = int_min w \<and> b = - 1)"
    and "b \<noteq> int_min w \<or> 0 \<le> a"
  shows "\<exists>q m. div_imp w a b = Inr q \<and> mod_imp w a b = Inr m \<and> a = q * b + m \<and> 0 \<le> m \<and> m < \<bar>b\<bar>"
  using div_imp_correct [OF assms(1-4)] mod_imp_correct [OF assms(2-5)] ediv_emod [of a b]
    emod_range [OF assms(3), of a]
  by auto

theorem div_mod_euclidean_witness:
  "\<exists>q m. div_imp 32 (- 7) (- 2) = Inr q \<and> mod_imp 32 (- 7) (- 2) = Inr m \<and>
     - 7 = q * (- 2) + m \<and> 0 \<le> m \<and> m < \<bar>- 2\<bar>"
  by (rule div_mod_euclidean) (simp_all add: in_width_def int_min_def)

text \<open>C28: between integer types with the same number of lanes,
  \<open>Type::can_represent\<close> holds exactly when every value of the other type is a value of
  this one.\<close>

theorem can_represent_is_inclusion:
  assumes "int_width t" and "int_width s" and "lanes t = lanes s"
  shows "can_represent_type t s \<longleftrightarrow> (\<forall>x. in_range s x \<longrightarrow> in_range t x)"
  using can_represent_complete_int [OF assms] in_range_mono_int [of t s] assms(1)
  by (auto simp: int_width_def)

theorem can_represent_is_inclusion_witness:
  "can_represent_type (Int_t 16 1) (UInt_t 8 1) \<and> in_range (Int_t 16 1) 200"
proof -
  have c: "can_represent_type (Int_t 16 1) (UInt_t 8 1)" by (simp add: eval_concrete)
  have "can_represent_type (Int_t 16 1) (UInt_t 8 1) \<longleftrightarrow>
      (\<forall>x. in_range (UInt_t 8 1) x \<longrightarrow> in_range (Int_t 16 1) x)"
    by (rule can_represent_is_inclusion) (simp_all add: eval_concrete)
  moreover have "in_range (UInt_t 8 1) 200" by (simp add: eval_concrete)
  ultimately show ?thesis using c by blast
qed

text \<open>C23: \<open>cast\<close>, which folds constants and pushes a cast through a broadcast, builds
  an expression of the target type with the value of the plain \<open>Cast\<close> node.\<close>

theorem cast_value:
  assumes "type_wf t" and "is_int t \<or> is_uint t" and "wf_expr a" and "lanes (type_of a) = lanes t"
    and "0 < lanes t" and "cast t a = Inr e" and "eval r (Cast t a) = Some ys"
  shows "type_eq (type_of e) t \<and> eval r e = Some ys"
  using cast_eval [OF assms] cast_type [OF assms(1) _ assms(3,6)] assms(2)
  by (auto simp: type_predicates)

theorem cast_value_witness:
  "type_eq (type_of (UIntImm (UInt_t 8 1) 44)) (UInt_t 8 1) \<and>
   eval env0 (UIntImm (UInt_t 8 1) 44) = Some [44]"
proof (rule cast_value)
  show "cast (UInt_t 8 1) (IntImm (Int_t 32 1) 300) = Inr (UIntImm (UInt_t 8 1) 44)" by code_simp
  show "eval env0 (Cast (UInt_t 8 1) (IntImm (Int_t 32 1) 300)) = Some [44]"
    by (simp add: eval_concrete)
qed (simp_all add: eval_concrete)

text \<open>C27: when \<open>match_types\<close> succeeds, its two results have the same type.\<close>

theorem match_types_agree:
  assumes "wf_expr a" and "wf_expr b" and "lanes (type_of a) \<noteq> 0" and "lanes (type_of b) \<noteq> 0"
    and "match_types a b = Inr (a', b')"
  shows "type_eq (type_of a') (type_of b')"
  using assms by (rule match_types_agree_lemma)

theorem match_types_agree_witness:
  "\<exists>a' b'. match_types (UIntImm (UInt_t 8 1) 3) (Broadcast (IntImm (Int_t 16 1) 5) 4) = Inr (a', b') \<and>
     type_eq (type_of a') (type_of b')"
proof -
  define a b where "a = UIntImm (UInt_t 8 1) 3" and "b = Broadcast (IntImm (Int_t 16 1) 5) 4"
  have "\<not> isl (match_types a b)" unfolding a_def b_def by code_simp
  then obtain a' b' where m: "match_types a b = Inr (a', b')" by (cases "match_types a b") auto
  moreover have "wf_expr a" and "wf_expr b" and "lanes (type_of a) \<noteq> 0" and "lanes (type_of b) \<noteq> 0"
    by (simp_all add: a_def b_def eval_concrete)
  ultimately show ?thesis using match_types_agree [of a b] unfolding a_def b_def by blast
qed

text \<open>C24: where every cast below it widens, \<open>lossless_cast\<close> to an integer type
  keeps the value of the expression, unchanged.\<close>

theorem lossless_cast_keeps_value:
  assumes "lossless_cast t e = Inr (Some c)" and "type_wf t" and "int_width t" and "0 < lanes t"
    and "wf_expr e" and "casts_widen e" and "eval r e = Some xs" and "lanes t = lanes (type_of e)"
  shows "eval r c = Some xs \<and> type_eq (type_of c) t"
  using assms by (rule lossless_cast_eval)

theorem lossless_cast_keeps_value_witness:
  "eval (env0\<lparr>var_val := [''x'' \<mapsto> [- 5]]\<rparr>) (Variable (Int_t 8 1) ''x'' None None None) = Some [- 5] \<and>
   type_eq (type_of (Variable (Int_t 8 1) ''x'' None None None)) (Int_t 8 1)"
proof (rule lossless_cast_keeps_value)
  show "lossless_cast (Int_t 8 1) (Cast (Int_t 32 1) (Variable (Int_t 8 1) ''x'' None None None)) =
    Inr (Some (Variable (Int_t 8 1) ''x'' None None None))" by code_simp
qed (simp_all add: eval_concrete)

text \<open>C33: below a cast that wraps, it does not: \<open>lossless_cast\<close> of
  \<open>uint16(x)\<close> to \<open>int16\<close>, with \<open>x\<close> an \<open>int8\<close>, is
  \<open>int16(x)\<close>, of value -1 where the expression has the value 65535.\<close>

theorem lossless_cast_through_wrapping_cast:
  "\<exists>c. lossless_cast (Int_t 16 1) (Cast (UInt_t 16 1) (Variable (Int_t 8 1) ''x'' None None None)) =
       Inr (Some c) \<and>
     eval (env0\<lparr>var_val := [''x'' \<mapsto> [- 1]]\<rparr>) c = Some [- 1] \<and>
     eval (env0\<lparr>var_val := [''x'' \<mapsto> [- 1]]\<rparr>)
       (Cast (UInt_t 16 1) (Variable (Int_t 8 1) ''x'' None None None)) = Some [65535]"
proof (intro exI conjI)
  show "lossless_cast (Int_t 16 1) (Cast (UInt_t 16 1) (Variable (Int_t 8 1) ''x'' None None None)) =
    Inr (Some (Cast (Int_t 16 1) (Variable (Int_t 8 1) ''x'' None None None)))" by code_simp
qed (simp_all add: eval_concrete mask_eq_exp_minus_1)

text \<open>C25: for a non-negative exponent, \<open>raise_to_integer_power\<close> of an integer
  expression succeeds, and each lane of its value is the power, reduced to the width of the
  type; where overflow is undefined the power has to fit.\<close>

theorem raise_to_integer_power_correct:
  assumes "wf_expr e" and "const_type (type_of e)" and "0 \<le> p" and "eval r e = Some xs"
    and "\<forall>x \<in> set xs. no_overflow_int (type_of e) \<longrightarrow> in_range (type_of e) (x ^ nat p)"
  shows "\<exists>e'. raise_to_integer_power e p = Inr e' \<and> type_eq (type_of e') (type_of e) \<and>
    eval r e' = Some (map (\<lambda>x. wrap (type_of e) (x ^ nat p)) xs)"
  using raise_nat_ok [OF assms(1,2), of "nat p"] assms(3)
    raise_nat_eval [OF _ assms(1) const_type_int [OF assms(2)] assms(4,5)]
  by (auto simp: raise_to_integer_power_def)

theorem raise_to_integer_power_correct_witness:
  "\<exists>e'. raise_to_integer_power x_plus_2 5 = Inr e' \<and> type_eq (type_of e') (type_of x_plus_2) \<and>
    eval (env0\<lparr>var_val := [''x'' \<mapsto> [1]]\<rparr>) e' =
      Some (map (\<lambda>x. wrap (type_of x_plus_2) (x ^ nat 5)) [3])"
  by (rule raise_to_integer_power_correct)
    (simp_all add: x_plus_2_def const_type_def is_arith_def is_logical_def)

text \<open>C26: a lane of a condition holds exactly when that lane of every condition in the
  list of \<open>split_into_ands\<close> does.\<close>

theorem split_into_ands_equivalent:
  assumes "split_into_ands cond = Inr cs" and "wf_expr cond" and "sized_casts cond"
    and "eval r cond = Some xs" and "i < length xs"
  shows "xs ! i \<noteq> 0 \<longleftrightarrow>
    (\<forall>c \<in> set cs. \<exists>ys. eval r c = Some ys \<and> i < length ys \<and> ys ! i \<noteq> 0)"
  using split_into_ands_eval [OF assms] by (simp add: all_hold_def)

theorem split_into_ands_equivalent_witness:
  "\<exists>ys. eval env0 (LT (IntImm (Int_t 32 1) 3) (IntImm (Int_t 32 1) 4)) = Some ys \<and> 0 < length ys \<and> ys ! 0 \<noteq> 0"
proof -
  let ?p = "LT (IntImm (Int_t 32 1) 1) (IntImm (Int_t 32 1) 2)"
  let ?q = "LT (IntImm (Int_t 32 1) 3) (IntImm (Int_t 32 1) 4)"
  let ?c = "AndE ?p (AndE (UIntImm (UInt_t 1 1) 1) ?q)"
  have "split_into_ands ?c = Inr [?p, ?q]" by code_simp
  moreover have "wf_expr ?c" and "sized_casts ?c" and "eval env0 ?c = Some [1]"
    by (simp_all add: eval_concrete type_eq_def Bool_t_def lift2_def)
  ultimately have "([1::int] ! 0 \<noteq> 0) =
    (\<forall>c \<in> set [?p, ?q]. \<exists>ys. eval env0 c = Some ys \<and> 0 < length ys \<and> ys ! 0 \<noteq> 0)"
    by (rule split_into_ands_equivalent) simp
  then show ?thesis by (simp del: eval_in.simps)
qed

text \<open>The test for a constant power of two and the loop that counts its bits: a
  non-negative 64-bit constant has the bit count \<open>k\<close> exactly when it is
  \<open>2 ^ k\<close>.\<close>

theorem is_const_power_of_two_correct:
  "is_const_power_of_two_integer (IntImm (Int_t 64 1) v) = Some k \<longleftrightarrow> v = 2 ^ k"
  by (cases "v < 0")
    (auto simp: pow2_bits_iff Int_t_def mk_Type_def is_int_def intro: le_less_trans)

end
