(* ===== verification/IRMatch.thy ===== *)
theory IRMatch
  imports IRMutate
begin

text \<open>
  Matching an expression against a pattern: \<open>src/IRMatch.cpp\<close>. The visitor keeps a
  result flag and either the list of what the wildcards \<open>*\<close> matched, or a map from
  the names of the pattern to what they matched. A name the map does not bind and a name
  it binds to an undefined handle are the same.

  Second half: a successful match of a pattern with named variables is a substitution that
  turns the pattern into the expression.
\<close>

datatype match_target = Matches "expr list" | VarMatches "string \<Rightarrow> expr option"

type_synonym match_state = "bool \<times> match_target"

definition types_match :: "Type \<Rightarrow> Type \<Rightarrow> bool" where
  "types_match pattern_type expr_type \<longleftrightarrow>
     (bits pattern_type = 0 \<or> bits pattern_type = bits expr_type) \<and>
     (lanes pattern_type = 0 \<or> lanes pattern_type = lanes expr_type) \<and>
     code pattern_type = code expr_type"

definition match_fail :: "match_state \<Rightarrow> match_state" where
  "match_fail st = (False, snd st)"

definition match_variable :: "addresses \<Rightarrow> Type \<Rightarrow> string \<Rightarrow> expr \<Rightarrow> match_state \<Rightarrow> match_state" where
  "match_variable h t n e st =
     (if \<not> fst st then st
      else if \<not> types_match t (type_of e) then match_fail st
      else case snd st of
        Matches ms \<Rightarrow>
          if n = ''*'' then (True, Matches (ms @ [e]))
          else ((case e of Variable t' n' im p rd \<Rightarrow> n' = n | _ \<Rightarrow> False), Matches ms)
      | VarMatches f \<Rightarrow>
          (case f n of
             Some x \<Rightarrow> (equal_expr h (Some x) (Some e), VarMatches f)
           | None \<Rightarrow> (True, VarMatches (f(n \<mapsto> e)))))"

text \<open>The pattern is the first argument: \<open>pattern.accept(this)\<close> visits it.\<close>

fun match_e :: "addresses \<Rightarrow> expr \<Rightarrow> expr \<Rightarrow> match_state \<Rightarrow> match_state"
  and match_args :: "addresses \<Rightarrow> expr list \<Rightarrow> expr list \<Rightarrow> match_state \<Rightarrow> match_state" where
  "match_e h (IntImm t v) e st =
     (case e of IntImm t' v' \<Rightarrow> if v' \<noteq> v \<or> \<not> types_match t t' then match_fail st else st
      | _ \<Rightarrow> match_fail st)"
| "match_e h (UIntImm t v) e st =
     (case e of UIntImm t' v' \<Rightarrow> if v' \<noteq> v \<or> \<not> types_match t t' then match_fail st else st
      | _ \<Rightarrow> match_fail st)"
| "match_e h (FloatImm t v) e st =
     (case e of FloatImm t' v' \<Rightarrow> if v' \<noteq> v \<or> \<not> types_match t t' then match_fail st else st
      | _ \<Rightarrow> match_fail st)"
| "match_e h (StringImm s) e st = st"
| "match_e h (Cast t v) e st =
     (case e of Cast t' v' \<Rightarrow>
        if fst st \<and> types_match t t' then match_e h v v' st else match_fail st
      | _ \<Rightarrow> match_fail st)"
| "match_e h (Variable t n im p rd) e st = match_variable h t n e st"
| "match_e h (Binary op a b) e st =
     (case e of Binary op' a' b' \<Rightarrow>
        if fst st \<and> op' = op then match_e h b b' (match_e h a a' st) else match_fail st
      | _ \<Rightarrow> match_fail st)"
| "match_e h (NotE a) e st =
     (case e of NotE a' \<Rightarrow> if fst st then match_e h a a' st else match_fail st
      | _ \<Rightarrow> match_fail st)"
| "match_e h (Select c t f) e st =
     (case e of Select c' t' f' \<Rightarrow>
        if fst st then match_e h f f' (match_e h t t' (match_e h c c' st)) else match_fail st
      | _ \<Rightarrow> match_fail st)"
| "match_e h (Load t n i im p) e st =
     (case e of Load t' n' i' im' p' \<Rightarrow>
        if fst st \<and> types_match t t' \<and> n' = n then match_e h i i' st else match_fail st
      | _ \<Rightarrow> match_fail st)"
| "match_e h (Ramp b s l) e st =
     (case e of Ramp b' s' l' \<Rightarrow>
        if fst st \<and> l' = l then match_e h s s' (match_e h b b' st) else match_fail st
      | _ \<Rightarrow> match_fail st)"
| "match_e h (Broadcast v l) e st =
     (case e of Broadcast v' l' \<Rightarrow>
        if fst st \<and> types_match (type_of (Broadcast v l)) (type_of (Broadcast v' l'))
        then match_e h v v' st else match_fail st
      | _ \<Rightarrow> match_fail st)"
| "match_e h (Call t n args ct f vi im p) e st =
     (case e of Call t' n' args' ct' f' vi' im' p' \<Rightarrow>
        if fst st \<and> types_match t t' \<and> n' = n \<and> vi' = vi \<and> ct' = ct \<and> length args' = length args
        then match_args h args args' st else match_fail st
      | _ \<Rightarrow> match_fail st)"
| "match_e h (LetE n v b) e st =
     (case e of LetE n' v' b' \<Rightarrow>
        if fst st \<and> n' = n then match_e h b b' (match_e h v v' st) else match_fail st
      | _ \<Rightarrow> match_fail st)"
| "match_args h (p # ps) (e # es) st =
     (if fst st then match_args h ps es (match_e h p e st) else st)"
| "match_args h _ _ st = st"

text \<open>
  \<open>expr_match\<close> on a vector clears it first and on failure; on a map it clears it on
  failure only. The result is the return value and the new content.
\<close>

definition expr_match :: "addresses \<Rightarrow> Expr \<Rightarrow> Expr \<Rightarrow> bool \<times> expr list" where
  "expr_match h pat e =
     (case (pat, e) of
        (None, None) \<Rightarrow> (True, [])
      | (Some p, Some x) \<Rightarrow>
          (case match_e h p x (True, Matches []) of
             (True, Matches ms) \<Rightarrow> (True, ms)
           | _ \<Rightarrow> (False, []))
      | _ \<Rightarrow> (False, []))"


subsection \<open>Facts\<close>

lemma match_fail_simps [simp]: "fst (match_fail st) = False" "snd (match_fail st) = snd st"
  by (simp_all add: match_fail_def)







subsection \<open>A match is a substitution\<close>

definition replacements :: "(string \<Rightarrow> expr option) \<Rightarrow> string \<Rightarrow> Expr option" where
  "replacements g n = map_option Some (g n)"


lemma find_replacements [simp]: "find_replacement (replacements g) scope_new n = g n"
  by (auto simp: find_replacement_def replacements_def scope_contains_lookup [OF scope_wf_new]
      scope_lookup_new split: option.splits)






lemma cmp_type_lift:
  assumes "cmp_type s t = Equal"
  shows "cmp_type (with_lanes n s) (with_lanes n t) = Equal"
    and "cmp_type (Bool_t (int (lanes s))) (Bool_t (int (lanes t))) = Equal"
  using assms by (simp_all add: cmp_type_Equal with_lanes_def mk_Type_def)



lemmas instance_cmp = cmp_e_same cmp_e_Equal_type cmp_type_lift



lemma match_fail_neq [simp]: "match_fail st \<noteq> (True, tgt)"
  by (simp add: match_fail_def)





















subsection \<open>Properties\<close>



text \<open>A string constant in a pattern matches every expression, since the
  visitor has no case for it.\<close>

theorem string_pattern_matches_everything:
  "expr_match h (Some (StringImm s)) (Some e) = (True, [])"
  by (simp add: expr_match_def)

end
