(* ===== verification/ModRem.thy ===== *)
theory ModRem
  imports IRMutate
begin

text \<open>
  The alignment analysis of \<open>src/ModulusRemainder.cpp\<close>: for an integer expression a
  modulus and a remainder such that the value is the remainder plus a multiple of the
  modulus. All arithmetic of the analysis is on C++ \<open>int\<close>: an overflow is
  \<open>Undefined_behaviour\<close>, and so is a remainder by zero.

  Second half: the analysis is sound on 32-bit expressions, except for the two branches
  the predicate \<open>mr_ok\<close> excludes, each of which is shown to be wrong.
\<close>

record ModulusRemainder =
  modulus :: int
  remainder :: int

definition mk_mr :: "int \<Rightarrow> int \<Rightarrow> ModulusRemainder" where
  "mk_mr m r = \<lparr>modulus = m, remainder = r\<rparr>"

lemma mk_mr_simps [simp]: "modulus (mk_mr m r) = m" "remainder (mk_mr m r) = r"
  by (simp_all add: mk_mr_def)

text \<open>A conversion to \<open>int\<close> keeps the low 32 bits.\<close>

definition to_int32 :: "int \<Rightarrow> int" where
  "to_int32 x = sint (word_of_int x :: 32 word)"

subsection \<open>Arithmetic\<close>

function gcd_loop :: "int \<Rightarrow> int \<Rightarrow> int result" where
  "gcd_loop a b = (if b = 0 then Inr a else rbind (c_rem32 a b) (\<lambda>r. gcd_loop b r))"
  by pat_completeness auto
termination
  by (relation "measure (\<lambda>(a, b). nat \<bar>b\<bar>)") (auto simp: abs_smod_less)

declare gcd_loop.simps [simp del]

definition gcd_int32 :: "int \<Rightarrow> int \<Rightarrow> int result" where
  "gcd_int32 a b = (if a < b then gcd_loop b a else gcd_loop a b)"

definition lcm_int32 :: "int \<Rightarrow> int \<Rightarrow> int result" where
  "lcm_int32 a b = rbind (check32 (a * b)) (\<lambda>p. rbind (gcd_int32 a b) (\<lambda>g. c_div32 p g))"

definition mod_mr :: "int \<Rightarrow> int \<Rightarrow> int result" where
  "mod_mr a m = (if m = 0 then Inr a else mod_imp 32 a m)"

subsection \<open>The analysis\<close>

definition mr_unknown :: ModulusRemainder where
  "mr_unknown = mk_mr 1 0"

definition mr_add :: "ModulusRemainder \<Rightarrow> ModulusRemainder \<Rightarrow> ModulusRemainder result" where
  "mr_add a b =
     rbind (gcd_int32 (modulus a) (modulus b)) (\<lambda>m.
     rbind (check32 (remainder a + remainder b)) (\<lambda>s.
     rbind (mod_mr s m) (\<lambda>r. Inr (mk_mr m r))))"

definition mr_sub :: "ModulusRemainder \<Rightarrow> ModulusRemainder \<Rightarrow> ModulusRemainder result" where
  "mr_sub a b =
     rbind (gcd_int32 (modulus a) (modulus b)) (\<lambda>m.
     rbind (check32 (remainder a - remainder b)) (\<lambda>s.
     rbind (mod_mr s m) (\<lambda>r. Inr (mk_mr m r))))"

text \<open>
  In the last branch the code assigns the product to \<open>a.remainder\<close>, a local copy: the
  member \<open>remainder\<close> still holds what the analysis of the second operand left there.
\<close>

definition mr_mul :: "ModulusRemainder \<Rightarrow> ModulusRemainder \<Rightarrow> ModulusRemainder result" where
  "mr_mul a b =
     (if modulus a = 0 then
        rbind (check32 (remainder a * modulus b)) (\<lambda>m.
        rbind (check32 (remainder a * remainder b)) (\<lambda>r. Inr (mk_mr m r)))
      else if modulus b = 0 then
        rbind (check32 (remainder b * modulus a)) (\<lambda>m.
        rbind (check32 (remainder a * remainder b)) (\<lambda>r. Inr (mk_mr m r)))
      else if remainder a = 0 \<and> remainder b = 0 then
        rbind (check32 (modulus a * modulus b)) (\<lambda>m. Inr (mk_mr m 0))
      else if remainder a = 0 then
        rbind (gcd_int32 (modulus b) (remainder b)) (\<lambda>g.
        rbind (check32 (modulus a * g)) (\<lambda>m. Inr (mk_mr m 0)))
      else if remainder b = 0 then
        rbind (gcd_int32 (modulus a) (remainder a)) (\<lambda>g.
        rbind (check32 (modulus b * g)) (\<lambda>m. Inr (mk_mr m 0)))
      else
        rbind (gcd_int32 (modulus a) (modulus b)) (\<lambda>m.
        rbind (check32 (remainder a * remainder b)) (\<lambda>p.
        rbind (mod_mr p m) (\<lambda>_. Inr (mk_mr m (remainder b))))))"

definition mr_mod :: "ModulusRemainder \<Rightarrow> ModulusRemainder \<Rightarrow> ModulusRemainder result" where
  "mr_mod a b =
     rbind (gcd_int32 (modulus a) (modulus b)) (\<lambda>m.
     rbind (gcd_int32 m (remainder b)) (\<lambda>m.
     rbind (mod_mr (remainder a) m) (\<lambda>r. Inr (mk_mr m r))))"

definition unify_alternatives :: "ModulusRemainder \<Rightarrow> ModulusRemainder \<Rightarrow> ModulusRemainder result" where
  "unify_alternatives a b =
     rbind (gcd_int32 (modulus a) (modulus b)) (\<lambda>m.
     let diff = remainder a - remainder b in
     rbind (can_represent_int64 (Int_t 32 1) diff) (\<lambda>ok.
     if \<not> ok then Inr (mk_mr 0 1)
     else
       let diff = (if diff < 0 then - diff else diff) in
       rbind (gcd_int32 (to_int32 diff) m) (\<lambda>m.
       rbind (mod_mr (remainder a) m) (\<lambda>ra.
       rbind (mod_mr (remainder b) m) (\<lambda>rb.
       rbind (internal_assert (ra = rb) ''There's a bug inside ModulusRemainder in unify_alternatives'') (\<lambda>_.
       Inr (mk_mr m ra)))))))"

fun analyze :: "ModulusRemainder scope \<Rightarrow> expr \<Rightarrow> ModulusRemainder result" where
  "analyze s (IntImm t v) = Inr (mk_mr 0 (to_int32 v))"
| "analyze s (UIntImm t v) = Inl (Internal_error ''modulus_remainder of uint'')"
| "analyze s (FloatImm t v) = Inl (Internal_error ''modulus_remainder of float'')"
| "analyze s (StringImm v) = Inl (Internal_error ''modulus_remainder of string'')"
| "analyze s (Cast t v) = Inr mr_unknown"
| "analyze s (Variable t n im p rd) =
     (if scope_contains s n then scope_get s n else Inr mr_unknown)"
| "analyze s (Binary op a b) =
     (case op of
        AddOp \<Rightarrow> rbind (analyze s a) (\<lambda>x. rbind (analyze s b) (\<lambda>y. mr_add x y))
      | SubOp \<Rightarrow> rbind (analyze s a) (\<lambda>x. rbind (analyze s b) (\<lambda>y. mr_sub x y))
      | MulOp \<Rightarrow> rbind (analyze s a) (\<lambda>x. rbind (analyze s b) (\<lambda>y. mr_mul x y))
      | DivOp \<Rightarrow> Inr mr_unknown
      | ModOp \<Rightarrow> rbind (analyze s a) (\<lambda>x. rbind (analyze s b) (\<lambda>y. mr_mod x y))
      | MinOp \<Rightarrow> rbind (analyze s a) (\<lambda>x. rbind (analyze s b) (\<lambda>y. unify_alternatives x y))
      | MaxOp \<Rightarrow> rbind (analyze s a) (\<lambda>x. rbind (analyze s b) (\<lambda>y. unify_alternatives x y))
      | _ \<Rightarrow> Inl (Internal_error ''modulus_remainder of bool''))"
| "analyze s (NotE a) = Inl (Internal_error ''modulus_remainder of bool'')"
| "analyze s (Select c t f) =
     rbind (analyze s t) (\<lambda>x. rbind (analyze s f) (\<lambda>y. unify_alternatives x y))"
| "analyze s (Load t n i im p) = Inr mr_unknown"
| "analyze s (Ramp b st n) = Inl (Internal_error ''modulus_remainder of vector'')"
| "analyze s (Broadcast v n) = Inl (Internal_error ''modulus_remainder of vector'')"
| "analyze s (Call t n args ct f vi im p) = Inr mr_unknown"
| "analyze s (LetE n v b) =
     (if is_int (type_of v) then rbind (analyze s v) (\<lambda>x. analyze (scope_push n x s) b)
      else analyze s b)"

text \<open>The scope of the visitor is empty and has the given one as its containing scope.\<close>

definition modulus_remainder :: "expr \<Rightarrow> ModulusRemainder result" where
  "modulus_remainder e = analyze (set_containing_scope None scope_new) e"

definition modulus_remainder_in :: "expr \<Rightarrow> ModulusRemainder scope \<Rightarrow> ModulusRemainder result" where
  "modulus_remainder_in e s = analyze (set_containing_scope (Some s) scope_new) e"

text \<open>\<open>None\<close> when the function returns \<open>false\<close>.\<close>

definition reduce_mr :: "ModulusRemainder \<Rightarrow> int \<Rightarrow> int option result" where
  "reduce_mr res m =
     rbind (c_rem32 (modulus res) m) (\<lambda>k.
     if k = 0 then rbind (c_rem32 (remainder res) m) (\<lambda>r. Inr (Some r)) else Inr None)"


definition reduce_expr_modulo_in :: "expr \<Rightarrow> int \<Rightarrow> ModulusRemainder scope \<Rightarrow> int option result" where
  "reduce_expr_modulo_in e m s = rbind (modulus_remainder_in e s) (\<lambda>res. reduce_mr res m)"

subsection \<open>Facts: arithmetic\<close>

lemma gcd_smod: "gcd (b :: int) (a smod b) = gcd a b"
proof -
  have "a = a sdiv b * b + a smod b" by (simp add: smod_eq_diff)
  then show ?thesis by (metis gcd.commute gcd_add_mult mult.commute add.commute)
qed

lemma gcd_loop_abs: "gcd_loop a b = Inr g \<Longrightarrow> \<bar>g\<bar> = gcd a b"
proof (induction a b arbitrary: g rule: gcd_loop.induct)
  case (1 a b)
  show ?case
  proof (cases "b = 0")
    case True
    with "1.prems" show ?thesis by (simp add: gcd_loop.simps)
  next
    case False
    then obtain r where r: "c_rem32 a b = Inr r" and "gcd_loop b r = Inr g"
      using "1.prems" by (subst (asm) gcd_loop.simps) auto
    then have "\<bar>g\<bar> = gcd b r" using "1.IH" False by blast
    moreover have "r = a smod b" using r by simp
    ultimately show ?thesis by (simp add: gcd_smod)
  qed
qed

lemma gcd_int32_abs: "gcd_int32 a b = Inr g \<Longrightarrow> \<bar>g\<bar> = gcd a b"
  by (auto simp: gcd_int32_def gcd.commute dest!: gcd_loop_abs split: if_splits)

lemma gcd_int32_dvd:
  assumes "gcd_int32 a b = Inr g"
  shows "g dvd a" and "g dvd b"
proof -
  have "\<bar>g\<bar> = gcd a b" using assms by (rule gcd_int32_abs)
  then show "g dvd a" "g dvd b" by (metis abs_dvd_iff gcd_dvd1, metis abs_dvd_iff gcd_dvd2)
qed

lemma mod_mr_dvd: "mod_mr a m = Inr r \<Longrightarrow> m dvd a - r"
proof (cases "m = 0")
  case False
  assume "mod_mr a m = Inr r"
  with False have "mod_imp 32 a m = Inr r" by (simp add: mod_mr_def)
  then have "r = a smod m \<or> r = a smod m + \<bar>m\<bar>"
    by (auto simp: mod_imp_def cast_back_def Let_def split: if_splits)
  moreover have "m dvd a - a smod m" by (rule dvd_diff_smod)
  moreover have "m dvd \<bar>m\<bar>" by simp
  ultimately show ?thesis by (auto simp: diff_diff_eq [symmetric])
qed (simp add: mod_mr_def)

lemma mod_mr_range: "mod_mr a m = Inr r \<Longrightarrow> m \<noteq> 0 \<Longrightarrow> 0 \<le> r \<and> r < \<bar>m\<bar>"
proof -
  assume r: "mod_mr a m = Inr r" and m: "m \<noteq> 0"
  then have "mod_imp 32 a m = Inr r" by (simp add: mod_mr_def)
  then show ?thesis using m abs_smod_less [OF m, of a]
    by (auto simp: mod_imp_def cast_back_def Let_def split: if_splits)
qed

text \<open>Two numbers that agree modulo \<open>m\<close> have one remainder.\<close>

lemma mod_mr_eq:
  assumes "m dvd a - b" and "mod_mr a m = Inr ra" and "mod_mr b m = Inr rb"
  shows "ra = rb"
proof (cases "m = 0")
  case True
  with assms show ?thesis by (simp add: mod_mr_def)
next
  case False
  have "m dvd ra - rb"
  proof -
    have "ra - rb = (a - b) - (a - ra) + (b - rb)" by simp
    then show ?thesis using assms(1) mod_mr_dvd [OF assms(2)] mod_mr_dvd [OF assms(3)]
      by (metis dvd_add dvd_diff)
  qed
  moreover have "\<bar>ra - rb\<bar> < \<bar>m\<bar>"
    using mod_mr_range [OF assms(2) False] mod_mr_range [OF assms(3) False] by linarith
  ultimately show ?thesis using zdvd_not_zless [of "\<bar>ra - rb\<bar>" "\<bar>m\<bar>"] by fastforce
qed

lemma to_int32_id: "in_int32 x \<Longrightarrow> to_int32 x = x"
  by (simp add: to_int32_def in_int32_def sint_sbintrunc' signed_take_bit_int_eq_self)

lemma to_int32_dvd: "in_int32 d \<Longrightarrow> k dvd to_int32 (if d < 0 then - d else d) \<longleftrightarrow> k dvd d"
proof -
  assume d: "in_int32 d"
  consider "d = - (2 ^ 31)" | "in_int32 (if d < 0 then - d else d)"
    using d by (cases "d < 0"; cases "d = - (2 ^ 31)") (auto simp: in_int32_def)
  then show ?thesis
  proof cases
    case 1
    then have "to_int32 (if d < 0 then - d else d) = d" by (simp add: to_int32_def sint_sbintrunc')
    then show ?thesis by simp
  next
    case 2
    then show ?thesis by (auto simp: to_int32_id)
  qed
qed

subsection \<open>What a result stands for\<close>

definition represents :: "ModulusRemainder \<Rightarrow> int \<Rightarrow> bool" where
  "represents a x \<longleftrightarrow> modulus a dvd x - remainder a"

lemma represents_dvd: "represents a x \<Longrightarrow> g dvd modulus a \<Longrightarrow> g dvd x - remainder a"
  unfolding represents_def by (rule dvd_trans)

lemma represents_unknown [simp]: "represents mr_unknown x"
  by (simp add: represents_def mr_unknown_def)

lemma dvd_shift: "(g::int) dvd x - a \<Longrightarrow> g dvd a - r \<Longrightarrow> g dvd x - r"
proof -
  assume "g dvd x - a" and "g dvd a - r"
  then have "g dvd (x - a) + (a - r)" by (rule dvd_add)
  then show ?thesis by simp
qed

lemma mr_add_represents:
  assumes "represents a x" and "represents b y" and "mr_add a b = Inr c"
  shows "represents c (x + y)"
proof -
  obtain m r where m: "gcd_int32 (modulus a) (modulus b) = Inr m"
    and r: "mod_mr (remainder a + remainder b) m = Inr r" and c: "c = mk_mr m r"
    using assms(3) by (auto simp: mr_add_def)
  have "m dvd (x - remainder a) + (y - remainder b)"
    using represents_dvd [OF assms(1) gcd_int32_dvd(1) [OF m]] represents_dvd [OF assms(2) gcd_int32_dvd(2) [OF m]]
    by (rule dvd_add)
  then have "m dvd (x + y) - (remainder a + remainder b)" by (simp add: algebra_simps)
  from dvd_shift [OF this mod_mr_dvd [OF r]] show ?thesis by (simp add: represents_def c)
qed

lemma mr_sub_represents:
  assumes "represents a x" and "represents b y" and "mr_sub a b = Inr c"
  shows "represents c (x - y)"
proof -
  obtain m r where m: "gcd_int32 (modulus a) (modulus b) = Inr m"
    and r: "mod_mr (remainder a - remainder b) m = Inr r" and c: "c = mk_mr m r"
    using assms(3) by (auto simp: mr_sub_def)
  have "m dvd (x - remainder a) - (y - remainder b)"
    using represents_dvd [OF assms(1) gcd_int32_dvd(1) [OF m]] represents_dvd [OF assms(2) gcd_int32_dvd(2) [OF m]]
    by (rule dvd_diff)
  then have "m dvd (x - y) - (remainder a - remainder b)" by (simp add: algebra_simps)
  from dvd_shift [OF this mod_mr_dvd [OF r]] show ?thesis by (simp add: represents_def c)
qed

text \<open>The branches of the product that say something about both factors.\<close>

definition mr_mul_ok :: "ModulusRemainder \<Rightarrow> ModulusRemainder \<Rightarrow> bool" where
  "mr_mul_ok a b \<longleftrightarrow> modulus a = 0 \<or> modulus b = 0 \<or> remainder a = 0 \<or> remainder b = 0"

lemma represents_multiple:
  assumes "represents b y" and "gcd_int32 (modulus b) (remainder b) = Inr g"
  shows "g dvd y"
proof -
  have "g dvd y - remainder b" and "g dvd remainder b"
    using represents_dvd [OF assms(1)] gcd_int32_dvd [OF assms(2)] by auto
  then have "g dvd (y - remainder b) + remainder b" by (rule dvd_add)
  then show ?thesis by simp
qed

lemma mr_mul_represents:
  assumes a: "represents a x" and b: "represents b y" and c: "mr_mul a b = Inr c"
    and ok: "mr_mul_ok a b"
  shows "represents c (x * y)"
proof -
  consider "modulus a = 0" | "modulus a \<noteq> 0" "modulus b = 0"
    | "modulus a \<noteq> 0" "modulus b \<noteq> 0" "remainder a = 0" "remainder b = 0"
    | "modulus a \<noteq> 0" "modulus b \<noteq> 0" "remainder a = 0" "remainder b \<noteq> 0"
    | "modulus a \<noteq> 0" "modulus b \<noteq> 0" "remainder a \<noteq> 0" "remainder b = 0"
    using ok by (auto simp: mr_mul_ok_def)
  then show ?thesis
  proof cases
    case 1
    then have "x = remainder a" using a by (simp add: represents_def)
    moreover have "remainder a * modulus b dvd remainder a * (y - remainder b)"
      using b by (intro mult_dvd_mono) (simp_all add: represents_def)
    ultimately show ?thesis using 1 c by (auto simp: mr_mul_def represents_def algebra_simps)
  next
    case 2
    then have "y = remainder b" using b by (simp add: represents_def)
    moreover have "remainder b * modulus a dvd remainder b * (x - remainder a)"
      using a by (intro mult_dvd_mono) (simp_all add: represents_def)
    ultimately show ?thesis using 2 c by (auto simp: mr_mul_def represents_def algebra_simps)
  next
    case 3
    then have "modulus a * modulus b dvd x * y"
      using a b by (intro mult_dvd_mono) (simp_all add: represents_def)
    with 3 c show ?thesis by (auto simp: mr_mul_def represents_def)
  next
    case 4
    then obtain g where g: "gcd_int32 (modulus b) (remainder b) = Inr g"
      and c': "c = mk_mr (modulus a * g) 0"
      using c by (auto simp: mr_mul_def)
    have "modulus a * g dvd x * y"
      using a 4(3) represents_multiple [OF b g] by (intro mult_dvd_mono) (simp_all add: represents_def)
    with c' show ?thesis by (simp add: represents_def)
  next
    case 5
    then obtain g where g: "gcd_int32 (modulus a) (remainder a) = Inr g"
      and c': "c = mk_mr (modulus b * g) 0"
      using c by (auto simp: mr_mul_def)
    have "modulus b * g dvd y * x"
      using b 5(4) represents_multiple [OF a g] by (intro mult_dvd_mono) (simp_all add: represents_def)
    with c' show ?thesis by (simp add: represents_def mult.commute)
  qed
qed

lemma mr_mod_represents:
  assumes a: "represents a x" and b: "represents b y" and c: "mr_mod a b = Inr c"
  shows "represents c (emod x y)"
proof -
  obtain m g r where m: "gcd_int32 (modulus a) (modulus b) = Inr m"
    and g: "gcd_int32 m (remainder b) = Inr g"
    and r: "mod_mr (remainder a) g = Inr r" and c': "c = mk_mr g r"
    using c by (auto simp: mr_mod_def)
  have gm: "g dvd modulus a" "g dvd modulus b" "g dvd remainder b"
    using gcd_int32_dvd [OF m] gcd_int32_dvd [OF g] by (auto intro: dvd_trans)
  have "g dvd (y - remainder b) + remainder b"
    using represents_dvd [OF b gm(2)] gm(3) by (rule dvd_add)
  then have "g dvd ediv x y * y" by simp
  with represents_dvd [OF a gm(1)] have "g dvd (x - remainder a) - ediv x y * y" by (rule dvd_diff)
  moreover have "emod x y - remainder a = (x - remainder a) - ediv x y * y"
    using ediv_emod [of x y] by linarith
  ultimately have "g dvd emod x y - remainder a" by (simp only:)
  from dvd_shift [OF this mod_mr_dvd [OF r]] show ?thesis by (simp add: represents_def c')
qed

definition unify_ok :: "ModulusRemainder \<Rightarrow> ModulusRemainder \<Rightarrow> bool" where
  "unify_ok a b \<longleftrightarrow> in_int32 (remainder a - remainder b)"

lemma can_represent_Int32: "can_represent_int64 (Int_t 32 1) d = Inr (in_int32 d)"
  by (subst can_represent_int64_int) (auto simp: int_width_def in_int32_def)

lemma unify_modulus:
  assumes "unify_ok a b" and "gcd_int32 (modulus a) (modulus b) = Inr k"
    and "gcd_int32 (to_int32 (if remainder a - remainder b < 0
      then - (remainder a - remainder b) else remainder a - remainder b)) k = Inr m"
  shows "m dvd modulus a" and "m dvd modulus b" and "m dvd remainder a - remainder b"
proof -
  show "m dvd modulus a" "m dvd modulus b"
    using gcd_int32_dvd(2) [OF assms(3)] gcd_int32_dvd [OF assms(2)] by (auto intro: dvd_trans)
  show "m dvd remainder a - remainder b"
    using gcd_int32_dvd(1) [OF assms(3)] to_int32_dvd [of "remainder a - remainder b" m] assms(1)
    by (simp add: unify_ok_def)
qed

lemma unify_represents:
  assumes ok: "unify_ok a b" and c: "unify_alternatives a b = Inr c"
    and x: "represents a x \<or> represents b x"
  shows "represents c x"
proof -
  obtain k m r where k: "gcd_int32 (modulus a) (modulus b) = Inr k"
    and m: "gcd_int32 (to_int32 (if remainder a - remainder b < 0
      then - (remainder a - remainder b) else remainder a - remainder b)) k = Inr m"
    and r: "mod_mr (remainder a) m = Inr r" "mod_mr (remainder b) m = Inr r" and c': "c = mk_mr m r"
    using c ok by (auto simp: unify_alternatives_def Let_def can_represent_Int32 unify_ok_def)
  note d = unify_modulus [OF ok k m]
  from x show ?thesis
  proof
    assume "represents a x"
    from dvd_shift [OF represents_dvd [OF this d(1)] mod_mr_dvd [OF r(1)]]
    show ?thesis by (simp add: represents_def c')
  next
    assume "represents b x"
    from dvd_shift [OF represents_dvd [OF this d(2)] mod_mr_dvd [OF r(2)]]
    show ?thesis by (simp add: represents_def c')
  qed
qed

subsection \<open>Soundness\<close>

definition is_int32 :: "Type \<Rightarrow> bool" where
  "is_int32 t \<longleftrightarrow> is_int t \<and> bits t = 32"

definition both :: "ModulusRemainder result \<Rightarrow> ModulusRemainder result \<Rightarrow>
    (ModulusRemainder \<Rightarrow> ModulusRemainder \<Rightarrow> bool) \<Rightarrow> bool" where
  "both x y P = (case (x, y) of (Inr a, Inr b) \<Rightarrow> P a b | _ \<Rightarrow> True)"

text \<open>
  The products and alternatives of the expression stay out of the two branches with the
  wrong result; a \<open>Let\<close> binds a 32-bit integer, or a value of another kind to a name
  the scope does not know.
\<close>

fun mr_ok :: "ModulusRemainder scope \<Rightarrow> expr \<Rightarrow> bool" where
  "mr_ok s (Binary op a b) \<longleftrightarrow>
     (op \<in> {AddOp, SubOp, MulOp, ModOp, MinOp, MaxOp} \<longrightarrow> mr_ok s a \<and> mr_ok s b) \<and>
     (op = MulOp \<longrightarrow> both (analyze s a) (analyze s b) mr_mul_ok) \<and>
     (op \<in> {MinOp, MaxOp} \<longrightarrow> both (analyze s a) (analyze s b) unify_ok)"
| "mr_ok s (Select c t f) \<longleftrightarrow> mr_ok s t \<and> mr_ok s f \<and> both (analyze s t) (analyze s f) unify_ok"
| "mr_ok s (LetE n v b) \<longleftrightarrow>
     (if is_int (type_of v)
      then bits (type_of v) = 32 \<and> mr_ok s v \<and>
        (case analyze s v of Inr x \<Rightarrow> mr_ok (scope_push n x s) b | Inl _ \<Rightarrow> True)
      else \<not> scope_contains s n \<and> mr_ok s b)"
| "mr_ok s _ \<longleftrightarrow> True"

definition scope_sound :: "ModulusRemainder scope \<Rightarrow> env \<Rightarrow> bool" where
  "scope_sound s r \<longleftrightarrow> scope_wf s \<and>
     (\<forall>n a xs. scope_lookup s n = Some a \<longrightarrow> var_val r n = Some xs \<longrightarrow> (\<forall>x \<in> set xs. represents a x))"

lemma scope_sound_push:
  assumes "scope_sound s r" and "\<forall>x \<in> set xs. represents a x"
  shows "scope_sound (scope_push n a s) (r\<lparr>var_val := (var_val r)(n \<mapsto> xs)\<rparr>)"
  using assms by (auto simp: scope_sound_def scope_wf_push scope_lookup_push)

lemma scope_sound_other:
  assumes "scope_sound s r" and "\<not> scope_contains s n"
  shows "scope_sound s (r\<lparr>var_val := (var_val r)(n \<mapsto> xs)\<rparr>)"
  using assms by (auto simp: scope_sound_def scope_contains_lookup)

lemma is_int32_no_overflow: "is_int32 t \<Longrightarrow> no_overflow_int t"
  by (simp add: is_int32_def no_overflow_int_def)

lemma is_int32_range: "is_int32 t \<Longrightarrow> in_range t x \<longleftrightarrow> in_int32 x"
  by (auto simp: is_int32_def in_range_def type_lo_def type_hi_def in_int32_def)

lemma is_int32_not_bool: "is_int32 (Bool_t n) \<longleftrightarrow> False"
  by (simp add: is_int32_def Bool_t_def UInt_t_def mk_Type_def is_int_def)

text \<open>The results of a binary operation, lane by lane.\<close>

lemma eval_Binary_lanes:
  assumes "eval r (Binary op a b) = Some zs"
  obtains xs ys where "eval r a = Some xs" "eval r b = Some ys" "length xs = length zs"
    "length ys = length zs" "\<And>i. i < length zs \<Longrightarrow> binop_val op (type_of a) (xs ! i) (ys ! i) = Some (zs ! i)"
  using assms by (auto simp: lift2_Some elim!: bind_eq_SomeE)

lemma lanes_represent:
  assumes "eval r (Binary op a b) = Some zs"
    and "\<And>xs x. eval r a = Some xs \<Longrightarrow> x \<in> set xs \<Longrightarrow> P x"
    and "\<And>ys y. eval r b = Some ys \<Longrightarrow> y \<in> set ys \<Longrightarrow> Q y"
    and "\<And>x y z. P x \<Longrightarrow> Q y \<Longrightarrow> binop_val op (type_of a) x y = Some z \<Longrightarrow> R z"
  shows "\<forall>z \<in> set zs. R z"
proof
  obtain xs ys where e: "eval r a = Some xs" "eval r b = Some ys"
    and l: "length xs = length zs" "length ys = length zs"
    and v: "\<And>i. i < length zs \<Longrightarrow> binop_val op (type_of a) (xs ! i) (ys ! i) = Some (zs ! i)"
    using eval_Binary_lanes [OF assms(1)] by metis
  fix z
  assume "z \<in> set zs"
  then obtain i where i: "i < length zs" "z = zs ! i" by (auto simp: in_set_conv_nth)
  then have "P (xs ! i)" "Q (ys ! i)" using assms(2,3) e l by auto
  with v [OF i(1)] i(2) show "R z" using assms(4) by blast
qed

lemma binop_represents:
  assumes "is_int32 t" and "binop_val op t x y = Some z" and "represents p x" and "represents q y"
    and "(op = AddOp \<and> mr_add p q = Inr c) \<or> (op = SubOp \<and> mr_sub p q = Inr c) \<or>
      (op = MulOp \<and> mr_mul p q = Inr c \<and> mr_mul_ok p q) \<or> (op = ModOp \<and> mr_mod p q = Inr c) \<or>
      (op \<in> {MinOp, MaxOp} \<and> unify_alternatives p q = Inr c \<and> unify_ok p q)"
  shows "represents c z"
proof -
  have fit: "fit t w = Some z \<Longrightarrow> z = w" for w
    using fit_no_overflow [OF is_int32_no_overflow [OF assms(1)]] by blast
  from assms(5) show ?thesis
  proof (elim disjE conjE)
    assume "op = AddOp" "mr_add p q = Inr c"
    then show ?thesis using assms(2) fit [of "x + y"] mr_add_represents [OF assms(3,4)] by simp
  next
    assume "op = SubOp" "mr_sub p q = Inr c"
    then show ?thesis using assms(2) fit [of "x - y"] mr_sub_represents [OF assms(3,4)] by simp
  next
    assume "op = MulOp" "mr_mul p q = Inr c" "mr_mul_ok p q"
    then show ?thesis using assms(2) fit [of "x * y"] mr_mul_represents [OF assms(3,4)] by simp
  next
    assume "op = ModOp" "mr_mod p q = Inr c"
    then show ?thesis
      using assms(2) fit [of "emod x y"] mr_mod_represents [OF assms(3,4)] by (simp split: if_splits)
  next
    assume u: "op \<in> {MinOp, MaxOp}" "unify_alternatives p q = Inr c" "unify_ok p q"
    then have "z = x \<or> z = y" using assms(2) by (auto simp: min_def max_def split: if_splits)
    then show ?thesis using unify_represents [OF u(3,2)] assms(3,4) by blast
  qed
qed

lemma analyze_Binary:
  assumes "analyze s (Binary op a b) = Inr c"
  shows "op = DivOp \<and> c = mr_unknown \<or>
    (\<exists>p q. analyze s a = Inr p \<and> analyze s b = Inr q \<and>
      ((op = AddOp \<and> mr_add p q = Inr c) \<or> (op = SubOp \<and> mr_sub p q = Inr c) \<or>
       (op = MulOp \<and> mr_mul p q = Inr c) \<or> (op = ModOp \<and> mr_mod p q = Inr c) \<or>
       (op \<in> {MinOp, MaxOp} \<and> unify_alternatives p q = Inr c)))"
  using assms by (cases op) auto

lemma analyze_sound:
  assumes "wf_expr e" and "is_int32 (type_of e)" and "mr_ok s e" and "scope_sound s r"
    and "analyze s e = Inr c" and "eval r e = Some xs" and "x \<in> set xs"
  shows "represents c x"
  using assms
proof (induction e arbitrary: s r c xs x)
  case (IntImm t v)
  then have "in_int32 v" "c = mk_mr 0 (to_int32 v)" "x = v"
    by (auto simp: is_int32_range split: if_splits)
  then show ?case by (simp add: represents_def to_int32_id)
next
  case (Variable t n im p rd)
  then have v: "var_val r n = Some xs" by (auto split: option.splits if_splits)
  have wf: "scope_wf s" using Variable.prems(4) by (simp add: scope_sound_def)
  show ?case
  proof (cases "scope_lookup s n")
    case None
    with wf Variable.prems(5) have "c = mr_unknown" by (simp add: scope_contains_lookup split: if_splits)
    then show ?thesis by simp
  next
    case (Some a)
    with wf Variable.prems(5) have "c = a"
      by (simp add: scope_contains_lookup scope_get_lookup split: if_splits)
    with v Some Variable.prems(4,7) show ?thesis by (auto simp: scope_sound_def)
  qed
next
  case (Binary op a b)
  from analyze_Binary [OF Binary.prems(5)] consider "c = mr_unknown"
    | p q where "analyze s a = Inr p" "analyze s b = Inr q"
      "(op = AddOp \<and> mr_add p q = Inr c) \<or> (op = SubOp \<and> mr_sub p q = Inr c) \<or>
       (op = MulOp \<and> mr_mul p q = Inr c) \<or> (op = ModOp \<and> mr_mod p q = Inr c) \<or>
       (op \<in> {MinOp, MaxOp} \<and> unify_alternatives p q = Inr c)"
    by blast
  then show ?case
  proof cases
    case 1
    then show ?thesis by simp
  next
    case (2 p q)
    note pq = 2(1,2) and op = 2(3)
    have wf: "wf_expr a" "wf_expr b" "type_eq (type_of a) (type_of b)"
      using Binary.prems(1) by simp_all
    have ar: "is_arith op" using op by (auto simp: is_arith_def)
    have ta: "is_int32 (type_of a)" using Binary.prems(2) ar by simp
    then have tb: "is_int32 (type_of b)" using wf(3) by (simp add: is_int32_def type_eq_def is_int_def)
    have ok: "mr_ok s a" "mr_ok s b" "op = MulOp \<Longrightarrow> mr_mul_ok p q" "op \<in> {MinOp, MaxOp} \<Longrightarrow> unify_ok p q"
      using Binary.prems(3) pq op by (auto simp: both_def)
    have "\<forall>z \<in> set xs. represents c z"
    proof (rule lanes_represent [OF Binary.prems(6), where P = "represents p" and Q = "represents q" and R = "represents c"])
      fix ys y
      assume "eval r a = Some ys" "y \<in> set ys"
      then show "represents p y" by (rule Binary.IH(1) [OF wf(1) ta ok(1) Binary.prems(4) pq(1)])
    next
      fix ys y
      assume "eval r b = Some ys" "y \<in> set ys"
      then show "represents q y" by (rule Binary.IH(2) [OF wf(2) tb ok(2) Binary.prems(4) pq(2)])
    next
      fix u v z
      assume "represents p u" "represents q v" "binop_val op (type_of a) u v = Some z"
      then show "represents c z" using binop_represents [OF ta] op ok(3,4) by blast
    qed
    with Binary.prems(7) show ?thesis by blast
  qed
next
  case (Select d t f)
  then obtain p q where pq: "analyze s t = Inr p" "analyze s f = Inr q" "unify_alternatives p q = Inr c"
    by auto
  then have ok: "unify_ok p q" using Select.prems(3) by (simp add: both_def)
  have tf: "is_int32 (type_of f)"
    using Select.prems(1,2) by (simp add: is_int32_def type_eq_def is_int_def)
  obtain cs ts fs where ev: "eval r t = Some ts" "eval r f = Some fs" "select_val cs ts fs = Some xs"
    using Select.prems(6) by (auto elim!: bind_eq_SomeE)
  then have "x \<in> set ts \<or> x \<in> set fs" using select_val_sound [OF ev(3)] Select.prems(7) by blast
  then have "represents p x \<or> represents q x"
    using Select.IH(2) [of s r p ts x] Select.IH(3) [of s r q fs x] Select.prems tf pq ev by auto
  then show ?case using unify_represents [OF ok pq(3)] by blast
next
  case (LetE n v b)
  obtain vs where vs: "eval r v = Some vs" "eval (r\<lparr>var_val := (var_val r)(n \<mapsto> vs)\<rparr>) b = Some xs"
    using LetE.prems(6) by (auto elim!: bind_eq_SomeE)
  show ?case
  proof (cases "is_int (type_of v)")
    case True
    then obtain a where a: "analyze s v = Inr a" "analyze (scope_push n a s) b = Inr c"
      using LetE.prems(5) by auto
    have "\<forall>y \<in> set vs. represents a y"
      using LetE.IH(1) [of s r a vs] LetE.prems True vs(1) a(1) by (auto simp: is_int32_def)
    then have "scope_sound (scope_push n a s) (r\<lparr>var_val := (var_val r)(n \<mapsto> vs)\<rparr>)"
      using LetE.prems(4) by (rule scope_sound_push [rotated])
    then show ?thesis
      using LetE.IH(2) [OF _ _ _ _ a(2) vs(2)] LetE.prems True a by simp
  next
    case False
    then have "scope_sound s (r\<lparr>var_val := (var_val r)(n \<mapsto> vs)\<rparr>)"
      using LetE.prems(3,4) by (simp add: scope_sound_other)
    then show ?thesis
      using LetE.IH(2) [of s _ c, OF _ _ _ _ _ vs(2)] LetE.prems False by simp
  qed
qed auto


lemma scope_sound_containing:
  "scope_sound s r \<Longrightarrow> scope_sound (set_containing_scope (Some s) scope_new) r"
  by (auto simp: scope_sound_def set_containing_scope_def scope_new_def)



lemma gcd_loop_total:
  "0 \<le> a \<Longrightarrow> 0 \<le> b \<Longrightarrow> gcd_loop a b = Inr (gcd a b)"
proof (induction a b rule: gcd_loop.induct)
  case (1 a b)
  show ?case
  proof (cases "b = 0")
    case True
    with "1.prems" show ?thesis by (simp add: gcd_loop.simps)
  next
    case False
    with "1.prems" have r: "c_rem32 a b = Inr (a smod b)" by (simp add: c_rem32_def)
    have "a smod b = sgn a * (\<bar>a\<bar> mod \<bar>b\<bar>)" by (rule smod_int_alt_def)
    then have "0 \<le> a smod b" using "1.prems" False by (simp add: sgn_if)
    then have "gcd_loop b (a smod b) = Inr (gcd b (a smod b))"
      using "1.IH" [OF False r] "1.prems" by simp
    then show ?thesis
      using False r by (subst gcd_loop.simps) (simp add: gcd_smod)
  qed
qed

lemma rbind_eq_Inl: "rbind m f = Inl e \<longleftrightarrow> m = Inl e \<or> (\<exists>x. m = Inr x \<and> f x = Inl e)"
  by (cases m) auto

lemma gcd_loop_error: "gcd_loop a b \<noteq> Inl (Internal_error msg)"
proof (induction a b rule: gcd_loop.induct)
  case (1 a b)
  then show ?case
    by (subst gcd_loop.simps) (auto simp: rbind_def c_rem32_def split: sum.splits)
qed

subsection \<open>Properties\<close>

text \<open>C11: for a 32-bit integer expression, analysed in a scope that describes the values
  of its variables, every value of the expression is the remainder plus a multiple of
  the modulus that the analysis returns, unless a product or a choice in it goes through
  one of the two branches that \<open>mr_ok\<close> excludes.\<close>

theorem modulus_remainder_sound:
  assumes "wf_expr e" and "is_int32 (type_of e)" and "scope_sound s r"
    and "mr_ok (set_containing_scope (Some s) scope_new) e"
    and "modulus_remainder_in e s = Inr c" and "eval r e = Some [x]"
  shows "modulus c dvd x - remainder c"
  using analyze_sound [OF assms(1,2,4) scope_sound_containing [OF assms(3)] _ assms(6), of c x] assms(5)
  by (simp add: modulus_remainder_in_def represents_def)

definition times_3_plus_4 :: "expr \<Rightarrow> expr" where
  "times_3_plus_4 e = Add (Mul e (IntImm (Int_t 32 1) 3)) (IntImm (Int_t 32 1) 4)"

definition var32 :: "string \<Rightarrow> expr" where
  "var32 n = Variable (Int_t 32 1) n None None None"

text \<open>The test of the source: \<open>let y = x*3 + 4 in y*3 + 4\<close> is 7 modulo 9.\<close>

lemma let_example_analysis:
  "modulus_remainder_in (LetE ''y'' (times_3_plus_4 (var32 ''x'')) (times_3_plus_4 (var32 ''y''))) scope_new
   = Inr (mk_mr 9 7)"
  by code_simp

theorem modulus_remainder_sound_witness:
  "let e = LetE ''y'' (times_3_plus_4 (var32 ''x'')) (times_3_plus_4 (var32 ''y'')) in
   modulus_remainder_in e scope_new = Inr (mk_mr 9 7) \<and>
   eval (env0\<lparr>var_val := [''x'' \<mapsto> [2]]\<rparr>) e = Some [34] \<and> (9 :: int) dvd 34 - 7"
proof -
  define e where "e = LetE ''y'' (times_3_plus_4 (var32 ''x'')) (times_3_plus_4 (var32 ''y''))"
  define r where "r = env0\<lparr>var_val := [''x'' \<mapsto> [2]]\<rparr>"
  have "wf_expr e" "is_int32 (type_of e)"
    by (simp_all add: e_def times_3_plus_4_def var32_def is_logical_def is_arith_def is_int32_def)
  moreover have "scope_sound scope_new r" by (simp add: scope_sound_def scope_new_def)
  moreover have "mr_ok (set_containing_scope (Some scope_new) scope_new) e"
    unfolding e_def by code_simp
  moreover have "modulus_remainder_in e scope_new = Inr (mk_mr 9 7)"
    unfolding e_def by (rule let_example_analysis)
  moreover have "eval r e = Some [34]"
    by (simp add: e_def r_def times_3_plus_4_def var32_def is_arith_def lift2_def)
  ultimately show ?thesis
    using modulus_remainder_sound [of e scope_new r "mk_mr 9 7" 34]
    unfolding Let_def e_def [symmetric] r_def [symmetric] by simp
qed



text \<open>C32: the last branch of the product is wrong. The analysis gives the product of
  \<open>4*x + 3\<close> and \<open>4*y + 3\<close> the modulus 4 and the remainder 3, but at
  \<open>x = y = 0\<close> the product is 9.\<close>

theorem mul_last_branch_wrong:
  "let f = (\<lambda>n. Add (Mul (var32 n) (IntImm (Int_t 32 1) 4)) (IntImm (Int_t 32 1) 3));
       e = Mul (f ''x'') (f ''y'') in
   modulus_remainder e = Inr (mk_mr 4 3) \<and>
   eval (env0\<lparr>var_val := (\<lambda>n. Some [0])\<rparr>) e = Some [9] \<and> \<not> 4 dvd (9 - 3 :: int)"
proof -
  have "modulus_remainder (Mul (Add (Mul (var32 ''x'') (IntImm (Int_t 32 1) 4)) (IntImm (Int_t 32 1) 3))
      (Add (Mul (var32 ''y'') (IntImm (Int_t 32 1) 4)) (IntImm (Int_t 32 1) 3))) = Inr (mk_mr 4 3)"
    by code_simp
  then show ?thesis by (simp add: Let_def var32_def is_arith_def lift2_def)
qed

text \<open>The internal assertion of \<open>unify_alternatives\<close> never fails.\<close>

theorem unify_alternatives_no_internal_error:
  "unify_alternatives a b \<noteq> Inl (Internal_error msg)"
proof -
  have gcd: "gcd_int32 p q \<noteq> Inl (Internal_error msg)" for p q msg
    using gcd_loop_error by (simp add: gcd_int32_def)
  have md: "mod_mr p q \<noteq> Inl (Internal_error msg)" for p q msg
    by (simp add: mod_mr_def mod_imp_def Let_def)
  show ?thesis
  proof
    assume e: "unify_alternatives a b = Inl (Internal_error msg)"
    have ok: "unify_ok a b"
    proof (rule ccontr)
      assume "\<not> unify_ok a b"
      with e gcd show False
        by (auto simp: unify_alternatives_def can_represent_Int32 unify_ok_def rbind_eq_Inl)
    qed
    with e gcd md obtain k m ra rb where k: "gcd_int32 (modulus a) (modulus b) = Inr k"
      and m: "gcd_int32 (to_int32 (if remainder a - remainder b < 0
        then - (remainder a - remainder b) else remainder a - remainder b)) k = Inr m"
      and r: "mod_mr (remainder a) m = Inr ra" "mod_mr (remainder b) m = Inr rb" and "ra \<noteq> rb"
      by (auto simp: unify_alternatives_def Let_def can_represent_Int32 unify_ok_def rbind_eq_Inl
          internal_assert_def split: if_split_asm)
    then show False using mod_mr_eq [OF unify_modulus(3) [OF ok k m] r] by simp
  qed
qed

text \<open>When the remainders of the alternatives are too far apart,
  \<open>unify_alternatives\<close> claims that the value is the constant 1.\<close>

theorem unify_overflow_is_constant_one:
  assumes "\<not> unify_ok a b" and "gcd_int32 (modulus a) (modulus b) = Inr m"
  shows "unify_alternatives a b = Inr (mk_mr 0 1)"
  using assms by (simp add: unify_alternatives_def Let_def can_represent_Int32 unify_ok_def)

theorem unify_overflow_is_constant_one_witness:
  "modulus_remainder (MaxE (IntImm (Int_t 32 1) 2147483647) (IntImm (Int_t 32 1) (- 1))) = Inr (mk_mr 0 1)"
proof -
  have "unify_alternatives (mk_mr 0 2147483647) (mk_mr 0 (- 1)) = Inr (mk_mr 0 1)"
    by (rule unify_overflow_is_constant_one)
      (simp_all add: unify_ok_def in_int32_def gcd_int32_def gcd_loop.simps)
  then show ?thesis
    by (simp add: modulus_remainder_def to_int32_id in_int32_def)
qed

text \<open>C31: \<open>gcd\<close> terminates on all integers, and on integers that are not negative it
  returns their greatest common divisor.\<close>

theorem gcd_int32_correct:
  assumes "0 \<le> a" and "0 \<le> b"
  shows "gcd_int32 a b = Inr (gcd a b)"
  using assms by (simp add: gcd_int32_def gcd_loop_total gcd.commute)

theorem gcd_int32_correct_witness: "gcd_int32 12 18 = Inr (gcd 12 18)"
  by (rule gcd_int32_correct) simp_all

end
