(* ===== verification/Interval.thy ===== *)
theory Interval
  imports IROpsFacts
begin

text \<open>
  Intervals of expressions, \<open>src/Interval.h\<close> and \<open>src/Interval.cpp\<close>, the domain of
  the bounds analysis: unions and intersections built with a maximum and a minimum that fold
  constants, rebalance trees of maxima and know the two infinities. The infinities are two
  nodes recognised by their address, so the addresses of nodes are a parameter, as for the
  comparison. The recursion of \<open>make_max\<close> and \<open>make_min\<close> goes down the left spine of
  a tree; it has fuel from the sizes of the operands, which is shown to be enough.
\<close>

definition pos_inf :: expr where
  "pos_inf = Variable (Handle_t 1 None) ''pos_inf'' None None None"

definition neg_inf :: expr where
  "neg_inf = Variable (Handle_t 1 None) ''neg_inf'' None None None"

record Interval =
  interval_min :: expr
  interval_max :: expr

abbreviation mk_Interval :: "expr \<Rightarrow> expr \<Rightarrow> Interval" where
  "mk_Interval a b \<equiv> \<lparr>interval_min = a, interval_max = b\<rparr>"

definition everything :: Interval where
  "everything = mk_Interval neg_inf pos_inf"

definition nothing :: Interval where
  "nothing = mk_Interval pos_inf neg_inf"

definition single_point :: "expr \<Rightarrow> Interval" where
  "single_point e = mk_Interval e e"

definition is_empty :: "addresses \<Rightarrow> Interval \<Rightarrow> bool" where
  "is_empty h i \<longleftrightarrow> same_as h (interval_min i) pos_inf \<or> same_as h (interval_max i) neg_inf"

definition is_everything :: "addresses \<Rightarrow> Interval \<Rightarrow> bool" where
  "is_everything h i \<longleftrightarrow> same_as h (interval_min i) neg_inf \<and> same_as h (interval_max i) pos_inf"

definition is_single_point :: "addresses \<Rightarrow> Interval \<Rightarrow> bool" where
  "is_single_point h i \<longleftrightarrow> same_as h (interval_min i) (interval_max i)"

definition is_single_point_at :: "addresses \<Rightarrow> Interval \<Rightarrow> expr \<Rightarrow> bool" where
  "is_single_point_at h i e \<longleftrightarrow> same_as h (interval_min i) e \<and> same_as h (interval_max i) e"

definition interval_same_as :: "addresses \<Rightarrow> Interval \<Rightarrow> Interval \<Rightarrow> bool" where
  "interval_same_as h i j \<longleftrightarrow>
     same_as h (interval_min i) (interval_min j) \<and> same_as h (interval_max i) (interval_max j)"

definition has_upper_bound :: "addresses \<Rightarrow> Interval \<Rightarrow> bool" where
  "has_upper_bound h i \<longleftrightarrow> \<not> same_as h (interval_max i) pos_inf \<and> \<not> is_empty h i"

definition has_lower_bound :: "addresses \<Rightarrow> Interval \<Rightarrow> bool" where
  "has_lower_bound h i \<longleftrightarrow> \<not> same_as h (interval_min i) neg_inf \<and> \<not> is_empty h i"

definition is_bounded :: "addresses \<Rightarrow> Interval \<Rightarrow> bool" where
  "is_bounded h i \<longleftrightarrow> has_upper_bound h i \<and> has_lower_bound h i"

fun as_binary :: "binop \<Rightarrow> expr \<Rightarrow> (expr \<times> expr) option" where
  "as_binary op (Binary op' x y) = (if op' = op then Some (x, y) else None)"
| "as_binary op _ = None"

text \<open>The constants of both operands, compared: whether the first one is greater.\<close>

definition const_greater :: "expr \<Rightarrow> expr \<Rightarrow> bool option" where
  "const_greater a b =
     (case (as_const_int a, as_const_int b) of (Some i, Some j) \<Rightarrow> Some (i > j)
      | _ \<Rightarrow>
     (case (as_const_uint a, as_const_uint b) of (Some i, Some j) \<Rightarrow> Some (i > j)
      | _ \<Rightarrow>
     (case (as_const_float a, as_const_float b) of (Some i, Some j) \<Rightarrow> Some (dbl_less j i)
      | _ \<Rightarrow> None)))"

text \<open>Balancing to the left, the block that both functions end with.\<close>

definition swap_sides :: "binop \<Rightarrow> expr \<Rightarrow> expr \<Rightarrow> bool" where
  "swap_sides op a b \<longleftrightarrow>
     (case as_binary op b of None \<Rightarrow> False
      | Some (x, y) \<Rightarrow> as_binary op a = None \<and> \<not> (is_const x \<and> is_const y))"

definition balance ::
  "binop \<Rightarrow> addresses \<Rightarrow> (expr \<Rightarrow> expr \<Rightarrow> expr result) \<Rightarrow> expr \<Rightarrow> expr \<Rightarrow> expr result" where
  "balance op h again a b =
     (let (a, b) = (if swap_sides op a b then (b, a) else (a, b)) in
      case as_binary op a of
        Some (x, y) \<Rightarrow>
          if is_const y \<and> is_const b then rbind (again y b) (again x)
          else if same_as h x b \<or> same_as h y b then Inr a
          else binary_make op (Some a) (Some b)
      | None \<Rightarrow> binary_make op (Some a) (Some b))"

fun make_max_n :: "addresses \<Rightarrow> nat \<Rightarrow> expr \<Rightarrow> expr \<Rightarrow> expr result" where
  "make_max_n h 0 a b = Inl Undefined_behaviour"
| "make_max_n h (Suc n) a b =
     (if same_as h a b then Inr a
      else if same_as h a pos_inf then Inr a
      else if same_as h b pos_inf then Inr b
      else if same_as h a neg_inf then Inr b
      else if same_as h b neg_inf then Inr a
      else if equal_expr h (Some a) (Some b) then Inr a
      else case const_greater a b of
        Some g \<Rightarrow> Inr (if g then a else b)
      | None \<Rightarrow> balance MaxOp h (make_max_n h n) a b)"

fun make_min_n :: "addresses \<Rightarrow> nat \<Rightarrow> expr \<Rightarrow> expr \<Rightarrow> expr result" where
  "make_min_n h 0 a b = Inl Undefined_behaviour"
| "make_min_n h (Suc n) a b =
     (if same_as h a b then Inr a
      else if same_as h a pos_inf then Inr b
      else if same_as h b pos_inf then Inr a
      else if same_as h a neg_inf then Inr a
      else if same_as h b neg_inf then Inr b
      else if equal_expr h (Some a) (Some b) then Inr a
      else case const_greater a b of
        Some g \<Rightarrow> Inr (if g then b else a)
      | None \<Rightarrow> balance MinOp h (make_min_n h n) a b)"

definition make_max :: "addresses \<Rightarrow> expr \<Rightarrow> expr \<Rightarrow> expr result" where
  "make_max h a b = make_max_n h (size a + size b + 2) a b"

definition make_min :: "addresses \<Rightarrow> expr \<Rightarrow> expr \<Rightarrow> expr result" where
  "make_min h a b = make_min_n h (size a + size b + 2) a b"

definition include_interval :: "addresses \<Rightarrow> Interval \<Rightarrow> Interval \<Rightarrow> Interval result" where
  "include_interval h i j =
     rbind (make_max h (interval_max i) (interval_max j)) (\<lambda>mx.
     rbind (make_min h (interval_min i) (interval_min j)) (\<lambda>mn.
     Inr (mk_Interval mn mx)))"

definition include_expr :: "addresses \<Rightarrow> Interval \<Rightarrow> expr \<Rightarrow> Interval result" where
  "include_expr h i e =
     rbind (make_max h (interval_max i) e) (\<lambda>mx.
     rbind (make_min h (interval_min i) e) (\<lambda>mn.
     Inr (mk_Interval mn mx)))"

definition make_union :: "addresses \<Rightarrow> Interval \<Rightarrow> Interval \<Rightarrow> Interval result" where
  "make_union h a b = include_interval h a b"

text \<open>The two arguments of the constructor may be computed in either order: neither has an
  effect on the other.\<close>

definition make_intersection :: "addresses \<Rightarrow> Interval \<Rightarrow> Interval \<Rightarrow> Interval result" where
  "make_intersection h a b =
     rbind (make_max h (interval_min a) (interval_min b)) (\<lambda>mn.
     rbind (make_min h (interval_max a) (interval_max b)) (\<lambda>mx.
     Inr (mk_Interval mn mx)))"

subsection \<open>Bounds with infinities\<close>

datatype ext_int = NegInf | Fin int | PosInf

instantiation ext_int :: linorder
begin

fun less_eq_ext_int :: "ext_int \<Rightarrow> ext_int \<Rightarrow> bool" where
  "less_eq_ext_int NegInf _ = True"
| "less_eq_ext_int _ PosInf = True"
| "less_eq_ext_int (Fin x) (Fin y) = (x \<le> y)"
| "less_eq_ext_int (Fin x) NegInf = False"
| "less_eq_ext_int PosInf (Fin y) = False"
| "less_eq_ext_int PosInf NegInf = False"

definition less_ext_int :: "ext_int \<Rightarrow> ext_int \<Rightarrow> bool" where
  "less_ext_int x y \<longleftrightarrow> x \<le> y \<and> \<not> y \<le> x"

instance
proof
  fix x y z :: ext_int
  show "x < y \<longleftrightarrow> x \<le> y \<and> \<not> y \<le> x" by (simp add: less_ext_int_def)
  show "x \<le> x" by (cases x) auto
  show "x \<le> y \<Longrightarrow> y \<le> z \<Longrightarrow> x \<le> z" by (cases x; cases y; cases z) auto
  show "x \<le> y \<Longrightarrow> y \<le> x \<Longrightarrow> x = y" by (cases x; cases y) auto
  show "x \<le> y \<or> y \<le> x" by (cases x; cases y) auto
qed

end

lemma ext_int_le [simp]: "NegInf \<le> x" "x \<le> PosInf"
  by (cases x; simp)+

lemma ext_int_max_min [simp]:
  "max (Fin x) (Fin y) = Fin (max x y)" "min (Fin x) (Fin y) = Fin (min x y)"
  "max PosInf z = PosInf" "max z PosInf = PosInf" "max NegInf z = z" "max z NegInf = z"
  "min PosInf z = z" "min z PosInf = z" "min NegInf z = NegInf" "min z NegInf = NegInf"
  by (cases z; simp add: max_def min_def)+

text \<open>The value of a bound in an environment.\<close>

definition bound_val :: "bool \<Rightarrow> env \<Rightarrow> expr \<Rightarrow> ext_int option" where
  "bound_val m r e =
     (if e = pos_inf then Some PosInf
      else if e = neg_inf then Some NegInf
      else case eval_in m r e of Some [x] \<Rightarrow> Some (Fin x) | _ \<Rightarrow> None)"

lemma eval_inf [simp]: "eval_in m r pos_inf = None" "eval_in m r neg_inf = None"
  by (auto simp: pos_inf_def neg_inf_def Handle_t_def mk_Type_def in_range_def is_int_def is_uint_def
      length_Suc_conv range_in_def no_overflow_int_def split: option.splits)

lemma inf_distinct [simp]: "pos_inf \<noteq> neg_inf" "neg_inf \<noteq> pos_inf"
  by (simp_all add: pos_inf_def neg_inf_def)

lemma bound_val_simps [simp]: "bound_val m r pos_inf = Some PosInf" "bound_val m r neg_inf = Some NegInf"
  "eval_in m r e = Some [x] \<Longrightarrow> bound_val m r e = Some (Fin x)"
  by (auto simp: bound_val_def)

lemma bound_val_Fin: "bound_val m r e = Some (Fin x) \<longleftrightarrow> eval_in m r e = Some [x]"
  by (auto simp: bound_val_def split: if_splits option.splits list.splits)

subsection \<open>Finite bounds\<close>

definition fin :: "bool \<Rightarrow> (expr \<Rightarrow> bool) \<Rightarrow> env \<Rightarrow> Type \<Rightarrow> expr \<Rightarrow> int \<Rightarrow> bool" where
  "fin m Q r t e x \<longleftrightarrow> wf_expr e \<and> Q e \<and> \<not> is_handle t \<and> type_eq (type_of e) t \<and> eval_in m r e = Some [x]"

lemma fin_same_type: "fin m Q r t a x \<Longrightarrow> fin m Q r t b y \<Longrightarrow> type_eq (type_of a) (type_of b)"
  by (auto simp: fin_def type_eq_def is_handle_def)

lemma fin_not_inf: "fin m Q r t a x \<Longrightarrow> a \<noteq> pos_inf \<and> a \<noteq> neg_inf"
  by (auto simp: fin_def)

definition extremum :: "binop \<Rightarrow> int \<Rightarrow> int \<Rightarrow> int" where
  "extremum op x y = (if op = MaxOp then max x y else min x y)"

definition make_n :: "binop \<Rightarrow> addresses \<Rightarrow> nat \<Rightarrow> expr \<Rightarrow> expr \<Rightarrow> expr result" where
  "make_n op h n a b = (if op = MaxOp then make_max_n h n a b else make_min_n h n a b)"

lemma make_n_step:
  assumes h: "addresses_ok h" and op: "op \<in> {MaxOp, MinOp}" and a: "fin m Q r t a x" and b: "fin m Q r t b y"
  shows "make_n op h (Suc n) a b =
    (if same_as h a b \<or> equal_expr h (Some a) (Some b) then Inr a
     else case const_greater a b of Some g \<Rightarrow> Inr (if (op = MaxOp) = g then a else b)
     | None \<Rightarrow> balance op h (make_n op h n) a b)"
proof -
  have "\<not> same_as h a pos_inf" "\<not> same_as h a neg_inf" "\<not> same_as h b pos_inf" "\<not> same_as h b neg_inf"
    using h fin_not_inf [OF a] fin_not_inf [OF b] by (auto simp: addresses_ok_def)
  moreover have "make_n MaxOp h n = make_max_n h n" "make_n MinOp h n = make_min_n h n"
    by (auto simp: make_n_def intro!: ext)
  ultimately show ?thesis using op by (auto simp: make_n_def split: option.splits)
qed

lemma extremum_idem [simp]: "extremum op x x = x"
  by (simp add: extremum_def)

lemma extremum_comm: "extremum op x y = extremum op y x"
  by (simp add: extremum_def max.commute min.commute)

lemma extremum_assoc: "extremum op (extremum op x y) z = extremum op x (extremum op y z)"
  by (simp add: extremum_def max.assoc min.assoc)

lemma fin_const_greater:
  assumes "const_greater a b = Some g" and "fin m Q r t a x" and "fin m Q r t b y"
  shows "g \<longleftrightarrow> x > y"
proof -
  have c: "as_const_int e = Some i \<Longrightarrow> fin m Q r t e v \<Longrightarrow> v = i" "as_const_uint e = Some i \<Longrightarrow> fin m Q r t e v \<Longrightarrow> v = i" for e i v
    using as_const_int_eval [of e i m r "[v]"] as_const_uint_eval [of e i m r "[v]"]
    by (cases "lanes (type_of e)"; simp add: fin_def)+
  have f: "as_const_float e = Some d \<Longrightarrow> \<not> fin m Q r t e v" for e d v
    using as_const_float_eval by (auto simp: fin_def)
  show ?thesis
    using assms(1) c [OF _ assms(2)] c [OF _ assms(3)] f assms(2,3)
    by (auto simp: const_greater_def split: option.splits)
qed

text \<open>A bound: an infinity, or an expression of the type with a scalar value.\<close>

definition bound_ok :: "bool \<Rightarrow> (expr \<Rightarrow> bool) \<Rightarrow> env \<Rightarrow> Type \<Rightarrow> expr \<Rightarrow> bool" where
  "bound_ok m Q r t e \<longleftrightarrow> e = pos_inf \<or> e = neg_inf \<or>
     wf_expr e \<and> Q e \<and> \<not> is_handle t \<and> type_eq (type_of e) t \<and> (\<exists>x. eval_in m r e = Some [x])"

definition infinities_shared :: "addresses \<Rightarrow> bool" where
  "infinities_shared h \<longleftrightarrow> addresses_ok h \<and> same_as h pos_inf pos_inf \<and> same_as h neg_inf neg_inf"

lemma bound_ok_cases:
  assumes "bound_ok m Q r t e"
  obtains "e = pos_inf" | "e = neg_inf" | x where "fin m Q r t e x"
  using assms by (auto simp: bound_ok_def fin_def)

lemma fin_bound_ok: "fin m Q r t e x \<Longrightarrow> bound_ok m Q r t e \<and> bound_val m r e = Some (Fin x)"
  by (auto simp: fin_def bound_ok_def)

lemma shared_infinities:
  assumes "infinities_shared h"
  shows "same_as h pos_inf pos_inf" "same_as h neg_inf neg_inf" "\<not> same_as h pos_inf neg_inf" "\<not> same_as h neg_inf pos_inf"
proof -
  have same: "u = v" if "same_as h u v" for u v using assms that by (auto simp: infinities_shared_def addresses_ok_def)
  show "same_as h pos_inf pos_inf" "same_as h neg_inf neg_inf" using assms by (simp_all add: infinities_shared_def)
  show "\<not> same_as h pos_inf neg_inf" "\<not> same_as h neg_inf pos_inf"
    using same [of pos_inf neg_inf] same [of neg_inf pos_inf] by auto
qed

lemma shared_fin:
  assumes "infinities_shared h" and "fin m Q r t a x"
  shows "\<not> same_as h a pos_inf" "\<not> same_as h a neg_inf" "\<not> same_as h pos_inf a" "\<not> same_as h neg_inf a"
  using assms(1) fin_not_inf [OF assms(2)] by (auto simp: infinities_shared_def addresses_ok_def)

text \<open>
  A property of expressions that a minimum or a maximum has exactly when its operands have
  it: the bounds that are built from operands with the property have it too.
\<close>

locale hereditary =
  fixes Q :: "expr \<Rightarrow> bool"
  assumes hereditary: "op \<in> {MaxOp, MinOp} \<Longrightarrow> Q (Binary op a b) \<longleftrightarrow> Q a \<and> Q b"
begin

lemma fin_Binary:
  assumes op: "op \<in> {MaxOp, MinOp}" and a: "fin m Q r t (Binary op u v) z"
  obtains x y where "fin m Q r t u x" "fin m Q r t v y" "z = extremum op x y"
proof -
  obtain us vs where e: "eval_in m r u = Some us" "eval_in m r v = Some vs" "lift2 (binop_in m op (type_of u)) us vs = Some [z]"
    using a by (auto simp: fin_def elim!: bind_eq_SomeE)
  then obtain x y where xy: "us = [x]" "vs = [y]" 
    by (cases us; cases vs) (auto simp: lift2_Some)
  have ty: "type_of (Binary op u v) = type_of u" using op by (auto simp: is_arith_def)
  have "type_eq (type_of u) (type_of v)" "type_eq (type_of u) t" using a ty by (auto simp: fin_def)
  then have "type_eq (type_of v) t" using a by (auto simp: fin_def type_eq_def is_handle_def)
  moreover have "z = extremum op x y" using e(3) op xy by (auto simp: extremum_def)
  ultimately show thesis using that [of x y] a e xy hereditary [OF op, of u v] \<open>type_eq (type_of u) t\<close> by (simp add: fin_def)
qed

lemma fin_make:
  assumes op: "op \<in> {MaxOp, MinOp}" and a: "fin m Q r t a x" and b: "fin m Q r t b y"
  shows "binary_make op (Some a) (Some b) = Inr (Binary op a b)" and "fin m Q r t (Binary op a b) (extremum op x y)"
proof -
  have ty: "type_eq (type_of a) (type_of b)" by (rule fin_same_type [OF a b])
  show "binary_make op (Some a) (Some b) = Inr (Binary op a b)"
    using op ty by (auto simp: binary_make_def defined_handle_def is_logical_def)
  show "fin m Q r t (Binary op a b) (extremum op x y)"
    using op a b ty hereditary [OF op, of a b] by (auto simp: fin_def is_arith_def is_logical_def extremum_def)
qed

lemma const_not_binary: "is_const e \<Longrightarrow> as_binary op e = None"
  by (cases e) auto

lemma as_binary_Some: "as_binary op e = Some (x, y) \<longleftrightarrow> e = Binary op x y"
  by (cases e) auto

lemma make_n_consts:
  assumes h: "addresses_ok h" and op: "op \<in> {MaxOp, MinOp}" and a: "fin m Q r t a x" "is_const a" and b: "fin m Q r t b y" "is_const b"
    and n: "0 < n"
  shows "\<exists>c. make_n op h n a b = Inr c \<and> (c = a \<or> c = b \<or> c = Binary op a b)"
proof -
  obtain m where "n = Suc m" using n by (cases n) auto
  then show ?thesis
    using make_n_step [OF h op a(1) b(1), of m] fin_make(1) [OF op a(1) b(1)] const_not_binary [OF a(2)] const_not_binary [OF b(2)]
    by (auto simp: balance_def swap_sides_def split: option.splits)
qed

text \<open>The left spine of a tree, and the fuel a call needs.\<close>

fun spine :: "binop \<Rightarrow> expr \<Rightarrow> nat" where
  "spine op (Binary op' x y) = (if op' = op then Suc (spine op x) else 0)"
| "spine op _ = 0"

definition left_side :: "binop \<Rightarrow> expr \<Rightarrow> expr \<Rightarrow> expr" where
  "left_side op a b = (if swap_sides op a b then b else a)"

definition right_side :: "binop \<Rightarrow> expr \<Rightarrow> expr \<Rightarrow> expr" where
  "right_side op a b = (if swap_sides op a b then a else b)"

definition enough :: "binop \<Rightarrow> nat \<Rightarrow> expr \<Rightarrow> expr \<Rightarrow> bool" where
  "enough op n a b \<longleftrightarrow> 0 < n \<and> (is_const (right_side op a b) \<longrightarrow> spine op (left_side op a b) + 1 < n)"

lemma spine_size: "spine op e \<le> size e"
  by (induction e) auto

lemma balance_sides:
  "balance op h again a b =
     (case as_binary op (left_side op a b) of
        Some (x, y) \<Rightarrow>
          if is_const y \<and> is_const (right_side op a b) then rbind (again y (right_side op a b)) (again x)
          else if same_as h x (right_side op a b) \<or> same_as h y (right_side op a b) then Inr (left_side op a b)
          else binary_make op (Some (left_side op a b)) (Some (right_side op a b))
      | None \<Rightarrow> binary_make op (Some (left_side op a b)) (Some (right_side op a b)))"
  unfolding balance_def left_side_def right_side_def by (cases "swap_sides op a b") simp_all

lemma enough_outer:
  assumes "spine op u + 1 < n" and "R = v \<or> R = b \<or> R = Binary op v b" and "is_const v" and "is_const b"
  shows "enough op n u R"
proof (cases "is_const R")
  case True
  then have "\<not> swap_sides op u R" by (simp add: swap_sides_def const_not_binary)
  then show ?thesis using assms(1) by (simp add: enough_def left_side_def right_side_def)
next
  case False
  then have "R = Binary op v b" using assms by auto
  then have "\<not> swap_sides op u R" using assms(3,4) by (simp add: swap_sides_def)
  then show ?thesis using assms(1) False by (simp add: enough_def left_side_def right_side_def)
qed

lemma fin_sides:
  assumes "fin m Q r t a x" and "fin m Q r t b y"
  obtains p q where "fin m Q r t (left_side op a b) p" "fin m Q r t (right_side op a b) q" "extremum op p q = extremum op x y"
  using assms extremum_comm [of op x y] that by (cases "swap_sides op a b") (auto simp: left_side_def right_side_def)

text \<open>One balancing step has the value of the extremum when its two recursive calls have.\<close>

lemma balance_value:
  assumes h: "addresses_ok h" and op: "op \<in> {MaxOp, MinOp}" and a: "fin m Q r t a x" and b: "fin m Q r t b y"
    and again: "\<And>u v. left_side op a b = Binary op u v \<Longrightarrow> is_const v \<Longrightarrow> is_const (right_side op a b) \<Longrightarrow>
      \<exists>c. rbind (again v (right_side op a b)) (again u) = Inr c \<and> fin m Q r t c (extremum op x y)"
  shows "\<exists>c. balance op h again a b = Inr c \<and> fin m Q r t c (extremum op x y)"
proof -
  let ?l = "left_side op a b" and ?r = "right_side op a b"
  obtain p q where l: "fin m Q r t ?l p" and rr: "fin m Q r t ?r q" and pq: "extremum op p q = extremum op x y"
    using fin_sides [OF a b] by blast
  have mk: "binary_make op (Some ?l) (Some ?r) = Inr (Binary op ?l ?r)" "fin m Q r t (Binary op ?l ?r) (extremum op x y)"
    using fin_make [OF op l rr] pq by simp_all
  show ?thesis
  proof (cases "as_binary op ?l")
    case None
    then show ?thesis using mk by (simp add: balance_sides)
  next
    case (Some uv)
    then obtain u v where lb: "?l = Binary op u v" "as_binary op ?l = Some (u, v)" by (cases uv) (simp add: as_binary_Some)
    obtain i j where uv: "fin m Q r t u i" "fin m Q r t v j" "p = extremum op i j" using fin_Binary [OF op l [unfolded lb(1)]] by blast
    consider (rec) "is_const v" "is_const ?r" | (same) "\<not> (is_const v \<and> is_const ?r)" "same_as h u ?r \<or> same_as h v ?r"
      | (new) "\<not> (is_const v \<and> is_const ?r)" "\<not> (same_as h u ?r \<or> same_as h v ?r)" by blast
    then show ?thesis
    proof cases
      case rec
      then show ?thesis using again [OF lb(1) rec] lb(2) by (simp add: balance_sides)
    next
      case same
      then have "u = ?r \<or> v = ?r" using h by (auto simp: addresses_ok_def)
      then have "i = q \<or> j = q" using uv rr by (auto simp: fin_def)
      then have "p = extremum op p q" using uv(3) op by (auto simp: extremum_def)
      then show ?thesis using l pq same lb(2) by (auto simp: balance_sides)
    next
      case new
      then show ?thesis using lb(2) mk by (auto simp: balance_sides)
    qed
  qed
qed

text \<open>The tests before the balancing: equal operands, and two constants.\<close>

lemma make_n_equal:
  assumes h: "addresses_ok h" and r: "env_type_ok r" and a: "fin m Q r t a x" and b: "fin m Q r t b y"
    and "same_as h a b \<or> equal_expr h (Some a) (Some b)"
  shows "x = y"
  using assms(5)
proof
  assume "same_as h a b"
  then have "a = b" using h by (simp add: addresses_ok_def)
  then show ?thesis using a b by (simp add: fin_def)
next
  assume "equal_expr h (Some a) (Some b)"
  then have "cmp_e a b = Equal" using h by (simp add: equal_expr_cmp)
  then show ?thesis using eval_in_cmp_e [of a b r] a b r by (simp add: fin_def)
qed

lemma make_n_value:
  assumes h: "addresses_ok h" and r: "env_type_ok r" and op: "op \<in> {MaxOp, MinOp}"
    and "fin m Q r t a x" and "fin m Q r t b y" and "enough op n a b"
  shows "\<exists>c. make_n op h n a b = Inr c \<and> fin m Q r t c (extremum op x y)"
  using assms(4-)
proof (induction n arbitrary: a b x y)
  case 0
  then show ?case by (simp add: enough_def)
next
  case (Suc n)
  note a = Suc.prems(1) and b = Suc.prems(2)
  let ?r = "right_side op a b"
  have "\<exists>c. balance op h (make_n op h n) a b = Inr c \<and> fin m Q r t c (extremum op x y)"
  proof (rule balance_value [OF h op a b])
    fix u v assume lb: "left_side op a b = Binary op u v" and c: "is_const v" "is_const ?r"
    obtain p q where l: "fin m Q r t (left_side op a b) p" and rr: "fin m Q r t ?r q" and pq: "extremum op p q = extremum op x y"
      using fin_sides [OF a b] by blast
    obtain i j where uv: "fin m Q r t u i" "fin m Q r t v j" "p = extremum op i j" using fin_Binary [OF op l [unfolded lb]] by blast
    have n: "spine op u + 1 < n" using Suc.prems(3) c(2) lb by (simp add: enough_def)
    have "enough op n v ?r" using n c const_not_binary [OF c(2)] const_not_binary [OF c(1)]
      by (cases v) (auto simp: enough_def left_side_def right_side_def swap_sides_def)
    then obtain R where R: "make_n op h n v ?r = Inr R" "fin m Q r t R (extremum op j q)" using Suc.IH [OF uv(2) rr] by blast
    have "R = v \<or> R = ?r \<or> R = Binary op v ?r" using make_n_consts [OF h op uv(2) c(1) rr c(2), of n] n R(1) by auto
    then show "\<exists>c. rbind (make_n op h n v ?r) (make_n op h n u) = Inr c \<and> fin m Q r t c (extremum op x y)"
      using Suc.IH [OF uv(1) R(2) enough_outer [OF n _ c]] R(1) pq uv(3) by (auto simp: extremum_assoc)
  qed
  then show ?case
    using make_n_step [OF h op a b, of n] make_n_equal [OF h r a b] fin_const_greater [OF _ a b] a b op
    by (auto simp: extremum_def max_def min_def split: option.splits)
qed

lemma enough_size: "enough op (size a + size b + 2) a b"
  using spine_size [of op a] spine_size [of op b] by (auto simp: enough_def left_side_def)

subsection \<open>Properties\<close>

lemma make_max_bound:
  assumes h: "infinities_shared h" and r: "env_type_ok r" and a: "bound_ok m Q r t a" and b: "bound_ok m Q r t b"
  shows "\<exists>c. make_max h a b = Inr c \<and> bound_ok m Q r t c \<and> bound_val m r c = Some (max (the (bound_val m r a)) (the (bound_val m r b)))"
proof -
  note inf = shared_infinities [OF h] and na = shared_fin [OF h]
  show ?thesis
  proof (rule bound_ok_cases [OF a]; rule bound_ok_cases [OF b])
    fix x y assume f: "fin m Q r t a x" "fin m Q r t b y"
    then obtain c where c: "make_n MaxOp h (size a + size b + 2) a b = Inr c" "fin m Q r t c (extremum MaxOp x y)"
      using make_n_value [OF _ r _ f enough_size, of h MaxOp] h by (auto simp: infinities_shared_def)
    then show ?thesis
      using fin_bound_ok [OF f(1)] fin_bound_ok [OF f(2)] fin_bound_ok [OF c(2)] by (simp add: make_max_def make_n_def extremum_def)
  qed (use inf na fin_bound_ok in \<open>auto simp: make_max_def bound_ok_def\<close>)
qed

lemma make_min_bound:
  assumes h: "infinities_shared h" and r: "env_type_ok r" and a: "bound_ok m Q r t a" and b: "bound_ok m Q r t b"
  shows "\<exists>c. make_min h a b = Inr c \<and> bound_ok m Q r t c \<and> bound_val m r c = Some (min (the (bound_val m r a)) (the (bound_val m r b)))"
proof -
  note inf = shared_infinities [OF h] and na = shared_fin [OF h]
  show ?thesis
  proof (rule bound_ok_cases [OF a]; rule bound_ok_cases [OF b])
    fix x y assume f: "fin m Q r t a x" "fin m Q r t b y"
    then obtain c where c: "make_n MinOp h (size a + size b + 2) a b = Inr c" "fin m Q r t c (extremum MinOp x y)"
      using make_n_value [OF _ r _ f enough_size, of h MinOp] h by (auto simp: infinities_shared_def)
    then show ?thesis
      using fin_bound_ok [OF f(1)] fin_bound_ok [OF f(2)] fin_bound_ok [OF c(2)] by (simp add: make_min_def make_n_def extremum_def)
  qed (use inf na fin_bound_ok in \<open>auto simp: make_min_def bound_ok_def\<close>)
qed

end

interpretation anywhere: hereditary "\<lambda>_. True"
  by unfold_locales simp

definition in_interval :: "env \<Rightarrow> Interval \<Rightarrow> int \<Rightarrow> bool" where
  "in_interval r i x \<longleftrightarrow> the (bound_val False r (interval_min i)) \<le> Fin x \<and> Fin x \<le> the (bound_val False r (interval_max i))"

definition interval_ok :: "env \<Rightarrow> Type \<Rightarrow> Interval \<Rightarrow> bool" where
  "interval_ok r t i \<longleftrightarrow> bound_ok False (\<lambda>_. True) r t (interval_min i) \<and> bound_ok False (\<lambda>_. True) r t (interval_max i)"

text \<open>C14: For intervals whose bounds are infinities or integer expressions of one type with a
  value, the union and the intersection are always built, whatever constants are folded and
  trees rebalanced on the way; the bounds of the union are the least and the greatest of the
  bounds, so that it is the smallest interval with both, and a point is in the intersection
  exactly when it is in both.\<close>

theorem interval_union_intersection:
  assumes "infinities_shared h" and "env_type_ok r" and "interval_ok r t i" and "interval_ok r t j"
  shows "\<exists>u k. make_union h i j = Inr u \<and> make_intersection h i j = Inr k \<and> interval_ok r t u \<and> interval_ok r t k \<and>
    bound_val False r (interval_min u) = Some (min (the (bound_val False r (interval_min i))) (the (bound_val False r (interval_min j)))) \<and>
    bound_val False r (interval_max u) = Some (max (the (bound_val False r (interval_max i))) (the (bound_val False r (interval_max j)))) \<and>
    (in_interval r k x \<longleftrightarrow> in_interval r i x \<and> in_interval r j x)"
proof -
  have b: "bound_ok False (\<lambda>_. True) r t (interval_min i)" "bound_ok False (\<lambda>_. True) r t (interval_max i)" "bound_ok False (\<lambda>_. True) r t (interval_min j)" "bound_ok False (\<lambda>_. True) r t (interval_max j)"
    using assms(3,4) by (simp_all add: interval_ok_def)
  obtain mx mn where u: "make_max h (interval_max i) (interval_max j) = Inr mx" "bound_ok False (\<lambda>_. True) r t mx"
      "bound_val False r mx = Some (max (the (bound_val False r (interval_max i))) (the (bound_val False r (interval_max j))))"
      "make_min h (interval_min i) (interval_min j) = Inr mn" "bound_ok False (\<lambda>_. True) r t mn"
      "bound_val False r mn = Some (min (the (bound_val False r (interval_min i))) (the (bound_val False r (interval_min j))))"
    using anywhere.make_max_bound [OF assms(1,2) b(2,4)] anywhere.make_min_bound [OF assms(1,2) b(1,3)] by blast
  obtain lo hi where k: "make_max h (interval_min i) (interval_min j) = Inr lo" "bound_ok False (\<lambda>_. True) r t lo"
      "bound_val False r lo = Some (max (the (bound_val False r (interval_min i))) (the (bound_val False r (interval_min j))))"
      "make_min h (interval_max i) (interval_max j) = Inr hi" "bound_ok False (\<lambda>_. True) r t hi"
      "bound_val False r hi = Some (min (the (bound_val False r (interval_max i))) (the (bound_val False r (interval_max j))))"
    using anywhere.make_max_bound [OF assms(1,2) b(1,3)] anywhere.make_min_bound [OF assms(1,2) b(2,4)] by blast
  have "make_union h i j = Inr (mk_Interval mn mx)" using u by (simp add: make_union_def include_interval_def)
  moreover have "make_intersection h i j = Inr (mk_Interval lo hi)" using k by (simp add: make_intersection_def)
  moreover have "in_interval r (mk_Interval lo hi) x \<longleftrightarrow> in_interval r i x \<and> in_interval r j x"
    using k by (auto simp: in_interval_def)
  ultimately show ?thesis using u k by (intro exI [of _ "mk_Interval mn mx"] exI [of _ "mk_Interval lo hi"]) (simp add: interval_ok_def)
qed

definition shared_addresses :: addresses where
  "shared_addresses = \<lparr>addr_hash = (\<lambda>a b. 0), same_as = (=)\<rparr>"

theorem interval_union_intersection_witness:
  "\<exists>u k. make_union shared_addresses (mk_Interval (IntImm (Int_t 32 1) 3) pos_inf)
       (mk_Interval (Variable (Int_t 32 1) ''x'' None None None) (IntImm (Int_t 32 1) 9)) = Inr u \<and>
     make_intersection shared_addresses (mk_Interval (IntImm (Int_t 32 1) 3) pos_inf)
       (mk_Interval (Variable (Int_t 32 1) ''x'' None None None) (IntImm (Int_t 32 1) 9)) = Inr k \<and>
     bound_val False \<lparr>var_val = [''x'' \<mapsto> [5]], load_val = (\<lambda>n t i. None), call_val = (\<lambda>t n ct i vs. None)\<rparr> (interval_min u) = Some (Fin 3) \<and>
     in_interval \<lparr>var_val = [''x'' \<mapsto> [5]], load_val = (\<lambda>n t i. None), call_val = (\<lambda>t n ct i vs. None)\<rparr> k 7"
proof -
  let ?r = "\<lparr>var_val = [''x'' \<mapsto> [5]], load_val = (\<lambda>n t i. None), call_val = (\<lambda>t n ct i vs. None)\<rparr>"
  let ?i = "mk_Interval (IntImm (Int_t 32 1) 3) pos_inf"
  let ?j = "mk_Interval (Variable (Int_t 32 1) ''x'' None None None) (IntImm (Int_t 32 1) 9)"
  have h: "infinities_shared shared_addresses" by (simp add: infinities_shared_def addresses_ok_def shared_addresses_def)
  have ok: "interval_ok ?r (Int_t 32 1) ?i" "interval_ok ?r (Int_t 32 1) ?j" "env_type_ok ?r"
    by (simp_all add: interval_ok_def bound_ok_def eval_concrete type_wf_def type_eq_def env_type_ok_def)
  have v: "bound_val False ?r (IntImm (Int_t 32 1) 3) = Some (Fin 3)" "bound_val False ?r (IntImm (Int_t 32 1) 9) = Some (Fin 9)"
      "bound_val False ?r (Variable (Int_t 32 1) ''x'' None None None) = Some (Fin 5)"
    by (simp_all add: eval_concrete)
  have "in_interval ?r ?i 7" "in_interval ?r ?j 7" by (simp_all add: in_interval_def v)
  then show ?thesis using interval_union_intersection [OF h ok(3,1,2), of 7] v by auto
qed

end
