(* ===== verification/Monotonic.thy ===== *)
theory Monotonic
  imports IROpsFacts
begin

text \<open>
  The monotonicity analysis of \<open>src/Monotonic.cpp\<close>: whether an expression is constant,
  increasing or decreasing in a variable. The visitor leaves its answer in a member that
  every visit overwrites: the model returns it. The simplifier behind \<open>can_prove\<close> is a
  parameter, with the law that it keeps the value of an expression; the analysis calls it
  for the two branches of a select only.
\<close>

datatype Monotonic = Constant | Increasing | Decreasing | Unknown

definition can_prove :: "(expr \<Rightarrow> expr) \<Rightarrow> expr \<Rightarrow> bool result" where
  "can_prove simplify e =
     rbind (internal_assert (is_bool (type_of e)) ''Argument to can_prove is not a boolean Expr'') (\<lambda>_.
     Inr (is_one (simplify e)))"

fun flip :: "Monotonic \<Rightarrow> Monotonic" where
  "flip Increasing = Decreasing"
| "flip Decreasing = Increasing"
| "flip r = r"

definition unify :: "Monotonic \<Rightarrow> Monotonic \<Rightarrow> Monotonic" where
  "unify a b =
     (if a = b then a
      else if a = Unknown \<or> b = Unknown then Unknown
      else if a = Constant then b
      else if b = Constant then a
      else Unknown)"

definition mono_cast :: "Type \<Rightarrow> Type \<Rightarrow> Monotonic \<Rightarrow> Monotonic" where
  "mono_cast to from result =
     (if can_represent_type to from then result
      else if 32 \<le> bits from \<and> 32 \<le> bits to then result
      else if result \<noteq> Constant then Unknown
      else result)"

definition mono_mul :: "expr \<Rightarrow> expr \<Rightarrow> Monotonic \<Rightarrow> Monotonic \<Rightarrow> Monotonic" where
  "mono_mul a b ra rb =
     (if ra = Constant \<and> rb = Constant then Constant
      else if is_positive_const a then rb
      else if is_positive_const b then ra
      else if is_negative_const a then flip rb
      else if is_negative_const b then flip ra
      else Unknown)"

definition mono_div :: "expr \<Rightarrow> Monotonic \<Rightarrow> Monotonic \<Rightarrow> Monotonic" where
  "mono_div b ra rb =
     (if ra = Constant \<and> rb = Constant then Constant
      else if is_positive_const b then ra
      else if is_negative_const b then flip ra
      else Unknown)"

definition visit_eq :: "Monotonic \<Rightarrow> Monotonic \<Rightarrow> Monotonic" where
  "visit_eq ra rb = (if ra = Constant \<and> rb = Constant then Constant else Unknown)"

definition visit_lt :: "Monotonic \<Rightarrow> Monotonic \<Rightarrow> Monotonic" where
  "visit_lt ra rb = unify (flip ra) rb"

text \<open>The answer of a select whose condition is not constant, from the two proofs.\<close>

definition mono_select :: "Monotonic \<Rightarrow> Monotonic \<Rightarrow> Monotonic \<Rightarrow> bool \<Rightarrow> bool \<Rightarrow> Monotonic" where
  "mono_select rcond ra unified true_value_ge_false_value true_value_le_false_value =
     (let switches_from_true_to_false = (rcond = Decreasing);
          switches_from_false_to_true = (rcond = Increasing) in
      if true_value_ge_false_value \<and> true_value_le_false_value then ra
      else if (unified = Increasing \<or> unified = Constant) \<and>
              ((switches_from_false_to_true \<and> true_value_ge_false_value) \<or>
               (switches_from_true_to_false \<and> true_value_le_false_value)) then Increasing
      else if (unified = Decreasing \<or> unified = Constant) \<and>
              ((switches_from_false_to_true \<and> true_value_le_false_value) \<or>
               (switches_from_true_to_false \<and> true_value_ge_false_value)) then Decreasing
      else Unknown)"

definition visit_select ::
  "(expr \<Rightarrow> expr) \<Rightarrow> expr \<Rightarrow> expr \<Rightarrow> Monotonic \<Rightarrow> Monotonic \<Rightarrow> Monotonic \<Rightarrow> Monotonic result" where
  "visit_select simplify t f rcond ra rb =
     (let unified = unify ra rb in
      if rcond = Constant then Inr unified
      else
        rbind (operator_ee GEOp (Some t) (Some f)) (\<lambda>e.
        rbind (can_prove simplify e) (\<lambda>ge.
        rbind (operator_ee LEOp (Some t) (Some f)) (\<lambda>e.
        rbind (can_prove simplify e) (\<lambda>le.
        Inr (mono_select rcond ra unified ge le))))))"

definition mono_binary :: "binop \<Rightarrow> expr \<Rightarrow> expr \<Rightarrow> Monotonic \<Rightarrow> Monotonic \<Rightarrow> Monotonic" where
  "mono_binary op a b ra rb =
     (case op of
        AddOp \<Rightarrow> unify ra rb
      | SubOp \<Rightarrow> unify ra (flip rb)
      | MulOp \<Rightarrow> mono_mul a b ra rb
      | DivOp \<Rightarrow> mono_div b ra rb
      | ModOp \<Rightarrow> Unknown
      | MinOp \<Rightarrow> unify ra rb
      | MaxOp \<Rightarrow> unify ra rb
      | EQOp \<Rightarrow> visit_eq ra rb
      | NEOp \<Rightarrow> visit_eq ra rb
      | LTOp \<Rightarrow> visit_lt ra rb
      | LEOp \<Rightarrow> visit_lt ra rb
      | GTOp \<Rightarrow> visit_lt rb ra
      | GEOp \<Rightarrow> visit_lt rb ra
      | AndOp \<Rightarrow> unify ra rb
      | OrOp \<Rightarrow> unify ra rb)"

text \<open>
  A comparison by \<open>>\<close> visits its second operand first; as the visits do not share
  state, only the error of an operand that cannot be analysed could tell. The remainder does
  not visit its operands.
\<close>

fun visit_args :: "(expr \<Rightarrow> Monotonic result) \<Rightarrow> expr list \<Rightarrow> Monotonic result" where
  "visit_args visit [] = Inr Constant"
| "visit_args visit (a # as) =
     rbind (visit a) (\<lambda>r. if r \<noteq> Constant then Inr Unknown else visit_args visit as)"

lemma visit_args_cong [fundef_cong]:
  "xs = ys \<Longrightarrow> (\<And>x. x \<in> set ys \<Longrightarrow> f x = g x) \<Longrightarrow> visit_args f xs = visit_args g ys"
  by (induction xs arbitrary: ys) (auto cong: if_cong)

lemma child_sizes:
  "a \<in> set args \<Longrightarrow> size a < size (Call t n args ct f vi im p)" "size v < size (Cast ty v)"
  "size a1 < size (Binary op a1 a2)" "size a2 < size (Binary op a1 a2)" "size v < size (NotE v)"
  "size c < size (Select c x y)" "size x < size (Select c x y)" "size y < size (Select c x y)"
  "size i < size (Load ty ln i li lp)" "size v < size (LetE n v b)" "size b < size (LetE n v b)"
  by (induction args) auto

function visit_mono :: "(expr \<Rightarrow> expr) \<Rightarrow> string \<Rightarrow> Monotonic scope \<Rightarrow> expr \<Rightarrow> Monotonic result" where
  "visit_mono simplify var s (IntImm t v) = Inr Constant"
| "visit_mono simplify var s (UIntImm t v) = Inr Constant"
| "visit_mono simplify var s (FloatImm t v) = Inr Constant"
| "visit_mono simplify var s (StringImm v) = Inl (Internal_error ''Monotonic on String'')"
| "visit_mono simplify var s (Cast t v) =
     rbind (visit_mono simplify var s v) (\<lambda>r. Inr (mono_cast t (type_of v) r))"
| "visit_mono simplify var s (Variable t n im p rd) =
     (if n = var then Inr Increasing
      else if scope_contains s n then scope_get s n
      else Inr Constant)"
| "visit_mono simplify var s (Binary op a b) =
     (if op = ModOp then Inr Unknown
      else if op \<in> {GTOp, GEOp} then
        rbind (visit_mono simplify var s b) (\<lambda>rb. rbind (visit_mono simplify var s a) (\<lambda>ra.
        Inr (mono_binary op a b ra rb)))
      else
        rbind (visit_mono simplify var s a) (\<lambda>ra. rbind (visit_mono simplify var s b) (\<lambda>rb.
        Inr (mono_binary op a b ra rb))))"
| "visit_mono simplify var s (NotE a) = rbind (visit_mono simplify var s a) (\<lambda>r. Inr (flip r))"
| "visit_mono simplify var s (Select c t f) =
     rbind (visit_mono simplify var s c) (\<lambda>rcond.
     rbind (visit_mono simplify var s t) (\<lambda>ra.
     rbind (visit_mono simplify var s f) (\<lambda>rb.
     visit_select simplify t f rcond ra rb)))"
| "visit_mono simplify var s (Load t n i im p) =
     rbind (visit_mono simplify var s i) (\<lambda>r. Inr (if r \<noteq> Constant then Unknown else r))"
| "visit_mono simplify var s (Ramp b st n) = Inl (Internal_error ''Monotonic of vector'')"
| "visit_mono simplify var s (Broadcast v n) = Inl (Internal_error ''Monotonic of vector'')"
| "visit_mono simplify var s (Call t n args ct f vi im p) =
     (if identity_intrinsic ct n then
        (if args = [] then Inl Undefined_behaviour else visit_mono simplify var s (last args))
      else visit_args (visit_mono simplify var s) args)"
| "visit_mono simplify var s (LetE n v b) =
     rbind (visit_mono simplify var s v) (\<lambda>r.
     if r = Constant then visit_mono simplify var s b
     else visit_mono simplify var (scope_push n r s) b)"
  by pat_completeness auto
termination
proof (relation "measure (\<lambda>(_, _, _, e). size e)")
qed (simp_all add: child_sizes del: expr.size)

definition is_monotonic :: "(expr \<Rightarrow> expr) \<Rightarrow> Expr \<Rightarrow> string \<Rightarrow> Monotonic result" where
  "is_monotonic simplify e var =
     (case e of None \<Rightarrow> Inr Unknown | Some e \<Rightarrow> visit_mono simplify var scope_new e)"

subsection \<open>What an answer means\<close>

fun mono_rel :: "Monotonic \<Rightarrow> int \<Rightarrow> int \<Rightarrow> bool" where
  "mono_rel Constant x y \<longleftrightarrow> x = y"
| "mono_rel Increasing x y \<longleftrightarrow> x \<le> y"
| "mono_rel Decreasing x y \<longleftrightarrow> y \<le> x"
| "mono_rel Unknown x y \<longleftrightarrow> True"

definition mono_rels :: "Monotonic \<Rightarrow> int list \<Rightarrow> int list \<Rightarrow> bool" where
  "mono_rels m xs ys \<longleftrightarrow> list_all2 (mono_rel m) xs ys"

lemma mono_rel_Constant: "mono_rel Constant x y \<Longrightarrow> mono_rel m x y"
  by (cases m) auto

lemma mono_rels_Constant: "mono_rels Constant xs ys \<longleftrightarrow> xs = ys"
  by (auto simp: mono_rels_def list_all2_conv_all_nth intro: nth_equalityI)

lemma mono_rels_same [simp]: "mono_rels m xs xs"
  using mono_rel_Constant by (auto simp: mono_rels_def list_all2_conv_all_nth)

lemma mono_rels_Unknown [simp]: "mono_rels Unknown xs ys \<longleftrightarrow> length xs = length ys"
  by (simp add: mono_rels_def list_all2_conv_all_nth)

lemma unify_weaker:
  "mono_rel a x y \<Longrightarrow> mono_rel (unify a b) x y" "mono_rel b x y \<Longrightarrow> mono_rel (unify a b) x y"
  by (cases a; cases b; simp add: unify_def)+

lemma mono_rel_flip [simp]: "mono_rel (flip m) x y \<longleftrightarrow> mono_rel m y x"
  by (cases m) auto

lemma unify_Constant [simp]: "unify a b = Constant \<longleftrightarrow> a = Constant \<and> b = Constant"
  by (cases a; cases b; simp add: unify_def)

lemma flip_Constant [simp]: "flip a = Constant \<longleftrightarrow> a = Constant"
  by (cases a) auto

lemma mono_rel_add: "mono_rel m x x' \<Longrightarrow> mono_rel m y y' \<Longrightarrow> mono_rel m (x + y) (x' + y')"
  by (cases m) auto

lemma mono_rel_sub: "mono_rel m x x' \<Longrightarrow> mono_rel m y' y \<Longrightarrow> mono_rel m (x - y) (x' - y')"
  by (cases m) auto

lemma mono_rel_min_max:
  "mono_rel m x x' \<Longrightarrow> mono_rel m y y' \<Longrightarrow> mono_rel m (min x y) (min x' y')"
  "mono_rel m x x' \<Longrightarrow> mono_rel m y y' \<Longrightarrow> mono_rel m (max x y) (max x' y')"
  by (cases m; auto)+

lemma mono_rel_less:
  "mono_rel m x' x \<Longrightarrow> mono_rel m y y' \<Longrightarrow> mono_rel m (of_bool (x < y)) (of_bool (x' < y'))"
  "mono_rel m x' x \<Longrightarrow> mono_rel m y y' \<Longrightarrow> mono_rel m (of_bool (x \<le> y)) (of_bool (x' \<le> y'))"
  by (cases m; auto)+

definition bit01 :: "int \<Rightarrow> bool" where
  "bit01 x \<longleftrightarrow> x = 0 \<or> x = 1"

lemma mono_rel_logic:
  assumes "bit01 x" "bit01 x'" "bit01 y" "bit01 y'"
  shows "mono_rel m x x' \<Longrightarrow> mono_rel m y y' \<Longrightarrow> mono_rel m (of_bool (x \<noteq> 0 \<and> y \<noteq> 0)) (of_bool (x' \<noteq> 0 \<and> y' \<noteq> 0))"
    and "mono_rel m x x' \<Longrightarrow> mono_rel m y y' \<Longrightarrow> mono_rel m (of_bool (x \<noteq> 0 \<or> y \<noteq> 0)) (of_bool (x' \<noteq> 0 \<or> y' \<noteq> 0))"
    and "mono_rel m x x' \<Longrightarrow> mono_rel (flip m) (of_bool (x = 0)) (of_bool (x' = 0))"
  using assms unfolding bit01_def by (cases m; auto)+

lemma mono_rel_mul:
  "0 < x \<Longrightarrow> mono_rel m y y' \<Longrightarrow> mono_rel m (x * y) (x * y')"
  "x < 0 \<Longrightarrow> mono_rel m y y' \<Longrightarrow> mono_rel (flip m) (x * y) (x * y')"
  by (cases m; auto)+

lemma mono_rel_div:
  "0 < y \<Longrightarrow> mono_rel m x x' \<Longrightarrow> mono_rel m (ediv x y) (ediv x' y)"
  "y < 0 \<Longrightarrow> mono_rel m x x' \<Longrightarrow> mono_rel (flip m) (ediv x y) (ediv x' y)"
  by (cases m; auto simp: ediv_def zdiv_mono1)+

subsection \<open>Where the analysis is exact about overflow\<close>

text \<open>
  Arithmetic whose overflow is undefined, no cast from and to at least 32 bits that wraps, no
  narrowing cast of a constant, whose sign the constant tests look at through the cast, no
  cast to a type without bits below a select, and no binding of the variable itself.
\<close>

definition cast_exact :: "Type \<Rightarrow> Type \<Rightarrow> bool" where
  "cast_exact to from \<longleftrightarrow> can_represent_type to from \<or> no_overflow_int to"

fun mono_ok :: "string \<Rightarrow> expr \<Rightarrow> bool" where
  "mono_ok var (Cast t v) \<longleftrightarrow> mono_ok var v \<and>
     (cast_exact t (type_of v) \<or> \<not> is_const v \<and> \<not> (32 \<le> bits (type_of v) \<and> 32 \<le> bits t))"
| "mono_ok var (Binary op a b) \<longleftrightarrow> mono_ok var a \<and> mono_ok var b \<and>
     (op \<in> {AddOp, SubOp, MulOp, DivOp} \<longrightarrow> no_overflow_int (type_of a))"
| "mono_ok var (NotE a) \<longleftrightarrow> mono_ok var a"
| "mono_ok var (Select c t f) \<longleftrightarrow> mono_ok var c \<and> mono_ok var t \<and> mono_ok var f \<and> sized_casts t \<and> sized_casts f"
| "mono_ok var (Load t n i im p) \<longleftrightarrow> mono_ok var i"
| "mono_ok var (Call t n args ct f vi im p) \<longleftrightarrow> (\<forall>a \<in> set args. mono_ok var a)"
| "mono_ok var (LetE n v b) \<longleftrightarrow> n \<noteq> var \<and> mono_ok var v \<and> mono_ok var b"
| "mono_ok var _ \<longleftrightarrow> True"

text \<open>The law of the simplifier: it keeps the value of an expression that has one.\<close>

definition simplify_sound :: "(expr \<Rightarrow> expr) \<Rightarrow> bool" where
  "simplify_sound simplify \<longleftrightarrow>
     (\<forall>e. wf_expr e \<longrightarrow> sized_casts e \<longrightarrow> sized_casts (simplify e) \<and> (\<forall>r xs. eval r e = Some xs \<longrightarrow> eval r (simplify e) = Some xs))"

text \<open>Two environments that differ as the scope says.\<close>

definition envs_related :: "string \<Rightarrow> Monotonic scope \<Rightarrow> env \<Rightarrow> env \<Rightarrow> bool" where
  "envs_related var s r r' \<longleftrightarrow> scope_wf s \<and> load_val r' = load_val r \<and> call_val r' = call_val r \<and>
     (\<forall>n xs ys. var_val r n = Some xs \<longrightarrow> var_val r' n = Some ys \<longrightarrow> length xs = length ys \<longrightarrow>
        mono_rels (if n = var then Increasing else case scope_lookup s n of Some m \<Rightarrow> m | None \<Rightarrow> Constant) xs ys)"

lemma fit_exact:
  assumes "cast_exact t s" and "in_range s x" and "fit t x = Some y"
  shows "y = x"
proof -
  have "is_int t \<or> is_uint t" using assms(3) by (auto simp: fit_def split: if_splits)
  then show ?thesis
    using assms in_range_mono_int [of t s x] fit_no_overflow [of t x y] by (auto simp: cast_exact_def)
qed

lemma eval_cast_exact:
  assumes "wf_expr v" and "cast_exact t (type_of v)" and "eval r (Cast t v) = Some xs"
  shows "eval r v = Some xs"
proof -
  obtain ys where ys: "eval r v = Some ys" "list_all2 (\<lambda>x y. fit t x = Some y) ys xs"
    using assms(3) by (auto simp: those_map_eq_Some elim!: bind_eq_SomeE)
  have "\<forall>y \<in> set ys. in_range (type_of v) y" using eval_sound [OF assms(1) ys(1)] by (simp add: has_type_def)
  with ys(2) have "xs = ys" by (induction rule: list_all2_induct) (auto dest: fit_exact [OF assms(2)])
  then show ?thesis using ys(1) by simp
qed

lemma const_sign:
  assumes "wf_expr e" and "mono_ok var e" and "visit_mono simplify var s e = Inr m" and "eval r e = Some xs"
  shows "is_positive_const e \<Longrightarrow> m = Constant \<and> (\<forall>x \<in> set xs. 0 < x)"
    and "is_negative_const e \<Longrightarrow> m = Constant \<and> (\<forall>x \<in> set xs. x < 0)"
proof -
  have c: "is_positive_const e \<or> is_negative_const e \<Longrightarrow> visit_mono simplify var s e = Inr m \<Longrightarrow> is_const e \<and> m = Constant" for e m
    by (induction e arbitrary: m) (auto simp: mono_cast_def split: if_splits)
  have "(is_positive_const e \<longrightarrow> (\<forall>x \<in> set xs. 0 < x)) \<and> (is_negative_const e \<longrightarrow> (\<forall>x \<in> set xs. x < 0))"
    using assms
  proof (induction e arbitrary: m xs)
    case (Cast t v)
    then obtain k where k: "visit_mono simplify var s v = Inr k" by auto
    show ?case
    proof (cases "is_positive_const v \<or> is_negative_const v")
      case True
      then have "is_const v" using c k by blast
      then have "eval r v = Some xs" using Cast.prems by (intro eval_cast_exact [of v t]) auto
      then show ?thesis using Cast.IH [OF _ _ k] Cast.prems by simp
    qed simp
  qed (auto split: if_splits)
  then show "is_positive_const e \<Longrightarrow> m = Constant \<and> (\<forall>x \<in> set xs. 0 < x)"
    "is_negative_const e \<Longrightarrow> m = Constant \<and> (\<forall>x \<in> set xs. x < 0)"
    using c [OF _ assms(3)] by blast+
qed

lemma mono_mul_val:
  assumes "mono_rel ra x x'" and "mono_rel rb y y'"
    and "is_positive_const a \<Longrightarrow> ra = Constant \<and> 0 < x" and "is_negative_const a \<Longrightarrow> ra = Constant \<and> x < 0"
    and "is_positive_const b \<Longrightarrow> rb = Constant \<and> 0 < y" and "is_negative_const b \<Longrightarrow> rb = Constant \<and> y < 0"
  shows "mono_rel (mono_mul a b ra rb) (x * y) (x' * y')"
proof (cases "ra = Constant \<and> rb = Constant")
  case False
  show ?thesis
    using assms False mono_rel_mul [of x rb y y'] mono_rel_mul [of y ra x x']
    by (auto simp: mono_mul_def mult.commute)
qed (use assms in \<open>simp add: mono_mul_def\<close>)

lemma mono_div_val:
  assumes "mono_rel ra x x'" and "mono_rel rb y y'"
    and "is_positive_const b \<Longrightarrow> rb = Constant \<and> 0 < y" and "is_negative_const b \<Longrightarrow> rb = Constant \<and> y < 0"
  shows "mono_rel (mono_div b ra rb) (ediv x y) (ediv x' y')"
  using assms mono_rel_div [of y ra x x'] unfolding mono_div_def by auto

lemma mono_binary_val:
  assumes ra: "mono_rel ra x x'" and rb: "mono_rel rb y y'"
    and z: "binop_val op t x y = Some z" "binop_val op t x' y' = Some z'"
    and no: "op \<in> {AddOp, SubOp, MulOp, DivOp} \<Longrightarrow> no_overflow_int t" and "op \<noteq> ModOp"
    and lg: "is_logical op \<Longrightarrow> bit01 x \<and> bit01 x' \<and> bit01 y \<and> bit01 y'"
    and sa: "is_positive_const a \<Longrightarrow> ra = Constant \<and> 0 < x" "is_negative_const a \<Longrightarrow> ra = Constant \<and> x < 0"
    and sb: "is_positive_const b \<Longrightarrow> rb = Constant \<and> 0 < y" "is_negative_const b \<Longrightarrow> rb = Constant \<and> y < 0"
  shows "mono_rel (mono_binary op a b ra rb) z z'"
proof -
  have fit: "fit t v = Some w \<Longrightarrow> w = v" if "op \<in> {AddOp, SubOp, MulOp, DivOp}" for v w
    using fit_no_overflow [OF no [OF that]] by blast
  have u: "mono_rel (unify ra rb) x x'" "mono_rel (unify ra rb) y y'" using unify_weaker ra rb by blast+
  have f: "mono_rel (unify ra (flip rb)) x x'" "mono_rel (unify ra (flip rb)) y' y"
    using unify_weaker(1) [OF ra] unify_weaker(2) [of "flip rb" y' y] rb by simp_all
  have l: "mono_rel (visit_lt ra rb) x' x" "mono_rel (visit_lt ra rb) y y'"
    using unify_weaker(1) [of "flip ra" x' x] unify_weaker(2) [OF rb] ra by (simp_all add: visit_lt_def)
  have g: "mono_rel (visit_lt rb ra) y' y" "mono_rel (visit_lt rb ra) x x'"
    using unify_weaker(1) [of "flip rb" y' y] unify_weaker(2) [OF ra] rb by (simp_all add: visit_lt_def)
  show ?thesis
  proof (cases op)
    case AddOp
    then show ?thesis using z fit mono_rel_add [OF u] by (auto simp: mono_binary_def)
  next
    case SubOp
    then show ?thesis using z fit mono_rel_sub [OF f] by (auto simp: mono_binary_def)
  next
    case MulOp
    then show ?thesis using z fit mono_mul_val [OF ra rb, of a b] sa sb by (auto simp: mono_binary_def)
  next
    case DivOp
    then show ?thesis using z fit mono_div_val [OF ra rb, of b] sb by (auto simp: mono_binary_def split: if_splits)
  next
    case AndOp
    then have "bit01 x" "bit01 x'" "bit01 y" "bit01 y'" using lg by (auto simp: is_logical_def)
    then show ?thesis using AndOp z mono_rel_logic(1) [OF _ _ _ _ u] by (simp add: mono_binary_def)
  next
    case OrOp
    then have "bit01 x" "bit01 x'" "bit01 y" "bit01 y'" using lg by (auto simp: is_logical_def)
    then show ?thesis using OrOp z mono_rel_logic(2) [OF _ _ _ _ u] by (simp add: mono_binary_def)
  qed (use z \<open>op \<noteq> ModOp\<close> ra rb mono_rel_min_max [OF u] mono_rel_less [OF l] mono_rel_less [OF g]
      in \<open>auto simp: mono_binary_def visit_eq_def\<close>)
qed

lemma select_val_nth:
  assumes "select_val cs ts fs = Some zs" and "i < length zs"
  shows "length ts = length zs" and "length fs = length zs" and "length cs = 1 \<or> length cs = length zs"
    and "zs ! i = (if cs ! (if length cs = 1 then 0 else i) \<noteq> 0 then ts ! i else fs ! i)"
  using assms by (auto simp: select_val_def hd_conv_nth length_0_conv [symmetric] simp del: length_0_conv split: if_splits)

lemma can_prove_holds:
  assumes ss: "simplify_sound simplify" and e: "operator_ee op (Some t) (Some f) = Inr e" and op: "op \<in> {GEOp, LEOp}"
    and p: "can_prove simplify e = Inr True" and wf: "wf_expr t" "wf_expr f" "type_eq (type_of t) (type_of f)"
    and sc: "sized_casts t" "sized_casts f"
    and ev: "eval r t = Some ts" "eval r f = Some fs" and i: "i < length ts" "i < length fs"
  shows "if op = GEOp then fs ! i \<le> ts ! i else ts ! i \<le> fs ! i"
proof -
  have eq: "e = Binary op t f"
    using e op wf(3) by (auto simp: operator_ee_def operand_def user_defined_def match_types_def binary_make_def
        defined_handle_def is_logical_def)
  have len: "length ts = length fs"
    using eval_sound [OF wf(1) ev(1)] eval_sound [OF wf(2) ev(2)] type_eq_lanes [OF wf(3)] by (simp add: has_type_def)
  define zs where "zs = map2 (\<lambda>x y. of_bool (if op = GEOp then x \<ge> y else x \<le> y) :: int) ts fs"
  have "lift2 (binop_val op (type_of t)) ts fs = Some zs"
    using len op by (auto simp: lift2_Some zs_def)
  then have ez: "eval r e = Some zs" using ev by (simp add: eq)
  have "wf_expr e" "sized_casts e" using wf sc op by (auto simp: eq is_logical_def)
  then have "eval r (simplify e) = Some zs" "sized_casts (simplify e)" using ss ez by (auto simp: simplify_sound_def)
  moreover have "is_one (simplify e)" using p by (simp add: can_prove_def)
  ultimately have "\<forall>z \<in> set zs. odd z" using is_one_eval by blast
  moreover have "i < length zs" using i by (simp add: zs_def)
  then have "zs ! i \<in> set zs" by (rule nth_mem)
  ultimately have "odd (zs ! i)" by blast
  then show ?thesis using i by (simp add: zs_def split: if_splits)
qed

lemma mono_select_val:
  assumes c: "mono_rel rcond c c'" "bit01 c" "bit01 c'" "rcond \<noteq> Constant"
    and t: "mono_rel ra t t'" and f: "mono_rel rb f f'"
    and ge: "ge \<Longrightarrow> f \<le> t \<and> f' \<le> t'" and le: "le \<Longrightarrow> t \<le> f \<and> t' \<le> f'"
  shows "mono_rel (mono_select rcond ra (unify ra rb) ge le) (if c \<noteq> 0 then t else f) (if c' \<noteq> 0 then t' else f')"
proof (cases "ge \<and> le")
  case True
  then have "t = f" "t' = f'" using ge le by auto
  then show ?thesis using True t by (simp add: mono_select_def)
next
  case False
  have u: "mono_rel (unify ra rb) t t'" "mono_rel (unify ra rb) f f'" using unify_weaker t f by blast+
  show ?thesis
    using c u ge le False by (cases rcond; cases "unify ra rb") (auto simp: mono_select_def bit01_def)
qed

lemma visit_args_cases:
  "visit_args f as = Inr m \<Longrightarrow> m = Unknown \<or> m = Constant \<and> (\<forall>a \<in> set as. f a = Inr Constant)"
  by (induction as) (auto split: if_splits)

lemma bit01_type: "wf_expr e \<Longrightarrow> is_bool (type_of e) \<Longrightarrow> eval r e = Some xs \<Longrightarrow> x \<in> set xs \<Longrightarrow> bit01 x"
  using eval_sound [of e r xs] is_bool_range [of "type_of e" x] by (simp add: has_type_def bit01_def)

lemma eval_lengths:
  "wf_expr e \<Longrightarrow> eval r e = Some xs \<Longrightarrow> eval r' e = Some ys \<Longrightarrow> length xs = length ys"
  using eval_sound [of e r xs] eval_sound [of e r' ys] by (simp add: has_type_def)

lemma mono_relsI:
  "length xs = length ys \<Longrightarrow> (\<And>i. i < length xs \<Longrightarrow> mono_rel m (xs ! i) (ys ! i)) \<Longrightarrow> mono_rels m xs ys"
  by (simp add: mono_rels_def list_all2_conv_all_nth)

lemma mono_relsD: "mono_rels m xs ys \<Longrightarrow> i < length xs \<Longrightarrow> mono_rel m (xs ! i) (ys ! i)"
  by (simp add: mono_rels_def list_all2_conv_all_nth)

lemma eval_Binary_nth:
  assumes "eval r (Binary op a b) = Some zs"
  obtains xs ys where "eval r a = Some xs" "eval r b = Some ys" "length xs = length zs" "length ys = length zs"
    "\<forall>i < length zs. binop_val op (type_of a) (xs ! i) (ys ! i) = Some (zs ! i)"
  using assms by (auto simp: lift2_Some elim!: bind_eq_SomeE)

lemma envs_related_var:
  assumes "envs_related var s r r'" and "var_val r n = Some xs" and "var_val r' n = Some ys" and "length xs = length ys"
  shows "mono_rels (if n = var then Increasing else case scope_lookup s n of Some m \<Rightarrow> m | None \<Rightarrow> Constant) xs ys"
  using assms unfolding envs_related_def by blast

lemma envs_related_let:
  assumes "envs_related var s r r'" and "mono_rels m xs ys" and "n \<noteq> var"
  shows "envs_related var (if m = Constant then s else scope_push n m s)
    (r\<lparr>var_val := (var_val r)(n \<mapsto> xs)\<rparr>) (r'\<lparr>var_val := (var_val r')(n \<mapsto> ys)\<rparr>)"
proof (cases "m = Constant")
  case True
  then have "xs = ys" using assms(2) by (simp add: mono_rels_Constant)
  then show ?thesis using True assms(1) by (auto simp: envs_related_def)
next
  case False
  have wf: "scope_wf s" using assms(1) by (simp add: envs_related_def)
  have "mono_rels (if k = var then Increasing else case scope_lookup (scope_push n m s) k of Some m \<Rightarrow> m | None \<Rightarrow> Constant) us vs"
    if "((var_val r)(n \<mapsto> xs)) k = Some us" "((var_val r')(n \<mapsto> ys)) k = Some vs" "length us = length vs" for k us vs
    using envs_related_var [OF assms(1), of k us vs] that assms(2,3) wf
    by (cases "k = n"; cases "k = var") (simp_all add: scope_lookup_push)
  then show ?thesis using False assms(1) by (simp add: envs_related_def scope_wf_push)
qed

lemma mono_binary_lanes:
  assumes wf: "wf_expr (Binary op a b)" and ok: "mono_ok var (Binary op a b)" and op: "op \<noteq> ModOp"
    and va: "visit_mono simplify var s a = Inr ra" and vb: "visit_mono simplify var s b = Inr rb"
    and ea: "\<And>xs ys. eval r a = Some xs \<Longrightarrow> eval r' a = Some ys \<Longrightarrow> mono_rels ra xs ys"
    and eb: "\<And>xs ys. eval r b = Some xs \<Longrightarrow> eval r' b = Some ys \<Longrightarrow> mono_rels rb xs ys"
    and z: "eval r (Binary op a b) = Some zs" "eval r' (Binary op a b) = Some zs'"
  shows "mono_rels (mono_binary op a b ra rb) zs zs'"
proof (rule mono_relsI)
  show "length zs = length zs'" using eval_lengths [OF wf z] .
  fix i assume i: "i < length zs"
  obtain xs ys where 1: "eval r a = Some xs" "eval r b = Some ys" "length xs = length zs" "length ys = length zs"
    "\<forall>i < length zs. binop_val op (type_of a) (xs ! i) (ys ! i) = Some (zs ! i)"
    by (rule eval_Binary_nth [OF z(1)])
  obtain xs' ys' where 2: "eval r' a = Some xs'" "eval r' b = Some ys'" "length xs' = length zs'" "length ys' = length zs'"
    "\<forall>i < length zs'. binop_val op (type_of a) (xs' ! i) (ys' ! i) = Some (zs' ! i)"
    by (rule eval_Binary_nth [OF z(2)])
  have i': "i < length zs'" using i \<open>length zs = length zs'\<close> by simp
  have w: "wf_expr a" "wf_expr b" "mono_ok var a" "mono_ok var b" using wf ok by simp_all
  have m: "xs ! i \<in> set xs" "ys ! i \<in> set ys" "xs' ! i \<in> set xs'" "ys' ! i \<in> set ys'" using i i' 1 2 by simp_all
  show "mono_rel (mono_binary op a b ra rb) (zs ! i) (zs' ! i)"
  proof (rule mono_binary_val [OF _ _ 1(5) [rule_format, OF i] 2(5) [rule_format, OF i'] _ op])
    show "mono_rel ra (xs ! i) (xs' ! i)" using ea [OF 1(1) 2(1)] i 1(3) by (simp add: mono_relsD)
    show "mono_rel rb (ys ! i) (ys' ! i)" using eb [OF 1(2) 2(2)] i 1(4) by (simp add: mono_relsD)
    show "no_overflow_int (type_of a)" if "op \<in> {AddOp, SubOp, MulOp, DivOp}" using ok that by auto
    show "bit01 (xs ! i) \<and> bit01 (xs' ! i) \<and> bit01 (ys ! i) \<and> bit01 (ys' ! i)" if "is_logical op"
      using wf that w bit01_type 1(1,2) 2(1,2) m by (meson wf_expr.simps(7))
  qed (use const_sign [OF w(1,3) va 1(1)] const_sign [OF w(2,4) vb 1(2)] m in auto)
qed

lemma visit_mono_Binary:
  assumes "visit_mono simplify var s (Binary op a b) = Inr m"
  obtains "op = ModOp" "m = Unknown"
  | ra rb where "op \<noteq> ModOp" "visit_mono simplify var s a = Inr ra" "visit_mono simplify var s b = Inr rb"
      "m = mono_binary op a b ra rb"
  using assms by (auto split: if_splits)

lemma mono_select_lanes:
  assumes ss: "simplify_sound simplify" and wf: "wf_expr (Select c t f)" and sc: "sized_casts t" "sized_casts f"
    and sel: "visit_select simplify t f rc ra rb = Inr m"
    and ec: "\<And>xs ys. eval r c = Some xs \<Longrightarrow> eval r' c = Some ys \<Longrightarrow> mono_rels rc xs ys"
    and et: "\<And>xs ys. eval r t = Some xs \<Longrightarrow> eval r' t = Some ys \<Longrightarrow> mono_rels ra xs ys"
    and ef: "\<And>xs ys. eval r f = Some xs \<Longrightarrow> eval r' f = Some ys \<Longrightarrow> mono_rels rb xs ys"
    and z: "eval r (Select c t f) = Some zs" "eval r' (Select c t f) = Some zs'"
  shows "mono_rels m zs zs'"
proof (rule mono_relsI)
  show len: "length zs = length zs'" using eval_lengths [OF wf z] .
  obtain cs ts fs where 1: "eval r c = Some cs" "eval r t = Some ts" "eval r f = Some fs" "select_val cs ts fs = Some zs"
    using z(1) by (auto elim!: bind_eq_SomeE)
  obtain cs' ts' fs' where 2: "eval r' c = Some cs'" "eval r' t = Some ts'" "eval r' f = Some fs'" "select_val cs' ts' fs' = Some zs'"
    using z(2) by (auto elim!: bind_eq_SomeE)
  have w: "wf_expr c" "wf_expr t" "wf_expr f" "is_bool (type_of c)" "type_eq (type_of t) (type_of f)"
    using wf type_eq_sym by auto
  fix i assume i: "i < length zs"
  then have i': "i < length zs'" using len by simp
  note n1 = select_val_nth [OF 1(4) i] and n2 = select_val_nth [OF 2(4) i']
  have lc: "length cs = length cs'" using eval_lengths [OF w(1) 1(1) 2(1)] .
  define j where "j = (if length cs = 1 then 0 else i)"
  have j: "j < length cs" "j < length cs'" using n1(3) lc i by (auto simp: j_def)
  have c: "mono_rel rc (cs ! j) (cs' ! j)" "bit01 (cs ! j)" "bit01 (cs' ! j)"
    using mono_relsD [OF ec [OF 1(1) 2(1)] j(1)] bit01_type [OF w(1,4)] 1(1) 2(1) j by simp_all
  have t: "mono_rel ra (ts ! i) (ts' ! i)" and f: "mono_rel rb (fs ! i) (fs' ! i)"
    using mono_relsD [OF et [OF 1(2) 2(2)]] mono_relsD [OF ef [OF 1(3) 2(3)]] n1 i by simp_all
  have v: "zs ! i = (if cs ! j \<noteq> 0 then ts ! i else fs ! i)" "zs' ! i = (if cs' ! j \<noteq> 0 then ts' ! i else fs' ! i)"
    using n1(4) n2(4) lc by (simp_all add: j_def)
  show "mono_rel m (zs ! i) (zs' ! i)"
  proof (cases "rc = Constant")
    case True
    then have "m = unify ra rb" using sel by (simp add: visit_select_def)
    then show ?thesis using c(1) True unify_weaker(1) [OF t] unify_weaker(2) [OF f] by (simp add: v)
  next
    case False
    obtain e1 ge e2 le where p: "operator_ee GEOp (Some t) (Some f) = Inr e1" "can_prove simplify e1 = Inr ge"
      "operator_ee LEOp (Some t) (Some f) = Inr e2" "can_prove simplify e2 = Inr le"
      and m: "m = mono_select rc ra (unify ra rb) ge le"
      using sel False by (auto simp: visit_select_def Let_def simp del: Inr_eq_rbind)
    have il: "i < length ts" "i < length fs" "i < length ts'" "i < length fs'" using n1 n2 i i' by simp_all
    show ?thesis unfolding m v
    proof (rule mono_select_val [OF c False t f])
      assume "ge"
      then show "fs ! i \<le> ts ! i \<and> fs' ! i \<le> ts' ! i"
        using can_prove_holds [OF ss p(1) _ _ w(2,3,5) sc 1(2,3) il(1,2)] can_prove_holds [OF ss p(1) _ _ w(2,3,5) sc 2(2,3) il(3,4)] p(2)
        by simp
    next
      assume "le"
      then show "ts ! i \<le> fs ! i \<and> ts' ! i \<le> fs' ! i"
        using can_prove_holds [OF ss p(3) _ _ w(2,3,5) sc 1(2,3) il(1,2)] can_prove_holds [OF ss p(3) _ _ w(2,3,5) sc 2(2,3) il(3,4)] p(4)
        by simp
    qed
  qed
qed

lemma map_Some_last: "map g args = map Some us \<Longrightarrow> args \<noteq> [] \<Longrightarrow> us \<noteq> [] \<and> g (last args) = Some (last us)"
proof -
  assume eq: "map g args = map Some us" and a: "args \<noteq> []"
  have u: "us \<noteq> []" using arg_cong [OF eq, of length] a by (cases us) simp_all
  have "last (map g args) = last (map Some us)" by (rule arg_cong [OF eq])
  then show "us \<noteq> [] \<and> g (last args) = Some (last us)" unfolding last_map [OF a] last_map [OF u] using u by blast
qed

lemma map_Some_same:
  assumes "map g args = map Some us" and "map h args = map Some vs" and "\<forall>a \<in> set args. \<forall>u v. g a = Some u \<longrightarrow> h a = Some v \<longrightarrow> u = v"
  shows "us = vs"
proof (rule nth_equalityI)
  have l: "length us = length args" "length vs = length args"
    using arg_cong [OF assms(1), of length] arg_cong [OF assms(2), of length] by simp_all
  then show "length us = length vs" by simp
  fix i assume "i < length us"
  then have "g (args ! i) = Some (us ! i)" "h (args ! i) = Some (vs ! i)" "args ! i \<in> set args"
    using arg_cong [OF assms(1), of "\<lambda>l. l ! i"] arg_cong [OF assms(2), of "\<lambda>l. l ! i"] l by simp_all
  then show "us ! i = vs ! i" using assms(3) by blast
qed

lemma visit_mono_sound:
  assumes "simplify_sound simplify" and "wf_expr e" and "mono_ok var e" and "envs_related var s r r'"
    and "visit_mono simplify var s e = Inr m" and "eval r e = Some xs" and "eval r' e = Some ys"
  shows "mono_rels m xs ys"
  using assms(2-)
proof (induction e arbitrary: s r r' m xs ys)
  case (Cast t v)
  obtain k where k: "visit_mono simplify var s v = Inr k" "m = mono_cast t (type_of v) k" using Cast.prems(4) by auto
  have len: "length xs = length ys" using eval_lengths [OF Cast.prems(1,5,6)] .
  have wf: "wf_expr v" "mono_ok var v" using Cast.prems by simp_all
  obtain us vs where uv: "eval r v = Some us" "those (map (fit t) us) = Some xs" "eval r' v = Some vs" "those (map (fit t) vs) = Some ys"
    using Cast.prems(5,6) by (auto elim!: bind_eq_SomeE)
  have ih: "mono_rels k us vs" using Cast.IH [OF wf Cast.prems(3) k(1) uv(1,3)] .
  show ?case
  proof (cases "cast_exact t (type_of v)")
    case True
    have "us = xs" "vs = ys"
      using eval_cast_exact [OF wf(1) True Cast.prems(5)] eval_cast_exact [OF wf(1) True Cast.prems(6)] uv by simp_all
    then show ?thesis using ih len k(2) by (auto simp: mono_cast_def)
  next
    case False
    then have "m = (if k \<noteq> Constant then Unknown else k)"
      using k(2) Cast.prems(2) by (auto simp: mono_cast_def cast_exact_def)
    then show ?thesis using ih uv len by (cases "k = Constant") (auto simp: mono_rels_Constant)
  qed
next
  case (Variable t n im p rd)
  have v: "var_val r n = Some xs" "var_val r' n = Some ys" "length xs = length ys"
    using Variable.prems(5,6) by (auto split: option.splits if_splits)
  have wf: "scope_wf s" using Variable.prems(3) by (simp add: envs_related_def)
  show ?case using envs_related_var [OF Variable.prems(3) v] Variable.prems(4) wf
    by (cases "scope_lookup s n") (auto simp: scope_contains_lookup scope_get_lookup split: if_splits)
next
  case (Binary op a b)
  have wf: "wf_expr a" "wf_expr b" "mono_ok var a" "mono_ok var b" using Binary.prems by simp_all
  show ?case
  proof (rule visit_mono_Binary [OF Binary.prems(4)])
    assume "op = ModOp" "m = Unknown"
    then show ?thesis using eval_lengths [OF Binary.prems(1,5,6)] by simp
  next
    fix ra rb assume op: "op \<noteq> ModOp" and v: "visit_mono simplify var s a = Inr ra" "visit_mono simplify var s b = Inr rb"
      and m: "m = mono_binary op a b ra rb"
    show ?thesis unfolding m
      by (rule mono_binary_lanes [OF Binary.prems(1,2) op v _ _ Binary.prems(5,6)])
        (use Binary.IH(1) [OF wf(1,3) Binary.prems(3) v(1)] Binary.IH(2) [OF wf(2,4) Binary.prems(3) v(2)] in blast)+
  qed
next
  case (NotE a)
  obtain k where k: "visit_mono simplify var s a = Inr k" "m = flip k" using NotE.prems(4) by auto
  obtain us vs where uv: "eval r a = Some us" "xs = map (\<lambda>x. of_bool (x = 0)) us" "eval r' a = Some vs" "ys = map (\<lambda>x. of_bool (x = 0)) vs"
    using NotE.prems(5,6) by (auto elim!: bind_eq_SomeE)
  have wf: "wf_expr a" "is_bool (type_of a)" using NotE.prems by simp_all
  have ih: "mono_rels k us vs" using NotE.IH NotE.prems(1-3) k(1) uv by simp
  show ?case
  proof (rule mono_relsI)
    show len: "length xs = length ys" using ih uv by (simp add: mono_rels_def list_all2_lengthD)
    fix i assume i: "i < length xs"
    then have "bit01 (us ! i)" "bit01 (vs ! i)" "i < length us" using bit01_type [OF wf] uv len by simp_all
    then show "mono_rel m (xs ! i) (ys ! i)" unfolding k(2)
      using mono_rel_logic(3) [of "us ! i" "vs ! i", OF _ _ _ _ mono_relsD [OF ih]] i len uv by simp
  qed
next
  case (Select c t f)
  obtain rc ra rb where v: "visit_mono simplify var s c = Inr rc" "visit_mono simplify var s t = Inr ra"
    "visit_mono simplify var s f = Inr rb" "visit_select simplify t f rc ra rb = Inr m"
    using Select.prems(4) by auto
  have wf: "wf_expr c" "wf_expr t" "wf_expr f" "mono_ok var c" "mono_ok var t" "mono_ok var f" using Select.prems by simp_all
  have sc: "sized_casts t" "sized_casts f" using Select.prems(2) by simp_all
  show ?case
    by (rule mono_select_lanes [OF assms(1) Select.prems(1) sc v(4) _ _ _ Select.prems(5,6)])
      (use Select.IH(1) [OF wf(1,4) Select.prems(3) v(1)] Select.IH(2) [OF wf(2,5) Select.prems(3) v(2)]
        Select.IH(3) [OF wf(3,6) Select.prems(3) v(3)] in blast)+
next
  case (Load t n i im p)
  obtain k where k: "visit_mono simplify var s i = Inr k" "m = (if k \<noteq> Constant then Unknown else k)"
    using Load.prems(4) by auto
  obtain us vs where uv: "eval r i = Some us" "eval r' i = Some vs" using Load.prems(5,6) by (auto elim!: bind_eq_SomeE)
  have ih: "mono_rels k us vs" using Load.IH [OF _ _ Load.prems(3) k(1) uv] Load.prems(1,2) by simp
  have lv: "load_val r' = load_val r" using Load.prems(3) by (simp add: envs_related_def)
  show ?case
  proof (cases "k = Constant")
    case True
    then have "us = vs" using ih by (simp add: mono_rels_Constant)
    then have "xs = ys" using Load.prems(5,6) uv lv by simp
    then show ?thesis by simp
  next
    case False
    then show ?thesis using k(2) eval_lengths [OF Load.prems(1,5,6)] by simp
  qed
next
  case (Call t n args ct f vi im p)
  obtain us vs where uv: "map (eval r) args = map Some us" "map (eval r') args = map Some vs"
    using Call.prems(5,6) by (auto simp: those_eq_Some elim!: bind_eq_SomeE)
  then have len: "length us = length args" "length vs = length args" by (metis length_map)+
  have ih: "visit_mono simplify var s a = Inr k \<Longrightarrow> eval r a = Some u \<Longrightarrow> eval r' a = Some v \<Longrightarrow> mono_rels k u v"
    if "a \<in> set args" for a k u v
    using Call.IH [OF that, of s r r' k u v] Call.prems(1-3) that by simp
  show ?case
  proof (cases "identity_intrinsic ct n")
    case True
    then have a: "args \<noteq> []" and v: "visit_mono simplify var s (last args) = Inr m" using Call.prems(4) by (auto split: if_splits)
    have "those (map (eval r) args) = Some us" "those (map (eval r') args) = Some vs" using uv by (simp_all add: those_eq_Some)
    then have "xs = last us" "ys = last vs" using Call.prems(5,6) True by (simp_all split: if_splits)
    then show ?thesis using ih [OF last_in_set [OF a] v] map_Some_last [OF uv(1) a] map_Some_last [OF uv(2) a] by simp
  next
    case False
    then have va: "visit_args (visit_mono simplify var s) args = Inr m" using Call.prems(4) by simp
    from visit_args_cases [OF this] show ?thesis
    proof (elim disjE conjE)
      assume "m = Unknown"
      then show ?thesis using eval_lengths [OF Call.prems(1,5,6)] by simp
    next
      assume m: "m = Constant" and c: "\<forall>a \<in> set args. visit_mono simplify var s a = Inr Constant"
      have "us = vs" by (rule map_Some_same [OF uv]) (use ih c mono_rels_Constant in blast)
      moreover have "call_val r' = call_val r" using Call.prems(3) by (simp add: envs_related_def)
      moreover have "those (map (eval r) args) = Some us" "those (map (eval r') args) = Some vs" using uv by (simp_all add: those_eq_Some)
      ultimately have "xs = ys" using Call.prems(5,6) False by (auto elim!: bind_eq_SomeE split: if_splits)
      then show ?thesis by simp
    qed
  qed
next
  case (LetE n v b)
  obtain k where k: "visit_mono simplify var s v = Inr k" "visit_mono simplify var (if k = Constant then s else scope_push n k s) b = Inr m"
    using LetE.prems(4) by (auto split: if_splits)
  obtain us vs where uv: "eval r v = Some us" "eval (r\<lparr>var_val := (var_val r)(n \<mapsto> us)\<rparr>) b = Some xs"
      "eval r' v = Some vs" "eval (r'\<lparr>var_val := (var_val r')(n \<mapsto> vs)\<rparr>) b = Some ys"
    using LetE.prems(5,6) by (auto elim!: bind_eq_SomeE)
  have wf: "wf_expr v" "wf_expr b" "mono_ok var v" "mono_ok var b" "n \<noteq> var" using LetE.prems by simp_all
  have "mono_rels k us vs" using LetE.IH(1) [OF wf(1,3) LetE.prems(3) k(1) uv(1,3)] .
  from LetE.IH(2) [OF wf(2,4) envs_related_let [OF LetE.prems(3) this wf(5)] k(2) uv(2,4)] show ?case .
qed (auto split: if_splits)

subsection \<open>Properties\<close>

abbreviation ex_x :: expr where
  "ex_x \<equiv> Variable (Int_t 32 1) ''x'' None None None"

abbreviation ex_i :: "int \<Rightarrow> expr" where
  "ex_i \<equiv> IntImm (Int_t 32 1)"

definition ex_env :: "int \<Rightarrow> env" where
  "ex_env v = \<lparr>var_val = [''x'' \<mapsto> [v]], load_val = (\<lambda>n t i. None), call_val = (\<lambda>t n ct i vs. None)\<rparr>"

text \<open>A simplifier that proves that an expression is not less than itself.\<close>

definition simplify_refl :: "expr \<Rightarrow> expr" where
  "simplify_refl e =
     (case e of
        Binary op a b \<Rightarrow>
          if op \<in> {LEOp, GEOp} \<and> a = b \<and> lanes (type_of a) = 1 then UIntImm (Bool_t 1) 1 else e
      | _ \<Rightarrow> e)"

lemma simplify_refl_sound: "simplify_sound simplify_refl"
proof -
  have "eval r (simplify_refl e) = Some xs" if wf: "wf_expr e" and ev: "eval r e = Some xs" for e r xs
  proof (cases "\<exists>op a. e = Binary op a a \<and> op \<in> {LEOp, GEOp} \<and> lanes (type_of a) = 1")
    case True
    then obtain op a where e: "e = Binary op a a" "op \<in> {LEOp, GEOp}" "lanes (type_of a) = 1" by blast
    obtain ys where ys: "eval r a = Some ys" "lift2 (binop_val op (type_of a)) ys ys = Some xs"
      using ev e(1) by (auto elim!: bind_eq_SomeE)
    have "length ys = 1" using eval_sound [of a r ys] wf e ys(1) by (simp add: has_type_def)
    then have "length xs = 1" "xs ! 0 = 1" using ys(2) e(2) by (auto simp: lift2_Some)
    then have "xs = [1]" by (cases xs) auto
    then show ?thesis using e by (simp add: simplify_refl_def in_range_Bool_t)
  next
    case False
    then have "simplify_refl e = e" by (auto simp: simplify_refl_def split: expr.splits)
    then show ?thesis using ev by simp
  qed
  moreover have "sized_casts (simplify_refl e)" if "sized_casts e" for e
    using that by (auto simp: simplify_refl_def split: expr.splits)
  ultimately show ?thesis by (simp add: simplify_sound_def)
qed

text \<open>C13: The analysis is sound for arithmetic whose overflow is undefined, and for every
  simplifier that keeps values: when the variable grows and the expression has a value at
  both points, a constant answer means equal values, an increasing one that no lane gets
  smaller and a decreasing one that no lane gets larger.\<close>

theorem is_monotonic_sound:
  assumes "simplify_sound simplify" and "wf_expr e" and "mono_ok var e"
    and "is_monotonic simplify (Some e) var = Inr m"
    and "var_val r var = Some us" and "list_all2 (\<le>) us vs"
    and "eval r e = Some xs" and "eval (r\<lparr>var_val := (var_val r)(var \<mapsto> vs)\<rparr>) e = Some ys"
  shows "case m of Constant \<Rightarrow> xs = ys | Increasing \<Rightarrow> list_all2 (\<le>) xs ys
    | Decreasing \<Rightarrow> list_all2 (\<ge>) xs ys | Unknown \<Rightarrow> length xs = length ys"
proof -
  have "mono_rel Increasing = (\<le>)" "mono_rel Decreasing = (\<ge>)" by (auto intro!: ext)
  moreover have "envs_related var scope_new r (r\<lparr>var_val := (var_val r)(var \<mapsto> vs)\<rparr>)"
    using assms(5,6) by (auto simp: envs_related_def scope_wf_new scope_lookup_new mono_rels_def \<open>mono_rel Increasing = (\<le>)\<close>
      list_all2_conv_all_nth)
  then have "mono_rels m xs ys"
    using visit_mono_sound [OF assms(1-3) _ _ assms(7,8)] assms(4) by (simp add: is_monotonic_def)
  ultimately show ?thesis
    using mono_rels_Constant [of xs ys] by (cases m) (simp_all add: mono_rels_def list_all2_lengthD)
qed

definition ex_select :: expr where
  "ex_select = Select (Binary LTOp ex_x (ex_i 2)) (Binary MulOp ex_x (ex_i 4)) (Binary MulOp ex_x (ex_i 4))"

theorem is_monotonic_sound_witness:
  "is_monotonic simplify_refl (Some ex_select) ''x'' = Inr Increasing \<and>
   eval (ex_env 1) ex_select = Some [4] \<and> eval (ex_env 3) ex_select = Some [12] \<and> list_all2 (\<le>) [4 :: int] [12]"
proof -
  have m: "is_monotonic simplify_refl (Some ex_select) ''x'' = Inr Increasing"
    by (simp add: is_monotonic_def ex_select_def mono_binary_def mono_mul_def visit_lt_def unify_def visit_select_def
        operator_ee_def operand_def user_defined_def match_types_def binary_make_def defined_handle_def is_logical_def
        can_prove_def simplify_refl_def mono_select_def eval_concrete Let_def is_arith_def type_eq_def Bool_t_def UInt_t_def
        mk_Type_def ex_bool_eq)
  have e: "eval (ex_env 1) ex_select = Some [4]" "eval ((ex_env 1)\<lparr>var_val := (var_val (ex_env 1))(''x'' \<mapsto> [3])\<rparr>) ex_select = Some [12]"
    by (simp_all add: ex_select_def ex_env_def eval_concrete lift2_def select_val_def)
  have "wf_expr ex_select" "mono_ok ''x'' ex_select"
    by (simp_all add: ex_select_def eval_concrete type_wf_def is_logical_def no_overflow_int_def is_arith_def
        Bool_t_def UInt_t_def mk_Type_def)
  from is_monotonic_sound [OF simplify_refl_sound this m _ _ e, of "[1]"] e show ?thesis
    using m by (simp add: ex_env_def)
qed

text \<open>C35: The analysis assumes that arithmetic never wraps and that no \<open>Let\<close> binds the
  variable again. For an 8-bit unsigned variable it reports \<open>x + 1\<close> to be increasing,
  which wraps from 255 to 0; and in \<open>let x = 0 - x in x\<close> it takes the inner \<open>x\<close> for
  the variable and reports increasing where the value decreases.\<close>

theorem is_monotonic_unsound:
  "let x8 = Variable (UInt_t 8 1) ''x'' None None None; e = Binary AddOp x8 (UIntImm (UInt_t 8 1) 1);
       f = LetE ''x'' (Binary SubOp (ex_i 0) ex_x) ex_x in
   is_monotonic simplify (Some e) ''x'' = Inr Increasing \<and>
   eval (ex_env 254) e = Some [255] \<and> eval (ex_env 255) e = Some [0] \<and>
   is_monotonic simplify (Some f) ''x'' = Inr Increasing \<and>
   eval (ex_env 1) f = Some [- 1] \<and> eval (ex_env 2) f = Some [- 2]"
  by (simp add: Let_def is_monotonic_def mono_binary_def unify_def ex_env_def eval_concrete wrap_def lift2_def)

end
