(* ===== verification/Bounds.thy ===== *)
theory Bounds
  imports Interval Monotonic
begin

text \<open>
  The bounds of an expression over the ranges of its variables, the class \<open>Bounds\<close> and
  \<open>find_constant_bound\<close> of \<open>src/Bounds.cpp\<close>. The visitor keeps one interval, which a
  visit overwrites; a visit is a function of the interval before it, since the visit of a
  string literal leaves it alone. The nodes that are rewritten before they are visited (a
  ramp, an \<open>if_then_else\<close>, a shift that the simplifier changes) are visited with less
  fuel; \<open>BoundsFacts\<close> shows how much is enough. The context has what is fixed
  for a run: the addresses of nodes, the simplifier, the bounds of functions and the fresh
  names that \<open>unique_name\<close> gives the lanes of ramps, by depth.
\<close>

subsection \<open>Context\<close>

record bounds_context =
  addrs :: addresses
  simplifier :: "expr \<Rightarrow> expr"
  func_bounds :: "string \<Rightarrow> int \<Rightarrow> Interval option"
  lane_name :: "nat \<Rightarrow> string"

datatype Direction = Upper | Lower

definition static_sign :: "bounds_context \<Rightarrow> expr \<Rightarrow> int result" where
  "static_sign c x =
     (if is_positive_const x then Inr 1
      else if is_negative_const x then Inr (- 1)
      else
        rbind (make_zero (type_of x)) (\<lambda>zero.
        rbind (const_true 1) (\<lambda>true.
        rbind (operator_ee GTOp (Some x) (Some zero)) (\<lambda>g.
        if equal_expr (addrs c) (Some true) (Some (simplifier c g)) then Inr 1
        else
          rbind (operator_ee LTOp (Some x) (Some zero)) (\<lambda>l.
          if equal_expr (addrs c) (Some true) (Some (simplifier c l)) then Inr (- 1)
          else Inr 0)))))"

text \<open>
  The two branches for \<open>Min\<close> and \<open>Max\<close> differ in the direction in which one of the
  bounds is enough.
\<close>

definition constant_of_sides ::
  "(expr \<Rightarrow> expr) \<Rightarrow> binop \<Rightarrow> bool \<Rightarrow> Expr \<Rightarrow> Expr \<Rightarrow> Expr result" where
  "constant_of_sides simplify op one_is_enough a b =
     (case (a, b) of
        (Some a, Some b) \<Rightarrow> rbind (binary_make op (Some a) (Some b)) (\<lambda>e. Inr (Some (simplify e)))
      | (Some a, None) \<Rightarrow> Inr (if one_is_enough then Some a else None)
      | (None, Some b) \<Rightarrow> Inr (if one_is_enough then Some b else None)
      | (None, None) \<Rightarrow> Inr None)"

fun find_constant_bound :: "(expr \<Rightarrow> expr) \<Rightarrow> expr \<Rightarrow> Direction \<Rightarrow> Expr result" where
  "find_constant_bound simplify e d =
     (if is_const e then Inr (Some e)
      else case e of
        Binary op x y \<Rightarrow>
          if op \<in> {MinOp, MaxOp} then
            rbind (find_constant_bound simplify x d) (\<lambda>a.
            rbind (find_constant_bound simplify y d) (\<lambda>b.
            constant_of_sides simplify op (d = (if op = MinOp then Upper else Lower)) a b))
          else Inr None
      | Cast t v \<Rightarrow>
          rbind (find_constant_bound simplify v d) (\<lambda>a. case a of
            Some a \<Rightarrow> rbind (Cast_make t (Some a)) (\<lambda>e. Inr (Some (simplify e)))
          | None \<Rightarrow> Inr None)
      | _ \<Rightarrow> Inr None)"

declare find_constant_bound.simps [simp del]

subsection \<open>Types and functions\<close>

definition bounds_of_type :: "Type \<Rightarrow> Interval result" where
  "bounds_of_type t =
     (let t = element_of t in
      if (is_uint t \<or> is_int t) \<and> bits t \<le> 16 then
        rbind (type_min t) (\<lambda>a. rbind (type_max t) (\<lambda>b. Inr (mk_Interval a b)))
      else Inr everything)"

definition bounds_of_func :: "bounds_context \<Rightarrow> string \<Rightarrow> int \<Rightarrow> Type \<Rightarrow> Interval result" where
  "bounds_of_func c name value_index t =
     rbind (bounds_of_type t) (\<lambda>i.
     case func_bounds c name value_index of
       None \<Rightarrow> Inr i
     | Some f \<Rightarrow>
         let i = (if has_lower_bound (addrs c) f then i\<lparr>interval_min := interval_min f\<rparr> else i);
             i = (if has_upper_bound (addrs c) f then i\<lparr>interval_max := interval_max f\<rparr> else i)
         in Inr i)"

subsection \<open>Casts\<close>

text \<open>Whether two constants survive the narrowing cast and back.\<close>

definition narrow_test :: "Type \<Rightarrow> Type \<Rightarrow> expr \<Rightarrow> expr \<Rightarrow> expr result" where
  "narrow_test from to lower_bound upper_bound =
     rbind (cast to lower_bound) (\<lambda>l. rbind (cast from l) (\<lambda>l.
     rbind (operator_ee EQOp (Some l) (Some lower_bound)) (\<lambda>p.
     rbind (cast to upper_bound) (\<lambda>u. rbind (cast from u) (\<lambda>u.
     rbind (operator_ee EQOp (Some u) (Some upper_bound)) (\<lambda>q.
     operator_ee AndOp (Some p) (Some q)))))))"

text \<open>\<open>could_overflow\<close>, and the interval, which is relaxed to constants when the test holds.\<close>

definition cast_overflow :: "bounds_context \<Rightarrow> Type \<Rightarrow> Type \<Rightarrow> Interval \<Rightarrow> (bool \<times> Interval) result" where
  "cast_overflow c to from a =
     (if can_represent_type to from \<or> is_float to then Inr (False, a)
      else if is_int to \<and> 32 \<le> bits to then Inr (False, a)
      else if is_bounded (addrs c) a \<and> can_represent_type from to then
        rbind (find_constant_bound (simplifier c) (interval_min a) Lower) (\<lambda>lower_bound.
        rbind (find_constant_bound (simplifier c) (interval_max a) Upper) (\<lambda>upper_bound.
        case (lower_bound, upper_bound) of
          (Some l, Some u) \<Rightarrow>
            rbind (narrow_test from to l u) (\<lambda>test.
            rbind (can_prove (simplifier c) test) (\<lambda>p.
            Inr (if p then (False, mk_Interval l u) else (True, a))))
        | _ \<Rightarrow> Inr (True, a)))
      else Inr (True, a))"

definition cast_bounds :: "bounds_context \<Rightarrow> Type \<Rightarrow> Type \<Rightarrow> Interval \<Rightarrow> Interval result" where
  "cast_bounds c to from a =
     rbind (bounds_of_type from) (\<lambda>i.
     let i = (if has_lower_bound (addrs c) a then i\<lparr>interval_min := interval_min a\<rparr> else i);
         i = (if has_upper_bound (addrs c) a then i\<lparr>interval_max := interval_max a\<rparr> else i) in
     rbind (if has_lower_bound (addrs c) i
            then rbind (Cast_make to (Some (interval_min i))) (\<lambda>e. Inr (i\<lparr>interval_min := e\<rparr>))
            else Inr i) (\<lambda>i.
     if has_upper_bound (addrs c) i
     then rbind (Cast_make to (Some (interval_max i))) (\<lambda>e. Inr (i\<lparr>interval_max := e\<rparr>))
     else Inr i))"

definition bounds_cast :: "bounds_context \<Rightarrow> Type \<Rightarrow> expr \<Rightarrow> Interval \<Rightarrow> Interval result" where
  "bounds_cast c t v a =
     (let to = element_of t; from = element_of (type_of v) in
      if is_single_point_at (addrs c) a v then Inr (single_point (Cast t v))
      else if is_single_point (addrs c) a then
        rbind (Cast_make to (Some (interval_min a))) (\<lambda>e. Inr (single_point e))
      else
        rbind (cast_overflow c to from a) (\<lambda>(could_overflow, a).
        if \<not> could_overflow then cast_bounds c to from a else bounds_of_type to))"

subsection \<open>Arithmetic\<close>

text \<open>
  The test \<open>cast<int>(x) op cast<int>(y) == cast<int>(z)\<close> that the operation did not
  wrap, and the place where it is made.
\<close>

definition int_test :: "binop \<Rightarrow> expr \<Rightarrow> expr \<Rightarrow> expr \<Rightarrow> expr result" where
  "int_test op x y z =
     rbind (cast (Int_t 32 1) x) (\<lambda>x. rbind (cast (Int_t 32 1) y) (\<lambda>y.
     rbind (operator_ee op (Some x) (Some y)) (\<lambda>e.
     rbind (cast (Int_t 32 1) z) (\<lambda>z.
     operator_ee EQOp (Some e) (Some z)))))"

definition proves_int_test :: "bounds_context \<Rightarrow> binop \<Rightarrow> expr \<Rightarrow> expr \<Rightarrow> expr \<Rightarrow> bool result" where
  "proves_int_test c op x y z = rbind (int_test op x y z) (can_prove (simplifier c))"

text \<open>
  A sum or a difference: the bounds of the right operand come in the order in which they go
  with the bounds of the left one.
\<close>

definition linear_interval ::
  "bounds_context \<Rightarrow> binop \<Rightarrow> Type \<Rightarrow> Interval \<Rightarrow> expr \<Rightarrow> bool \<Rightarrow> expr \<Rightarrow> bool \<Rightarrow>
   (Interval \<times> bool) result" where
  "linear_interval c op t a b_lo has_b_lo b_hi has_b_hi =
     rbind (if has_lower_bound (addrs c) a \<and> has_b_lo
            then rbind (operator_ee op (Some (interval_min a)) (Some b_lo)) (\<lambda>e. Inr (everything\<lparr>interval_min := e\<rparr>))
            else Inr everything) (\<lambda>i.
     rbind (if has_upper_bound (addrs c) a \<and> has_b_hi
            then rbind (operator_ee op (Some (interval_max a)) (Some b_hi)) (\<lambda>e. Inr (i\<lparr>interval_max := e\<rparr>))
            else Inr i) (\<lambda>i.
     if \<not> is_float t \<and> bits t < 32 then
       rbind (if has_upper_bound (addrs c) i
              then proves_int_test c op (interval_max a) b_hi (interval_max i) else Inr True) (\<lambda>p.
       if \<not> p then rbind (bounds_of_type t) (\<lambda>i. Inr (i, True))
       else
         rbind (if has_lower_bound (addrs c) i
                then proves_int_test c op (interval_min a) b_lo (interval_min i) else Inr True) (\<lambda>p.
         if \<not> p then rbind (bounds_of_type t) (\<lambda>i. Inr (i, True))
         else Inr (i, False)))
     else Inr (i, False)))"

definition bounds_add :: "bounds_context \<Rightarrow> expr \<Rightarrow> expr \<Rightarrow> Interval \<Rightarrow> Interval \<Rightarrow> Interval result" where
  "bounds_add c x y a b =
     (if is_single_point_at (addrs c) a x \<and> is_single_point_at (addrs c) b y
      then Inr (single_point (Binary AddOp x y))
      else if is_single_point (addrs c) a \<and> is_single_point (addrs c) b then
        rbind (operator_ee AddOp (Some (interval_min a)) (Some (interval_min b))) (\<lambda>e. Inr (single_point e))
      else
        rbind (linear_interval c AddOp (type_of x) a
          (interval_min b) (has_lower_bound (addrs c) b) (interval_max b) (has_upper_bound (addrs c) b))
          (\<lambda>(i, returned). Inr i))"

definition bounds_sub :: "bounds_context \<Rightarrow> expr \<Rightarrow> expr \<Rightarrow> Interval \<Rightarrow> Interval \<Rightarrow> Interval result" where
  "bounds_sub c x y a b =
     (if is_single_point_at (addrs c) a x \<and> is_single_point_at (addrs c) b y
      then Inr (single_point (Binary SubOp x y))
      else if is_single_point (addrs c) a \<and> is_single_point (addrs c) b then
        rbind (operator_ee SubOp (Some (interval_min a)) (Some (interval_min b))) (\<lambda>e. Inr (single_point e))
      else
        rbind (linear_interval c SubOp (type_of x) a
          (interval_max b) (has_upper_bound (addrs c) b) (interval_min b) (has_lower_bound (addrs c) b))
          (\<lambda>(i, returned).
        if returned then Inr i
        else if is_uint (type_of x) \<and> has_lower_bound (addrs c) i then
          rbind (operator_ee LEOp (Some (interval_max b)) (Some (interval_min a))) (\<lambda>e.
          rbind (can_prove (simplifier c) e) (\<lambda>p.
          if \<not> p then bounds_of_type (type_of x) else Inr i))
        else Inr i))"

text \<open>\<open>include\<close> of each of a list of expressions, from the empty interval.\<close>

fun include_all :: "addresses \<Rightarrow> expr result list \<Rightarrow> Interval \<Rightarrow> Interval result" where
  "include_all h [] i = Inr i"
| "include_all h (e # es) i = rbind e (\<lambda>e. rbind (include_expr h i e) (include_all h es))"

text \<open>
  Choosing the order of two bounds by the sign of \<open>b\<close>, by the node \<open>cmp\<close> when it is not
  known.
\<close>

definition signed_interval ::
  "bounds_context \<Rightarrow> binop \<Rightarrow> Type \<Rightarrow> Interval \<Rightarrow> expr \<Rightarrow> expr \<Rightarrow> expr \<Rightarrow> Interval result" where
  "signed_interval c cmp_op t a b_min e1 e2 =
     (if is_positive_const b_min \<or> is_uint t then Inr (mk_Interval e1 e2)
      else if is_negative_const b_min then Inr (mk_Interval e2 e1)
      else if is_bounded (addrs c) a then
        rbind (make_zero (element_of (type_of b_min))) (\<lambda>zero.
        rbind (operator_ee cmp_op (Some b_min) (Some zero)) (\<lambda>cmp.
        rbind (select cmp e1 e2) (\<lambda>lo.
        rbind (select cmp e2 e1) (\<lambda>hi.
        Inr (mk_Interval lo hi)))))
      else Inr everything)"

definition bound_times :: "binop \<Rightarrow> bool \<Rightarrow> expr \<Rightarrow> expr \<Rightarrow> expr result" where
  "bound_times op has_bound a b = (if has_bound then operator_ee op (Some a) (Some b) else Inr a)"

definition mul_tests :: "bounds_context \<Rightarrow> Interval \<Rightarrow> Interval \<Rightarrow> bool result" where
  "mul_tests c a b =
     (let test = (\<lambda>x y. rbind (operator_ee MulOp (Some x) (Some y)) (int_test MulOp x y)) in
      rbind (test (interval_min a) (interval_min b)) (\<lambda>t1.
      rbind (test (interval_min a) (interval_max b)) (\<lambda>t2.
      rbind (test (interval_max a) (interval_min b)) (\<lambda>t3.
      rbind (test (interval_max a) (interval_max b)) (\<lambda>t4.
      rbind (operator_ee AndOp (Some t1) (Some t2)) (\<lambda>t12.
      rbind (operator_ee AndOp (Some t12) (Some t3)) (\<lambda>t123.
      rbind (operator_ee AndOp (Some t123) (Some t4)) (can_prove (simplifier c)))))))))"

definition mul_interval :: "bounds_context \<Rightarrow> expr \<Rightarrow> expr \<Rightarrow> Interval \<Rightarrow> Interval \<Rightarrow> Interval result" where
  "mul_interval c x y a b =
     (let h = addrs c; mul = (\<lambda>u v. operator_ee MulOp (Some u) (Some v)) in
      if is_single_point_at h a x \<and> is_single_point_at h b y then Inr (single_point (Binary MulOp x y))
      else if is_single_point h a \<and> is_single_point h b then
        rbind (mul (interval_min a) (interval_min b)) (\<lambda>e. Inr (single_point e))
      else if is_single_point h b then
        rbind (bound_times MulOp (has_lower_bound h a) (interval_min a) (interval_min b)) (\<lambda>e1.
        rbind (bound_times MulOp (has_upper_bound h a) (interval_max a) (interval_min b)) (\<lambda>e2.
        if is_zero (interval_min b) then Inr b
        else signed_interval c GEOp (type_of x) a (interval_min b) e1 e2))
      else if is_bounded h a \<and> is_bounded h b then
        include_all h [mul (interval_min a) (interval_min b), mul (interval_min a) (interval_max b),
          mul (interval_max a) (interval_min b), mul (interval_max a) (interval_max b)] nothing
      else Inr everything)"

definition bounds_mul :: "bounds_context \<Rightarrow> expr \<Rightarrow> expr \<Rightarrow> Interval \<Rightarrow> Interval \<Rightarrow> Interval result" where
  "bounds_mul c x y a b =
     (let h = addrs c;
          (a, b) = (if is_single_point h a \<and> \<not> is_single_point h b then (b, a) else (a, b)) in
      rbind (mul_interval c x y a b) (\<lambda>i.
      if bits (type_of x) < 32 \<and> \<not> is_float (type_of x) then
        if is_bounded h a \<and> is_bounded h b then
          rbind (mul_tests c a b) (\<lambda>p. if \<not> p then bounds_of_type (type_of x) else Inr i)
        else bounds_of_type (type_of x)
      else Inr i))"

definition bounds_div :: "bounds_context \<Rightarrow> expr \<Rightarrow> expr \<Rightarrow> Interval \<Rightarrow> Interval \<Rightarrow> Interval result" where
  "bounds_div c x y a b =
     (let h = addrs c; quot = (\<lambda>u v. operator_ee DivOp (Some u) (Some v)) in
      if \<not> is_bounded h b then Inr everything
      else if is_single_point_at h a x \<and> is_single_point_at h b y then Inr (single_point (Binary DivOp x y))
      else
        rbind (operator_ee EQOp (Some (interval_min b)) (Some (interval_max b))) (\<lambda>e.
        rbind (can_prove (simplifier c) e) (\<lambda>same.
        if same then
          rbind (bound_times DivOp (has_lower_bound h a) (interval_min a) (interval_min b)) (\<lambda>e1.
          rbind (bound_times DivOp (has_upper_bound h a) (interval_max a) (interval_max b)) (\<lambda>e2.
          signed_interval c GTOp (type_of x) a (interval_min b) e1 e2))
        else if is_bounded h a then
          rbind (static_sign c (interval_min b)) (\<lambda>min_sign.
          rbind (static_sign c (interval_max b)) (\<lambda>max_sign.
          if min_sign \<noteq> max_sign \<or> min_sign = 0 \<or> max_sign = 0 then Inr everything
          else include_all h [quot (interval_min a) (interval_min b), quot (interval_max a) (interval_min b),
            quot (interval_min a) (interval_max b), quot (interval_max a) (interval_max b)] nothing))
        else Inr everything)))"

text \<open>The remainder: an unbounded divisor leaves its own interval as the result.\<close>

definition bounds_mod :: "bounds_context \<Rightarrow> expr \<Rightarrow> expr \<Rightarrow> Interval \<Rightarrow> Interval \<Rightarrow> Interval result" where
  "bounds_mod c x y a b =
     (let h = addrs c; t = element_of (type_of x); tb = type_of (interval_max b);
          abs_max = rbind (abs_expr (interval_min b)) (\<lambda>u. rbind (abs_expr (interval_max b)) (\<lambda>v.
            binary_make MaxOp (Some u) (Some v))) in
      if \<not> is_bounded h b then Inr b
      else if is_single_point_at h a x \<and> is_single_point_at h b y then Inr (single_point (Binary ModOp x y))
      else if is_single_point h a \<and> is_single_point h b then
        rbind (operator_ee ModOp (Some (interval_min a)) (Some (interval_min b))) (\<lambda>e. Inr (single_point e))
      else if is_uint tb \<or> (is_int tb \<and> is_positive_const (interval_min b)) then
        rbind (make_zero t) (\<lambda>zero. rbind (make_one t) (\<lambda>one.
        rbind (operator_ee SubOp (Some (interval_max b)) (Some one)) (\<lambda>e. Inr (mk_Interval zero e))))
      else if is_int tb then
        rbind (make_zero t) (\<lambda>zero. rbind (make_one t) (\<lambda>one. rbind abs_max (\<lambda>m.
        rbind (operator_ee SubOp (Some m) (Some one)) (\<lambda>e. Inr (mk_Interval zero e)))))
      else rbind (make_zero t) (\<lambda>zero. rbind abs_max (\<lambda>m. Inr (mk_Interval zero m))))"

definition bounds_extremum ::
  "bounds_context \<Rightarrow> binop \<Rightarrow> expr \<Rightarrow> expr \<Rightarrow> Interval \<Rightarrow> Interval \<Rightarrow> Interval result" where
  "bounds_extremum c op x y a b =
     (let make = (if op = MinOp then make_min else make_max) (addrs c) in
      if is_single_point_at (addrs c) a x \<and> is_single_point_at (addrs c) b y
      then Inr (single_point (Binary op x y))
      else
        rbind (make (interval_min a) (interval_min b)) (\<lambda>lo.
        rbind (make (interval_max a) (interval_max b)) (\<lambda>hi.
        Inr (mk_Interval lo hi))))"

definition bounds_binary ::
  "bounds_context \<Rightarrow> binop \<Rightarrow> expr \<Rightarrow> expr \<Rightarrow> Interval \<Rightarrow> Interval \<Rightarrow> Interval result" where
  "bounds_binary c op x y a b =
     (case op of
        AddOp \<Rightarrow> bounds_add c x y a b
      | SubOp \<Rightarrow> bounds_sub c x y a b
      | MulOp \<Rightarrow> bounds_mul c x y a b
      | DivOp \<Rightarrow> bounds_div c x y a b
      | ModOp \<Rightarrow> bounds_mod c x y a b
      | MinOp \<Rightarrow> bounds_extremum c op x y a b
      | MaxOp \<Rightarrow> bounds_extremum c op x y a b
      | _ \<Rightarrow> bounds_of_type (type_of (Binary op x y)))"

subsection \<open>Selections, loads, calls and lets\<close>

text \<open>The bounds of a selection, once both values are known to be bounded.\<close>

definition select_bounds ::
  "bounds_context \<Rightarrow> Interval scope \<Rightarrow> expr \<Rightarrow> Interval \<Rightarrow> Interval \<Rightarrow> Interval result" where
  "select_bounds c s cond a b =
     (let h = addrs c;
          const_scalar_condition = (is_scalar (type_of cond) \<and> \<not> expr_uses_vars s cond);
          pick = (\<lambda>make x y.
            if same_as h x y then Inr x
            else if const_scalar_condition then select cond x y
            else make h x y) in
      rbind (pick make_min (interval_min a) (interval_min b)) (\<lambda>lo.
      rbind (pick make_max (interval_max a) (interval_max b)) (\<lambda>hi.
      Inr (mk_Interval lo hi))))"

text \<open>The loop over the arguments of a call, up to the first one that is not a single point.\<close>

fun const_args_loop ::
  "addresses \<Rightarrow> (Interval \<Rightarrow> expr \<Rightarrow> Interval result) \<Rightarrow> expr list \<Rightarrow> expr list \<Rightarrow> Interval \<Rightarrow>
   (expr list option \<times> Interval) result" where
  "const_args_loop h visit [] new_args i = Inr (Some new_args, i)"
| "const_args_loop h visit (a # as) new_args i =
     rbind (visit i a) (\<lambda>i.
     if is_single_point h i then const_args_loop h visit as (new_args @ [interval_min i]) i
     else Inr (None, i))"

definition bounds_abs :: "bounds_context \<Rightarrow> Type \<Rightarrow> expr list \<Rightarrow> Interval \<Rightarrow> Interval result" where
  "bounds_abs c t args a =
     (let h = addrs c;
          abs_call = (\<lambda>e. Call_make t ''abs'' [Some e] PureIntrinsic None 0 None None) in
      rbind (make_zero t) (\<lambda>zero.
      if is_bounded h a then
        if equal_expr h (Some (interval_min a)) (Some (interval_max a)) then
          rbind (abs_call (interval_max a)) (\<lambda>e. Inr (single_point e))
        else (case args of [] \<Rightarrow> Inl Undefined_behaviour
        | arg # _ \<Rightarrow>
          if is_int (type_of arg) \<and> 32 \<le> bits (type_of arg) then
            rbind (operator_neg (Some (interval_min a))) (\<lambda>m.
            rbind (Cast_make t (Some m)) (\<lambda>u.
            rbind (Cast_make t (Some (interval_max a))) (\<lambda>v.
            rbind (binary_make MaxOp (Some u) (Some v)) (\<lambda>e. Inr (mk_Interval zero e)))))
          else
            rbind (abs_call (interval_min a)) (\<lambda>u.
            rbind (abs_call (interval_max a)) (\<lambda>v.
            rbind (binary_make MaxOp (Some u) (Some v)) (\<lambda>e. Inr (mk_Interval zero e)))))
      else Inr (mk_Interval zero pos_inf)))"

definition monotonic_externs :: "string list" where
  "monotonic_externs =
     [''ceil_f32'', ''ceil_f64'', ''floor_f32'', ''floor_f64'', ''round_f32'', ''round_f64'',
      ''exp_f32'', ''exp_f64'', ''log_f32'', ''log_f64'']"

text \<open>
  The call after the loop over its arguments: \<open>visit\<close> visits an expression, \<open>i\<close> is
  the interval that the loop left. An \<open>assert\<close> that fails stops the program.
\<close>

definition c_assert :: "bool \<Rightarrow> unit result" where
  "c_assert b = (if b then Inr () else Inl Undefined_behaviour)"

definition bounds_call ::
  "bounds_context \<Rightarrow> (Interval \<Rightarrow> expr \<Rightarrow> Interval result) \<Rightarrow> Type \<Rightarrow> string \<Rightarrow> expr list \<Rightarrow> CallType \<Rightarrow>
   FunctionContents \<Rightarrow> int \<Rightarrow> Buffer \<Rightarrow> Parameter \<Rightarrow> expr list option \<Rightarrow> Interval \<Rightarrow> Interval result" where
  "bounds_call c visit ct_type n args ct f vi im p new_args i =
     (let h = addrs c; t = element_of ct_type; op = Call ct_type n args ct f vi im p;
          call = (\<lambda>es. Call_make t n (map Some es) ct f vi im p) in
      if is_handle t then Inr everything
      else if new_args \<noteq> None \<and> (ct = PureExtern \<or> ct = Image) then
        rbind (call (the new_args)) (\<lambda>e. Inr (single_point e))
      else if call_is_intrinsic ct n ''abs'' then bounds_abs c t args i
      else if call_is_intrinsic ct n ''likely'' \<or> call_is_intrinsic ct n ''likely_if_innermost'' then
        rbind (c_assert (length args = 1)) (\<lambda>_. visit i (args ! 0))
      else if call_is_intrinsic ct n ''return_second'' then
        rbind (c_assert (length args = 2)) (\<lambda>_. visit i (args ! 1))
      else if call_is_intrinsic ct n ''if_then_else'' then
        rbind (c_assert (length args = 3)) (\<lambda>_.
        rbind (Select_make (Some (args ! 0)) (Some (args ! 1)) (Some (args ! 2))) (visit i))
      else if call_is_intrinsic ct n ''shift_left'' \<or> call_is_intrinsic ct n ''shift_right'' \<or>
              call_is_intrinsic ct n ''bitwise_and'' then
        (let simplified = simplifier c op in
         if \<not> equal_expr h (Some simplified) (Some op) then visit i simplified else bounds_of_type t)
      else if length args = 1 \<and> is_bounded h i \<and> n \<in> set monotonic_externs then
        rbind (call [interval_min i]) (\<lambda>lo. rbind (call [interval_max i]) (\<lambda>hi. Inr (mk_Interval lo hi)))
      else if call_is_intrinsic ct n ''extract_buffer_min'' \<or> call_is_intrinsic ct n ''extract_buffer_max'' then
        rbind (Call_make (Int_t 32 1) ''extract_buffer_min'' (map Some args) PureIntrinsic None 0 None None) (\<lambda>lo.
        rbind (Call_make (Int_t 32 1) ''extract_buffer_max'' (map Some args) PureIntrinsic None 0 None None) (\<lambda>hi.
        Inr (mk_Interval lo hi)))
      else if call_is_intrinsic ct n ''memoize_expr'' then
        rbind (internal_assert (1 \<le> length args) []) (\<lambda>_. visit i (args ! 0))
      else if call_is_intrinsic ct n ''trace_expr'' then
        rbind (internal_assert (5 \<le> length args) []) (\<lambda>_. visit i (args ! 4))
      else if ct = Halide then bounds_of_func c n vi ct_type
      else bounds_of_type t)"

text \<open>
  The interval of the variable of a \<open>Let\<close> and the two values that are still to be bound
  outside: a bound that is a constant is substituted.
\<close>

definition let_bound :: "bool \<Rightarrow> Type \<Rightarrow> string \<Rightarrow> expr \<Rightarrow> expr \<Rightarrow> (expr \<times> Expr) result" where
  "let_bound has_bound t name val infinity =
     (if \<not> has_bound then Inr (infinity, Some val)
      else if is_const val then Inr (val, None)
      else rbind (Variable_make t name None None None) (\<lambda>v. Inr (v, Some val)))"

definition close_let :: "string \<Rightarrow> Expr \<Rightarrow> expr \<Rightarrow> expr result" where
  "close_let name val e =
     (if val \<noteq> None \<and> expr_uses_var e name then Let_make name val (Some e) else Inr e)"

definition let_interval :: "bounds_context \<Rightarrow> string \<Rightarrow> Expr \<Rightarrow> Expr \<Rightarrow> Interval \<Rightarrow> Interval result" where
  "let_interval c n val_min val_max i =
     (let min_name = n @ ''.min''; max_name = n @ ''.max'';
          close = (\<lambda>e. rbind (close_let min_name val_min e) (close_let max_name val_max)) in
      rbind (if has_lower_bound (addrs c) i
             then rbind (close (interval_min i)) (\<lambda>e. Inr (i\<lparr>interval_min := e\<rparr>)) else Inr i) (\<lambda>i.
      if has_upper_bound (addrs c) i
      then rbind (close (interval_max i)) (\<lambda>e. Inr (i\<lparr>interval_max := e\<rparr>)) else Inr i))"

subsection \<open>The visitor\<close>

primrec visit_bounds ::
  "bounds_context \<Rightarrow> nat \<Rightarrow> Interval scope \<Rightarrow> Interval \<Rightarrow> expr \<Rightarrow> Interval result" where
  "visit_bounds c 0 = (\<lambda>s i e. Inl Undefined_behaviour)"
| "visit_bounds c (Suc n) = (\<lambda>s i e.
     let h = addrs c; visit = visit_bounds c n in
     case e of
       IntImm t v \<Rightarrow> Inr (single_point e)
     | UIntImm t v \<Rightarrow> Inr (single_point e)
     | FloatImm t v \<Rightarrow> Inr (single_point e)
     | StringImm v \<Rightarrow> Inr i
     | Cast t v \<Rightarrow> rbind (visit s i v) (bounds_cast c t v)
     | Variable t name im p rd \<Rightarrow>
         if scope_contains s name then scope_get s name
         else if is_vector t then bounds_of_type t
         else Inr (single_point e)
     | Binary op x y \<Rightarrow>
         if op \<in> {AddOp, SubOp, MulOp, DivOp, ModOp, MinOp, MaxOp} then
           rbind (visit s i x) (\<lambda>a. rbind (visit s a y) (bounds_binary c op x y a))
         else bounds_of_type (type_of e)
     | NotE x \<Rightarrow> bounds_of_type (type_of e)
     | Select cond x y \<Rightarrow>
         rbind (visit s i x) (\<lambda>a.
         if \<not> is_bounded h a then Inr a
         else
           rbind (visit s a y) (\<lambda>b.
           if \<not> is_bounded h b then Inr b else select_bounds c s cond a b))
     | Load t name index im p \<Rightarrow>
         rbind (visit s i index) (\<lambda>i.
         if is_single_point h i then
           rbind (Load_make (element_of t) name (Some (interval_min i)) im p) (\<lambda>e. Inr (single_point e))
         else bounds_of_type t)
     | Ramp base stride lns \<Rightarrow>
         rbind (Variable_make (type_of base) (lane_name c n) None None None) (\<lambda>var.
         rbind (operator_ee MulOp (Some var) (Some stride)) (\<lambda>m.
         rbind (operator_ee AddOp (Some base) (Some m)) (\<lambda>lane.
         rbind (make_const_int (type_of base) 0) (\<lambda>lo.
         rbind (make_const_int (type_of base) (lns - 1)) (\<lambda>hi.
         visit (scope_push (lane_name c n) (mk_Interval lo hi) s) i lane)))))
     | Broadcast v lns \<Rightarrow> visit s i v
     | Call t name args ct f vi im p \<Rightarrow>
         rbind (const_args_loop h (visit s) args [] i) (\<lambda>(new_args, i).
         bounds_call c (visit s) t name args ct f vi im p new_args i)
     | LetE name v b \<Rightarrow>
         rbind (visit s i v) (\<lambda>val.
         rbind (let_bound (has_lower_bound h val) (element_of (type_of v)) (name @ ''.min'')
           (interval_min val) neg_inf) (\<lambda>(var_min, val_min).
         rbind (let_bound (has_upper_bound h val) (element_of (type_of v)) (name @ ''.max'')
           (interval_max val) pos_inf) (\<lambda>(var_max, val_max).
         rbind (visit (scope_push name (mk_Interval var_min var_max) s) val b)
           (let_interval c name val_min val_max)))))"

declare visit_bounds.simps [simp del]

definition bounds_of_expr_in_scope ::
  "bounds_context \<Rightarrow> nat \<Rightarrow> expr \<Rightarrow> Interval scope \<Rightarrow> Interval result" where
  "bounds_of_expr_in_scope c n e s =
     rbind (visit_bounds c n (set_containing_scope (Some s) scope_new) everything e) (\<lambda>i.
     rbind (if has_lower_bound (addrs c) i
            then internal_assert (is_scalar (type_of (interval_min i))) ''Min should have been a scalar''
            else Inr ()) (\<lambda>_.
     rbind (if has_upper_bound (addrs c) i
            then internal_assert (is_scalar (type_of (interval_max i))) ''Max should have been a scalar''
            else Inr ()) (\<lambda>_.
     Inr i)))"

end
