(* ===== verification/BoundsVal.thy ===== *)
theory BoundsVal
  imports Bounds
begin

text \<open>
  What the bounds that \<open>Bounds\<close> computes mean: a bound is an expression with a value, and
  an interval brackets the lanes of a value. The evaluation is the one in which signed
  integers of 32 bits and more do not wrap, as the source assumes of them.
\<close>

subsection \<open>Bounds with a value\<close>

text \<open>The types of integer scalars, and a simplifier that keeps the exact value of expressions.\<close>

definition elem_type :: "Type \<Rightarrow> bool" where
  "elem_type t \<longleftrightarrow> const_type t \<and> type_wf t \<and> is_scalar t"

definition exact_simplifier :: "(expr \<Rightarrow> expr) \<Rightarrow> bool" where
  "exact_simplifier simplify \<longleftrightarrow> (\<forall>e. wf_expr e \<longrightarrow> sized_casts e \<longrightarrow>
     wf_expr (simplify e) \<and> sized_casts (simplify e) \<and> type_eq (type_of (simplify e)) (type_of e) \<and>
     expr_vars (simplify e) \<subseteq> expr_vars e \<and>
     (\<forall>r xs. eval_in True r e = Some xs \<longrightarrow> eval_in True r (simplify e) = Some xs))"

text \<open>
  A bound has sized casts and variables from a given set. Where the code looks through
  casts, in the sign tests and in \<open>find_constant_bound\<close>, they must keep the value.
\<close>

fun exact_casts :: "expr \<Rightarrow> bool" where
  "exact_casts (Cast t v) \<longleftrightarrow> cast_exact t (type_of v) \<and> exact_casts v"
| "exact_casts (Binary op a b) \<longleftrightarrow> (op \<in> {MaxOp, MinOp} \<longrightarrow> exact_casts a \<and> exact_casts b)"
| "exact_casts _ \<longleftrightarrow> True"

definition bound_pred :: "bool \<Rightarrow> string set \<Rightarrow> expr \<Rightarrow> bool" where
  "bound_pred ec W e \<longleftrightarrow> sized_casts e \<and> expr_vars e \<subseteq> W \<and> (ec \<longrightarrow> exact_casts e)"

lemma expr_vars_simps [simp]:
  "expr_vars (IntImm t v) = {}" "expr_vars (UIntImm t v) = {}" "expr_vars (FloatImm t d) = {}"
  "expr_vars (StringImm s) = {}" "expr_vars (Cast t a) = expr_vars a"
  "expr_vars (Variable t n im p rd) = {n}" "expr_vars (Binary op a b) = expr_vars a \<union> expr_vars b"
  "expr_vars (NotE a) = expr_vars a" "expr_vars (Select c a b) = expr_vars c \<union> expr_vars a \<union> expr_vars b"
  "expr_vars (Load t n i im p) = expr_vars i" "expr_vars (Ramp a b l) = expr_vars a \<union> expr_vars b"
  "expr_vars (Broadcast a l) = expr_vars a"
  "expr_vars (Call t n args ct f vi im p) = (\<Union>a \<in> set args. expr_vars a)"
  "expr_vars (LetE n a b) = expr_vars a \<union> expr_vars b"
  by (auto simp: expr_vars_children)

interpretation bounds: hereditary "bound_pred ec W" for ec W
  by unfold_locales (auto simp: bound_pred_def)

abbreviation bval :: "bool \<Rightarrow> string set \<Rightarrow> env \<Rightarrow> Type \<Rightarrow> expr \<Rightarrow> int \<Rightarrow> bool" where
  "bval ec W \<equiv> fin True (bound_pred ec W)"

lemma bval_weaken:
  "bval ec W r t e x \<Longrightarrow> (ec' \<Longrightarrow> ec) \<Longrightarrow> W \<subseteq> W' \<Longrightarrow> bval ec' W' r t e x"
  by (auto simp: fin_def bound_pred_def)

lemma bval_unique: "bval ec W r t e x \<Longrightarrow> bval ec' W' r t' e y \<Longrightarrow> x = y"
  by (simp add: fin_def)

lemma elem_type_int: "elem_type t \<Longrightarrow> is_int t \<or> is_uint t"
  and elem_type_handle: "elem_type t \<Longrightarrow> \<not> is_handle t \<and> \<not> is_float t"
  and elem_type_bits: "elem_type t \<Longrightarrow> 0 < bits t \<and> int_width t"
  and elem_type_scalar: "elem_type t \<Longrightarrow> lanes t = 1 \<and> is_scalar t \<and> \<not> is_vector t"
  and elem_type_wf: "elem_type t \<Longrightarrow> type_wf t"
  by (auto simp: elem_type_def const_type_def type_predicates int_width_def)

lemma bval_range: "bval ec W r t e x \<Longrightarrow> range_in True t x"
  using eval_in_sound [of e True r "[x]"] by (auto simp: fin_def has_type_in_def range_in_type_eq)

lemma type_eq_binop_in: "type_eq s t \<Longrightarrow> binop_in m op s = binop_in m op t"
  using cmp_type_fit_in(3) [OF type_eq_cmp] .

lemma type_eq_fit_in: "type_eq s t \<Longrightarrow> fit_in m s = fit_in m t"
  using cmp_type_fit_in(1) [OF type_eq_cmp] .

text \<open>The operators on two bounds of one type build the node: no cast is inserted.\<close>

lemma operator_same_type:
  assumes "type_eq (type_of a) (type_of b)" and "\<not> is_handle (type_of a)" and "op = ModOp \<Longrightarrow> \<not> is_zero b"
    and "is_logical op \<Longrightarrow> is_bool (type_of a)"
  shows "operator_ee op (Some a) (Some b) = Inr (Binary op a b)"
proof -
  have "\<not> is_handle (type_of b)" "is_logical op \<Longrightarrow> is_bool (type_of b)"
    using assms by (simp_all add: type_eq_def is_handle_def is_bool_def)
  then show ?thesis using assms
    by (auto simp: operator_ee_def operand_def user_defined_def match_types_def binary_make_def defined_handle_def)
qed

lemma bval_types:
  assumes "bval ec W r t a x" and "bval ec' W' r' t b y"
  shows "type_eq (type_of a) (type_of b)" and "\<not> is_handle (type_of a)"
  using assms by (auto simp: fin_def type_eq_def is_handle_def)

lemma bval_operator:
  assumes "bval ec W r t a x" and "bval ec' W' r t b y" and "op = ModOp \<Longrightarrow> y \<noteq> 0" and "\<not> is_logical op"
  shows "operator_ee op (Some a) (Some b) = Inr (Binary op a b)"
proof (rule operator_same_type [OF bval_types [OF assms(1,2)]])
  show "op = ModOp \<Longrightarrow> \<not> is_zero b" using assms(2,3) is_zero_eval [of b True r "[y]" y] by (auto simp: fin_def)
qed (use assms(4) in simp)

lemma bval_Binary:
  assumes "bval ec W r t a x" and "bval ec W r t b y" and "is_arith op" and "binop_in True op t x y = Some z"
  shows "bval ec W r t (Binary op a b) z"
proof -
  have "type_eq (type_of a) (type_of b)" using bval_types(1) [OF assms(1,2)] .
  moreover have "binop_in True op (type_of a) = binop_in True op t" using assms(1) type_eq_binop_in by (auto simp: fin_def)
  ultimately show ?thesis using assms by (auto simp: fin_def bound_pred_def is_arith_def is_logical_def)
qed

lemma bval_arith:
  assumes a: "bval ec1 W r t a x" and b: "bval ec2 W r t b y" and "op \<in> {AddOp, SubOp, MulOp, DivOp, ModOp}"
    and z: "binop_in True op t x y = Some z"
  shows "operator_ee op (Some a) (Some b) = Inr (Binary op a b) \<and> bval ec W r t (Binary op a b) z"
proof -
  have "op = ModOp \<Longrightarrow> y \<noteq> 0" using z by (auto split: if_splits)
  moreover have "\<not> is_logical op" "is_arith op" using assms(3) by (auto simp: is_logical_def is_arith_def)
  moreover have "bval False W r t (Binary op a b) z"
    using bval_Binary [of False W r t a x b y op z] bval_weaken [OF a] bval_weaken [OF b] calculation z by auto
  moreover have "exact_casts (Binary op a b)" using assms(3) by auto
  ultimately show ?thesis using bval_operator [OF a b] by (auto simp: fin_def bound_pred_def)
qed

subsection \<open>Conditions\<close>

definition truth :: "env \<Rightarrow> expr \<Rightarrow> bool \<Rightarrow> bool" where
  "truth r e p \<longleftrightarrow> wf_expr e \<and> sized_casts e \<and> is_bool (type_of e) \<and> is_scalar (type_of e) \<and>
     eval_in True r e = Some [of_bool p]"

lemma truth_cmp:
  assumes a: "bval ec1 W r t a x" and b: "bval ec2 W r t b y" and op: "op \<in> {EQOp, LEOp, GEOp, LTOp, GTOp}"
    and t: "lanes t = 1" and p: "binop_in True op t x y = Some (of_bool p)"
  shows "operator_ee op (Some a) (Some b) = Inr (Binary op a b) \<and> truth r (Binary op a b) p"
proof -
  have "\<not> is_logical op" "op \<noteq> ModOp" "\<not> is_arith op" using op by (auto simp: is_logical_def is_arith_def)
  moreover have "binop_in True op (type_of a) = binop_in True op t" using a type_eq_binop_in by (auto simp: fin_def)
  moreover have "lanes (type_of a) = 1" using a t by (auto simp: fin_def dest!: type_eq_lanes)
  ultimately show ?thesis using bval_operator [OF a b] bval_types(1) [OF a b] a b p
    by (auto simp: truth_def fin_def bound_pred_def lanes_Bool_t is_bool_def is_scalar_def Bool_t_def UInt_t_def mk_Type_def)
qed

lemma truth_and:
  assumes "truth r a p" and "truth r b q"
  shows "operator_ee AndOp (Some a) (Some b) = Inr (Binary AndOp a b) \<and> truth r (Binary AndOp a b) (p \<and> q)"
proof -
  have "type_eq (type_of a) (type_of b)" "\<not> is_handle (type_of a)" using assms
    by (auto simp: truth_def type_eq_def is_bool_def is_scalar_def is_handle_def)
  then show ?thesis using operator_same_type [of a b AndOp] assms
    by (auto simp: truth_def is_logical_def is_arith_def is_bool_def is_scalar_def Bool_t_def UInt_t_def mk_Type_def)
qed

lemma can_prove_truth:
  assumes "exact_simplifier simplify" and "truth r e p"
  obtains q where "can_prove simplify e = Inr q" and "q \<Longrightarrow> p"
proof -
  have "eval_in True r (simplify e) = Some [of_bool p]" "sized_casts (simplify e)"
    using assms by (auto simp: exact_simplifier_def truth_def)
  then have "is_one (simplify e) \<Longrightarrow> p" using is_one_eval [of "simplify e" True r "[of_bool p]"] by auto
  then show thesis using that [of "is_one (simplify e)"] assms(2) by (simp add: can_prove_def truth_def)
qed

subsection \<open>Casts of bounds\<close>

lemma fit_in_total: "is_int t \<or> is_uint t \<Longrightarrow> range_in True t x \<or> \<not> no_overflow_int t \<Longrightarrow> \<exists>y. fit_in True t x = Some y"
  by (auto simp: fit_in_def range_in_def fit_def)

lemma fit_in_range_in: "range_in m t x \<Longrightarrow> fit_in m t x = Some x"
  by (auto simp: fit_in_def range_in_def in_range_def intro!: fit_in_range)

lemma fit_in_Some: "is_int t \<or> is_uint t \<Longrightarrow> \<exists>y. fit_in True t x = Some y"
  by (auto simp: fit_in_def fit_def)

lemma fit_in_wrap: "fit_in True t x = Some y \<Longrightarrow> \<not> no_overflow_int t \<or> in_range t x \<Longrightarrow> y = wrap t x"
  by (auto simp: fit_in_def wrap_in_range split: if_splits intro: fit_eq_wrap)

lemma cast_exact_range:
  assumes "cast_exact t s" and "is_int t \<or> is_uint t" and "range_in True s x"
  shows "range_in True t x"
proof (cases "no_overflow_int t")
  case False
  then have c: "can_represent_type t s" using assms(1) by (simp add: cast_exact_def)
  then have "\<not> no_overflow_int s" using assms(2) False
    by (auto simp: can_represent_type_def no_overflow_int_def split: if_splits)
  then have "in_range s x" using assms(3) by (simp add: range_in_def)
  then show ?thesis using in_range_mono_int [OF assms(2) c] by (simp add: range_in_def)
qed (simp add: range_in_def)

lemma cast_exact_type_eq: "type_eq s s' \<Longrightarrow> cast_exact t s = cast_exact t s'"
  by (auto simp: cast_exact_def can_represent_type_def type_eq_def is_int_def is_uint_def is_float_def)

lemma bval_Cast:
  assumes a: "bval ec W r s a x" and t: "elem_type t" and s: "lanes s = 1" and ec: "ec \<Longrightarrow> cast_exact t s"
    and y: "fit_in True t x = Some y"
  shows "Cast_make t (Some a) = Inr (Cast t a)" and "bval ec W r t (Cast t a) y"
proof -
  have l: "lanes (type_of a) = 1" using a s by (auto simp: fin_def dest!: type_eq_lanes)
  then show "Cast_make t (Some a) = Inr (Cast t a)"
    using t by (simp add: Cast_make_def defined_handle_def elem_type_scalar)
  have "ec \<Longrightarrow> cast_exact t (type_of a)" using a ec by (auto simp: fin_def cast_exact_type_eq)
  then show "bval ec W r t (Cast t a) y"
    using a y l t elem_type_handle [OF t] elem_type_scalar [OF t] elem_type_bits [OF t] elem_type_wf [OF t]
    by (auto simp: fin_def bound_pred_def)
qed

lemma bval_const:
  assumes t: "elem_type t" and c: "make_const_int t v = Inr e"
  shows "bval ec W r t e (wrap t v)"
proof -
  have e: "if is_int t then IntImm_make t v = Inr e else UIntImm_make t v = Inr e"
    using c t by (auto simp: make_const_int_def make_vector_const_def elem_type_def is_vector_def is_scalar_def
        dest: const_type_int split: if_splits)
  have tw: "type_wf t" "is_scalar t" "const_type t" using t by (simp_all add: elem_type_def)
  show ?thesis
  proof (cases "is_int t")
    case True
    then have e': "e = IntImm t (wrap t v)" "in_range t (wrap t v)"
      using e imm_make_eval [OF True, of v e] by (auto split: if_splits)
    then show ?thesis using tw True elem_type_handle [OF t]
      by (auto simp: fin_def bound_pred_def const_type_def range_in_def)
  next
    case False
    then have u: "is_uint t" using elem_type_int [OF t] by blast
    have e': "e = UIntImm t (wrap t v)" "in_range t (wrap t v)"
      using e False uimm_make_eval [OF u, of v e] by (auto split: if_splits)
    then show ?thesis using tw u elem_type_handle [OF t]
      by (auto simp: fin_def bound_pred_def const_type_def range_in_def)
  qed
qed

lemma make_const_elem: "elem_type t \<Longrightarrow> \<exists>e. make_const_int t v = Inr e"
  using make_const_int_ok by (auto simp: elem_type_def)

text \<open>\<open>cast\<close> of a bound: constants are folded, with the wrap-around of the type.\<close>

lemma bval_cast:
  assumes a: "bval False W r s a x" and t: "elem_type t" and s: "elem_type s"
    and x: "no_overflow_int t \<Longrightarrow> in_range t x" and y: "fit_in True t x = Some y"
  shows "\<exists>e. cast t a = Inr e \<and> bval False W r t e y"
proof -
  have y': "y = wrap t x" using fit_in_wrap [OF y] x by blast
  have l: "lanes (type_of a) = 1" and h: "\<not> is_handle (type_of a)"
    using a elem_type_scalar [OF s] by (auto simp: fin_def type_eq_def is_handle_def)
  have ev: "eval_in True r a = Some [x]" and wf: "wf_expr a" using a by (simp_all add: fin_def)
  note ci = as_const_int_eval [OF _ wf ev] and cu = as_const_uint_eval [OF _ wf ev] and cf = as_const_float_eval [of a _ True r]
  consider (same) "type_eq (type_of a) t" | (int) i where "\<not> type_eq (type_of a) t" "as_const_int a = Some i"
    | (uint) i where "\<not> type_eq (type_of a) t" "as_const_int a = None" "as_const_uint a = Some i"
    | (rest) "\<not> type_eq (type_of a) t" "as_const_int a = None" "as_const_uint a = None"
    by (cases "as_const_int a"; cases "as_const_uint a") blast+
  then show ?thesis
  proof cases
    case same
    then have "range_in True t x" using bval_range [OF a] a by (auto simp: fin_def range_in_type_eq [symmetric])
    then have "y = x" using y fit_in_range_in by force
    moreover have "bval False W r t a x" using a same elem_type_handle [OF t] by (simp add: fin_def)
    ultimately show ?thesis using same by (auto simp: cast_def fold_cast_def)
  next
    case (int i)
    obtain e where e: "make_const_int t i = Inr e" using make_const_elem [OF t] by blast
    have "i = x" using ci [OF int(2)] l by simp
    then show ?thesis using int e h bval_const [OF t e] y' elem_type_handle [OF t] by (auto simp: cast_def fold_cast_def)
  next
    case (uint i)
    obtain e where e: "make_const_int t i = Inr e" using make_const_elem [OF t] by blast
    have "i = x" using cu [OF uint(3)] l by simp
    then show ?thesis using uint e h bval_const [OF t e] y' elem_type_handle [OF t] elem_type_int [OF t]
      by (auto simp: cast_def fold_cast_def make_const_uint_int)
  next
    case rest
    have "as_const_float a = None" using cf ev by (cases "as_const_float a") auto
    then have "cast t a = Cast_make t (Some a)"
      using rest h elem_type_handle [OF t] elem_type_scalar [OF t] by (simp add: cast_def fold_cast_def)
    then show ?thesis using bval_Cast [OF a t _ _ y] elem_type_scalar [OF s] by auto
  qed
qed

subsection \<open>Intervals that bracket values\<close>

text \<open>
  The interval brackets the lanes of a value of the element type \<open>t\<close>: its bounds are
  infinite, when \<open>bd\<close> does not exclude it, or have a value on the right side of
  every lane.
\<close>

definition below :: "bool \<Rightarrow> bool \<Rightarrow> string set \<Rightarrow> env \<Rightarrow> Type \<Rightarrow> expr \<Rightarrow> int list \<Rightarrow> bool" where
  "below bd ec W r t e xs \<longleftrightarrow> e = neg_inf \<and> \<not> bd \<or> (\<exists>v. bval ec W r t e v \<and> (\<forall>x \<in> set xs. v \<le> x))"

definition above :: "bool \<Rightarrow> bool \<Rightarrow> string set \<Rightarrow> env \<Rightarrow> Type \<Rightarrow> expr \<Rightarrow> int list \<Rightarrow> bool" where
  "above bd ec W r t e xs \<longleftrightarrow> e = pos_inf \<and> \<not> bd \<or> (\<exists>v. bval ec W r t e v \<and> (\<forall>x \<in> set xs. x \<le> v))"

definition brackets :: "bool \<Rightarrow> bool \<Rightarrow> string set \<Rightarrow> env \<Rightarrow> Type \<Rightarrow> Interval \<Rightarrow> int list \<Rightarrow> bool" where
  "brackets bd ec W r t i xs \<longleftrightarrow> below bd ec W r t (interval_min i) xs \<and> above bd ec W r t (interval_max i) xs"

lemma brackets_weaken:
  assumes "brackets bd ec W r t i xs" and "bd' \<Longrightarrow> bd" and "ec' \<Longrightarrow> ec" and "W \<subseteq> W'"
  shows "brackets bd' ec' W' r t i xs"
  using assms bval_weaken [of ec W r t _ _ ec' W'] unfolding brackets_def below_def above_def by blast

lemma brackets_subset:
  "brackets bd ec W r t i xs \<Longrightarrow> set ys \<subseteq> set xs \<Longrightarrow> brackets bd ec W r t i ys"
  unfolding brackets_def below_def above_def by blast

lemma brackets_everything: "\<not> bd \<Longrightarrow> brackets bd ec W r t everything xs"
  by (simp add: brackets_def below_def above_def everything_def)

lemma brackets_single:
  "bval ec W r t e v \<Longrightarrow> \<forall>x \<in> set xs. x = v \<Longrightarrow> brackets bd ec W r t (single_point e) xs"
  by (auto simp: brackets_def below_def above_def single_point_def)

lemma bval_not_inf: "bval ec W r t e v \<Longrightarrow> e \<noteq> pos_inf \<and> e \<noteq> neg_inf"
  using fin_not_inf by blast

lemma brackets_lower:
  assumes "infinities_shared h" and "brackets bd ec W r t i xs"
  shows "if has_lower_bound h i then \<exists>v. bval ec W r t (interval_min i) v \<and> (\<forall>x \<in> set xs. v \<le> x)
    else interval_min i = neg_inf \<and> \<not> bd"
proof -
  note inf = shared_infinities [OF assms(1)] and fi = shared_fin [OF assms(1)]
  show ?thesis using assms(2) inf fi unfolding brackets_def below_def above_def has_lower_bound_def is_empty_def
    by metis
qed

lemma brackets_upper:
  assumes "infinities_shared h" and "brackets bd ec W r t i xs"
  shows "if has_upper_bound h i then \<exists>v. bval ec W r t (interval_max i) v \<and> (\<forall>x \<in> set xs. x \<le> v)
    else interval_max i = pos_inf \<and> \<not> bd"
proof -
  note inf = shared_infinities [OF assms(1)] and fi = shared_fin [OF assms(1)]
  show ?thesis using assms(2) inf fi unfolding brackets_def below_def above_def has_upper_bound_def is_empty_def
    by metis
qed

lemma brackets_bounded:
  assumes "infinities_shared h" and "brackets bd ec W r t i xs" and "is_bounded h i"
  shows "\<exists>u v. bval ec W r t (interval_min i) u \<and> bval ec W r t (interval_max i) v \<and> (\<forall>x \<in> set xs. u \<le> x \<and> x \<le> v)"
  using brackets_lower [OF assms(1,2)] brackets_upper [OF assms(1,2)] assms(3) by (auto simp: is_bounded_def)

lemma brackets_is_bounded:
  assumes "infinities_shared h" and "brackets True ec W r t i xs"
  shows "has_lower_bound h i" "has_upper_bound h i" "is_bounded h i"
  using brackets_lower [OF assms] brackets_upper [OF assms] by (auto simp: is_bounded_def split: if_splits)

lemma brackets_is_single:
  assumes "infinities_shared h" and "brackets bd ec W r t i xs" and "is_single_point h i"
  shows "interval_max i = interval_min i \<and> (\<exists>v. bval ec W r t (interval_min i) v \<and> (\<forall>x \<in> set xs. x = v))"
proof -
  have eq: "interval_max i = interval_min i"
    using assms(1,3) unfolding is_single_point_def infinities_shared_def addresses_ok_def by metis
  have "interval_min i \<noteq> neg_inf" "interval_min i \<noteq> pos_inf"
    using assms(2) eq bval_not_inf unfolding brackets_def below_def above_def by force+
  then obtain u v where "bval ec W r t (interval_min i) u" "bval ec W r t (interval_min i) v" "\<forall>x \<in> set xs. u \<le> x \<and> x \<le> v"
    using assms(2) eq unfolding brackets_def below_def above_def by auto
  then show ?thesis using eq bval_unique by fastforce
qed

lemma brackets_is_single_at:
  assumes "infinities_shared h" and "brackets bd ec W r t i xs" and "is_single_point_at h i e"
  shows "\<exists>v. bval ec W r t e v \<and> (\<forall>x \<in> set xs. x = v)"
proof -
  have eq: "interval_min i = e" "interval_max i = e"
    using assms(1,3) unfolding is_single_point_at_def infinities_shared_def addresses_ok_def by metis+
  have "e \<noteq> neg_inf" "e \<noteq> pos_inf"
    using assms(2) eq bval_not_inf unfolding brackets_def below_def above_def by force+
  then obtain u v where "bval ec W r t e u" "bval ec W r t e v" "\<forall>x \<in> set xs. u \<le> x \<and> x \<le> v"
    using assms(2) eq unfolding brackets_def below_def above_def by auto
  then show ?thesis using bval_unique by fastforce
qed

lemma bracketsI:
  assumes "bval ec W r t (interval_min i) u" and "bval ec W r t (interval_max i) v" and "\<forall>x \<in> set xs. u \<le> x \<and> x \<le> v"
  shows "brackets bd ec W r t i xs"
  using assms unfolding brackets_def below_def above_def by blast

lemma brackets_type_cong:
  assumes "type_eq s t" and "\<not> is_handle t"
  shows "brackets bd ec W r s i xs = brackets bd ec W r t i xs"
proof -
  have "\<not> is_handle s" using assms by (simp add: type_eq_def is_handle_def)
  then have "bval ec W r s e v = bval ec W r t e v" for e v
    using assms type_eq_trans [OF _ assms(1)] type_eq_trans [OF _ type_eq_sym [OF assms(1)]] by (auto simp: fin_def)
  then show ?thesis by (simp add: brackets_def below_def above_def)
qed

text \<open>The range of a narrow type.\<close>

lemma element_const:
  assumes "const_type t" and "type_wf t"
  shows "elem_type (element_of t)"
  using assms by (auto simp: elem_type_def const_type_def)

lemma type_extremes:
  assumes "elem_type t"
  shows "(\<exists>a. type_min t = Inr a \<and> bval ec W r t a (type_lo t)) \<and> (\<exists>a. type_max t = Inr a \<and> bval ec W r t a (type_hi t))"
proof -
  have b: "int_width t" and s: "is_scalar t" "\<not> is_vector t" and w: "type_wf t" "const_type t"
    and h: "\<not> is_handle t" using assms elem_type_bits elem_type_scalar elem_type_handle by (auto simp: elem_type_def)
  have r: "in_range t (type_lo t)" "in_range t (type_hi t)"
    using b by (auto simp: in_range_def int_width_def type_lo_def type_hi_def)
  have lo: "is_int t \<Longrightarrow> type_lo t = min_int (bits t)" "is_uint t \<Longrightarrow> type_lo t = 0"
    and hi: "is_int t \<Longrightarrow> type_hi t = max_int (bits t)" "is_uint t \<Longrightarrow> type_hi t = max_uint (bits t)"
    using b by (auto simp: int_width_def type_lo_def type_hi_def min_int_eq max_int_eq max_uint_eq)
  consider (i) "is_int t" "\<not> is_uint t" | (u) "is_uint t" "\<not> is_int t" using elem_type_int [OF assms] by auto
  then show ?thesis
  proof cases
    case i
    have n: "norm_int (bits t) v = v" if "in_range t v" for v
      using wrap_in_range [OF that] i b by (simp add: norm_int_eq wrap_def int_width_def)
    have "IntImm_make t (type_lo t) = Inr (IntImm t (type_lo t))" "IntImm_make t (type_hi t) = Inr (IntImm t (type_hi t))"
      using i w s r n by (auto simp: IntImm_make_def const_type_def)
    then show ?thesis
      using i w s h r lo(1) hi(1) by (auto simp: type_min_def type_max_def type_min_scalar_def type_max_scalar_def
          const_type_def fin_def bound_pred_def range_in_def)
  next
    case u
    have n: "norm_uint (bits t) v = v" if "in_range t v" for v
      using wrap_in_range [OF that] u b by (simp add: norm_uint_eq wrap_def int_width_def)
    have "UIntImm_make t (type_lo t) = Inr (UIntImm t (type_lo t))" "UIntImm_make t (type_hi t) = Inr (UIntImm t (type_hi t))"
      using u w s r n by (auto simp: UIntImm_make_def const_type_def)
    then show ?thesis
      using u w s h r lo(2) hi(2) by (auto simp: type_min_def type_max_def type_min_scalar_def type_max_scalar_def
          const_type_def fin_def bound_pred_def range_in_def)
  qed
qed

lemma bounds_of_type_sound:
  assumes t: "elem_type (element_of t)" and r: "\<forall>x \<in> set xs. range_in True (element_of t) x"
    and bd: "bd \<Longrightarrow> bits (element_of t) \<le> 16"
  shows "\<exists>i. bounds_of_type t = Inr i \<and> brackets bd ec W r (element_of t) i xs"
proof (cases "bits (element_of t) \<le> 16")
  case True
  obtain a b where ab: "type_min (element_of t) = Inr a" "bval ec W r (element_of t) a (type_lo (element_of t))"
      "type_max (element_of t) = Inr b" "bval ec W r (element_of t) b (type_hi (element_of t))"
    using type_extremes [OF t] by metis
  have "\<forall>x \<in> set xs. in_range (element_of t) x" using r True by (auto simp: range_in_def no_overflow_int_def)
  then have "brackets bd ec W r (element_of t) (mk_Interval a b) xs"
    using ab by (intro bracketsI) (auto simp: in_range_def)
  then show ?thesis using ab True elem_type_int [OF t] by (auto simp: bounds_of_type_def Let_def)
next
  case False
  then have "\<not> bd" using bd by blast
  then show ?thesis using brackets_everything [of bd] False by (simp add: bounds_of_type_def Let_def)
qed

text \<open>An operation that is applied to the bounds that there are.\<close>

lemma map_bounds_sound:
  assumes h: "infinities_shared h" and i: "brackets bd ec W r t i xs"
    and f: "\<And>e x. e = interval_min i \<or> e = interval_max i \<Longrightarrow> bval ec W r t e x \<Longrightarrow> \<exists>e'. f e = Inr e' \<and> bval ec' W' r' t' e' x"
  shows "\<exists>j. rbind (if has_lower_bound h i then rbind (f (interval_min i)) (\<lambda>e. Inr (i\<lparr>interval_min := e\<rparr>)) else Inr i) (\<lambda>i.
      if has_upper_bound h i then rbind (f (interval_max i)) (\<lambda>e. Inr (i\<lparr>interval_max := e\<rparr>)) else Inr i) = Inr j \<and>
    brackets bd ec' W' r' t' j xs"
proof -
  note inf = shared_infinities [OF h] and lower = brackets_lower [OF h i]
  have "\<exists>j. (if has_lower_bound h i then rbind (f (interval_min i)) (\<lambda>e. Inr (i\<lparr>interval_min := e\<rparr>)) else Inr i) = Inr j \<and>
      interval_max j = interval_max i \<and> below bd ec' W' r' t' (interval_min j) xs"
  proof (cases "has_lower_bound h i")
    case True
    then obtain u where u: "bval ec W r t (interval_min i) u" "\<forall>x \<in> set xs. u \<le> x" using lower by auto
    obtain e' where "f (interval_min i) = Inr e'" "bval ec' W' r' t' e' u" using f [OF _ u(1)] by blast
    then show ?thesis using True u(2) by (auto simp: below_def)
  qed (use lower in \<open>simp add: below_def\<close>)
  then obtain j where j: "(if has_lower_bound h i then rbind (f (interval_min i)) (\<lambda>e. Inr (i\<lparr>interval_min := e\<rparr>)) else Inr i) = Inr j"
      "interval_max j = interval_max i" "below bd ec' W' r' t' (interval_min j) xs" by blast
  have "\<not> is_empty h j"
    using j(2,3) i inf shared_fin [OF h] unfolding brackets_def above_def below_def is_empty_def by metis
  then have up: "has_upper_bound h j = (\<not> same_as h (interval_max i) pos_inf)" using j(2) by (simp add: has_upper_bound_def)
  have "\<exists>l. (if has_upper_bound h j then rbind (f (interval_max j)) (\<lambda>e. Inr (j\<lparr>interval_max := e\<rparr>)) else Inr j) = Inr l \<and>
      interval_min l = interval_min j \<and> above bd ec' W' r' t' (interval_max l) xs"
  proof (cases "has_upper_bound h j")
    case True
    then obtain u where u: "bval ec W r t (interval_max i) u" "\<forall>x \<in> set xs. x \<le> u"
      using up i inf unfolding brackets_def above_def by auto
    obtain e' where "f (interval_max i) = Inr e'" "bval ec' W' r' t' e' u" using f [OF _ u(1)] by blast
    then show ?thesis using True u(2) j(2) by (auto simp: above_def)
  next
    case False
    then have "interval_max j = pos_inf \<and> \<not> bd"
      using up j(2) i shared_fin [OF h] unfolding brackets_def above_def by auto
    then show ?thesis using False by (simp add: above_def)
  qed
  then show ?thesis using j by (auto simp: brackets_def)
qed

end
