(* ===== verification/BoundsArith.thy ===== *)
theory BoundsArith
  imports BoundsVal
begin

text \<open>
  The arithmetic visits of \<open>Bounds\<close>: the interval that a sum, a difference, a product or a
  quotient gets brackets its lanes when the intervals of the operands bracket theirs.
\<close>

subsection \<open>Sums and differences\<close>

text \<open>The lanes of a binary operation.\<close>

definition lanes_of :: "binop \<Rightarrow> Type \<Rightarrow> int list \<Rightarrow> int list \<Rightarrow> int list \<Rightarrow> bool" where
  "lanes_of op t xs ys zs \<longleftrightarrow>
     (\<forall>z \<in> set zs. \<exists>x \<in> set xs. \<exists>y \<in> set ys. binop_in True op t x y = Some z \<and> range_in True t x \<and> range_in True t y)"

fun arith :: "binop \<Rightarrow> int \<Rightarrow> int \<Rightarrow> int" where
  "arith AddOp x y = x + y"
| "arith SubOp x y = x - y"
| "arith MulOp x y = x * y"
| "arith _ x y = 0"

lemma arith_binop_in: "op \<in> {AddOp, SubOp, MulOp} \<Longrightarrow> binop_in True op t x y = fit_in True t (arith op x y)"
  by auto

text \<open>The types whose sums and products the analysis may assume not to wrap, or tests.\<close>

definition checked_type :: "Type \<Rightarrow> bool" where
  "checked_type t \<longleftrightarrow> no_overflow_int t \<or> bits t < 32"

lemma elem_Int32: "elem_type (Int_t 32 1)" and no_overflow_Int32: "no_overflow_int (Int_t 32 1)"
  by (simp_all add: elem_type_def const_type_def type_ctor_simps is_int_def is_scalar_def no_overflow_int_def)

lemma narrow_in_int32:
  assumes "elem_type t" and "bits t < 32" and "range_in True t x"
  shows "in_range (Int_t 32 1) x"
proof (rule in_range_mono_int)
  show "can_represent_type (Int_t 32 1) t"
    using assms(1,2) elem_type_scalar [OF assms(1)] elem_type_int [OF assms(1)]
    by (auto simp: can_represent_type_def type_ctor_simps type_predicates)
  show "in_range t x" using assms(2,3) by (simp add: range_in_def no_overflow_int_def)
qed (simp add: is_int_def type_ctor_simps)

lemma bval_cast_int:
  assumes "elem_type t" and "bits t < 32" and a: "bval False W r t a x"
  shows "\<exists>e. cast (Int_t 32 1) a = Inr e \<and> bval False W r (Int_t 32 1) e x"
proof -
  have "in_range (Int_t 32 1) x" using narrow_in_int32 [OF assms(1,2) bval_range [OF a]] .
  then show ?thesis
    using bval_cast [OF a elem_Int32 assms(1)] fit_in_range_in [of True "Int_t 32 1" x] by (auto simp: range_in_def)
qed

lemma int_test_sound:
  assumes t: "elem_type t" "bits t < 32" and op: "op \<in> {AddOp, SubOp, MulOp}"
    and a: "bval False W r t a x" and b: "bval False W r t b y" and e: "bval False W r t e z"
  shows "\<exists>p. int_test op a b e = Inr p \<and> truth r p (arith op x y = z)"
proof -
  obtain a' b' e' where c: "cast (Int_t 32 1) a = Inr a'" "bval False W r (Int_t 32 1) a' x"
      "cast (Int_t 32 1) b = Inr b'" "bval False W r (Int_t 32 1) b' y"
      "cast (Int_t 32 1) e = Inr e'" "bval False W r (Int_t 32 1) e' z"
    using bval_cast_int [OF t a] bval_cast_int [OF t b] bval_cast_int [OF t e] by blast
  have o: "operator_ee op (Some a') (Some b') = Inr (Binary op a' b') \<and> bval False W r (Int_t 32 1) (Binary op a' b') (arith op x y)"
    using op no_overflow_Int32 by (intro bval_arith [OF c(2,4)]) (auto simp: fit_in_def)
  then show ?thesis
    using truth_cmp [OF conjunct2 [OF o] c(6), of EQOp "arith op x y = z"] c o elem_type_scalar [OF elem_Int32]
    by (simp add: int_test_def)
qed

lemma proves_int_test_sound:
  assumes s: "exact_simplifier (simplifier c)" and t: "elem_type t" "bits t < 32" and op: "op \<in> {AddOp, SubOp, MulOp}"
    and a: "bval False W r t a x" and b: "bval False W r t b y" and e: "bval False W r t e z"
  obtains p where "proves_int_test c op a b e = Inr p" and "p \<Longrightarrow> arith op x y = z"
proof -
  obtain q where q: "int_test op a b e = Inr q" "truth r q (arith op x y = z)"
    using int_test_sound [OF t op a b e] by blast
  obtain p where "can_prove (simplifier c) q = Inr p" "p \<Longrightarrow> arith op x y = z"
    using can_prove_truth [OF s q(2)] by blast
  then show thesis using that q by (simp add: proves_int_test_def)
qed

lemma in_range_between: "range_in True t u \<Longrightarrow> range_in True t w \<Longrightarrow> \<not> no_overflow_int t \<Longrightarrow> u \<le> x \<Longrightarrow> x \<le> w \<Longrightarrow> in_range t x"
  by (auto simp: range_in_def in_range_def)

lemma bval_arith_fit:
  assumes t: "elem_type t" and op: "op \<in> {AddOp, SubOp, MulOp}" and a: "bval ec1 W r t a x" and b: "bval ec2 W r t b y"
  obtains z where "operator_ee op (Some a) (Some b) = Inr (Binary op a b)" and "bval ec W r t (Binary op a b) z"
    and "fit_in True t (arith op x y) = Some z"
proof -
  obtain z where z: "fit_in True t (arith op x y) = Some z" using fit_in_Some [OF elem_type_int [OF t]] by blast
  moreover have "binop_in True op t x y = Some z" using z arith_binop_in [OF op] by simp
  ultimately show thesis using that [of z] bval_arith [OF a b, of op z] op by blast
qed

lemma exact_no_overflow: "no_overflow_int t \<Longrightarrow> fit_in True t x = Some y \<longleftrightarrow> y = x"
  by (auto simp: fit_in_def)

text \<open>
  What the bounds of a sum or a difference say: \<open>lo\<close> and \<open>hi\<close> are the corners of the
  operands that give the least and the greatest result.
\<close>

lemma linear_exact:
  assumes t: "elem_type t" "no_overflow_int t" and op: "op \<in> {AddOp, SubOp}" and T: "bits T = bits t"
    and h: "infinities_shared (addrs c)"
    and a: "brackets bd False W r t a xs"
    and lo: "if has_lo then \<exists>u. bval False W r t b_lo u \<and> (\<forall>x. \<forall>y \<in> set ys. arith op x u \<le> arith op x y) else \<not> bd"
    and hi: "if has_hi then \<exists>u. bval False W r t b_hi u \<and> (\<forall>x. \<forall>y \<in> set ys. arith op x y \<le> arith op x u) else \<not> bd"
    and z: "lanes_of op t xs ys zs"
  shows "\<exists>i. linear_interval c op T a b_lo has_lo b_hi has_hi = Inr (i, False) \<and> brackets bd ec W r t i zs"
proof -
  have op': "op \<in> {AddOp, SubOp, MulOp}" using op by auto
  have nT: "\<not> bits T < 32" using t(2) T by (simp add: no_overflow_int_def)
  have zz: "\<exists>x \<in> set xs. \<exists>y \<in> set ys. z = arith op x y" if "z \<in> set zs" for z
    using z that t(2) arith_binop_in [OF op'] unfolding lanes_of_def by (fastforce simp: exact_no_overflow)
  have mono: "u \<le> x \<Longrightarrow> arith op u y \<le> arith op x y" for u x y using op by auto
  define L where "L = (has_lower_bound (addrs c) a \<and> has_lo)"
  define U where "U = (has_upper_bound (addrs c) a \<and> has_hi)"
  have l: "below bd ec W r t (if L then Binary op (interval_min a) b_lo else neg_inf) zs \<and>
      (L \<longrightarrow> operator_ee op (Some (interval_min a)) (Some b_lo) = Inr (Binary op (interval_min a) b_lo))"
  proof (cases L)
    case True
    then obtain v u where v: "bval False W r t (interval_min a) v" "\<forall>x \<in> set xs. v \<le> x"
        and u: "bval False W r t b_lo u" "\<forall>x. \<forall>y \<in> set ys. arith op x u \<le> arith op x y"
      using brackets_lower [OF h a] lo by (auto simp: L_def)
    obtain w where "operator_ee op (Some (interval_min a)) (Some b_lo) = Inr (Binary op (interval_min a) b_lo)"
        "bval ec W r t (Binary op (interval_min a) b_lo) w" "w = arith op v u"
      using bval_arith_fit [OF t(1) op' v(1) u(1)] exact_no_overflow [OF t(2)] by metis
    moreover have "\<forall>z \<in> set zs. arith op v u \<le> z" using zz v(2) u(2) mono [of v _ u] by (metis order_trans)
    ultimately show ?thesis using True by (auto simp: below_def)
  next
    case False
    then show ?thesis using brackets_lower [OF h a] lo by (auto simp: below_def L_def split: if_splits)
  qed
  have r: "above bd ec W r t (if U then Binary op (interval_max a) b_hi else pos_inf) zs \<and>
      (U \<longrightarrow> operator_ee op (Some (interval_max a)) (Some b_hi) = Inr (Binary op (interval_max a) b_hi))"
  proof (cases U)
    case True
    then obtain v u where v: "bval False W r t (interval_max a) v" "\<forall>x \<in> set xs. x \<le> v"
        and u: "bval False W r t b_hi u" "\<forall>x. \<forall>y \<in> set ys. arith op x y \<le> arith op x u"
      using brackets_upper [OF h a] hi by (auto simp: U_def)
    obtain w where "operator_ee op (Some (interval_max a)) (Some b_hi) = Inr (Binary op (interval_max a) b_hi)"
        "bval ec W r t (Binary op (interval_max a) b_hi) w" "w = arith op v u"
      using bval_arith_fit [OF t(1) op' v(1) u(1)] exact_no_overflow [OF t(2)] by metis
    moreover have "\<forall>z \<in> set zs. z \<le> arith op v u" using zz v(2) u(2) mono [of _ v u] by (metis order_trans)
    ultimately show ?thesis using True by (auto simp: above_def)
  next
    case False
    then show ?thesis using brackets_upper [OF h a] hi by (auto simp: above_def U_def split: if_splits)
  qed
  show ?thesis using l r nT
    by (auto simp: linear_interval_def L_def [symmetric] U_def [symmetric] everything_def brackets_def)
qed

lemma linear_narrow:
  assumes s: "exact_simplifier (simplifier c)" and t: "elem_type t" "bits t < 32" and op: "op \<in> {AddOp, SubOp}"
    and T: "type_eq (element_of T) t" "type_wf T"
    and h: "infinities_shared (addrs c)"
    and a: "brackets True False W r t a xs"
    and lo: "has_lo" "bval False W r t b_lo u1" "\<forall>x. \<forall>y \<in> set ys. arith op x u1 \<le> arith op x y"
    and hi: "has_hi" "bval False W r t b_hi u2" "\<forall>x. \<forall>y \<in> set ys. arith op x y \<le> arith op x u2"
    and z: "lanes_of op t xs ys zs"
  shows "\<exists>i ret. linear_interval c op T a b_lo has_lo b_hi has_hi = Inr (i, ret) \<and> brackets bd ec W r t i zs"
proof -
  have op': "op \<in> {AddOp, SubOp, MulOp}" using op by auto
  have mono: "u \<le> x \<Longrightarrow> arith op u y \<le> arith op x y" for u x y using op by auto
  have T': "\<not> is_float T" "bits T < 32" "element_of T = t \<or> True"
    using T t elem_type_handle [OF t(1)] by (auto simp: type_eq_def type_predicates element_of_def mk_Type_def type_wf_def)
  have eT: "elem_type (element_of T)" using T t(1) by (auto simp: elem_type_def type_eq_def const_type_def type_predicates)
  note bnd = brackets_is_bounded [OF h a]
  obtain v1 where v1: "bval False W r t (interval_min a) v1" "\<forall>x \<in> set xs. v1 \<le> x" using brackets_lower [OF h a] bnd by auto
  obtain v2 where v2: "bval False W r t (interval_max a) v2" "\<forall>x \<in> set xs. x \<le> v2" using brackets_upper [OF h a] bnd by auto
  let ?lo = "Binary op (interval_min a) b_lo" and ?hi = "Binary op (interval_max a) b_hi"
  obtain w1 where w1: "operator_ee op (Some (interval_min a)) (Some b_lo) = Inr ?lo" "bval ec W r t ?lo w1"
      "fit_in True t (arith op v1 u1) = Some w1" using bval_arith_fit [OF t(1) op' v1(1) lo(2)] by metis
  obtain w2 where w2: "operator_ee op (Some (interval_max a)) (Some b_hi) = Inr ?hi" "bval ec W r t ?hi w2"
      "fit_in True t (arith op v2 u2) = Some w2" using bval_arith_fit [OF t(1) op' v2(1) hi(2)] by metis
  let ?i = "mk_Interval ?lo ?hi"
  have ninf: "?lo \<noteq> pos_inf" "?lo \<noteq> neg_inf" "?hi \<noteq> pos_inf" "?hi \<noteq> neg_inf" by (simp_all add: pos_inf_def neg_inf_def)
  have hb: "has_lower_bound (addrs c) ?i" "has_upper_bound (addrs c) ?i"
    using shared_fin [OF h w1(2)] shared_fin [OF h w2(2)] by (simp_all add: has_lower_bound_def has_upper_bound_def is_empty_def)
  obtain p2 where p2: "proves_int_test c op (interval_max a) b_hi ?hi = Inr p2" "p2 \<Longrightarrow> arith op v2 u2 = w2"
    using proves_int_test_sound [OF s t op' v2(1) hi(2) bval_weaken [OF w2(2)]] by blast
  obtain p1 where p1: "proves_int_test c op (interval_min a) b_lo ?lo = Inr p1" "p1 \<Longrightarrow> arith op v1 u1 = w1"
    using proves_int_test_sound [OF s t op' v1(1) lo(2) bval_weaken [OF w1(2)]] by blast
  have no: "\<not> no_overflow_int t" using t(2) by (simp add: no_overflow_int_def)
  have zr: "\<forall>z \<in> set zs. range_in True t z" using z op' fit_in_Some_range by (fastforce simp: lanes_of_def arith_binop_in)
  have ok: "brackets bd ec W r t ?i zs" if "p1" "p2"
  proof -
    have "w1 \<le> z \<and> z \<le> w2" if "z \<in> set zs" for z
    proof -
      have "\<exists>x \<in> set xs. \<exists>y \<in> set ys. fit_in True t (arith op x y) = Some z"
        using z that unfolding lanes_of_def arith_binop_in [OF op'] by metis
      then obtain x y where xy: "x \<in> set xs" "y \<in> set ys" "fit_in True t (arith op x y) = Some z" by blast
      have "arith op v1 u1 \<le> arith op x u1" "arith op x u2 \<le> arith op v2 u2" using xy(1) v1(2) v2(2) mono by blast+
      moreover have "arith op x u1 \<le> arith op x y" "arith op x y \<le> arith op x u2" using xy(2) lo(3) hi(3) by blast+
      ultimately have b: "w1 \<le> arith op x y" "arith op x y \<le> w2"
        using p1(2) [OF \<open>p1\<close>] p2(2) [OF \<open>p2\<close>] by linarith+
      then have "in_range t (arith op x y)" using in_range_between bval_range [OF w1(2)] bval_range [OF w2(2)] no by blast
      then have "z = arith op x y" using xy(3) fit_in_range_in [of True t "arith op x y"] by (simp add: range_in_def)
      then show ?thesis using b by simp
    qed
    then show ?thesis using w1(2) w2(2) by (intro bracketsI) auto
  qed
  have "t' = T \<Longrightarrow> \<exists>i. bounds_of_type T = Inr i \<and> brackets bd ec W r t i zs" for t'
  proof -
    have "bits (element_of T) \<le> 16" using T(1) t by (auto simp: type_eq_def elem_type_def const_type_def)
    then show ?thesis
      using bounds_of_type_sound [OF eT, of zs bd ec W r] zr range_in_type_eq [OF T(1)]
        brackets_type_cong [OF T(1)] elem_type_handle [OF t(1)] by auto
  qed
  then obtain j where j: "bounds_of_type T = Inr j" "brackets bd ec W r t j zs" by blast
  show ?thesis
    using bnd lo(1) hi(1) w1(1) w2(1) T' hb p1(1) p2(1) j ok
    by (cases p2; cases p1) (auto simp: linear_interval_def everything_def)
qed

definition setting :: "bounds_context \<Rightarrow> env \<Rightarrow> bool" where
  "setting c r \<longleftrightarrow> infinities_shared (addrs c) \<and> exact_simplifier (simplifier c) \<and> env_type_ok r"

text \<open>The operand types of a node, and single points.\<close>

definition node_type :: "Type \<Rightarrow> Type \<Rightarrow> bool" where
  "node_type T t \<longleftrightarrow> elem_type t \<and> type_eq (element_of T) t \<and> type_wf T"

lemma node_type_facts:
  assumes "node_type T t"
  shows "elem_type t" "elem_type (element_of T)" "bits T = bits t" "is_int T = is_int t" "is_uint T = is_uint t"
    "\<not> is_float T" "\<not> is_handle T" "bits (element_of T) = bits t"
proof -
  show t: "elem_type t" using assms by (simp add: node_type_def)
  have e: "code T = code t" "bits T = bits t" "type_wf T"
    using assms by (auto simp: node_type_def type_eq_def element_of_def mk_Type_def type_wf_def)
  then show "bits T = bits t" "is_int T = is_int t" "is_uint T = is_uint t" "\<not> is_float T" "\<not> is_handle T"
    using elem_type_handle [OF t] by (simp_all add: type_predicates)
  show "bits (element_of T) = bits t" using e by simp
  have "is_int T = is_int t" "is_uint T = is_uint t" using e by (simp_all add: is_int_def is_uint_def)
  then show "elem_type (element_of T)" using t e by (simp add: elem_type_def const_type_def)
qed

lemma narrow_bounds_of_type:
  assumes T: "node_type T t" and "bits t < 32 \<or> \<not> bd" and "\<forall>z \<in> set zs. range_in True t z"
  shows "\<exists>i. bounds_of_type T = Inr i \<and> brackets bd ec W r t i zs"
proof -
  note f = node_type_facts [OF T]
  have e: "type_eq (element_of T) t" using T by (simp add: node_type_def)
  have "bits t < 32 \<Longrightarrow> bits t \<le> 16" using f(1) by (auto simp: elem_type_def const_type_def)
  then show ?thesis
    using bounds_of_type_sound [OF f(2), of zs bd ec W r] assms(2,3) f(8) range_in_type_eq [OF e]
      brackets_type_cong [OF e] elem_type_handle [OF f(1)] by auto
qed

lemma lanes_of_range: "is_arith op \<Longrightarrow> lanes_of op t xs ys zs \<Longrightarrow> \<forall>z \<in> set zs. range_in True t z"
  unfolding lanes_of_def by (meson binop_in_arith_range)

lemma lanes_of_constant:
  assumes "lanes_of op t xs ys zs" and "zs \<noteq> []" and "\<forall>x \<in> set xs. x = v" and "\<forall>y \<in> set ys. y = w"
  obtains z where "binop_in True op t v w = Some z" and "\<forall>z' \<in> set zs. z' = z"
proof -
  have e: "binop_in True op t v w = Some z'" if "z' \<in> set zs" for z'
    using assms(1,3,4) that unfolding lanes_of_def by metis
  show thesis using that [of "hd zs"] e [of "hd zs"] e assms(2) by (metis hd_in_set option.inject)
qed

lemma single_points:
  assumes op: "op \<in> {AddOp, SubOp, MulOp, DivOp, ModOp}" and z: "lanes_of op t xs ys zs" "zs \<noteq> []"
    and a: "bval ec1 W r t a v" "\<forall>x \<in> set xs. x = v" and b: "bval ec2 W r t b w" "\<forall>y \<in> set ys. y = w"
  shows "operator_ee op (Some a) (Some b) = Inr (Binary op a b) \<and> brackets bd ec W r t (single_point (Binary op a b)) zs"
proof -
  obtain z where "binop_in True op t v w = Some z" "\<forall>z' \<in> set zs. z' = z"
    using lanes_of_constant [OF z a(2) b(2)] by blast
  then show ?thesis using bval_arith [OF a(1) b(1) op] brackets_single by blast
qed

lemma single_points_at:
  assumes h: "infinities_shared h" and op: "op \<in> {AddOp, SubOp, MulOp, DivOp, ModOp}" and z: "lanes_of op t xs ys zs" "zs \<noteq> []"
    and a: "brackets bd1 ec1 W r t a xs" "is_single_point_at h a x" and b: "brackets bd2 ec2 W r t b ys" "is_single_point_at h b y"
  shows "brackets bd ec W r t (single_point (Binary op x y)) zs"
  using brackets_is_single_at [OF h a] brackets_is_single_at [OF h b] single_points [OF op z] by blast

lemma single_points_both:
  assumes h: "infinities_shared h" and op: "op \<in> {AddOp, SubOp, MulOp, DivOp, ModOp}" and z: "lanes_of op t xs ys zs" "zs \<noteq> []"
    and a: "brackets bd1 ec1 W r t a xs" "is_single_point h a" and b: "brackets bd2 ec2 W r t b ys" "is_single_point h b"
  shows "operator_ee op (Some (interval_min a)) (Some (interval_min b)) = Inr (Binary op (interval_min a) (interval_min b)) \<and>
    brackets bd ec W r t (single_point (Binary op (interval_min a) (interval_min b))) zs"
proof -
  obtain v w where "bval ec1 W r t (interval_min a) v" "\<forall>x \<in> set xs. x = v"
    "bval ec2 W r t (interval_min b) w" "\<forall>y \<in> set ys. y = w"
    using brackets_is_single [OF h a] brackets_is_single [OF h b] by blast
  then show ?thesis by (rule single_points [OF op z])
qed

lemma linear_sound:
  assumes S: "setting c r" and T: "node_type T t" and op: "op \<in> {AddOp, SubOp}" and ct: "checked_type t"
    and a: "brackets (bd \<or> bits t < 32) False W r t a xs"
    and lo: "if has_lo then \<exists>u. bval False W r t b_lo u \<and> (\<forall>x. \<forall>y \<in> set ys. arith op x u \<le> arith op x y) else \<not> (bd \<or> bits t < 32)"
    and hi: "if has_hi then \<exists>u. bval False W r t b_hi u \<and> (\<forall>x. \<forall>y \<in> set ys. arith op x y \<le> arith op x u) else \<not> (bd \<or> bits t < 32)"
    and z: "lanes_of op t xs ys zs"
  obtains i ret where "linear_interval c op T a b_lo has_lo b_hi has_hi = Inr (i, ret)" and "brackets bd ec W r t i zs"
proof (cases "bits t < 32")
  case True
  then obtain u1 u2 where l: "has_lo" "bval False W r t b_lo u1" "\<forall>x. \<forall>y \<in> set ys. arith op x u1 \<le> arith op x y"
    and u: "has_hi" "bval False W r t b_hi u2" "\<forall>x. \<forall>y \<in> set ys. arith op x y \<le> arith op x u2"
    using lo hi by (auto split: if_splits)
  have "brackets True False W r t a xs" using a True by simp
  then show thesis
    using that linear_narrow [OF _ node_type_facts(1) [OF T] True op _ _ _ _ l u z, where c = c and T = T and bd = bd and ec = ec and a = a] S T by (auto simp: setting_def node_type_def)
next
  case False
  then have no: "no_overflow_int t" using ct by (simp add: checked_type_def)
  have a': "brackets bd False W r t a xs" using a by (rule brackets_weaken) auto
  have lh: "if has_lo then \<exists>u. bval False W r t b_lo u \<and> (\<forall>x. \<forall>y \<in> set ys. arith op x u \<le> arith op x y) else \<not> bd"
    "if has_hi then \<exists>u. bval False W r t b_hi u \<and> (\<forall>x. \<forall>y \<in> set ys. arith op x y \<le> arith op x u) else \<not> bd"
    using lo hi False by auto
  then show thesis
    using linear_exact [OF node_type_facts(1) [OF T] no op node_type_facts(3) [OF T] _ a' lh z, of c] S that
    unfolding setting_def by blast
qed

lemma bounds_add_sound:
  assumes S: "setting c r" and T: "node_type (type_of x) t" and ct: "checked_type t"
    and a: "brackets (bd \<or> bits t < 32) False W r t a xs" and b: "brackets (bd \<or> bits t < 32) False W r t b ys"
    and z: "lanes_of AddOp t xs ys zs" "zs \<noteq> []"
  shows "\<exists>i. bounds_add c x y a b = Inr i \<and> brackets bd ec W r t i zs"
proof -
  have h: "infinities_shared (addrs c)" using S by (simp add: setting_def)
  have lo: "if has_lower_bound (addrs c) b then \<exists>u. bval False W r t (interval_min b) u \<and> (\<forall>x. \<forall>y \<in> set ys. arith AddOp x u \<le> arith AddOp x y) else \<not> (bd \<or> bits t < 32)"
    using brackets_lower [OF h b] by auto
  have hi: "if has_upper_bound (addrs c) b then \<exists>u. bval False W r t (interval_max b) u \<and> (\<forall>x. \<forall>y \<in> set ys. arith AddOp x y \<le> arith AddOp x u) else \<not> (bd \<or> bits t < 32)"
    using brackets_upper [OF h b] by auto
  obtain i ret where "linear_interval c AddOp (type_of x) a (interval_min b) (has_lower_bound (addrs c) b)
      (interval_max b) (has_upper_bound (addrs c) b) = Inr (i, ret)" "brackets bd ec W r t i zs"
    using linear_sound [OF S T _ ct a lo hi z(1), of ec] by blast
  then show ?thesis
    using single_points_at [OF h _ z a _ b] single_points_both [OF h _ z a _ b]
    by (simp add: bounds_add_def)
qed

lemma bounds_sub_sound:
  assumes S: "setting c r" and T: "node_type (type_of x) t" and ct: "checked_type t"
    and a: "brackets (bd \<or> bits t < 32) False W r t a xs" and b: "brackets (bd \<or> bits t < 32) False W r t b ys"
    and z: "lanes_of SubOp t xs ys zs" "zs \<noteq> []"
  shows "\<exists>i. bounds_sub c x y a b = Inr i \<and> brackets bd ec W r t i zs"
proof -
  have h: "infinities_shared (addrs c)" and s: "exact_simplifier (simplifier c)" using S by (simp_all add: setting_def)
  have lo: "if has_upper_bound (addrs c) b then \<exists>u. bval False W r t (interval_max b) u \<and> (\<forall>x. \<forall>y \<in> set ys. arith SubOp x u \<le> arith SubOp x y) else \<not> (bd \<or> bits t < 32)"
    using brackets_upper [OF h b] by auto
  have hi: "if has_lower_bound (addrs c) b then \<exists>u. bval False W r t (interval_min b) u \<and> (\<forall>x. \<forall>y \<in> set ys. arith SubOp x y \<le> arith SubOp x u) else \<not> (bd \<or> bits t < 32)"
    using brackets_lower [OF h b] by auto
  obtain i ret where li: "linear_interval c SubOp (type_of x) a (interval_max b) (has_upper_bound (addrs c) b)
      (interval_min b) (has_lower_bound (addrs c) b) = Inr (i, ret)" "brackets bd ec W r t i zs"
    using linear_sound [OF S T _ ct a lo hi z(1), of ec] by blast
  have zr: "\<forall>z \<in> set zs. range_in True t z" using lanes_of_range [OF _ z(1)] by (simp add: is_arith_def)
  have under: "\<exists>j. (if ret then Inr i
        else if is_uint (type_of x) \<and> has_lower_bound (addrs c) i then
          rbind (operator_ee LEOp (Some (interval_max b)) (Some (interval_min a))) (\<lambda>e.
          rbind (can_prove (simplifier c) e) (\<lambda>p.
          if \<not> p then bounds_of_type (type_of x) else Inr i))
        else Inr i) = Inr j \<and> brackets bd ec W r t j zs"
  proof (cases "is_uint (type_of x)")
    case True
    then have "bits t < 32" using ct node_type_facts(5) [OF T] by (auto simp: checked_type_def no_overflow_int_def)
    then have ba: "brackets True False W r t a xs" "brackets True False W r t b ys" using a b by simp_all
    obtain u where u: "bval False W r t (interval_min a) u"
      using brackets_lower [OF h ba(1)] brackets_is_bounded [OF h ba(1)] by auto
    obtain v where v: "bval False W r t (interval_max b) v"
      using brackets_upper [OF h ba(2)] brackets_is_bounded [OF h ba(2)] by auto
    have le: "operator_ee LEOp (Some (interval_max b)) (Some (interval_min a)) = Inr (Binary LEOp (interval_max b) (interval_min a)) \<and>
        truth r (Binary LEOp (interval_max b) (interval_min a)) (v \<le> u)"
      by (rule truth_cmp [OF v u]) (use elem_type_scalar [OF node_type_facts(1) [OF T]] in auto)
    obtain p where p: "can_prove (simplifier c) (Binary LEOp (interval_max b) (interval_min a)) = Inr p"
      using can_prove_truth [OF s conjunct2 [OF le]] by blast
    show ?thesis
      using le p li(2) narrow_bounds_of_type [OF T _ zr, of bd ec W r] \<open>bits t < 32\<close> by (cases p) auto
  qed (use li(2) in auto)
  then show ?thesis
    using single_points_at [OF h _ z a _ b] single_points_both [OF h _ z a _ b] li(1)
    by (simp add: bounds_sub_def)
qed

subsection \<open>Signs and choices\<close>

lemma const_sign_exact:
  assumes "wf_expr e" and "exact_casts e" and "eval_in True r e = Some [v]"
  shows "(is_positive_const e \<longrightarrow> 0 < v) \<and> (is_negative_const e \<longrightarrow> v < 0)"
  using assms
proof (induction e arbitrary: v)
  case (Cast t e)
  then obtain w where w: "eval_in True r e = Some [w]" "fit_in True t w = Some v"
    by (auto simp: those_map_eq_Some list_all2_Cons2 elim!: bind_eq_SomeE)
  show ?case
  proof (cases "is_int t \<or> is_uint t")
    case True
    have "range_in True (type_of e) w" using eval_in_sound [OF _ w(1)] Cast.prems(1) by (auto simp: has_type_in_def)
    then have "range_in True t w" using cast_exact_range True Cast.prems(2) by auto
    then have "v = w" using w(2) fit_in_range_in by force
    then show ?thesis using Cast.IH [of w] Cast.prems w(1) by simp
  next
    case False
    then show ?thesis using w(2) by (auto simp: fit_in_def fit_def no_overflow_int_def split: if_splits)
  qed
next
  case (Ramp a b n)
  then obtain xs where "list_all2 (\<lambda>i y. xs i = Some y) [0..n - 1] [v]"
    by (auto simp: those_map_eq_Some elim!: bind_eq_SomeE split: if_splits)
  then have "nat n = 1" using list_all2_lengthD by fastforce
  then show ?case using Ramp.prems(1) by auto
next
  case (Broadcast a n)
  then have "nat n = 1" by (auto elim!: bind_eq_SomeE split: if_splits)
      (metis One_nat_def length_Cons length_replicate list.size(3))
  then show ?case using Broadcast.prems(1) by auto
qed (auto split: if_splits)

lemma bval_sign:
  assumes "bval True W r t e v"
  shows "is_positive_const e \<Longrightarrow> 0 < v" and "is_negative_const e \<Longrightarrow> v < 0"
  using const_sign_exact [of e r v] assms by (auto simp: fin_def bound_pred_def)

lemma bval_zero_one:
  assumes "elem_type t"
  obtains z u where "make_zero t = Inr z" "bval ec W r t z 0" "make_one t = Inr u" "bval ec W r t u (wrap t 1)"
proof -
  obtain z u where "make_const_int t 0 = Inr z" "make_const_int t 1 = Inr u" using make_const_elem [OF assms] by metis
  moreover have "wrap t 0 = 0" by (simp add: wrap_def)
  ultimately show thesis
    using that [of z u] bval_const [OF assms, of 0 z] bval_const [OF assms, of 1 u] elem_type_handle [OF assms]
    by (simp add: make_zero_def make_one_def)
qed

lemma bval_type_cong:
  assumes "type_eq s t" and "\<not> is_handle t"
  shows "bval ec W r s e v = bval ec W r t e v"
  using brackets_type_cong [OF assms, of True ec W r "single_point e" "[v]"] assms
    type_eq_trans [OF _ assms(1)] type_eq_trans [OF _ type_eq_sym [OF assms(1)]]
  by (auto simp: fin_def type_eq_def is_handle_def)

lemma select_bval:
  assumes c: "truth r c p" "expr_vars c \<subseteq> W" and a: "bval ec1 W r t a v" and b: "bval ec2 W r t b w"
  shows "select c a b = Inr (Select c a b) \<and> bval ec W r t (Select c a b) (if p then v else w)"
proof -
  have ty: "type_eq (type_of a) (type_of b)" "type_eq (type_of b) (type_of a)" using bval_types(1) [OF a b] bval_types(1) [OF b a] .
  have "type_eq (type_of c) (Bool_t 1)" using c(1)
    by (auto simp: truth_def type_eq_def is_bool_def is_scalar_def Bool_t_def UInt_t_def mk_Type_def)
  then have "select c a b = Inr (Select c a b)" using ty c(1)
    by (auto simp: select_def cast_def fold_cast_def Select_make_def defined_handle_def truth_def)
  moreover have "bval ec W r t (Select c a b) (if p then v else w)"
    using c a b ty by (auto simp: truth_def fin_def bound_pred_def select_val_def)
  ultimately show ?thesis by blast
qed

text \<open>The bounds of a product or a quotient by one number: \<open>w\<close> is the number.\<close>

lemma signed_interval_sound:
  assumes T: "node_type T t" and h: "infinities_shared (addrs c)" and bnd: "is_bounded (addrs c) a"
    and b: "bval True W r t b w" and e1: "bval ec W r t e1 v1" and e2: "bval ec W r t e2 v2"
    and cmp: "cmp = GEOp \<or> cmp = GTOp \<and> w \<noteq> 0"
    and pos: "0 \<le> w \<Longrightarrow> \<forall>z \<in> set zs. v1 \<le> z \<and> z \<le> v2" and neg: "w < 0 \<Longrightarrow> \<forall>z \<in> set zs. v2 \<le> z \<and> z \<le> v1"
  shows "\<exists>i. signed_interval c cmp T a b e1 e2 = Inr i \<and> brackets bd ec W r t i zs"
proof -
  note f = node_type_facts [OF T]
  consider (p) "is_positive_const b \<or> is_uint T" | (n) "\<not> (is_positive_const b \<or> is_uint T)" "is_negative_const b"
    | (u) "\<not> (is_positive_const b \<or> is_uint T)" "\<not> is_negative_const b" by blast
  then show ?thesis
  proof cases
    case p
    have "0 \<le> w" using p bval_sign(1) [OF b] bval_range [OF b] f(5)
      by (auto simp: range_in_def in_range_def no_overflow_int_def type_lo_def)
    then have "brackets bd ec W r t (mk_Interval e1 e2) zs" using e1 e2 pos by (intro bracketsI) auto
    then show ?thesis using p by (simp add: signed_interval_def)
  next
    case n
    then have "w < 0" using bval_sign(2) [OF b] by blast
    then have "brackets bd ec W r t (mk_Interval e2 e1) zs" using e1 e2 neg by (intro bracketsI) auto
    then show ?thesis using n by (simp add: signed_interval_def)
  next
    case u
    have tb: "type_eq (type_of b) t" "type_wf (type_of b)" using b by (auto simp: fin_def wf_expr_type_wf)
    have tb': "type_eq (element_of (type_of b)) t" "elem_type (element_of (type_of b))"
      using tb f(1) by (auto simp: elem_type_def const_type_def type_eq_def element_of_def mk_Type_def type_wf_def type_predicates)
    obtain z where z: "make_zero (element_of (type_of b)) = Inr z" "bval True W r (element_of (type_of b)) z 0"
      using bval_zero_one [OF tb'(2), of True W r] by blast
    then have z0: "bval True W r t z 0" using bval_type_cong [OF tb'(1)] elem_type_handle [OF f(1)] by simp
    let ?c = "Binary cmp b z" and ?p = "if cmp = GEOp then 0 \<le> w else 0 < w"
    have tr: "operator_ee cmp (Some b) (Some z) = Inr ?c \<and> truth r ?c ?p"
      by (rule truth_cmp [OF b z0]) (use cmp elem_type_scalar [OF f(1)] in auto)
    have vars: "expr_vars ?c \<subseteq> W" using b z0 by (auto simp: fin_def bound_pred_def)
    note s1 = select_bval [OF conjunct2 [OF tr] vars e1 e2, of ec] and s2 = select_bval [OF conjunct2 [OF tr] vars e2 e1, of ec]
    have "?p \<longleftrightarrow> 0 \<le> w" using cmp by auto
    then have "brackets bd ec W r t (mk_Interval (Select ?c e1 e2) (Select ?c e2 e1)) zs"
      using s1 s2 pos neg by (intro bracketsI [where u = "if ?p then v1 else v2" and v = "if ?p then v2 else v1"]) auto
    then show ?thesis using u z(1) tr s1 s2 bnd by (simp add: signed_interval_def)
  qed
qed

text \<open>Including expressions one by one.\<close>

lemma bval_bound_ok: "bval ec W r t e v \<Longrightarrow> bound_ok True (bound_pred ec W) r t e \<and> bound_val True r e = Some (Fin v)"
  by (rule fin_bound_ok)

lemma bound_ok_Fin:
  "bound_ok True (bound_pred ec W) r t e \<Longrightarrow> bound_val True r e = Some (Fin v) \<Longrightarrow> bval ec W r t e v"
  by (erule bound_ok_cases) (auto simp: bound_val_Fin fin_def)

definition spans :: "bool \<Rightarrow> string set \<Rightarrow> env \<Rightarrow> Type \<Rightarrow> Interval \<Rightarrow> int list \<Rightarrow> bool" where
  "spans ec W r t i vs \<longleftrightarrow> (vs = [] \<and> i = nothing) \<or>
     (\<exists>l u. bval ec W r t (interval_min i) l \<and> bval ec W r t (interval_max i) u \<and> (\<forall>v \<in> set vs. l \<le> v \<and> v \<le> u))"

lemma spans_include:
  assumes h: "infinities_shared h" and r: "env_type_ok r" and i: "spans ec W r t i vs" and e: "bval ec W r t e v"
  obtains j where "include_expr h i e = Inr j" and "spans ec W r t j (v # vs)"
proof -
  note be = bval_bound_ok [OF e]
  from i consider (n) "vs = []" "i = nothing" | (b) l u where "bval ec W r t (interval_min i) l"
      "bval ec W r t (interval_max i) u" "\<forall>v \<in> set vs. l \<le> v \<and> v \<le> u" unfolding spans_def by blast
  then show thesis
  proof cases
    case n
    have b: "bound_ok True (bound_pred ec W) r t pos_inf" "bound_ok True (bound_pred ec W) r t neg_inf"
      by (simp_all add: bound_ok_def)
    obtain mx mn where "make_max h neg_inf e = Inr mx" "bval ec W r t mx v" "make_min h pos_inf e = Inr mn" "bval ec W r t mn v"
      using bounds.make_max_bound [OF h r b(2) conjunct1 [OF be]] bounds.make_min_bound [OF h r b(1) conjunct1 [OF be]]
        be bound_ok_Fin by (metis bound_val_simps(1,2) ext_int_max_min(5,7) option.sel)
    then show thesis using that [of "mk_Interval mn mx"] n by (auto simp: include_expr_def nothing_def spans_def)
  next
    case b
    obtain mx mn where "make_max h (interval_max i) e = Inr mx" "bval ec W r t mx (max u v)"
      "make_min h (interval_min i) e = Inr mn" "bval ec W r t mn (min l v)"
      using bounds.make_max_bound [OF h r conjunct1 [OF bval_bound_ok [OF b(2)]] conjunct1 [OF be]]
        bounds.make_min_bound [OF h r conjunct1 [OF bval_bound_ok [OF b(1)]] conjunct1 [OF be]]
        be bval_bound_ok [OF b(1)] bval_bound_ok [OF b(2)] bound_ok_Fin by (metis ext_int_max_min(1,2) option.sel)
    then show thesis
      using that [of "mk_Interval mn mx"] b(3) by (force simp: include_expr_def spans_def min_def max_def)
  qed
qed

lemma include_all_sound:
  assumes h: "infinities_shared h" and r: "env_type_ok r"
    and "list_all2 (\<lambda>m v. \<exists>e. m = Inr e \<and> bval ec W r t e v) es vs" and "spans ec W r t i us"
  shows "\<exists>j. include_all h es i = Inr j \<and> spans ec W r t j (rev vs @ us)"
  using assms(3,4)
proof (induction es vs arbitrary: i us rule: list_all2_induct)
  case (Cons m es v vs)
  then obtain e where e: "m = Inr e" "bval ec W r t e v" by blast
  obtain j where j: "include_expr h i e = Inr j" "spans ec W r t j (v # us)"
    using spans_include [OF h r Cons.prems e(2)] by blast
  then show ?case using Cons.IH [OF j(2)] e(1) by simp
qed simp

lemma include_four:
  assumes h: "infinities_shared h" and r: "env_type_ok r"
    and e: "\<exists>e. m1 = Inr e \<and> bval ec W r t e v1" "\<exists>e. m2 = Inr e \<and> bval ec W r t e v2"
      "\<exists>e. m3 = Inr e \<and> bval ec W r t e v3" "\<exists>e. m4 = Inr e \<and> bval ec W r t e v4"
    and c: "\<forall>z \<in> set zs. \<forall>l u. (\<forall>v \<in> {v1, v2, v3, v4}. l \<le> v \<and> v \<le> u) \<longrightarrow> l \<le> z \<and> z \<le> u"
  shows "\<exists>i. include_all h [m1, m2, m3, m4] nothing = Inr i \<and> brackets bd ec W r t i zs"
proof -
  have l: "list_all2 (\<lambda>m v. \<exists>e. m = Inr e \<and> bval ec W r t e v) [m1, m2, m3, m4] [v1, v2, v3, v4]" using e by simp
  have "spans ec W r t nothing []" by (simp add: spans_def)
  then obtain j where j: "include_all h [m1, m2, m3, m4] nothing = Inr j" "spans ec W r t j (rev [v1, v2, v3, v4] @ [])"
    using include_all_sound [OF h r l] by blast
  then obtain l u where "bval ec W r t (interval_min j) l" "bval ec W r t (interval_max j) u"
      "\<forall>v \<in> {v1, v2, v3, v4}. l \<le> v \<and> v \<le> u" by (auto simp: spans_def)
  then have "brackets bd ec W r t j zs" using c by (intro bracketsI) blast+
  then show ?thesis using j(1) by blast
qed

subsection \<open>Products\<close>

lemma product_between:
  fixes x :: int
  assumes "u \<le> x" and "x \<le> v" and "l \<le> u * y" and "u * y \<le> m" and "l \<le> v * y" and "v * y \<le> m"
  shows "l \<le> x * y \<and> x * y \<le> m"
proof (cases "0 \<le> y")
  case True
  then have "u * y \<le> x * y" "x * y \<le> v * y" using assms(1,2) by (auto intro: mult_right_mono)
  then show ?thesis using assms by linarith
next
  case False
  then have "v * y \<le> x * y" "x * y \<le> u * y" using assms(1,2) by (auto intro: mult_right_mono_neg)
  then show ?thesis using assms by linarith
qed

lemma product_corners:
  fixes x :: int
  assumes "u \<le> x" and "x \<le> v" and "u' \<le> y" and "y \<le> v'"
    and c: "\<forall>p \<in> {u, v}. \<forall>q \<in> {u', v'}. l \<le> p * q \<and> p * q \<le> m"
  shows "l \<le> x * y \<and> x * y \<le> m"
proof -
  have "l \<le> u * y \<and> u * y \<le> m" "l \<le> v * y \<and> v * y \<le> m"
    using product_between [of u' y v' l u m] product_between [of u' y v' l v m] assms(3-5) by (auto simp: mult.commute)
  then show ?thesis using product_between [OF assms(1,2)] by blast
qed

text \<open>The corners of a product do not wrap.\<close>

definition corners_fit :: "Type \<Rightarrow> int \<Rightarrow> int \<Rightarrow> int \<Rightarrow> int \<Rightarrow> bool" where
  "corners_fit t u v u' v' \<longleftrightarrow> (\<forall>p \<in> {u, v}. \<forall>q \<in> {u', v'}. fit_in True t (p * q) = Some (p * q))"

lemma product_exact:
  assumes t: "elem_type t" and E: "corners_fit t u v u' v'" and "u \<le> x" "x \<le> v" "u' \<le> y" "y \<le> v'"
    and z: "binop_in True MulOp t x y = Some z"
  shows "z = x * y"
proof (cases "no_overflow_int t")
  case True
  then show ?thesis using z by (auto simp: exact_no_overflow)
next
  case False
  have r: "in_range t (p * q)" if "p \<in> {u, v}" "q \<in> {u', v'}" for p q
  proof -
    have "fit_in True t (p * q) = Some (p * q)" using E that unfolding corners_fit_def by blast
    then show ?thesis using fit_in_Some_range [of True t "p * q"] False by (auto simp: range_in_def)
  qed
  have "type_lo t \<le> x * y \<and> x * y \<le> type_hi t"
    by (rule product_corners [OF assms(3-6)]) (use r in \<open>auto simp: in_range_def\<close>)
  then have "in_range t (x * y)" using r [of u u'] by (simp add: in_range_def)
  then show ?thesis using z fit_in_range_in [of True t "x * y"] by (simp add: range_in_def)
qed

lemma mul_interval_sound:
  assumes S: "setting c r" and T: "node_type (type_of x) t"
    and a: "brackets True True W r t a xs" and b: "brackets True True W r t b ys"
    and z: "lanes_of MulOp t xs ys zs" "zs \<noteq> []"
    and u: "bval True W r t (interval_min a) u" and v: "bval True W r t (interval_max a) v"
    and u': "bval True W r t (interval_min b) u'" and v': "bval True W r t (interval_max b) v'"
  shows "\<exists>i. mul_interval c x y a b = Inr i \<and> (corners_fit t u v u' v' \<longrightarrow> brackets bd ec W r t i zs)"
proof -
  let ?h = "addrs c"
  have h: "infinities_shared ?h" and r: "env_type_ok r" using S by (simp_all add: setting_def)
  note f = node_type_facts [OF T] and ba = brackets_is_bounded [OF h a] and bb = brackets_is_bounded [OF h b]
  have xr: "\<forall>x \<in> set xs. u \<le> x \<and> x \<le> v" and yr: "\<forall>y \<in> set ys. u' \<le> y \<and> y \<le> v'"
    using brackets_bounded [OF h a ba(3)] brackets_bounded [OF h b bb(3)] u v u' v' bval_unique by blast+
  have zE: "\<exists>x \<in> set xs. \<exists>y \<in> set ys. z = x * y \<and> u \<le> x \<and> x \<le> v \<and> u' \<le> y \<and> y \<le> v'"
    if "corners_fit t u v u' v'" "z \<in> set zs" for z
    using z(1) that xr yr product_exact [OF f(1) that(1)] unfolding lanes_of_def by metis
  define M where "M p q = the (fit_in True t (p * q))" for p q
  have M: "fit_in True t (p * q) = Some (M p q)" for p q
    using fit_in_Some [OF elem_type_int [OF f(1)], of "p * q"] by (auto simp: M_def)
  have ME: "corners_fit t u v u' v' \<Longrightarrow> p \<in> {u, v} \<Longrightarrow> q \<in> {u', v'} \<Longrightarrow> M p q = p * q" for p q
    unfolding corners_fit_def M by blast
  have mul: "operator_ee MulOp (Some p) (Some q) = Inr (Binary MulOp p q) \<and> bval ec W r t (Binary MulOp p q) (M i j)"
    if "bval True W r t p i" "bval True W r t q j" for p q i j
    using bval_arith [OF that, of MulOp "M i j"] M by auto
  have single: "\<exists>i. (if is_zero (interval_min b) then Inr b
        else signed_interval c GEOp (type_of x) a (interval_min b) (Binary MulOp (interval_min a) (interval_min b))
          (Binary MulOp (interval_max a) (interval_min b))) = Inr i \<and> brackets bd ec W r t i zs'"
    if sb: "is_single_point ?h b" and zs': "\<forall>z \<in> set zs'. corners_fit t u v u' v' \<and> z \<in> set zs" for zs'
  proof -
    have uv: "u' = v'" using brackets_is_single [OF h b sb] u' v' bval_unique by metis
    have zz: "\<exists>x. z = x * u' \<and> u \<le> x \<and> x \<le> v" if "z \<in> set zs'" for z
      using zE [of z] zs' that uv by fastforce
    show ?thesis
    proof (cases "is_zero (interval_min b)")
      case True
      then have "u' = 0" using u' is_zero_eval [of "interval_min b" True r "[u']" u'] by (auto simp: fin_def)
      then have "brackets bd ec W r t b zs'"
        using zz u' v' uv by (intro brackets_weaken [of True True, OF bracketsI [OF u' v']]) force+
      then show ?thesis using True by simp
    next
      case False
      have "\<forall>z \<in> set zs'. M u u' \<le> z \<and> z \<le> M v u'" if "0 \<le> u'"
        using zz zs' ME [of u u'] ME [of v u'] that mult_right_mono by fastforce
      moreover have "\<forall>z \<in> set zs'. M v u' \<le> z \<and> z \<le> M u u'" if "u' < 0"
        using zz zs' ME [of u u'] ME [of v u'] that mult_right_mono_neg by fastforce
      ultimately show ?thesis
        using signed_interval_sound [OF T h ba(3) u' conjunct2 [OF mul [OF u u']] conjunct2 [OF mul [OF v u']]] False by simp
    qed
  qed
  have corners: "\<exists>i. include_all ?h [operator_ee MulOp (Some (interval_min a)) (Some (interval_min b)),
        operator_ee MulOp (Some (interval_min a)) (Some (interval_max b)),
        operator_ee MulOp (Some (interval_max a)) (Some (interval_min b)),
        operator_ee MulOp (Some (interval_max a)) (Some (interval_max b))] nothing = Inr i \<and> brackets bd ec W r t i zs'"
    if zs': "\<forall>z \<in> set zs'. corners_fit t u v u' v' \<and> z \<in> set zs" for zs'
  proof (rule include_four [OF h r])
    show "\<forall>z \<in> set zs'. \<forall>l m. (\<forall>w \<in> {M u u', M u v', M v u', M v v'}. l \<le> w \<and> w \<le> m) \<longrightarrow> l \<le> z \<and> z \<le> m"
    proof (intro ballI allI impI)
      fix z l m
      assume "z \<in> set zs'" and b: "\<forall>w \<in> {M u u', M u v', M v u', M v v'}. l \<le> w \<and> w \<le> m"
      then have E: "corners_fit t u v u' v'" and "z \<in> set zs" using zs' by auto
      then obtain x y where xy: "z = x * y" "u \<le> x" "x \<le> v" "u' \<le> y" "y \<le> v'" using zE by blast
      have "\<forall>p \<in> {u, v}. \<forall>q \<in> {u', v'}. l \<le> p * q \<and> p * q \<le> m" using b ME [OF E] by auto
      then show "l \<le> z \<and> z \<le> m" using product_corners [OF xy(2-5)] xy(1) by blast
    qed
  qed (use mul u v u' v' in blast)+
  show ?thesis
  proof (cases "is_single_point_at ?h a x \<and> is_single_point_at ?h b y")
    case True
    then show ?thesis using single_points_at [OF h _ z a _ b] by (simp add: mul_interval_def Let_def)
  next
    case na: False
    show ?thesis
    proof (cases "is_single_point ?h b")
      case sb: True
      show ?thesis
      proof (cases "is_single_point ?h a")
        case True
        then show ?thesis using single_points_both [OF h _ z a _ b sb] sb na by (auto simp: mul_interval_def Let_def)
      next
        case False
        then show ?thesis
          using single [OF sb, of "[]"] single [OF sb, of zs] na sb mul [OF u u'] mul [OF v u'] ba
          by (auto simp: mul_interval_def Let_def bound_times_def)
      qed
    next
      case nb: False
      then show ?thesis using corners [of "[]"] corners [of zs] na ba bb by (auto simp: mul_interval_def Let_def)
    qed
  qed
qed

lemma mul_tests_sound:
  assumes S: "setting c r" and t: "elem_type t" "bits t < 32"
    and u: "bval True W r t (interval_min a) u" and v: "bval True W r t (interval_max a) v"
    and u': "bval True W r t (interval_min b) u'" and v': "bval True W r t (interval_max b) v'"
  obtains p where "mul_tests c a b = Inr p" and "p \<Longrightarrow> corners_fit t u v u' v'"
proof -
  have s: "exact_simplifier (simplifier c)" using S by (simp add: setting_def)
  have test: "\<exists>e. rbind (operator_ee MulOp (Some p) (Some q)) (int_test MulOp p q) = Inr e \<and>
      truth r e (fit_in True t (i * j) = Some (i * j))"
    if p: "bval True W r t p i" and q: "bval True W r t q j" for p q i j
  proof -
    obtain z where z: "operator_ee MulOp (Some p) (Some q) = Inr (Binary MulOp p q)" "bval False W r t (Binary MulOp p q) z"
        "fit_in True t (arith MulOp i j) = Some z" using bval_arith_fit [OF t(1) _ p q, of MulOp False] by auto
    show ?thesis
      using int_test_sound [OF t _ bval_weaken [OF p] bval_weaken [OF q] z(2), of MulOp] z(1,3)
      by (simp add: eq_commute [of z])
  qed
  obtain e1 e2 e3 e4 where
      e: "rbind (operator_ee MulOp (Some (interval_min a)) (Some (interval_min b))) (int_test MulOp (interval_min a) (interval_min b)) = Inr e1"
        "truth r e1 (fit_in True t (u * u') = Some (u * u'))"
        "rbind (operator_ee MulOp (Some (interval_min a)) (Some (interval_max b))) (int_test MulOp (interval_min a) (interval_max b)) = Inr e2"
        "truth r e2 (fit_in True t (u * v') = Some (u * v'))"
        "rbind (operator_ee MulOp (Some (interval_max a)) (Some (interval_min b))) (int_test MulOp (interval_max a) (interval_min b)) = Inr e3"
        "truth r e3 (fit_in True t (v * u') = Some (v * u'))"
        "rbind (operator_ee MulOp (Some (interval_max a)) (Some (interval_max b))) (int_test MulOp (interval_max a) (interval_max b)) = Inr e4"
        "truth r e4 (fit_in True t (v * v') = Some (v * v'))"
    using test [OF u u'] test [OF u v'] test [OF v u'] test [OF v v'] by blast
  note t12 = truth_and [OF e(2,4)]
  note t123 = truth_and [OF conjunct2 [OF t12] e(6)]
  note t1234 = truth_and [OF conjunct2 [OF t123] e(8)]
  obtain p where p: "can_prove (simplifier c) (Binary AndOp (Binary AndOp (Binary AndOp e1 e2) e3) e4) = Inr p"
    "p \<Longrightarrow> ((fit_in True t (u * u') = Some (u * u') \<and> fit_in True t (u * v') = Some (u * v')) \<and>
      fit_in True t (v * u') = Some (v * u')) \<and> fit_in True t (v * v') = Some (v * v')"
    using can_prove_truth [OF s conjunct2 [OF t1234]] by blast
  have "mul_tests c a b = Inr p"
    using e(1,3,5,7) t12 t123 t1234 p(1) unfolding mul_tests_def Let_def by (simp del: rbind_eq_Inr add: rbind_def)
  then show thesis using that p(2) by (auto simp: corners_fit_def)
qed

lemma lanes_of_mult_commute: "lanes_of MulOp t xs ys zs = lanes_of MulOp t ys xs zs"
  unfolding lanes_of_def by (auto simp: mult.commute) (metis mult.commute)+

lemma bounds_mul_sound:
  assumes S: "setting c r" and T: "node_type (type_of x) t" and ct: "checked_type t"
    and "brackets True True W r t a xs" and "brackets True True W r t b ys"
    and "lanes_of MulOp t xs ys zs" and nz: "zs \<noteq> []"
  shows "\<exists>i. bounds_mul c x y a b = Inr i \<and> brackets bd ec W r t i zs"
proof -
  let ?h = "addrs c"
  have h: "infinities_shared ?h" using S by (simp add: setting_def)
  note f = node_type_facts [OF T]
  define s where "s = (is_single_point ?h a \<and> \<not> is_single_point ?h b)"
  obtain a' b' xs' ys' where sw: "(a', b') = (if s then (b, a) else (a, b))"
    and a: "brackets True True W r t a' xs'" and b: "brackets True True W r t b' ys'" and z: "lanes_of MulOp t xs' ys' zs"
    using assms(4-6) lanes_of_mult_commute by (cases s) auto
  note ba = brackets_is_bounded [OF h a] and bb = brackets_is_bounded [OF h b]
  obtain u v u' v' where uv: "bval True W r t (interval_min a') u" "bval True W r t (interval_max a') v"
    "bval True W r t (interval_min b') u'" "bval True W r t (interval_max b') v'"
    using brackets_bounded [OF h a ba(3)] brackets_bounded [OF h b bb(3)] by blast
  obtain i where i: "mul_interval c x y a' b' = Inr i" "corners_fit t u v u' v' \<Longrightarrow> brackets bd ec W r t i zs"
    using mul_interval_sound [OF S T a b z nz uv] by blast
  have eq: "bounds_mul c x y a b = rbind (mul_interval c x y a' b') (\<lambda>i.
      if bits (type_of x) < 32 \<and> \<not> is_float (type_of x) then
        if is_bounded ?h a' \<and> is_bounded ?h b' then
          rbind (mul_tests c a' b') (\<lambda>p. if \<not> p then bounds_of_type (type_of x) else Inr i)
        else bounds_of_type (type_of x)
      else Inr i)"
    using sw by (cases s) (auto simp: bounds_mul_def s_def [symmetric] Let_def)
  have zr: "\<forall>z \<in> set zs. range_in True t z" using lanes_of_range [OF _ z] by (simp add: is_arith_def)
  show ?thesis
  proof (cases "bits t < 32")
    case True
    obtain p where p: "mul_tests c a' b' = Inr p" "p \<Longrightarrow> corners_fit t u v u' v'"
      using mul_tests_sound [OF S f(1) True uv] by blast
    show ?thesis
      using eq i p f True ba bb narrow_bounds_of_type [OF T _ zr, of bd ec W r] by (cases p) auto
  next
    case False
    then have "no_overflow_int t" using ct by (simp add: checked_type_def)
    then have "corners_fit t u v u' v'" by (simp add: corners_fit_def exact_no_overflow)
    then show ?thesis using eq i f False by auto
  qed
qed

subsection \<open>Quotients and remainders\<close>

definition div_type :: "Type \<Rightarrow> bool" where
  "div_type t \<longleftrightarrow> no_overflow_int t \<or> is_uint t"

lemma div_exact:
  assumes t: "elem_type t" "div_type t" and x: "range_in True t x" and y: "range_in True t y" and nz: "y \<noteq> 0"
  shows "binop_in True DivOp t x y = Some (ediv x y)"
proof (cases "no_overflow_int t")
  case False
  then have u: "is_uint t" using t by (simp add: div_type_def)
  have r: "0 \<le> x" "x \<le> type_hi t" "0 < y"
    using x y nz False u by (auto simp: range_in_def in_range_def type_lo_def)
  have "ediv x y = x div y" using r(3) by (simp add: ediv_def)
  moreover have "0 \<le> x div y" "x div y \<le> x" using r using zdiv_mono2 [of x 1 y] by (auto simp: pos_imp_zdiv_nonneg_iff)
  ultimately have "in_range t (ediv x y)" using r u by (simp add: in_range_def type_lo_def)
  then show ?thesis using nz by (simp add: fit_in_range_in range_in_def)
qed (use nz in \<open>simp add: exact_no_overflow\<close>)

lemma ediv_mono: "u \<le> x \<Longrightarrow> 0 < w \<Longrightarrow> ediv u w \<le> ediv x w" "u \<le> x \<Longrightarrow> w < 0 \<Longrightarrow> ediv x w \<le> ediv u w"
  by (auto simp: ediv_def zdiv_mono1)

lemma ediv_between:
  fixes x :: int
  assumes "0 < u'" and "u' \<le> y" and "y \<le> v'" and "l \<le> x div u'" "x div u' \<le> m" "l \<le> x div v'" "x div v' \<le> m"
  shows "l \<le> x div y \<and> x div y \<le> m"
proof (cases "0 \<le> x")
  case True
  then have "x div v' \<le> x div y" "x div y \<le> x div u'" using assms(1-3) by (auto intro: zdiv_mono2)
  then show ?thesis using assms by linarith
next
  case False
  then have "x div y \<le> x div v'" "x div u' \<le> x div y" using assms(1-3) by (auto intro: zdiv_mono2_neg)
  then show ?thesis using assms by linarith
qed

lemma div_corners_pos:
  fixes x :: int
  assumes "u \<le> x" "x \<le> v" and "0 < u'" "u' \<le> y" "y \<le> v'"
    and c: "\<forall>p \<in> {u, v}. \<forall>q \<in> {u', v'}. l \<le> p div q \<and> p div q \<le> m"
  shows "l \<le> x div y \<and> x div y \<le> m"
proof (rule ediv_between [OF assms(3-5)])
  have m: "u div q \<le> x div q \<and> x div q \<le> v div q" if "0 < q" for q using assms(1,2) that by (auto intro: zdiv_mono1)
  show "l \<le> x div u'" "x div u' \<le> m" using m [of u'] c assms(3) by force+
  show "l \<le> x div v'" "x div v' \<le> m" using m [of v'] c assms(3-5) by force+
qed

lemma div_corners:
  assumes "u \<le> x" "x \<le> v" and "u' \<le> y" "y \<le> v'" and s: "0 < u' \<or> v' < 0"
    and c: "\<forall>p \<in> {u, v}. \<forall>q \<in> {u', v'}. l \<le> ediv p q \<and> ediv p q \<le> m"
  shows "l \<le> ediv x y \<and> ediv x y \<le> m"
proof (cases "0 < u'")
  case True
  then show ?thesis using div_corners_pos [OF assms(1,2) True assms(3,4), of l m] c assms(3,4)
    by (auto simp: ediv_def)
next
  case False
  then have n: "v' < 0" "y < 0" "u' < 0" using s assms by linarith+
  have "- m \<le> x div (- y) \<and> x div (- y) \<le> - l"
    by (rule div_corners_pos [OF assms(1,2), where u' = "- v'" and v' = "- u'"]) (use n assms(3,4) c in \<open>auto simp: ediv_def\<close>)
  then show ?thesis using n by (auto simp: ediv_def)
qed

lemma static_sign_sound:
  assumes S: "setting c r" and t: "elem_type t" and b: "bval True W r t b w"
  shows "\<exists>s. static_sign c b = Inr s \<and> (s = 1 \<longrightarrow> 0 < w) \<and> (s = - 1 \<longrightarrow> w < 0) \<and> (s = 0 \<or> s = 1 \<or> s = - 1) \<and>
    (is_positive_const b \<longrightarrow> s = 1)"
proof -
  have h: "addresses_ok (addrs c)" and ss: "exact_simplifier (simplifier c)" and r: "env_type_ok r"
    using S by (simp_all add: setting_def infinities_shared_def)
  have tb: "elem_type (type_of b)" "type_eq (type_of b) t" using b t wf_expr_type_wf [of b]
    by (auto simp: elem_type_def const_type_def fin_def type_eq_def type_predicates)
  obtain z where z: "make_zero (type_of b) = Inr z" "bval True W r (type_of b) z 0" using bval_zero_one [OF tb(1)] by blast
  then have z0: "bval True W r t z 0" using bval_type_cong [OF tb(2)] elem_type_handle [OF t] by simp
  have bt: "elem_type (UInt_t 1 1)" by (simp add: elem_type_def const_type_def type_ctor_simps is_uint_def is_scalar_def)
  obtain u where u: "const_true 1 = Inr u" "bval True W r (UInt_t 1 1) u (wrap (UInt_t 1 1) 1)"
    using bval_zero_one [OF bt, of True W r] unfolding const_true_def by blast
  have u1: "wrap (UInt_t 1 1) 1 = 1" by (rule wrap_in_range) (simp add: eval_concrete)
  have cmp: "operator_ee op (Some b) (Some z) = Inr (Binary op b z) \<and>
      (equal_expr (addrs c) (Some u) (Some (simplifier c (Binary op b z))) \<longrightarrow> p)"
    if op: "op = GTOp \<and> p = (0 < w) \<or> op = LTOp \<and> p = (w < 0)" for op p
  proof -
    have tr: "operator_ee op (Some b) (Some z) = Inr (Binary op b z) \<and> truth r (Binary op b z) p"
      by (rule truth_cmp [OF b z0]) (use op elem_type_scalar [OF t] in auto)
    then have sm: "wf_expr (simplifier c (Binary op b z))" "eval_in True r (simplifier c (Binary op b z)) = Some [of_bool p]"
      using ss unfolding truth_def exact_simplifier_def by blast+
    have "p" if "equal_expr (addrs c) (Some u) (Some (simplifier c (Binary op b z)))"
    proof -
      have "cmp_e u (simplifier c (Binary op b z)) = Equal" using that h by (simp add: equal_expr_cmp)
      then have "eval_in True r u = eval_in True r (simplifier c (Binary op b z))"
        using eval_in_cmp_e sm(1) u(2) r by (auto simp: fin_def)
      then show ?thesis using sm(2) u(2) u1 by (auto simp: fin_def)
    qed
    then show ?thesis using tr by blast
  qed
  show ?thesis using z(1) u(1) cmp [of GTOp "0 < w"] cmp [of LTOp "w < 0"] bval_sign [OF b]
    unfolding static_sign_def by (auto split: if_splits)
qed

lemma bounds_div_sound:
  assumes S: "setting c r" and T: "node_type (type_of x) t" and dt: "div_type t"
    and a: "brackets True True W r t a xs" and b: "brackets True True W r t b ys"
    and z: "lanes_of DivOp t xs ys zs" and nz: "zs \<noteq> []"
    and bd: "bd \<Longrightarrow> is_positive_const (interval_min b) \<and> is_positive_const (interval_max b)"
  shows "\<exists>i. bounds_div c x y a b = Inr i \<and> brackets bd ec W r t i zs"
proof -
  let ?h = "addrs c"
  have h: "infinities_shared ?h" and r: "env_type_ok r" and s: "exact_simplifier (simplifier c)"
    using S by (simp_all add: setting_def)
  note f = node_type_facts [OF T]
  note ba = brackets_is_bounded [OF h a] and bb = brackets_is_bounded [OF h b]
  obtain u v where u: "bval True W r t (interval_min a) u" and v: "bval True W r t (interval_max a) v"
    and xr: "\<forall>x \<in> set xs. u \<le> x \<and> x \<le> v" using brackets_bounded [OF h a ba(3)] by blast
  obtain u' v' where u': "bval True W r t (interval_min b) u'" and v': "bval True W r t (interval_max b) v'"
    and yr: "\<forall>y \<in> set ys. u' \<le> y \<and> y \<le> v'" using brackets_bounded [OF h b bb(3)] by blast
  have rg: "range_in True t u" "range_in True t v" "range_in True t u'" "range_in True t v'"
    using bval_range u v u' v' by blast+
  have zE: "\<exists>x \<in> set xs. \<exists>y \<in> set ys. y \<noteq> 0 \<and> z = ediv x y \<and> u \<le> x \<and> x \<le> v \<and> u' \<le> y \<and> y \<le> v'" if zs: "z \<in> set zs" for z
  proof -
    obtain x y where xy: "x \<in> set xs" "y \<in> set ys" "binop_in True DivOp t x y = Some z" "range_in True t x" "range_in True t y"
      using z zs unfolding lanes_of_def by blast
    then have "y \<noteq> 0" by (auto split: if_splits)
    then show ?thesis using div_exact [OF f(1) dt xy(4,5)] xy xr yr by auto
  qed
  have quot: "operator_ee DivOp (Some p) (Some q) = Inr (Binary DivOp p q) \<and> bval ec W r t (Binary DivOp p q) (ediv i j)"
    if "bval True W r t p i" "bval True W r t q j" "j \<noteq> 0" for p q i j
    using bval_arith [OF that(1,2), of DivOp "ediv i j"] div_exact [OF f(1) dt bval_range [OF that(1)] bval_range [OF that(2)] that(3)] by auto
  have eq: "operator_ee EQOp (Some (interval_min b)) (Some (interval_max b)) = Inr (Binary EQOp (interval_min b) (interval_max b)) \<and>
      truth r (Binary EQOp (interval_min b) (interval_max b)) (u' = v')"
    by (rule truth_cmp [OF u' v']) (use elem_type_scalar [OF f(1)] in auto)
  obtain same where same: "can_prove (simplifier c) (Binary EQOp (interval_min b) (interval_max b)) = Inr same" "same \<Longrightarrow> u' = v'"
    using can_prove_truth [OF s conjunct2 [OF eq]] by blast
  have eqc: "\<exists>i. rbind (bound_times DivOp (has_lower_bound ?h a) (interval_min a) (interval_min b)) (\<lambda>e1.
          rbind (bound_times DivOp (has_upper_bound ?h a) (interval_max a) (interval_max b)) (\<lambda>e2.
          signed_interval c GTOp (type_of x) a (interval_min b) e1 e2)) = Inr i \<and> brackets bd ec W r t i zs" if "same"
  proof -
    have uv: "u' = v'" using same(2) that .
    have w0: "u' \<noteq> 0" using zE [of "hd zs"] nz uv by force
    have zz: "\<exists>x. z = ediv x u' \<and> u \<le> x \<and> x \<le> v" if "z \<in> set zs" for z using zE [OF that] uv by force
    have "0 \<le> u' \<Longrightarrow> \<forall>z \<in> set zs. ediv u u' \<le> z \<and> z \<le> ediv v u'" "u' < 0 \<Longrightarrow> \<forall>z \<in> set zs. ediv v u' \<le> z \<and> z \<le> ediv u u'"
      using zz ediv_mono [of u _ u'] ediv_mono [of _ v u'] w0 by fastforce+
    then show ?thesis
      using signed_interval_sound [OF T h ba(3) u' conjunct2 [OF quot [OF u u' w0]] conjunct2 [OF quot [OF v v' w0 [unfolded uv]]], of GTOp zs bd]
        quot [OF u u' w0] quot [OF v v'] w0 uv ba by (auto simp: bound_times_def)
  qed
  obtain s1 where s1: "static_sign c (interval_min b) = Inr s1" "s1 = 1 \<Longrightarrow> 0 < u'" "s1 = - 1 \<Longrightarrow> u' < 0"
      "s1 = 0 \<or> s1 = 1 \<or> s1 = - 1" "is_positive_const (interval_min b) \<Longrightarrow> s1 = 1" using static_sign_sound [OF S f(1) u'] by metis
  obtain s2 where s2: "static_sign c (interval_max b) = Inr s2" "s2 = 1 \<Longrightarrow> 0 < v'" "s2 = - 1 \<Longrightarrow> v' < 0"
      "s2 = 0 \<or> s2 = 1 \<or> s2 = - 1" "is_positive_const (interval_max b) \<Longrightarrow> s2 = 1" using static_sign_sound [OF S f(1) v'] by metis
  have inc: "\<exists>i. include_all ?h [operator_ee DivOp (Some (interval_min a)) (Some (interval_min b)),
        operator_ee DivOp (Some (interval_max a)) (Some (interval_min b)),
        operator_ee DivOp (Some (interval_min a)) (Some (interval_max b)),
        operator_ee DivOp (Some (interval_max a)) (Some (interval_max b))] nothing = Inr i \<and> brackets bd ec W r t i zs"
    if "s1 = s2" "s1 \<noteq> 0"
  proof (rule include_four [OF h r])
    have sg: "0 < u' \<or> v' < 0" and n: "u' \<noteq> 0" "v' \<noteq> 0" using s1 s2 that by auto
    show "\<forall>z \<in> set zs. \<forall>l m. (\<forall>w \<in> {ediv u u', ediv v u', ediv u v', ediv v v'}. l \<le> w \<and> w \<le> m) \<longrightarrow> l \<le> z \<and> z \<le> m"
    proof (intro ballI allI impI)
      fix z l m
      assume zz: "z \<in> set zs" and c: "\<forall>w \<in> {ediv u u', ediv v u', ediv u v', ediv v v'}. l \<le> w \<and> w \<le> m"
      obtain p q where pq: "z = ediv p q" "u \<le> p" "p \<le> v" "u' \<le> q" "q \<le> v'" using zE [OF zz] by blast
      have "\<forall>p \<in> {u, v}. \<forall>q \<in> {u', v'}. l \<le> ediv p q \<and> ediv p q \<le> m" using c by simp
      then show "l \<le> z \<and> z \<le> m" using div_corners [OF pq(2-5) sg] pq(1) by blast
    qed
    show "\<exists>e. operator_ee DivOp (Some (interval_min a)) (Some (interval_min b)) = Inr e \<and> bval ec W r t e (ediv u u')"
      "\<exists>e. operator_ee DivOp (Some (interval_max a)) (Some (interval_min b)) = Inr e \<and> bval ec W r t e (ediv v u')"
      "\<exists>e. operator_ee DivOp (Some (interval_min a)) (Some (interval_max b)) = Inr e \<and> bval ec W r t e (ediv u v')"
      "\<exists>e. operator_ee DivOp (Some (interval_max a)) (Some (interval_max b)) = Inr e \<and> bval ec W r t e (ediv v v')"
      using quot u v u' v' n by blast+
  qed
  show ?thesis
  proof (cases "is_single_point_at ?h a x \<and> is_single_point_at ?h b y")
    case True
    then show ?thesis using single_points_at [OF h _ z nz a _ b] bb(3) by (simp add: bounds_div_def Let_def)
  next
    case na: False
    show ?thesis
    proof (cases same)
      case True
      then show ?thesis using eqc [OF True] eq same(1) na bb(3) unfolding bounds_div_def Let_def by auto
    next
      case False
      show ?thesis
      proof (cases "s1 \<noteq> s2 \<or> s1 = 0")
        case True
        then have "\<not> bd" using bd s1(5) s2(5) by auto
        then show ?thesis using brackets_everything [of bd] True eq same(1) na bb(3) ba(3) s1(1) s2(1) False
          unfolding bounds_div_def Let_def by (auto simp del: include_all.simps)
      next
        case pos: False
        then show ?thesis using inc eq same(1) na bb(3) ba(3) s1(1) s2(1) False
          unfolding bounds_div_def Let_def by (auto simp del: include_all.simps)
      qed
    qed
  qed
qed

end
