(* ===== verification/BoundsCases.thy ===== *)
theory BoundsCases
  imports BoundsArith
begin

text \<open>
  The visits of \<open>Bounds\<close> that choose between bounds or change their type: minimum and
  maximum, remainder, selection and cast, with \<open>find_constant_bound\<close>.
\<close>

subsection \<open>Extrema\<close>

lemma below_bound:
  "below bd ec W r t e xs \<longleftrightarrow> bound_ok True (bound_pred ec W) r t e \<and>
     (\<exists>v. bound_val True r e = Some v \<and> v \<noteq> PosInf \<and> (bd \<longrightarrow> v \<noteq> NegInf) \<and> (\<forall>x \<in> set xs. v \<le> Fin x))"
proof
  assume "below bd ec W r t e xs"
  then consider "e = neg_inf" "\<not> bd" | v where "bval ec W r t e v" "\<forall>x \<in> set xs. v \<le> x" unfolding below_def by blast
  then show "bound_ok True (bound_pred ec W) r t e \<and>
     (\<exists>v. bound_val True r e = Some v \<and> v \<noteq> PosInf \<and> (bd \<longrightarrow> v \<noteq> NegInf) \<and> (\<forall>x \<in> set xs. v \<le> Fin x))"
  proof cases
    case 1
    then show ?thesis by (auto simp: bound_ok_def)
  next
    case (2 v)
    then show ?thesis using bval_bound_ok [OF 2(1)] by auto
  qed
next
  assume a: "bound_ok True (bound_pred ec W) r t e \<and>
     (\<exists>v. bound_val True r e = Some v \<and> v \<noteq> PosInf \<and> (bd \<longrightarrow> v \<noteq> NegInf) \<and> (\<forall>x \<in> set xs. v \<le> Fin x))"
  then have "bound_ok True (bound_pred ec W) r t e" by blast
  then show "below bd ec W r t e xs"
  proof (cases rule: bound_ok_cases)
    case (3 x)
    then show ?thesis using a bval_bound_ok [OF 3] unfolding below_def by auto
  qed (use a in \<open>auto simp: below_def\<close>)
qed

lemma above_bound:
  "above bd ec W r t e xs \<longleftrightarrow> bound_ok True (bound_pred ec W) r t e \<and>
     (\<exists>v. bound_val True r e = Some v \<and> v \<noteq> NegInf \<and> (bd \<longrightarrow> v \<noteq> PosInf) \<and> (\<forall>x \<in> set xs. Fin x \<le> v))"
proof
  assume "above bd ec W r t e xs"
  then consider "e = pos_inf" "\<not> bd" | v where "bval ec W r t e v" "\<forall>x \<in> set xs. x \<le> v" unfolding above_def by blast
  then show "bound_ok True (bound_pred ec W) r t e \<and>
     (\<exists>v. bound_val True r e = Some v \<and> v \<noteq> NegInf \<and> (bd \<longrightarrow> v \<noteq> PosInf) \<and> (\<forall>x \<in> set xs. Fin x \<le> v))"
  proof cases
    case 1
    then show ?thesis by (auto simp: bound_ok_def)
  next
    case (2 v)
    then show ?thesis using bval_bound_ok [OF 2(1)] by auto
  qed
next
  assume a: "bound_ok True (bound_pred ec W) r t e \<and>
     (\<exists>v. bound_val True r e = Some v \<and> v \<noteq> NegInf \<and> (bd \<longrightarrow> v \<noteq> PosInf) \<and> (\<forall>x \<in> set xs. Fin x \<le> v))"
  then have "bound_ok True (bound_pred ec W) r t e" by blast
  then show "above bd ec W r t e xs"
  proof (cases rule: bound_ok_cases)
    case (3 x)
    then show ?thesis using a bval_bound_ok [OF 3] unfolding above_def by auto
  qed (use a in \<open>auto simp: above_def\<close>)
qed

text \<open>
  A maximum of bounds is a bound of what is on the right side of both, a minimum of what is
  on the right side of one, and the other way round.
\<close>

lemma ext_int_cases_max_min:
  "v \<noteq> PosInf \<Longrightarrow> w \<noteq> PosInf \<Longrightarrow> max v w \<noteq> PosInf" "v \<noteq> NegInf \<Longrightarrow> w \<noteq> NegInf \<Longrightarrow> min v w \<noteq> NegInf"
  "v \<noteq> PosInf \<Longrightarrow> w \<noteq> PosInf \<Longrightarrow> min v w \<noteq> PosInf" "v \<noteq> NegInf \<Longrightarrow> w \<noteq> NegInf \<Longrightarrow> max v w \<noteq> NegInf"
  for v w :: ext_int
  by (auto simp: max_def min_def)

lemma fin_mono: "Fin x \<le> Fin y \<longleftrightarrow> x \<le> y"
  by simp

lemma in_range_down: "range_in True t y \<Longrightarrow> 0 \<le> x \<Longrightarrow> x \<le> y \<Longrightarrow> range_in True t x"
  unfolding range_in_def in_range_def type_lo_def by (auto intro: order_trans [of _ 0])

lemma below_extrema:
  assumes h: "infinities_shared h" and r: "env_type_ok r"
    and a: "below bd ec W r t a xs" and b: "below bd ec W r t b ys"
  shows "\<forall>z \<in> set zs. (\<exists>x \<in> set xs. x \<le> z) \<or> (\<exists>y \<in> set ys. y \<le> z) \<Longrightarrow>
      \<exists>e. make_min h a b = Inr e \<and> below bd ec W r t e zs"
    and "\<forall>z \<in> set zs. (\<exists>x \<in> set xs. x \<le> z) \<and> (\<exists>y \<in> set ys. y \<le> z) \<Longrightarrow>
      \<exists>e. make_max h a b = Inr e \<and> below bd ec W r t e zs"
proof -
  obtain v w where v: "bound_val True r a = Some v" "v \<noteq> PosInf" "bd \<longrightarrow> v \<noteq> NegInf" "\<forall>x \<in> set xs. v \<le> Fin x"
    and w: "bound_val True r b = Some w" "w \<noteq> PosInf" "bd \<longrightarrow> w \<noteq> NegInf" "\<forall>y \<in> set ys. w \<le> Fin y"
    and ok: "bound_ok True (bound_pred ec W) r t a" "bound_ok True (bound_pred ec W) r t b"
    using a b unfolding below_bound by blast
  have le: "v \<le> Fin z" if "x \<in> set xs" "x \<le> z" for x z
    using v(4) that by (metis fin_mono order_trans)
  have le': "w \<le> Fin z" if "y \<in> set ys" "y \<le> z" for y z
    using w(4) that by (metis fin_mono order_trans)
  show "\<exists>e. make_min h a b = Inr e \<and> below bd ec W r t e zs"
    if "\<forall>z \<in> set zs. (\<exists>x \<in> set xs. x \<le> z) \<or> (\<exists>y \<in> set ys. y \<le> z)"
  proof -
    have "\<forall>z \<in> set zs. min v w \<le> Fin z" using that le le' by (meson min.coboundedI1 min.coboundedI2)
    then show ?thesis using bounds.make_min_bound [OF h r ok] v w ext_int_cases_max_min
      unfolding below_bound by (metis option.sel)
  qed
  show "\<exists>e. make_max h a b = Inr e \<and> below bd ec W r t e zs"
    if "\<forall>z \<in> set zs. (\<exists>x \<in> set xs. x \<le> z) \<and> (\<exists>y \<in> set ys. y \<le> z)"
  proof -
    have "\<forall>z \<in> set zs. max v w \<le> Fin z" using that le le' by (meson max.boundedI)
    then show ?thesis using bounds.make_max_bound [OF h r ok] v w ext_int_cases_max_min
      unfolding below_bound by (metis option.sel)
  qed
qed

lemma above_extrema:
  assumes h: "infinities_shared h" and r: "env_type_ok r"
    and a: "above bd ec W r t a xs" and b: "above bd ec W r t b ys"
  shows "\<forall>z \<in> set zs. (\<exists>x \<in> set xs. z \<le> x) \<or> (\<exists>y \<in> set ys. z \<le> y) \<Longrightarrow>
      \<exists>e. make_max h a b = Inr e \<and> above bd ec W r t e zs"
    and "\<forall>z \<in> set zs. (\<exists>x \<in> set xs. z \<le> x) \<and> (\<exists>y \<in> set ys. z \<le> y) \<Longrightarrow>
      \<exists>e. make_min h a b = Inr e \<and> above bd ec W r t e zs"
proof -
  obtain v w where v: "bound_val True r a = Some v" "v \<noteq> NegInf" "bd \<longrightarrow> v \<noteq> PosInf" "\<forall>x \<in> set xs. Fin x \<le> v"
    and w: "bound_val True r b = Some w" "w \<noteq> NegInf" "bd \<longrightarrow> w \<noteq> PosInf" "\<forall>y \<in> set ys. Fin y \<le> w"
    and ok: "bound_ok True (bound_pred ec W) r t a" "bound_ok True (bound_pred ec W) r t b"
    using a b unfolding above_bound by blast
  have le: "Fin z \<le> v" if "x \<in> set xs" "z \<le> x" for x z
    using v(4) that by (metis fin_mono order_trans)
  have le': "Fin z \<le> w" if "y \<in> set ys" "z \<le> y" for y z
    using w(4) that by (metis fin_mono order_trans)
  show "\<exists>e. make_max h a b = Inr e \<and> above bd ec W r t e zs"
    if "\<forall>z \<in> set zs. (\<exists>x \<in> set xs. z \<le> x) \<or> (\<exists>y \<in> set ys. z \<le> y)"
  proof -
    have "\<forall>z \<in> set zs. Fin z \<le> max v w" using that le le' by (meson max.coboundedI1 max.coboundedI2)
    then show ?thesis using bounds.make_max_bound [OF h r ok] v w ext_int_cases_max_min
      unfolding above_bound by (metis option.sel)
  qed
  show "\<exists>e. make_min h a b = Inr e \<and> above bd ec W r t e zs"
    if "\<forall>z \<in> set zs. (\<exists>x \<in> set xs. z \<le> x) \<and> (\<exists>y \<in> set ys. z \<le> y)"
  proof -
    have "\<forall>z \<in> set zs. Fin z \<le> min v w" using that le le' by (meson min.boundedI)
    then show ?thesis using bounds.make_min_bound [OF h r ok] v w ext_int_cases_max_min
      unfolding above_bound by (metis option.sel)
  qed
qed

lemma single_extremum:
  assumes h: "infinities_shared h" and op: "op \<in> {MinOp, MaxOp}" and z: "lanes_of op t xs ys zs" "zs \<noteq> []"
    and a: "brackets bd1 ec W r t a xs" "is_single_point_at h a x" and b: "brackets bd2 ec W r t b ys" "is_single_point_at h b y"
  shows "brackets bd ec W r t (single_point (Binary op x y)) zs"
proof -
  obtain v w where v: "bval ec W r t x v" "\<forall>x \<in> set xs. x = v" and w: "bval ec W r t y w" "\<forall>y \<in> set ys. y = w"
    using brackets_is_single_at [OF h a] brackets_is_single_at [OF h b] by blast
  obtain z where z: "binop_in True op t v w = Some z" "\<forall>z' \<in> set zs. z' = z"
    using lanes_of_constant [OF z v(2) w(2)] by blast
  show ?thesis using bval_Binary [OF v(1) w(1) _ z(1)] op brackets_single z(2) by (auto simp: is_arith_def)
qed

lemma bounds_extremum_sound:
  assumes S: "setting c r" and op: "op \<in> {MinOp, MaxOp}"
    and a: "brackets bd ec W r t a xs" and b: "brackets bd ec W r t b ys"
    and z: "lanes_of op t xs ys zs" and nz: "zs \<noteq> []"
  shows "\<exists>i. bounds_extremum c op x y a b = Inr i \<and> brackets bd ec W r t i zs"
proof -
  have h: "infinities_shared (addrs c)" and r: "env_type_ok r" using S by (simp_all add: setting_def)
  have zE: "\<exists>x \<in> set xs. \<exists>y \<in> set ys. z = (if op = MinOp then min x y else max x y)" if "z \<in> set zs" for z
    using z that op unfolding lanes_of_def by fastforce
  let ?make = "(if op = MinOp then make_min else make_max) (addrs c)"
  note ab = a [unfolded brackets_def] b [unfolded brackets_def]
  have lo: "\<exists>e. ?make (interval_min a) (interval_min b) = Inr e \<and> below bd ec W r t e zs"
  proof (cases "op = MinOp")
    case True
    then show ?thesis using below_extrema(1) [OF h r conjunct1 [OF ab(1)] conjunct1 [OF ab(2)], of zs] zE
      by (fastforce simp: min_def)
  next
    case False
    then show ?thesis using below_extrema(2) [OF h r conjunct1 [OF ab(1)] conjunct1 [OF ab(2)], of zs] zE
      by (fastforce simp: max_def)
  qed
  have hi: "\<exists>e. ?make (interval_max a) (interval_max b) = Inr e \<and> above bd ec W r t e zs"
  proof (cases "op = MinOp")
    case True
    then show ?thesis using above_extrema(2) [OF h r conjunct2 [OF ab(1)] conjunct2 [OF ab(2)], of zs] zE
      by (fastforce simp: min_def)
  next
    case False
    then show ?thesis using above_extrema(1) [OF h r conjunct2 [OF ab(1)] conjunct2 [OF ab(2)], of zs] zE
      by (fastforce simp: max_def)
  qed
  show ?thesis
    using lo hi single_extremum [OF h op z nz a _ b]
    by (auto simp: bounds_extremum_def brackets_def single_point_def Let_def)
qed

subsection \<open>Remainders\<close>

lemma type_eq_wrap: "type_eq s t \<Longrightarrow> wrap s = wrap t"
  by (intro ext) (simp add: wrap_def type_eq_def is_int_def)

lemma bounds_mod_sound:
  assumes S: "setting c r" and T: "node_type (type_of x) t"
    and a: "brackets bd1 ec1 W r t a xs" and b: "brackets True True W r t b ys"
    and z: "lanes_of ModOp t xs ys zs" and nz: "zs \<noteq> []"
    and pos: "is_uint t \<or> is_positive_const (interval_min b)"
  shows "\<exists>i. bounds_mod c x y a b = Inr i \<and> brackets bd ec W r t i zs"
proof -
  let ?h = "addrs c"
  have h: "infinities_shared ?h" using S by (simp add: setting_def)
  note f = node_type_facts [OF T] and bb = brackets_is_bounded [OF h b]
  have eq: "type_eq (element_of (type_of x)) t" using T by (simp add: node_type_def)
  obtain u v where u: "bval True W r t (interval_min b) u" and v: "bval True W r t (interval_max b) v"
    and yr: "\<forall>y \<in> set ys. u \<le> y \<and> y \<le> v" using brackets_bounded [OF h b bb(3)] by blast
  have p: "0 \<le> u \<and> (is_int t \<longrightarrow> 0 < u)"
    using pos bval_sign(1) [OF u] bval_range [OF u] by (auto simp: range_in_def in_range_def no_overflow_int_def type_lo_def is_int_def is_uint_def)
  have zE: "0 \<le> z \<and> z \<le> v - 1" if zs: "z \<in> set zs" for z
  proof -
    obtain x y where xy: "y \<in> set ys" "y \<noteq> 0" "fit_in True t (emod x y) = Some z" "range_in True t y"
      using z zs unfolding lanes_of_def by (auto split: if_splits)
    have e: "0 \<le> emod x y" "emod x y < y" "0 < y" "y \<le> v" using emod_range [OF xy(2), of x] p yr xy(1,2) by force+
    have "range_in True t (emod x y)" using in_range_down [OF xy(4)] e by simp
    then show ?thesis using xy(3) e fit_in_range_in by force
  qed
  have v1: "1 \<le> v" using zE [of "hd zs"] nz by force
  have one: "fit_in True t (v - 1) = Some (v - 1)" "wrap t 1 = 1"
  proof -
    have "in_range t 1 \<or> no_overflow_int t" using in_range_down [OF bval_range [OF v], of 1] v1 by (auto simp: range_in_def)
    moreover have "in_range t 1" if "no_overflow_int t"
    proof -
      have "2 ^ 1 \<le> (2 :: int) ^ (bits t - 1)" using that by (intro power_increasing) (auto simp: no_overflow_int_def)
      then show ?thesis using that unfolding in_range_def type_lo_def type_hi_def no_overflow_int_def by simp
    qed
    ultimately show "wrap t 1 = 1" using wrap_in_range by blast
    have "range_in True t (v - 1)" using in_range_down [OF bval_range [OF v]] v1 by simp
    then show "fit_in True t (v - 1) = Some (v - 1)" by (rule fit_in_range_in)
  qed
  obtain z0 o1 where z0: "make_zero (element_of (type_of x)) = Inr z0" "bval ec W r (element_of (type_of x)) z0 0"
    and o1: "make_one (element_of (type_of x)) = Inr o1" "bval ec W r (element_of (type_of x)) o1 (wrap (element_of (type_of x)) 1)"
    using bval_zero_one [OF f(2)] by blast
  have wr: "wrap (element_of (type_of x)) 1 = 1" using one(2) type_eq_wrap [OF eq] by simp
  have z0': "bval ec W r t z0 0" and o1': "bval ec W r t o1 1"
    using z0(2) o1(2) wr bval_type_cong [OF eq] elem_type_handle [OF f(1)] by simp_all
  have sub: "operator_ee SubOp (Some (interval_max b)) (Some o1) = Inr (Binary SubOp (interval_max b) o1) \<and>
      bval ec W r t (Binary SubOp (interval_max b) o1) (v - 1)"
    by (rule bval_arith [OF v o1']) (use one(1) in auto)
  have tb: "is_uint (type_of (interval_max b)) = is_uint t" "is_int (type_of (interval_max b)) = is_int t"
    using v by (auto simp: fin_def type_eq_def is_int_def is_uint_def)
  have "brackets bd ec W r t (mk_Interval z0 (Binary SubOp (interval_max b) o1)) zs"
    using z0' sub zE by (intro bracketsI) auto
  then show ?thesis
    using single_points_at [OF h _ z nz a _ b] single_points_both [OF h _ z nz a _ b]
      bb(3) z0(1) o1(1) sub tb pos elem_type_int [OF f(1)]
    by (auto simp: bounds_mod_def Let_def)
qed

subsection \<open>Selections\<close>

lemma truth_eval:
  assumes "wf_expr e" and "sized_casts e" and "is_bool (type_of e)" and "is_scalar (type_of e)" and "eval_in True r e = Some cs"
  obtains p where "truth r e p" and "cs = [of_bool p]"
proof -
  have "has_type_in True cs (type_of e)" using eval_in_sound [OF assms(1,5)] .
  moreover have "\<not> no_overflow_int (type_of e)" using assms(3) by (simp add: is_bool_def no_overflow_int_def is_int_def)
  ultimately have "length cs = 1" "\<forall>x \<in> set cs. x = 0 \<or> x = 1"
    using assms(3,4) is_bool_range [of "type_of e"] by (auto simp: has_type_in_def is_scalar_def range_in_def)
  then obtain x where x: "cs = [x]" "x = 0 \<or> x = 1" by (cases cs) auto
  then have "cs = [of_bool (x = 1)]" by auto
  then show thesis using that [of "x = 1"] assms by (auto simp: truth_def)
qed

lemma pick_sound:
  assumes h: "infinities_shared h" and r: "env_type_ok r" and s: "select_val cs xs ys = Some zs"
    and k: "k \<Longrightarrow> truth r cond p \<and> expr_vars cond \<subseteq> W \<and> cs = [of_bool p]"
  shows "below True ec W r t a xs \<Longrightarrow> below True ec W r t b ys \<Longrightarrow>
      \<exists>e. (if same_as h a b then Inr a else if k then select cond a b else make_min h a b) = Inr e \<and> below True ec W r t e zs"
    and "above True ec W r t a xs \<Longrightarrow> above True ec W r t b ys \<Longrightarrow>
      \<exists>e. (if same_as h a b then Inr a else if k then select cond a b else make_max h a b) = Inr e \<and> above True ec W r t e zs"
proof -
  have sub: "set zs \<subseteq> set xs \<union> set ys" using select_val_sound [OF s] by blast
  have sel: "zs = (if p then xs else ys)" if k using s k [OF that] by (auto simp: select_val_def split: if_splits)
  have ab: "same_as h a b \<Longrightarrow> a = b" using h by (simp add: infinities_shared_def addresses_ok_def)
  show "\<exists>e. (if same_as h a b then Inr a else if k then select cond a b else make_min h a b) = Inr e \<and> below True ec W r t e zs"
    if b: "below True ec W r t a xs" "below True ec W r t b ys"
  proof -
    obtain v w where v: "bval ec W r t a v" "\<forall>x \<in> set xs. v \<le> x" and w: "bval ec W r t b w" "\<forall>y \<in> set ys. w \<le> y"
      using b unfolding below_def by blast
    consider (s) "same_as h a b" | (k) "\<not> same_as h a b" k | (m) "\<not> same_as h a b" "\<not> k" by blast
    then show ?thesis
    proof cases
      case s
      then have "v = w" using ab bval_unique v(1) w(1) by blast
      then have "below True ec W r t a zs" using v w(2) sub unfolding below_def by blast
      then show ?thesis using s by simp
    next
      case kk: k
      note sb = select_bval [OF conjunct1 [OF k [OF kk(2)]] conjunct1 [OF conjunct2 [OF k [OF kk(2)]]] v(1) w(1), of ec]
      have "\<forall>z \<in> set zs. (if p then v else w) \<le> z" using sel [OF kk(2)] v(2) w(2) by simp
      then have "below True ec W r t (Select cond a b) zs" using sb unfolding below_def by blast
      then show ?thesis using sb kk by simp
    next
      case m
      have "\<forall>z \<in> set zs. (\<exists>x \<in> set xs. x \<le> z) \<or> (\<exists>y \<in> set ys. y \<le> z)" using sub by blast
      then show ?thesis using below_extrema(1) [OF h r b] m by simp
    qed
  qed
  show "\<exists>e. (if same_as h a b then Inr a else if k then select cond a b else make_max h a b) = Inr e \<and> above True ec W r t e zs"
    if b: "above True ec W r t a xs" "above True ec W r t b ys"
  proof -
    obtain v w where v: "bval ec W r t a v" "\<forall>x \<in> set xs. x \<le> v" and w: "bval ec W r t b w" "\<forall>y \<in> set ys. y \<le> w"
      using b unfolding above_def by blast
    consider (s) "same_as h a b" | (k) "\<not> same_as h a b" k | (m) "\<not> same_as h a b" "\<not> k" by blast
    then show ?thesis
    proof cases
      case s
      then have "v = w" using ab bval_unique v(1) w(1) by blast
      then have "above True ec W r t a zs" using v w(2) sub unfolding above_def by blast
      then show ?thesis using s by simp
    next
      case kk: k
      note sb = select_bval [OF conjunct1 [OF k [OF kk(2)]] conjunct1 [OF conjunct2 [OF k [OF kk(2)]]] v(1) w(1), of ec]
      have "\<forall>z \<in> set zs. z \<le> (if p then v else w)" using sel [OF kk(2)] v(2) w(2) by simp
      then have "above True ec W r t (Select cond a b) zs" using sb unfolding above_def by blast
      then show ?thesis using sb kk by simp
    next
      case m
      have "\<forall>z \<in> set zs. (\<exists>x \<in> set xs. z \<le> x) \<or> (\<exists>y \<in> set ys. z \<le> y)" using sub by blast
      then show ?thesis using above_extrema(1) [OF h r b] m by simp
    qed
  qed
qed

lemma select_bounds_sound:
  assumes S: "setting c r" and a: "brackets True ec W r t a xs" and b: "brackets True ec W r t b ys"
    and z: "select_val cs xs ys = Some zs"
    and k: "is_scalar (type_of cond) \<Longrightarrow> \<not> expr_uses_vars s cond \<Longrightarrow> truth r cond p \<and> expr_vars cond \<subseteq> W \<and> cs = [of_bool p]"
  shows "\<exists>i. select_bounds c s cond a b = Inr i \<and> brackets bd ec W r t i zs"
proof -
  have h: "infinities_shared (addrs c)" and r: "env_type_ok r" using S by (simp_all add: setting_def)
  let ?k = "is_scalar (type_of cond) \<and> \<not> expr_uses_vars s cond"
  have k': "?k \<Longrightarrow> truth r cond p \<and> expr_vars cond \<subseteq> W \<and> cs = [of_bool p]" using k by blast
  obtain lo hi where lo: "(if same_as (addrs c) (interval_min a) (interval_min b) then Inr (interval_min a)
        else if ?k then select cond (interval_min a) (interval_min b) else make_min (addrs c) (interval_min a) (interval_min b)) = Inr lo"
      "below True ec W r t lo zs"
    and hi: "(if same_as (addrs c) (interval_max a) (interval_max b) then Inr (interval_max a)
        else if ?k then select cond (interval_max a) (interval_max b) else make_max (addrs c) (interval_max a) (interval_max b)) = Inr hi"
      "above True ec W r t hi zs"
    using pick_sound [OF h r z k'] a b unfolding brackets_def by blast
  have "brackets True ec W r t (mk_Interval lo hi) zs" using lo(2) hi(2) by (simp add: brackets_def)
  then have "brackets bd ec W r t (mk_Interval lo hi) zs" by (rule brackets_weaken) auto
  moreover have "select_bounds c s cond a b = Inr (mk_Interval lo hi)"
    unfolding select_bounds_def Let_def lo(1) hi(1) by simp
  ultimately show ?thesis by blast
qed

subsection \<open>Casts\<close>

lemma simplify_bval:
  assumes "exact_simplifier simplify" and "bval ec W r t e v"
  shows "bval False W r t (simplify e) v"
proof -
  have "wf_expr e" "sized_casts e" "type_eq (type_of e) t" "expr_vars e \<subseteq> W" "\<not> is_handle t" "eval_in True r e = Some [v]"
    using assms(2) by (simp_all add: fin_def bound_pred_def)
  moreover have "wf_expr (simplify e) \<and> sized_casts (simplify e) \<and> type_eq (type_of (simplify e)) (type_of e) \<and>
      expr_vars (simplify e) \<subseteq> expr_vars e \<and> eval_in True r (simplify e) = Some [v]"
    using assms(1) calculation unfolding exact_simplifier_def by blast
  ultimately show ?thesis using type_eq_trans [of "type_of (simplify e)" "type_of e" t]
    by (auto simp: fin_def bound_pred_def)
qed

definition on_side :: "Direction \<Rightarrow> int \<Rightarrow> int \<Rightarrow> bool" where
  "on_side d w v \<longleftrightarrow> (if d = Lower then w \<le> v else v \<le> w)"

lemma bval_Binary_parts:
  assumes "bval True W r t (Binary op x y) v" and "op \<in> {MinOp, MaxOp}"
  obtains a b where "bval True W r t x a" and "bval True W r t y b" and "v = extremum op a b"
proof -
  obtain xs ys where xs: "eval_in True r x = Some xs" "eval_in True r y = Some ys" "lift2 (binop_in True op (type_of x)) xs ys = Some [v]"
    using assms(1) by (auto simp: fin_def elim!: bind_eq_SomeE)
  then have "length xs = 1" "length ys = 1" by (auto simp: lift2_Some)
  then obtain a b where ab: "xs = [a]" "ys = [b]" by (auto simp: length_Suc_conv)
  have "is_arith op" using assms(2) by (auto simp: is_arith_def)
  then have "type_eq (type_of x) t" "type_eq (type_of y) t"
    using assms(1) type_eq_trans [of "type_of y" "type_of x" t] type_eq_sym by (auto simp: fin_def)
  then show thesis using that [of a b] assms xs ab by (auto simp: fin_def bound_pred_def extremum_def)
qed

lemma bval_Cast_parts:
  assumes "bval True W r t (Cast t' x) v"
  shows "bval True W r (type_of x) x v" and "fit_in True t' v = Some v" and "is_int t' \<or> is_uint t'" and "cast_exact t' (type_of x)"
proof -
  obtain xs where xs: "eval_in True r x = Some xs" "list_all2 (\<lambda>x y. fit_in True t' x = Some y) xs [v]"
    using assms by (auto simp: fin_def those_map_eq_Some elim!: bind_eq_SomeE)
  then obtain w where w: "xs = [w]" "fit_in True t' w = Some v" by (auto simp: list_all2_Cons2)
  have wf: "wf_expr x" using assms by (simp add: fin_def)
  have rw: "range_in True (type_of x) w" using eval_in_sound [OF wf xs(1)] w(1) by (simp add: has_type_in_def)
  then have "\<not> is_handle (type_of x)" by (auto simp: range_in_def in_range_def no_overflow_int_def type_predicates)
  show ce: "cast_exact t' (type_of x)" using assms by (auto simp: fin_def bound_pred_def)
  show i: "is_int t' \<or> is_uint t'" using w(2) by (auto simp: fit_in_def fit_def no_overflow_int_def split: if_splits)
  have "fit_in True t' w = Some w" using cast_exact_range [OF ce i rw] by (rule fit_in_range_in)
  then have "w = v" using w(2) by simp
  then show "fit_in True t' v = Some v" "bval True W r (type_of x) x v"
    using w xs(1) wf assms \<open>\<not> is_handle (type_of x)\<close> by (auto simp: fin_def bound_pred_def)
qed

lemma constant_of_sides_sound:
  assumes s: "exact_simplifier simplify" and op: "op \<in> {MinOp, MaxOp}"
    and a: "\<forall>e. m = Some e \<longrightarrow> (\<exists>w. bval False W r t e w \<and> on_side d w v)"
    and b: "\<forall>e. m' = Some e \<longrightarrow> (\<exists>w. bval False W r t e w \<and> on_side d w v')"
  shows "\<exists>k. constant_of_sides simplify op (d = (if op = MinOp then Upper else Lower)) m m' = Inr k \<and>
    (\<forall>e. k = Some e \<longrightarrow> (\<exists>w. bval False W r t e w \<and> on_side d w (extremum op v v')))"
proof (cases "m = None \<or> m' = None")
  case True
  then show ?thesis
    using op a b by (auto simp: constant_of_sides_def on_side_def extremum_def split: option.splits)
      (metis Direction.exhaust max.coboundedI1 max.coboundedI2 min.coboundedI1 min.coboundedI2)+
next
  case False
  then obtain e e' where e: "m = Some e" "m' = Some e'" by auto
  then obtain w w' where w: "bval False W r t e w" "on_side d w v" "bval False W r t e' w'" "on_side d w' v'" using a b by blast
  have "binary_make op (Some e) (Some e') = Inr (Binary op e e')"
    using bval_types(1) [OF w(1,3)] op by (auto simp: binary_make_def defined_handle_def is_logical_def)
  moreover have "bval False W r t (Binary op e e') (extremum op w w')"
    by (rule bval_Binary [OF w(1,3)]) (use op in \<open>auto simp: is_arith_def extremum_def\<close>)
  then have "bval False W r t (simplify (Binary op e e')) (extremum op w w')" by (rule simplify_bval [OF s])
  moreover have "on_side d (extremum op w w') (extremum op v v')" using w(2,4) by (auto simp: on_side_def extremum_def split: if_splits)
  ultimately show ?thesis using e by (auto simp: constant_of_sides_def)
qed

lemma find_constant_leaf:
  assumes "find_constant_bound simplify e d = Inr (if is_const e then Some e else None)" and "bval True W r t e v"
  shows "\<exists>k. find_constant_bound simplify e d = Inr k \<and> (\<forall>a. k = Some a \<longrightarrow> (\<exists>w. bval False W r t a w \<and> on_side d w v))"
  using assms bval_weaken [OF assms(2), of False W] by (cases "is_const e") (auto simp: on_side_def)

lemma find_constant_bound_sound:
  assumes s: "exact_simplifier simplify"
  shows "bval True W r t e v \<Longrightarrow> \<exists>k. find_constant_bound simplify e d = Inr k \<and>
    (\<forall>a. k = Some a \<longrightarrow> (\<exists>w. bval False W r t a w \<and> on_side d w v))"
proof (induction e arbitrary: t v)
  case (Binary op x y)
  show ?case
  proof (cases "op \<in> {MinOp, MaxOp}")
    case True
    then obtain a b where ab: "bval True W r t x a" "bval True W r t y b" "v = extremum op a b"
      using bval_Binary_parts [OF Binary.prems] by blast
    obtain k where k: "find_constant_bound simplify x d = Inr k" "\<forall>a'. k = Some a' \<longrightarrow> (\<exists>w. bval False W r t a' w \<and> on_side d w a)"
      using Binary.IH(1) [OF ab(1)] by blast
    obtain k' where k': "find_constant_bound simplify y d = Inr k'" "\<forall>a'. k' = Some a' \<longrightarrow> (\<exists>w. bval False W r t a' w \<and> on_side d w b)"
      using Binary.IH(2) [OF ab(2)] by blast
    show ?thesis using constant_of_sides_sound [OF s True k(2) k'(2)] k(1) k'(1) ab(3) True
      by (subst find_constant_bound.simps) simp
  qed (subst find_constant_bound.simps, simp)
next
  case (Cast t' x)
  show ?case
  proof (cases "is_const x")
    case True
    then show ?thesis using bval_weaken [OF Cast.prems, of False] by (subst find_constant_bound.simps) (auto simp: on_side_def)
  next
    case False
    note p = bval_Cast_parts [OF Cast.prems]
    obtain k where k: "find_constant_bound simplify x d = Inr k"
        "\<forall>a. k = Some a \<longrightarrow> (\<exists>w. bval False W r (type_of x) a w \<and> on_side d w v)"
      using Cast.IH [OF p(1)] by blast
    show ?thesis
    proof (cases k)
      case None
      then show ?thesis using k(1) False by (subst find_constant_bound.simps) simp
    next
      case (Some a)
      then obtain w where w: "bval False W r (type_of x) a w" "on_side d w v" using k(2) by blast
      have "range_in True t' w" using cast_exact_range [OF p(4,3) bval_range [OF w(1)]] .
      then have fit: "fit_in True t' w = Some w" by (rule fit_in_range_in)
      have l: "lanes t' = lanes (type_of a)" using w(1) Cast.prems by (auto simp: fin_def dest!: type_eq_lanes)
      have "bval False W r t (Cast t' a) w" using w(1) fit l Cast.prems by (auto simp: fin_def bound_pred_def)
      then have "bval False W r t (simplify (Cast t' a)) w" by (rule simplify_bval [OF s])
      then show ?thesis using k(1) Some l w(2) False
        by (subst find_constant_bound.simps) (auto simp: Cast_make_def defined_handle_def)
    qed
  qed
qed (rule find_constant_leaf, subst find_constant_bound.simps, simp, assumption)+

text \<open>A constant that survives the narrowing cast and back is in the range of the type.\<close>

lemma narrow_half:
  assumes to: "elem_type to" "\<not> no_overflow_int to" and source: "elem_type source" and c: "can_represent_type source to"
    and a: "bval False W r source a x"
  obtains u v z where "cast to a = Inr u" and "cast source u = Inr v" and "bval False W r source v z" and "z = x \<Longrightarrow> in_range to x"
proof -
  obtain y where y: "fit_in True to x = Some y" using fit_in_Some [OF elem_type_int [OF to(1)]] by blast
  obtain u where u: "cast to a = Inr u" "bval False W r to u y" using bval_cast [OF a to(1) source _ y] to(2) by blast
  have ry: "in_range to y" using fit_in_Some_range [OF y] to(2) by (simp add: range_in_def)
  have "in_range source y" using in_range_mono_int [OF elem_type_int [OF source] c ry] .
  then have "fit_in True source y = Some y" "no_overflow_int source \<Longrightarrow> in_range source y" using fit_in_range_in by (auto simp: range_in_def)
  then obtain v where v: "cast source u = Inr v" "bval False W r source v y" using bval_cast [OF u(2) source to(1)] by blast
  show thesis using that [OF u(1) v] ry by blast
qed

lemma narrow_test_sound:
  assumes to: "elem_type to" "\<not> no_overflow_int to" and source: "elem_type source" and c: "can_represent_type source to"
    and l: "bval False W r source l x" and u: "bval False W r source u y"
  obtains e p where "narrow_test source to l u = Inr e" and "truth r e p" and "p \<Longrightarrow> in_range to x \<and> in_range to y"
proof -
  obtain l1 l2 z where l': "cast to l = Inr l1" "cast source l1 = Inr l2" "bval False W r source l2 z" "z = x \<Longrightarrow> in_range to x"
    using narrow_half [OF to source c l] by blast
  obtain u1 u2 w where u': "cast to u = Inr u1" "cast source u1 = Inr u2" "bval False W r source u2 w" "w = y \<Longrightarrow> in_range to y"
    using narrow_half [OF to source c u] by blast
  have p: "operator_ee EQOp (Some l2) (Some l) = Inr (Binary EQOp l2 l) \<and> truth r (Binary EQOp l2 l) (z = x)"
    by (rule truth_cmp [OF l'(3) l]) (use elem_type_scalar [OF source] in auto)
  have q: "operator_ee EQOp (Some u2) (Some u) = Inr (Binary EQOp u2 u) \<and> truth r (Binary EQOp u2 u) (w = y)"
    by (rule truth_cmp [OF u'(3) u]) (use elem_type_scalar [OF source] in auto)
  note b = truth_and [OF conjunct2 [OF p] conjunct2 [OF q]]
  have "narrow_test source to l u = Inr (Binary AndOp (Binary EQOp l2 l) (Binary EQOp u2 u))"
    using p q b l' u' by (simp add: narrow_test_def)
  then show thesis using that conjunct2 [OF b] l'(4) u'(4) by blast
qed

lemma cast_bounds_sound:
  assumes h: "infinities_shared (addrs c)" and to: "elem_type to" and source: "elem_type source"
    and ex: "cast_exact to source \<or> \<not> ec \<and> is_bounded (addrs c) a \<and>
      (\<exists>u v. bval ec W r source (interval_min a) u \<and> bval ec W r source (interval_max a) v \<and> in_range to u \<and> in_range to v)"
    and a: "brackets b ec W r source a xs" and xs: "\<forall>x \<in> set xs. range_in True source x"
    and bd: "bd \<Longrightarrow> b \<or> bits source \<le> 16"
  shows "\<exists>i. cast_bounds c to source a = Inr i \<and> brackets bd ec W r to i xs"
proof -
  let ?h = "addrs c"
  have es: "elem_type (element_of source)" "type_eq (element_of source) source"
    using source by (auto simp: elem_type_def const_type_def type_eq_def element_of_def mk_Type_def type_wf_def type_predicates)
  have "\<exists>i0. bounds_of_type source = Inr i0 \<and> brackets (bits source \<le> 16) ec W r (element_of source) i0 xs"
    by (rule bounds_of_type_sound [OF es(1)]) (use xs range_in_type_eq [OF es(2)] es(2) in \<open>auto simp: type_eq_def\<close>)
  then obtain i0 where i0: "bounds_of_type source = Inr i0" "brackets (bits source \<le> 16) ec W r source i0 xs"
    using brackets_type_cong [OF es(2)] elem_type_handle [OF source] by auto
  define i1 where "i1 = (if has_lower_bound ?h a then i0\<lparr>interval_min := interval_min a\<rparr> else i0)"
  define i2 where "i2 = (if has_upper_bound ?h a then i1\<lparr>interval_max := interval_max a\<rparr> else i1)"
  have "below bd ec W r source (interval_min i2) xs"
    using brackets_lower [OF h a] bd i0(2) unfolding brackets_def below_def i1_def i2_def by (auto split: if_splits)
  moreover have "above bd ec W r source (interval_max i2) xs"
    using brackets_upper [OF h a] bd i0(2) unfolding brackets_def above_def i1_def i2_def by (auto split: if_splits)
  ultimately have i2: "brackets bd ec W r source i2 xs" by (simp add: brackets_def)
  have "\<exists>e'. Cast_make to (Some e) = Inr e' \<and> bval ec W r to e' x"
    if "e = interval_min i2 \<or> e = interval_max i2" "bval ec W r source e x" for e x
  proof -
    have "range_in True to x \<and> (ec \<longrightarrow> cast_exact to source)"
    proof (cases "cast_exact to source")
      case True
      then show ?thesis using cast_exact_range [OF True elem_type_int [OF to] bval_range [OF that(2)]] by blast
    next
      case False
      then obtain u v where uv: "is_bounded ?h a" "bval ec W r source (interval_min a) u" "bval ec W r source (interval_max a) v"
        "in_range to u" "in_range to v" "\<not> ec" using ex by blast
      then have "e = interval_min a \<or> e = interval_max a" using that(1) by (auto simp: i1_def i2_def is_bounded_def)
      then have "x = u \<or> x = v" using that(2) uv(2,3) bval_unique by metis
      then show ?thesis using uv(4-6) by (auto simp: range_in_def)
    qed
    then show ?thesis using bval_Cast [OF that(2) to] fit_in_range_in elem_type_scalar [OF source] by blast
  qed
  then show ?thesis
    using map_bounds_sound [OF h i2, of "\<lambda>e. Cast_make to (Some e)" ec W r to]
    unfolding cast_bounds_def i0(1) Let_def rbind_Inr i1_def [symmetric] i2_def [symmetric] by blast
qed

lemma element_of_idem [simp]: "element_of (element_of t) = element_of t"
  by (simp add: element_of_def mk_Type_def)

lemma list_all2_set1: "list_all2 P xs zs \<Longrightarrow> z \<in> set zs \<Longrightarrow> \<exists>x \<in> set xs. P x z"
  by (auto simp: list_all2_conv_all_nth in_set_conv_nth) (metis nth_mem)

lemma bounds_cast_sound:
  assumes S: "setting c r" and t: "type_wf t" "elem_type (element_of t)"
    and v: "type_wf (type_of v)" "elem_type (element_of (type_of v))" and l: "lanes t = lanes (type_of v)"
    and a: "brackets b1 ec1 W r (element_of (type_of v)) a xs" and xs: "\<forall>x \<in> set xs. range_in True (element_of (type_of v)) x"
    and z: "list_all2 (\<lambda>x z. fit_in True t x = Some z) xs zs" and nz: "zs \<noteq> []"
    and ex: "cast_exact (element_of t) (element_of (type_of v)) \<Longrightarrow> (bd \<longrightarrow> b1 \<or> bits (element_of (type_of v)) \<le> 16) \<and> (ec \<longrightarrow> ec1)"
    and nx: "\<not> cast_exact (element_of t) (element_of (type_of v)) \<Longrightarrow> \<not> ec \<and> ec1 \<and> (bd \<longrightarrow> bits (element_of t) \<le> 16)"
  shows "\<exists>i. bounds_cast c t v a = Inr i \<and> brackets bd ec W r (element_of t) i zs"
proof -
  let ?h = "addrs c" and ?to = "element_of t" and ?from = "element_of (type_of v)"
  have h: "infinities_shared ?h" and s: "exact_simplifier (simplifier c)" using S by (simp_all add: setting_def)
  have fit: "fit_in True t = fit_in True ?to"
    using t(1) by (intro ext) (simp add: fit_in_def fit_def no_overflow_int_def in_range_def wrap_def type_lo_def type_hi_def
        is_int_def is_uint_def element_of_def mk_Type_def type_wf_def)
  have zE: "\<exists>x \<in> set xs. fit_in True ?to x = Some z" if "z \<in> set zs" for z
    using list_all2_set1 [OF z that] unfolding fit .
  have ec: "ec \<Longrightarrow> cast_exact ?to ?from" "ec \<Longrightarrow> ec1" using ex nx by blast+
  have zr: "\<forall>z \<in> set zs. range_in True ?to z" using zE fit_in_Some_range by blast
  have point: "\<exists>y. bval ec W r ?to (Cast t' e) y \<and> (\<forall>z \<in> set zs. z = y)"
    if e: "bval ec1 W r ?from e x" "\<forall>x' \<in> set xs. x' = x" and t': "elem_type t'" "type_eq t' ?to" for t' e x
  proof -
    obtain y where y: "fit_in True ?to x = Some y" using fit_in_Some [OF elem_type_int [OF t(2)]] by blast
    have "cast_exact t' ?from = cast_exact ?to ?from"
      using t'(2) by (simp add: cast_exact_def can_represent_type_def no_overflow_int_def type_eq_def is_int_def is_uint_def is_float_def)
    moreover have "bval ec W r ?from e x" using bval_weaken [OF e(1)] ec(2) by blast
    ultimately have "bval ec W r t' (Cast t' e) y"
      using bval_Cast(2) [of ec W r ?from e x t' y] t'(1) y type_eq_fit_in [OF t'(2)] ec(1) elem_type_scalar [OF v(2)] by auto
    then have "bval ec W r ?to (Cast t' e) y" using bval_type_cong [OF t'(2)] elem_type_handle [OF t(2)] by simp
    moreover have "\<forall>z \<in> set zs. z = y" using zE e(2) y by fastforce
    ultimately show ?thesis by blast
  qed
  have at: "brackets bd ec W r ?to (single_point (Cast t v)) zs" if sa: "is_single_point_at ?h a v"
  proof -
    obtain x where x: "bval ec1 W r ?from v x" "\<forall>x' \<in> set xs. x' = x" using brackets_is_single_at [OF h a sa] by blast
    have "lanes (type_of v) = 1" using x(1) elem_type_scalar [OF v(2)] by (auto simp: fin_def dest!: type_eq_lanes)
    then have "type_eq t ?to" "elem_type t"
      using t l elem_type_handle [OF t(2)]
      by (auto simp: elem_type_def const_type_def type_eq_def element_of_def mk_Type_def type_wf_def type_predicates is_scalar_def)
    then show ?thesis using point [OF x] brackets_single by blast
  qed
  have sp: "\<exists>i. rbind (Cast_make ?to (Some (interval_min a))) (\<lambda>e. Inr (single_point e)) = Inr i \<and> brackets bd ec W r ?to i zs"
    if sa: "is_single_point ?h a"
  proof -
    obtain x where x: "bval ec1 W r ?from (interval_min a) x" "\<forall>x' \<in> set xs. x' = x" using brackets_is_single [OF h a sa] by blast
    have "type_eq ?to ?to" by (simp add: type_eq_def same_handle_type_def)
    then obtain y where y: "bval ec W r ?to (Cast ?to (interval_min a)) y" "\<forall>z \<in> set zs. z = y" using point [OF x t(2)] by blast
    have "Cast_make ?to (Some (interval_min a)) = Inr (Cast ?to (interval_min a))"
      using x(1) elem_type_scalar [OF t(2)] elem_type_scalar [OF v(2)]
      by (auto simp: Cast_make_def defined_handle_def fin_def dest!: type_eq_lanes)
    then show ?thesis using brackets_single [OF y] by simp
  qed
  have main: "\<exists>i. rbind (cast_overflow c ?to ?from a) (\<lambda>(ofl, a). if \<not> ofl then cast_bounds c ?to ?from a else bounds_of_type ?to) = Inr i \<and>
      brackets bd ec W r ?to i zs"
  proof (cases "cast_exact ?to ?from")
    case True
    then have "cast_overflow c ?to ?from a = Inr (False, a)"
      by (auto simp: cast_overflow_def cast_exact_def no_overflow_int_def)
    moreover have "zs = xs"
    proof -
      have "fit_in True t x = Some x" if "x \<in> set xs" for x
        using cast_exact_range [OF True elem_type_int [OF t(2)]] xs that fit fit_in_range_in by simp
      then show ?thesis using z by (simp add: list_all2_conv_all_nth list_eq_iff_nth_eq)
    qed
    moreover have "brackets b1 ec W r ?from a xs" using brackets_weaken [OF a] ec(2) by blast
    ultimately show ?thesis
      using cast_bounds_sound [OF h t(2) v(2) _ _ xs, of ec a W r b1 bd] True ex [OF True] by auto
  next
    case False
    note n = nx [OF False]
    have ofl: "\<exists>i. bounds_of_type ?to = Inr i \<and> brackets bd ec W r ?to i zs"
      using bounds_of_type_sound [of ?to zs bd ec W r] t(2) zr n by simp
    have co: "\<not> can_represent_type ?to ?from" "\<not> (is_int ?to \<and> 32 \<le> bits ?to)" "\<not> is_float ?to" "\<not> no_overflow_int ?to"
      using False elem_type_handle [OF t(2)] by (auto simp: cast_exact_def no_overflow_int_def)
    show ?thesis
    proof (cases "is_bounded ?h a \<and> can_represent_type ?from ?to")
      case bc: True
      obtain x y where xy: "bval True W r ?from (interval_min a) x" "bval True W r ?from (interval_max a) y" "\<forall>z \<in> set xs. x \<le> z \<and> z \<le> y"
        using brackets_bounded [OF h a] bc n by auto
      obtain k where k: "find_constant_bound (simplifier c) (interval_min a) Lower = Inr k"
          "\<forall>e. k = Some e \<longrightarrow> (\<exists>w. bval False W r ?from e w \<and> w \<le> x)"
        using find_constant_bound_sound [OF s xy(1), of Lower] by (auto simp: on_side_def)
      obtain k' where k': "find_constant_bound (simplifier c) (interval_max a) Upper = Inr k'"
          "\<forall>e. k' = Some e \<longrightarrow> (\<exists>w. bval False W r ?from e w \<and> y \<le> w)"
        using find_constant_bound_sound [OF s xy(2), of Upper] by (auto simp: on_side_def)
      show ?thesis
      proof (cases "k = None \<or> k' = None")
        case True
        then have "cast_overflow c ?to ?from a = Inr (True, a)"
          using co bc k(1) k'(1) by (auto simp: cast_overflow_def split: option.splits)
        then show ?thesis using ofl by simp
      next
        case False
        then obtain e e' where e: "k = Some e" "k' = Some e'" by auto
        then obtain w w' where w: "bval False W r ?from e w" "w \<le> x" and w': "bval False W r ?from e' w'" "y \<le> w'"
          using k(2) k'(2) by blast
        obtain test p where p: "narrow_test ?from ?to e e' = Inr test" "truth r test p" "p \<Longrightarrow> in_range ?to w \<and> in_range ?to w'"
          using narrow_test_sound [OF t(2) co(4) v(2) _ w(1) w'(1)] bc by blast
        obtain q where q: "can_prove (simplifier c) test = Inr q" "q \<Longrightarrow> p" using can_prove_truth [OF s p(2)] by blast
        have co': "cast_overflow c ?to ?from a = Inr (if q then (False, mk_Interval e e') else (True, a))"
          using co bc k(1) k'(1) e p(1) q(1) by (auto simp: cast_overflow_def)
        show ?thesis
        proof (cases q)
          case True
          then have r: "in_range ?to w" "in_range ?to w'" using p(3) q(2) by blast+
          have b: "brackets True False W r ?from (mk_Interval e e') xs"
            using w w' xy(3) by (intro bracketsI [where u = w and v = w']) fastforce+
          have "zs = xs"
          proof -
            have "fit_in True t x = Some x" if "x \<in> set xs" for x
            proof -
              have "w \<le> x" "x \<le> w'" using xy(3) that w(2) w'(2) by force+
              then have "range_in True ?to x" using r by (auto simp: range_in_def in_range_def)
              then show ?thesis using fit fit_in_range_in by simp
            qed
            then show ?thesis using z by (simp add: list_all2_conv_all_nth list_eq_iff_nth_eq)
          qed
          moreover have "\<exists>i. cast_bounds c ?to ?from (mk_Interval e e') = Inr i \<and> brackets bd False W r ?to i xs"
            by (rule cast_bounds_sound [OF h t(2) v(2) _ b xs])
              (use w(1) w'(1) r shared_fin [OF h w(1)] shared_fin [OF h w'(1)] in
                \<open>auto simp: is_bounded_def has_lower_bound_def has_upper_bound_def is_empty_def\<close>)
          ultimately show ?thesis using co' True n by simp
        next
          case False
          then show ?thesis using co' ofl by simp
        qed
      qed
    next
      case False
      then have "cast_overflow c ?to ?from a = Inr (True, a)" using co by (auto simp: cast_overflow_def)
      then show ?thesis using ofl by simp
    qed
  qed
  show ?thesis
  proof (cases "is_single_point_at ?h a v")
    case True
    then show ?thesis using at by (simp add: bounds_cast_def Let_def)
  next
    case na: False
    then show ?thesis using sp main by (cases "is_single_point ?h a") (simp_all add: bounds_cast_def Let_def)
  qed
qed

end
