(* ===== verification/BoundsVisit.thy ===== *)
theory BoundsVisit
  imports BoundsCases
begin

text \<open>
  The class of expressions for which the visitor \<open>Bounds\<close> is shown right, what is assumed
  of a visit, and the visits of leaves, operations, casts, loads, selections and lets, each
  from the claim about the visits with less fuel.
\<close>

subsection \<open>The expressions whose bounds are right\<close>

text \<open>
  What is known of the variables of a scope: their element type, whether their interval is
  bounded and whether its bounds have exact casts only. The flags of an expression say the
  same of its interval.
\<close>

type_synonym var_bounds = "string \<rightharpoonup> Type \<times> bool \<times> bool"

fun is_pos_imm :: "expr \<Rightarrow> bool" where
  "is_pos_imm (IntImm t v) \<longleftrightarrow> 0 < v"
| "is_pos_imm (UIntImm t v) \<longleftrightarrow> 0 < v"
| "is_pos_imm (Broadcast v n) \<longleftrightarrow> is_pos_imm v"
| "is_pos_imm _ \<longleftrightarrow> False"

definition plain_call :: "CallType \<Rightarrow> string \<Rightarrow> bool" where
  "plain_call ct n \<longleftrightarrow>
     \<not> (ct \<in> {Intrinsic, PureIntrinsic} \<and>
        n \<in> {''abs'', ''if_then_else'', ''shift_left'', ''shift_right'', ''bitwise_and'', ''extract_buffer_min'',
             ''extract_buffer_max'', ''memoize_expr'', ''trace_expr''}) \<and>
     n \<notin> set monotonic_externs"

fun let_names :: "expr \<Rightarrow> string set" where
  "let_names (Cast t v) = let_names v"
| "let_names (Binary op a b) = let_names a \<union> let_names b"
| "let_names (NotE a) = let_names a"
| "let_names (Select c a b) = let_names c \<union> let_names a \<union> let_names b"
| "let_names (Load t n i im p) = let_names i"
| "let_names (Ramp b s n) = let_names b \<union> let_names s"
| "let_names (Broadcast v n) = let_names v"
| "let_names (Call t n args ct f vi im p) = (\<Union>a \<in> set args. let_names a)"
| "let_names (LetE n v b) = insert n (let_names v \<union> let_names b)"
| "let_names _ = {}"

definition valued :: "expr \<Rightarrow> bool" where
  "valued e \<longleftrightarrow> const_type (type_of e) \<and> 0 < lanes (type_of e)"

fun bounds_ok :: "bool \<Rightarrow> bool \<Rightarrow> var_bounds \<Rightarrow> expr \<Rightarrow> bool" where
  "bounds_ok bd ec \<Gamma> (IntImm t v) \<longleftrightarrow> True"
| "bounds_ok bd ec \<Gamma> (UIntImm t v) \<longleftrightarrow> True"
| "bounds_ok bd ec \<Gamma> (FloatImm t v) \<longleftrightarrow> False"
| "bounds_ok bd ec \<Gamma> (StringImm s) \<longleftrightarrow> False"
| "bounds_ok bd ec \<Gamma> (Cast t v) \<longleftrightarrow> valued (Cast t v) \<and>
     (if cast_exact (element_of t) (element_of (type_of v))
      then bounds_ok (bd \<and> 16 < bits (type_of v)) ec \<Gamma> v
      else \<not> ec \<and> (bd \<longrightarrow> bits t \<le> 16) \<and> bounds_ok False True \<Gamma> v)"
| "bounds_ok bd ec \<Gamma> (Variable t n im p rd) \<longleftrightarrow> valued (Variable t n im p rd) \<and>
     (case \<Gamma> n of
        Some (u, b, x) \<Rightarrow> u = element_of t \<and> (bd \<longrightarrow> b) \<and> (ec \<longrightarrow> x)
      | None \<Rightarrow> is_scalar t \<or> \<not> bd \<or> bits t \<le> 16)"
| "bounds_ok bd ec \<Gamma> (Binary op x y) \<longleftrightarrow> valued (Binary op x y) \<and>
     (case op of
        AddOp \<Rightarrow> checked_type (type_of x) \<and> bounds_ok (bd \<or> bits (type_of x) < 32) False \<Gamma> x \<and>
          bounds_ok (bd \<or> bits (type_of x) < 32) False \<Gamma> y
      | SubOp \<Rightarrow> checked_type (type_of x) \<and> bounds_ok (bd \<or> bits (type_of x) < 32) False \<Gamma> x \<and>
          bounds_ok (bd \<or> bits (type_of x) < 32) False \<Gamma> y
      | MulOp \<Rightarrow> checked_type (type_of x) \<and> bounds_ok True True \<Gamma> x \<and> bounds_ok True True \<Gamma> y
      | DivOp \<Rightarrow> div_type (type_of x) \<and> (bd \<longrightarrow> is_pos_imm y) \<and> bounds_ok True True \<Gamma> x \<and> bounds_ok True True \<Gamma> y
      | ModOp \<Rightarrow> (is_uint (type_of x) \<or> is_pos_imm y) \<and> bounds_ok False False \<Gamma> x \<and> bounds_ok True True \<Gamma> y
      | MinOp \<Rightarrow> bounds_ok bd ec \<Gamma> x \<and> bounds_ok bd ec \<Gamma> y
      | MaxOp \<Rightarrow> bounds_ok bd ec \<Gamma> x \<and> bounds_ok bd ec \<Gamma> y
      | _ \<Rightarrow> True)"
| "bounds_ok bd ec \<Gamma> (NotE x) \<longleftrightarrow> valued (NotE x)"
| "bounds_ok bd ec \<Gamma> (Select c x y) \<longleftrightarrow>
     valued (Select c x y) \<and> sized_casts c \<and> bounds_ok True ec \<Gamma> x \<and> bounds_ok True ec \<Gamma> y"
| "bounds_ok bd ec \<Gamma> (Load t n i im p) \<longleftrightarrow>
     valued (Load t n i im p) \<and> (bd \<longrightarrow> bits t \<le> 16) \<and> bounds_ok False False \<Gamma> i"
| "bounds_ok bd ec \<Gamma> (Ramp b s n) \<longleftrightarrow> valued (Ramp b s n) \<and> checked_type (type_of b) \<and> in_range (type_of b) (n - 1) \<and>
     bounds_ok (bd \<or> bits (type_of b) < 32) False \<Gamma> b \<and> bounds_ok True True \<Gamma> s"
| "bounds_ok bd ec \<Gamma> (Broadcast v n) \<longleftrightarrow> valued (Broadcast v n) \<and> bounds_ok bd ec \<Gamma> v"
| "bounds_ok bd ec \<Gamma> (Call t n args ct f vi im p) \<longleftrightarrow> valued (Call t n args ct f vi im p) \<and>
     (\<forall>a \<in> set args. bounds_ok (bd \<and> identity_intrinsic ct n) (ec \<and> identity_intrinsic ct n) \<Gamma> a) \<and>
     (if identity_intrinsic ct n then length args = (if n = ''return_second'' then 2 else 1)
      else plain_call ct n \<and> (bd \<longrightarrow> bits t \<le> 16) \<and>
        (ct \<in> {PureExtern, Image} \<longrightarrow> is_scalar t \<and> (\<forall>a \<in> set args. is_scalar (type_of a))))"
| "bounds_ok bd ec \<Gamma> (LetE n v b) \<longleftrightarrow> valued (LetE n v b) \<and> n \<noteq> [] \<and> n \<notin> let_names v \<union> let_names b \<and>
     (\<exists>bv xv. bounds_ok bv xv \<Gamma> v \<and> bounds_ok bd ec (\<Gamma>(n \<mapsto> (element_of (type_of v), bv, xv))) b)"

text \<open>The fuel that a visit takes: a ramp is visited as \<open>base + lane * stride\<close>.\<close>

fun fuel_need :: "expr \<Rightarrow> nat" where
  "fuel_need (Cast t v) = Suc (fuel_need v)"
| "fuel_need (Binary op a b) = Suc (max (fuel_need a) (fuel_need b))"
| "fuel_need (Select c a b) = Suc (max (fuel_need a) (fuel_need b))"
| "fuel_need (Load t n i im p) = Suc (fuel_need i)"
| "fuel_need (Ramp b s n) = 3 + max (fuel_need b) (fuel_need s)"
| "fuel_need (Broadcast v n) = Suc (fuel_need v)"
| "fuel_need (Call t n args ct f vi im p) = Suc (sum_list (map fuel_need args))"
| "fuel_need (LetE n v b) = Suc (max (fuel_need v) (fuel_need b))"
| "fuel_need _ = 1"

subsection \<open>Scopes and environments\<close>

text \<open>The names that the bounds of the variable of a \<open>Let\<close> get.\<close>

definition mangled :: "string set \<Rightarrow> string set" where
  "mangled N = (\<lambda>n. n @ ''.min'') ` N \<union> (\<lambda>n. n @ ''.max'') ` N"

definition scope_rel :: "Interval scope \<Rightarrow> var_bounds \<Rightarrow> string set \<Rightarrow> env \<Rightarrow> env \<Rightarrow> bool" where
  "scope_rel s \<Gamma> W r r0 \<longleftrightarrow> scope_wf s \<and> dom (scope_lookup s) = dom \<Gamma> \<and>
     (\<forall>n i t b x xs. scope_lookup s n = Some i \<longrightarrow> \<Gamma> n = Some (t, b, x) \<longrightarrow> var_val r n = Some xs \<longrightarrow>
        brackets b x W r0 t i xs)"

text \<open>
  A load reads lane by lane, and the bounds that are given for functions hold of the values
  of calls to them.
\<close>

definition loads_by_element :: "env \<Rightarrow> bool" where
  "loads_by_element r \<longleftrightarrow> (\<forall>n t. load_val r n t = load_val r n (element_of t))"

definition funcs_ok :: "bounds_context \<Rightarrow> string set \<Rightarrow> env \<Rightarrow> bool" where
  "funcs_ok c W r \<longleftrightarrow> (\<forall>n vi i t vs xs. func_bounds c n vi = Some i \<longrightarrow> call_val r t n Halide vi vs = Some xs \<longrightarrow>
     brackets False True W r (element_of t) i xs)"

text \<open>
  An expression is visited under \<open>r\<close>, its bounds have their value under \<open>r0\<close>, which
  differs in the variables of the scope. The names that the visit introduces are fresh.
\<close>

definition visit_ok ::
  "bounds_context \<Rightarrow> nat \<Rightarrow> Interval scope \<Rightarrow> var_bounds \<Rightarrow> string set \<Rightarrow> env \<Rightarrow> env \<Rightarrow> expr \<Rightarrow> bool" where
  "visit_ok c k s \<Gamma> W r r0 e \<longleftrightarrow> setting c r0 \<and> same_memory r r0 \<and> loads_by_element r0 \<and> funcs_ok c W r0 \<and>
     scope_rel s \<Gamma> W r r0 \<and> expr_vars e \<subseteq> W \<union> dom \<Gamma> \<and> (\<forall>n \<in> expr_vars e - dom \<Gamma>. var_val r n = var_val r0 n) \<and>
     mangled (let_names e) \<inter> (W \<union> expr_vars e) = {} \<and> inj (lane_name c) \<and>
     (\<forall>m < k. lane_name c m \<notin> expr_vars e \<union> mangled (let_names e))"

lemma visit_okD:
  assumes "visit_ok c k s \<Gamma> W r r0 e"
  shows "setting c r0" "same_memory r r0" "loads_by_element r0" "funcs_ok c W r0" "scope_rel s \<Gamma> W r r0"
    "expr_vars e \<subseteq> W \<union> dom \<Gamma>" "\<forall>n \<in> expr_vars e - dom \<Gamma>. var_val r n = var_val r0 n"
    "mangled (let_names e) \<inter> (W \<union> expr_vars e) = {}" "inj (lane_name c)"
    "\<forall>m < k. lane_name c m \<notin> expr_vars e \<union> mangled (let_names e)"
    "infinities_shared (addrs c)"
  using assms by (simp_all add: visit_ok_def setting_def)

lemma mangled_mono: "N \<subseteq> N' \<Longrightarrow> mangled N \<subseteq> mangled N'"
  by (auto simp: mangled_def)

lemma mangled_Un: "mangled (N \<union> N') = mangled N \<union> mangled N'"
  by (auto simp: mangled_def)

lemma visit_ok_child:
  assumes v: "visit_ok c k s \<Gamma> W r r0 e" and "expr_vars e' \<subseteq> expr_vars e" and "let_names e' \<subseteq> let_names e" and "k' \<le> k"
  shows "visit_ok c k' s \<Gamma> W r r0 e'"
  using visit_okD [OF v] assms(2,4) mangled_mono [OF assms(3)] unfolding visit_ok_def
  by (intro conjI) (blast dest: order.strict_trans2)+

text \<open>The claim about one visit, and about all visits with some fuel.\<close>

definition visited ::
  "bounds_context \<Rightarrow> nat \<Rightarrow> Interval scope \<Rightarrow> string set \<Rightarrow> env \<Rightarrow> bool \<Rightarrow> bool \<Rightarrow> expr \<Rightarrow> int list \<Rightarrow> bool" where
  "visited c k s W r0 bd ec e xs \<longleftrightarrow> (\<forall>i. \<exists>j. visit_bounds c k s i e = Inr j \<and>
     brackets bd ec (W \<union> mangled (let_names e)) r0 (element_of (type_of e)) j xs)"

definition visits_soundly :: "bounds_context \<Rightarrow> nat \<Rightarrow> bool" where
  "visits_soundly c k \<longleftrightarrow> (\<forall>bd ec \<Gamma> s W r r0 e xs. fuel_need e \<le> k \<longrightarrow> wf_expr e \<longrightarrow> bounds_ok bd ec \<Gamma> e \<longrightarrow>
     visit_ok c k s \<Gamma> W r r0 e \<longrightarrow> eval_in True r e = Some xs \<longrightarrow> xs \<noteq> [] \<longrightarrow> visited c k s W r0 bd ec e xs)"

lemma visits_soundlyD:
  "visits_soundly c k \<Longrightarrow> fuel_need e \<le> k \<Longrightarrow> wf_expr e \<Longrightarrow> bounds_ok bd ec \<Gamma> e \<Longrightarrow> visit_ok c k s \<Gamma> W r r0 e \<Longrightarrow>
   eval_in True r e = Some xs \<Longrightarrow> xs \<noteq> [] \<Longrightarrow> visited c k s W r0 bd ec e xs"
  unfolding visits_soundly_def by blast

lemma visitedD:
  assumes "visited c k s W r0 bd ec e xs" and "let_names e \<subseteq> N"
  shows "\<exists>j. visit_bounds c k s i e = Inr j \<and> brackets bd ec (W \<union> mangled N) r0 (element_of (type_of e)) j xs"
proof -
  obtain j where j: "visit_bounds c k s i e = Inr j" "brackets bd ec (W \<union> mangled (let_names e)) r0 (element_of (type_of e)) j xs"
    using assms(1) unfolding visited_def by blast
  have "W \<union> mangled (let_names e) \<subseteq> W \<union> mangled N" using mangled_mono [OF assms(2)] by blast
  then show ?thesis using j(1) brackets_weaken [OF j(2)] by blast
qed

subsection \<open>Types\<close>

lemma element_of_fit:
  assumes "type_wf t"
  shows "fit_in m (element_of t) = fit_in m t" "range_in m (element_of t) = range_in m t" "binop_in m op (element_of t) = binop_in m op t"
proof -
  have c: "code (element_of t) = code t" "bits (element_of t) = bits t"
    using assms by (simp_all add: element_of_def mk_Type_def type_wf_def)
  then have i: "is_int (element_of t) = is_int t" "is_uint (element_of t) = is_uint t" by (simp_all add: type_predicates)
  show f: "fit_in m (element_of t) = fit_in m t" and "range_in m (element_of t) = range_in m t"
    using c i by (auto simp: fit_in_def fit_def range_in_def no_overflow_int_def in_range_def wrap_def type_lo_def type_hi_def intro!: ext)
  show "binop_in m op (element_of t) = binop_in m op t"
    using f by (intro ext) (cases op; simp)
qed

lemma element_of_facts:
  assumes "type_wf t"
  shows "bits (element_of t) = bits t" "checked_type (element_of t) = checked_type t" "div_type (element_of t) = div_type t"
    "is_int (element_of t) = is_int t" "is_uint (element_of t) = is_uint t"
proof -
  have c: "code (element_of t) = code t" "bits (element_of t) = bits t"
    using assms by (simp_all add: element_of_def mk_Type_def type_wf_def)
  then have i: "is_int (element_of t) = is_int t" "is_uint (element_of t) = is_uint t" by (simp_all add: type_predicates)
  then show "bits (element_of t) = bits t" "checked_type (element_of t) = checked_type t" "div_type (element_of t) = div_type t"
    "is_int (element_of t) = is_int t" "is_uint (element_of t) = is_uint t"
    using c by (simp_all add: checked_type_def div_type_def no_overflow_int_def)
qed

lemma element_of_eq: "type_eq s t \<Longrightarrow> element_of s = element_of t"
  by (simp add: element_of_def type_eq_def)

lemma valued_type:
  assumes "wf_expr e" and "const_type (type_of e)"
  shows "elem_type (element_of (type_of e))" "type_wf (type_of e)" "node_type (type_of e) (element_of (type_of e))"
proof -
  show w: "type_wf (type_of e)" using wf_expr_type_wf [OF assms(1)] .
  then have c: "code (element_of (type_of e)) = code (type_of e)" "bits (element_of (type_of e)) = bits (type_of e)"
    by (simp_all add: element_of_def mk_Type_def type_wf_def)
  then have "const_type (element_of (type_of e))" using assms(2) by (simp add: const_type_def type_predicates)
  moreover have "type_wf (element_of (type_of e))" "is_scalar (element_of (type_of e))"
    using w by (simp_all add: element_of_def mk_Type_def type_wf_def is_scalar_def)
  ultimately show e: "elem_type (element_of (type_of e))" by (simp add: elem_type_def)
  then show "node_type (type_of e) (element_of (type_of e))"
    using w elem_type_handle [OF e] by (simp add: node_type_def type_eq_def type_predicates)
qed

lemma bounds_ok_type: "wf_expr e \<Longrightarrow> bounds_ok bd ec \<Gamma> e \<Longrightarrow> valued e"
  by (cases e) (auto simp: valued_def const_type_def is_scalar_def)

lemma scalar_element: "wf_expr e \<Longrightarrow> const_type (type_of e) \<Longrightarrow> lanes (type_of e) = 1 \<Longrightarrow> type_eq (type_of e) (element_of (type_of e))"
  using valued_type(2) [of e] by (auto simp: type_eq_def element_of_def mk_Type_def type_wf_def const_type_def type_predicates)

subsection \<open>One visit\<close>

lemma brackets_lanes:
  assumes "\<forall>x \<in> set xs. brackets bd ec W r t i [x]" and "xs \<noteq> []"
  shows "brackets bd ec W r t i xs"
proof -
  have l: "below bd ec W r t (interval_min i) xs"
  proof (cases "interval_min i = neg_inf")
    case True
    then show ?thesis using assms bval_not_inf unfolding brackets_def below_def by (metis list.set_sel(1))
  next
    case False
    obtain v where v: "bval ec W r t (interval_min i) v" using assms False unfolding brackets_def below_def by (metis list.set_sel(1))
    have "v \<le> x" if "x \<in> set xs" for x
      using assms(1) that False bval_unique [OF v] unfolding brackets_def below_def by (metis list.set_intros(1))
    then show ?thesis using v unfolding below_def by blast
  qed
  have u: "above bd ec W r t (interval_max i) xs"
  proof (cases "interval_max i = pos_inf")
    case True
    then show ?thesis using assms bval_not_inf unfolding brackets_def above_def by (metis list.set_sel(1))
  next
    case False
    obtain v where v: "bval ec W r t (interval_max i) v" using assms False unfolding brackets_def above_def by (metis list.set_sel(1))
    have "x \<le> v" if "x \<in> set xs" for x
      using assms(1) that False bval_unique [OF v] unfolding brackets_def above_def by (metis list.set_intros(1))
    then show ?thesis using v unfolding above_def by blast
  qed
  show ?thesis using l u by (simp add: brackets_def)
qed

lemma bval_transport:
  assumes "bval ec W r t e v" and "\<forall>n \<in> W. var_val r n = var_val r' n" and "same_memory r r'"
  shows "bval ec W r' t e v"
proof -
  have "eval_in True r e = eval_in True r' e"
    by (rule eval_in_vars_cong) (use assms in \<open>auto simp: fin_def bound_pred_def\<close>)
  then show ?thesis using assms(1) by (simp add: fin_def)
qed

lemma brackets_transport:
  assumes "brackets bd ec W r t i xs" and "\<forall>n \<in> W. var_val r n = var_val r' n" and "same_memory r r'"
  shows "brackets bd ec W r' t i xs"
  using assms(1) bval_transport [OF _ assms(2,3)] unfolding brackets_def below_def above_def by blast

lemma bval_var:
  assumes t: "elem_type t" "n \<noteq> []" and "n \<in> W" and "var_val r n = Some [x]" and "range_in True t x"
  shows "bval ec W r t (Variable t n None None None) x"
  using assms elem_type_scalar [OF t(1)] elem_type_wf [OF t(1)] elem_type_handle [OF t(1)]
  by (simp add: fin_def bound_pred_def)

lemma visited_const:
  assumes e: "e = IntImm t v \<or> e = UIntImm t v" and w: "wf_expr e" and x: "eval_in True r e = Some xs"
  shows "visited c (Suc k) s W r0 bd ec e xs"
proof -
  have t: "elem_type t" using e w by (auto simp: elem_type_def const_type_def)
  have s: "type_eq t (element_of t)" using scalar_element [OF w] e elem_type_scalar [OF t] t by (auto simp: elem_type_def)
  have ev: "eval_in True r0 e = Some xs" using x e by auto
  then obtain v' where "xs = [v']" using e by (auto split: if_splits)
  then have "bval ec W r0 (element_of t) e v'"
    using e w ev s elem_type_handle [OF valued_type(1) [OF w, folded], simplified] t
    by (auto simp: fin_def bound_pred_def elem_type_def element_of_def mk_Type_def type_wf_def const_type_def type_predicates)
  then have "bval ec (W \<union> mangled (let_names e)) r0 (element_of t) e v'" by (rule bval_weaken) auto
  then have "brackets bd ec (W \<union> mangled (let_names e)) r0 (element_of t) (single_point e) xs"
    using \<open>xs = [v']\<close> brackets_single by simp
  then show ?thesis using e by (auto simp: visited_def visit_bounds.simps)
qed

lemma visited_variable:
  assumes e: "e = Variable t n im p rd" and v: "visit_ok c (Suc k) s \<Gamma> W r r0 e" and w: "wf_expr e" and b: "bounds_ok bd ec \<Gamma> e"
    and x: "eval_in True r e = Some xs" and nx: "xs \<noteq> []"
  shows "visited c (Suc k) s W r0 bd ec e xs"
proof -
  note o = visit_okD [OF v]
  have val: "valued e" using bounds_ok_type [OF w b] .
  then have t: "elem_type (element_of t)" "type_wf t" using valued_type [OF w] by (simp_all add: e valued_def)
  have r: "var_val r n = Some xs" "length xs = lanes t" "\<forall>x \<in> set xs. range_in True t x"
    using x by (auto simp: e split: option.splits if_splits)
  have sw: "scope_wf s" and d: "dom (scope_lookup s) = dom \<Gamma>" using o(5) by (simp_all add: scope_rel_def)
  have W: "W \<subseteq> W \<union> mangled (let_names e)" by blast
  show ?thesis
  proof (cases "scope_lookup s n")
    case (Some i)
    then obtain u b' x' where g: "\<Gamma> n = Some (u, b', x')" using d by (metis domD domI prod_cases3)
    then have bb: "u = element_of t" "bd \<Longrightarrow> b'" "ec \<Longrightarrow> x'" using b by (auto simp: e)
    have "brackets b' x' W r0 u i xs" using o(5) Some g r(1) unfolding scope_rel_def by blast
    then have "brackets bd ec (W \<union> mangled (let_names e)) r0 (element_of t) i xs"
      using brackets_weaken [OF _ bb(2,3) W] bb(1) by blast
    then show ?thesis using Some scope_contains_lookup [OF sw, of n] scope_get_lookup [OF sw Some]
      by (simp add: visited_def visit_bounds.simps e)
  next
    case None
    then have g: "\<Gamma> n = None" using d by blast
    then have nc: "\<not> scope_contains s n" using None scope_contains_lookup [OF sw] by simp
    show ?thesis
    proof (cases "is_vector t")
      case True
      have rr: "\<forall>x \<in> set xs. range_in True (element_of t) x" using r(3) element_of_fit(2) [OF t(2)] by simp
      have "bd \<Longrightarrow> bits (element_of t) \<le> 16"
        using b g True element_of_facts(1) [OF t(2)] by (auto simp: e is_vector_def is_scalar_def)
      then show ?thesis using bounds_of_type_sound [OF t(1) rr] True nc
        by (simp add: visited_def visit_bounds.simps e)
    next
      case False
      then have l: "lanes t = 1" using val by (simp add: e valued_def is_vector_def)
      then obtain x where xx: "xs = [x]" using r(2) by (auto simp: length_Suc_conv)
      have m: "n \<in> expr_vars e" "n \<notin> dom \<Gamma>" using g by (simp_all add: e domIff)
      have "var_val r0 n = Some xs" using bspec [OF o(7), of n] m r(1) by simp
      moreover have "n \<in> W" using o(6) m by blast
      ultimately have "bval ec W r0 (element_of t) e x"
        using r(3) l w xx elem_type_handle [OF t(1)] scalar_element [OF w] val
        by (simp add: fin_def bound_pred_def e valued_def)
      then have "brackets bd ec (W \<union> mangled (let_names e)) r0 (element_of t) (single_point e) xs"
        using xx brackets_single [OF bval_weaken] by (metis W empty_iff empty_set set_ConsD)
      then show ?thesis using nc False by (simp add: visited_def visit_bounds.simps e)
    qed
  qed
qed

lemma visited_bool:
  assumes e: "(\<exists>op x y. e = Binary op x y \<and> \<not> is_arith op) \<or> (\<exists>x. e = NotE x)"
    and w: "wf_expr e" and b: "bounds_ok bd ec \<Gamma> e" and x: "eval_in True r e = Some xs"
  shows "visited c (Suc k) s W r0 bd ec e xs"
proof -
  have t: "elem_type (element_of (type_of e))" using valued_type [OF w] bounds_ok_type [OF w b] by (simp add: valued_def)
  have "\<forall>x \<in> set xs. range_in True (element_of (type_of e)) x"
    using eval_in_sound [OF w x] element_of_fit(2) [OF wf_expr_type_wf [OF w]] by (simp add: has_type_in_def)
  moreover have "bits (element_of (type_of e)) \<le> 16" using e by (auto simp: element_of_def Bool_t_def UInt_t_def mk_Type_def)
  ultimately obtain i where "bounds_of_type (type_of e) = Inr i"
      "brackets bd ec (W \<union> mangled (let_names e)) r0 (element_of (type_of e)) i xs"
    using bounds_of_type_sound [OF t] by blast
  then show ?thesis using e by (auto simp: visited_def visit_bounds.simps is_arith_def)
qed

lemma lift2_lanes_of:
  assumes "lift2 (binop_in True op t) xs ys = Some zs" and "\<forall>x \<in> set xs. range_in True t x" and "\<forall>y \<in> set ys. range_in True t y"
  shows "lanes_of op t xs ys zs"
  unfolding lanes_of_def
proof
  fix z
  assume "z \<in> set zs"
  then obtain i where i: "i < length zs" "z = zs ! i" by (auto simp: in_set_conv_nth)
  then have "i < length xs" "i < length ys" "binop_in True op t (xs ! i) (ys ! i) = Some z" using assms(1) by (auto simp: lift2_Some)
  then show "\<exists>x \<in> set xs. \<exists>y \<in> set ys. binop_in True op t x y = Some z \<and> range_in True t x \<and> range_in True t y"
    using assms(2,3) by (meson nth_mem)
qed

lemma eval_range_element:
  assumes "wf_expr e" and "eval_in True r e = Some xs"
  shows "\<forall>x \<in> set xs. range_in True (element_of (type_of e)) x"
  using eval_in_sound [OF assms] element_of_fit(2) [OF wf_expr_type_wf [OF assms(1)]] by (simp add: has_type_in_def)

text \<open>The interval of a positive literal is the literal.\<close>

lemma visit_pos_imm:
  assumes "is_pos_imm e" and "fuel_need e \<le> k"
  shows "\<exists>z. (\<forall>i. visit_bounds c k s i e = Inr (single_point z)) \<and> is_positive_const z"
  using assms
proof (induction e arbitrary: k)
  case (Broadcast v n)
  then obtain k' where k: "k = Suc k'" "fuel_need v \<le> k'" by (cases k) auto
  then show ?case using Broadcast.IH [OF _ k(2)] Broadcast.prems(1) by (simp add: visit_bounds.simps)
qed (auto simp: visit_bounds.simps dest!: Suc_le_D)

lemma visited_binary:
  assumes IH: "visits_soundly c k" and e: "e = Binary op x y" and op: "op \<in> {AddOp, SubOp, MulOp, DivOp, ModOp, MinOp, MaxOp}"
    and f: "fuel_need e \<le> Suc k" and w: "wf_expr e" and b: "bounds_ok bd ec \<Gamma> e"
    and v: "visit_ok c (Suc k) s \<Gamma> W r r0 e" and z: "eval_in True r e = Some zs" and nz: "zs \<noteq> []"
  shows "visited c (Suc k) s W r0 bd ec e zs"
proof -
  let ?t = "element_of (type_of x)" and ?W = "W \<union> mangled (let_names e)"
  have S: "setting c r0" using visit_okD(1) [OF v] .
  have te: "type_of e = type_of x" using e op by (auto simp: is_arith_def)
  have wx: "wf_expr x" "wf_expr y" and ty: "element_of (type_of y) = ?t" using w e element_of_eq by auto
  have cx: "const_type (type_of x)" using b e te op by (auto simp: valued_def)
  note tx = valued_type [OF wx(1) cx]
  obtain xs ys where ev: "eval_in True r x = Some xs" "eval_in True r y = Some ys" and l: "lift2 (binop_in True op (type_of x)) xs ys = Some zs"
    using z e by (auto elim!: bind_eq_SomeE)
  then have ne: "xs \<noteq> []" "ys \<noteq> []" using nz by (auto simp: lift2_Some)
  have lo: "lanes_of op ?t xs ys zs"
    by (rule lift2_lanes_of) (use l eval_range_element [OF wx(1) ev(1)] eval_range_element [OF wx(2) ev(2)] ty element_of_fit(3) [OF tx(2)] in auto)
  have vx: "visit_ok c k s \<Gamma> W r r0 x" "visit_ok c k s \<Gamma> W r r0 y" using visit_ok_child [OF v] e by auto
  have fx: "fuel_need x \<le> k" "fuel_need y \<le> k" using f e by auto
  have both: "\<exists>j. visit_bounds c (Suc k) s i e = Inr j \<and> brackets bd ec ?W r0 ?t j zs"
    if ok: "bounds_ok b1 x1 \<Gamma> x" "bounds_ok b2 x2 \<Gamma> y"
      and res: "\<And>a b. brackets b1 x1 ?W r0 ?t a xs \<Longrightarrow> brackets b2 x2 ?W r0 ?t b ys \<Longrightarrow>
        (is_pos_imm y \<Longrightarrow> is_positive_const (interval_min b) \<and> is_positive_const (interval_max b)) \<Longrightarrow>
        \<exists>j. bounds_binary c op x y a b = Inr j \<and> brackets bd ec ?W r0 ?t j zs" for b1 x1 b2 x2 i
  proof -
    have vv: "visited c k s W r0 b1 x1 x xs" "visited c k s W r0 b2 x2 y ys"
      using visits_soundlyD [OF IH fx(1) wx(1) ok(1) vx(1) ev(1) ne(1)] visits_soundlyD [OF IH fx(2) wx(2) ok(2) vx(2) ev(2) ne(2)] .
    obtain a where a: "visit_bounds c k s i x = Inr a" "brackets b1 x1 ?W r0 ?t a xs" using visitedD [OF vv(1), of "let_names e" i] e by auto
    obtain b where b: "visit_bounds c k s a y = Inr b" "brackets b2 x2 ?W r0 ?t b ys" using visitedD [OF vv(2), of "let_names e" a] e ty by auto
    have "is_positive_const (interval_min b) \<and> is_positive_const (interval_max b)" if "is_pos_imm y"
      using visit_pos_imm [OF that fx(2), of c s] b(1) by (auto simp: single_point_def)
    then obtain j where "bounds_binary c op x y a b = Inr j" "brackets bd ec ?W r0 ?t j zs" using res [OF a(2) b(2)] by blast
    then show ?thesis using a(1) b(1) op e by (simp add: visit_bounds.simps)
  qed
  have "\<exists>j. visit_bounds c (Suc k) s i e = Inr j \<and> brackets bd ec ?W r0 ?t j zs" for i
  proof -
    note ef = element_of_facts [OF tx(2)]
    consider "op = AddOp" | "op = SubOp" | "op = MulOp" | "op = DivOp" | "op = ModOp" | "op \<in> {MinOp, MaxOp}" using op by blast
    then show ?thesis
    proof cases
      case 1
      show ?thesis by (rule both) (use b e 1 bounds_add_sound [OF S tx(3)] ef lo nz in \<open>auto simp: bounds_binary_def\<close>)
    next
      case 2
      show ?thesis by (rule both) (use b e 2 bounds_sub_sound [OF S tx(3)] ef lo nz in \<open>auto simp: bounds_binary_def\<close>)
    next
      case 3
      show ?thesis by (rule both) (use b e 3 bounds_mul_sound [OF S tx(3)] ef lo nz in \<open>auto simp: bounds_binary_def\<close>)
    next
      case 4
      show ?thesis by (rule both) (use b e 4 bounds_div_sound [OF S tx(3)] ef lo nz in \<open>auto simp: bounds_binary_def\<close>)
    next
      case 5
      show ?thesis by (rule both) (use b e 5 bounds_mod_sound [OF S tx(3)] ef lo nz in \<open>auto simp: bounds_binary_def\<close>)
    next
      case 6
      show ?thesis by (rule both) (use b e 6 bounds_extremum_sound [OF S] lo nz in \<open>auto simp: bounds_binary_def\<close>)
    qed
  qed
  then show ?thesis unfolding visited_def te by blast
qed

lemma visited_cast:
  assumes IH: "visits_soundly c k" and e: "e = Cast t x" and f: "fuel_need e \<le> Suc k" and w: "wf_expr e"
    and b: "bounds_ok bd ec \<Gamma> e" and v: "visit_ok c (Suc k) s \<Gamma> W r r0 e" and z: "eval_in True r e = Some zs" and nz: "zs \<noteq> []"
  shows "visited c (Suc k) s W r0 bd ec e zs"
proof -
  let ?W = "W \<union> mangled (let_names e)" and ?to = "element_of t" and ?from = "element_of (type_of x)"
  obtain xs where ev: "eval_in True r x = Some xs" and l: "list_all2 (\<lambda>x z. fit_in True t x = Some z) xs zs"
    using z e by (auto simp: those_map_eq_Some elim!: bind_eq_SomeE)
  have ne: "xs \<noteq> []" using l nz by auto
  have wx: "wf_expr x" and lt: "lanes t = lanes (type_of x)" using w e by auto
  have vx: "visit_ok c k s \<Gamma> W r r0 x" using visit_ok_child [OF v] e by auto
  define ex where "ex = cast_exact ?to ?from"
  define b1 where "b1 = (if ex then bd \<and> 16 < bits (type_of x) else False)"
  define x1 where "x1 = (if ex then ec else True)"
  have ok: "bounds_ok b1 x1 \<Gamma> x" and nx: "\<not> ex \<Longrightarrow> \<not> ec \<and> (bd \<longrightarrow> bits t \<le> 16)"
    using b e by (auto simp: b1_def x1_def ex_def split: if_splits)
  have cx: "const_type (type_of x)" "const_type t" using bounds_ok_type [OF wx ok] b e by (auto simp: valued_def)
  note tx = valued_type [OF wx cx(1)] and te = valued_type [OF w]
  have vv: "visited c k s W r0 b1 x1 x xs" using visits_soundlyD [OF IH _ wx ok vx ev ne] f e by simp
  have "\<exists>j. visit_bounds c (Suc k) s i e = Inr j \<and> brackets bd ec ?W r0 ?to j zs" for i
  proof -
    obtain a where a: "visit_bounds c k s i x = Inr a" "brackets b1 x1 ?W r0 ?from a xs" using visitedD [OF vv, of "let_names e" i] e by auto
    have "\<exists>j. bounds_cast c t x a = Inr j \<and> brackets bd ec ?W r0 ?to j zs"
    proof (rule bounds_cast_sound [OF visit_okD(1) [OF v] _ _ tx(2,1) lt a(2) eval_range_element [OF wx ev] l nz])
      show "type_wf t" "elem_type ?to" using te cx(2) e by simp_all
      show "cast_exact ?to ?from \<Longrightarrow> (bd \<longrightarrow> b1 \<or> bits ?from \<le> 16) \<and> (ec \<longrightarrow> x1)"
        using element_of_facts(1) [OF tx(2)] by (auto simp: b1_def x1_def ex_def)
      show "\<not> cast_exact ?to ?from \<Longrightarrow> \<not> ec \<and> x1 \<and> (bd \<longrightarrow> bits ?to \<le> 16)"
        using nx element_of_facts(1) [of t] te(2) cx(2) e by (simp add: x1_def ex_def)
    qed
    then obtain j where "bounds_cast c t x a = Inr j" "brackets bd ec ?W r0 ?to j zs" by blast
    then show ?thesis using a(1) e by (simp add: visit_bounds.simps)
  qed
  then show ?thesis using e by (simp add: visited_def)
qed

lemma visited_broadcast:
  assumes IH: "visits_soundly c k" and e: "e = Broadcast x n" and f: "fuel_need e \<le> Suc k" and w: "wf_expr e"
    and b: "bounds_ok bd ec \<Gamma> e" and v: "visit_ok c (Suc k) s \<Gamma> W r r0 e" and z: "eval_in True r e = Some zs"
  shows "visited c (Suc k) s W r0 bd ec e zs"
proof -
  obtain u where ev: "eval_in True r x = Some [u]" "\<forall>z \<in> set zs. z = u"
    using z e by (auto simp: length_Suc_conv elim!: bind_eq_SomeE split: if_splits)
  have wx: "wf_expr x" using w e by simp
  have te: "element_of (type_of e) = element_of (type_of x)"
    using wf_expr_type_wf [OF wx] e by (simp add: element_of_def with_lanes_def mk_Type_def type_wf_def)
  have vx: "visit_ok c k s \<Gamma> W r r0 x" using visit_ok_child [OF v] e by auto
  have vv: "visited c k s W r0 bd ec x [u]" using visits_soundlyD [OF IH _ wx _ vx ev(1)] f b e by simp
  have "set zs \<subseteq> set [u]" using ev(2) by auto
  then have "brackets bd ec V r0 t j [u] \<Longrightarrow> brackets bd ec V r0 t j zs" for V t j using brackets_subset by blast
  moreover have "visit_bounds c (Suc k) s i e = visit_bounds c k s i x" for i by (simp add: visit_bounds.simps e)
  moreover have "let_names e = let_names x" by (simp add: e)
  ultimately show ?thesis using vv unfolding visited_def te by metis
qed

lemma visited_load:
  assumes IH: "visits_soundly c k" and e: "e = Load t n x im p" and f: "fuel_need e \<le> Suc k" and w: "wf_expr e"
    and b: "bounds_ok bd ec \<Gamma> e" and v: "visit_ok c (Suc k) s \<Gamma> W r r0 e" and z: "eval_in True r e = Some zs" and nz: "zs \<noteq> []"
  shows "visited c (Suc k) s W r0 bd ec e zs"
proof -
  let ?W = "W \<union> mangled (let_names e)" and ?t = "element_of t"
  note o = visit_okD [OF v]
  define rd where "rd x = Option.bind (load_val r n t x) (\<lambda>v. if range_in True t v then Some v else None)" for x
  obtain xs where ev: "eval_in True r x = Some xs" and l: "list_all2 (\<lambda>x z. rd x = Some z) xs zs"
    using z e by (auto simp: those_map_eq_Some rd_def elim!: bind_eq_SomeE)
  have ne: "xs \<noteq> []" using l nz by auto
  have wx: "wf_expr x" and ok: "bounds_ok False False \<Gamma> x" and bt: "bd \<Longrightarrow> bits t \<le> 16" using w b e by auto
  have t: "elem_type ?t" "type_wf t" using valued_type [OF w] b e by (auto simp: valued_def)
  have vx: "visit_ok c k s \<Gamma> W r r0 x" using visit_ok_child [OF v] e by auto
  have vv: "visited c k s W r0 False False x xs" using visits_soundlyD [OF IH _ wx ok vx ev ne] f e by simp
  have rdE: "rd x = Option.bind (load_val r0 n ?t x) (\<lambda>v. if range_in True ?t v then Some v else None)" for x
    using o(2,3) element_of_fit(2) [OF t(2)] by (simp add: rd_def same_memory_def loads_by_element_def)
  have "\<exists>j. visit_bounds c (Suc k) s i e = Inr j \<and> brackets bd ec ?W r0 ?t j zs" for i
  proof -
    obtain a where a: "visit_bounds c k s i x = Inr a" "brackets False False ?W r0 (element_of (type_of x)) a xs"
      using visitedD [OF vv, of "let_names e" i] e by auto
    show ?thesis
    proof (cases "is_single_point (addrs c) a")
      case True
      obtain u where u: "bval False ?W r0 (element_of (type_of x)) (interval_min a) u" "\<forall>x \<in> set xs. x = u"
        using brackets_is_single [OF o(11) a(2) True] by blast
      have zr: "rd u = Some z" if "z \<in> set zs" for z using list_all2_set1 [OF l that] u(2) by metis
      then obtain y where y: "rd u = Some y" "\<forall>z \<in> set zs. z = y" using nz by (metis hd_in_set option.inject)
      have la: "lanes (type_of (interval_min a)) = 1" "lanes ?t = 1"
        using u(1) elem_type_scalar [OF t(1)] by (auto simp: fin_def element_of_def mk_Type_def dest!: type_eq_lanes)
      have "bval ec ?W r0 ?t (Load ?t n (interval_min a) im p) y"
        using u(1) y(1) rdE la elem_type_wf [OF t(1)] elem_type_handle [OF t(1)]
        by (auto simp: fin_def bound_pred_def type_eq_def)
      then have "brackets bd ec ?W r0 ?t (single_point (Load ?t n (interval_min a) im p)) zs" using y(2) by (rule brackets_single)
      then show ?thesis using a(1) True la e by (simp add: visit_bounds.simps Load_make_def defined_handle_def)
    next
      case False
      have "\<forall>z \<in> set zs. range_in True ?t z" using eval_range_element [OF w z] e by simp
      then show ?thesis using bounds_of_type_sound [OF t(1), of zs bd ec ?W r0] a(1) False bt e element_of_facts(1) [OF t(2)]
        by (auto simp: visit_bounds.simps)
    qed
  qed
  then show ?thesis using e by (simp add: visited_def)
qed

lemma visited_select:
  assumes IH: "visits_soundly c k" and e: "e = Select q x y" and f: "fuel_need e \<le> Suc k" and w: "wf_expr e"
    and b: "bounds_ok bd ec \<Gamma> e" and v: "visit_ok c (Suc k) s \<Gamma> W r r0 e" and z: "eval_in True r e = Some zs" and nz: "zs \<noteq> []"
  shows "visited c (Suc k) s W r0 bd ec e zs"
proof -
  let ?t = "element_of (type_of x)" and ?W = "W \<union> mangled (let_names e)"
  note o = visit_okD [OF v]
  have wx: "wf_expr x" "wf_expr y" "wf_expr q" and ty: "element_of (type_of y) = ?t" and q: "is_bool (type_of q)" "sized_casts q"
    using w b e element_of_eq by auto
  obtain cs xs ys where ev: "eval_in True r q = Some cs" "eval_in True r x = Some xs" "eval_in True r y = Some ys"
      and l: "select_val cs xs ys = Some zs" using z e by (auto elim!: bind_eq_SomeE)
  then have ne: "xs \<noteq> []" "ys \<noteq> []" using nz by (auto simp: select_val_def split: if_splits)
  have vx: "visit_ok c k s \<Gamma> W r r0 x" "visit_ok c k s \<Gamma> W r r0 y" by (rule visit_ok_child [OF v]; use e in auto)+
  have ok: "bounds_ok True ec \<Gamma> x" "bounds_ok True ec \<Gamma> y" and fx: "fuel_need x \<le> k" "fuel_need y \<le> k" using b f e by auto
  have vv: "visited c k s W r0 True ec x xs" "visited c k s W r0 True ec y ys"
    using visits_soundlyD [OF IH fx(1) wx(1) ok(1) vx(1) ev(2) ne(1)] visits_soundlyD [OF IH fx(2) wx(2) ok(2) vx(2) ev(3) ne(2)] .
  have "\<exists>p. is_scalar (type_of q) \<longrightarrow> \<not> expr_uses_vars s q \<longrightarrow> truth r0 q p \<and> expr_vars q \<subseteq> ?W \<and> cs = [of_bool p]"
  proof (cases "is_scalar (type_of q) \<and> \<not> expr_uses_vars s q")
    case True
    have "scope_contains s n \<longleftrightarrow> n \<in> dom \<Gamma>" for n
      using o(5) scope_contains_lookup [of s n] by (auto simp: scope_rel_def)
    then have nd: "expr_vars q \<inter> dom \<Gamma> = {}" using True by (auto simp: expr_uses_vars_iff)
    have sub: "expr_vars q \<subseteq> expr_vars e" using e by auto
    have "eval_in True r q = eval_in True r0 q"
      by (rule eval_in_vars_cong [OF _ o(2)]) (use nd sub o(7) in blast)
    then obtain p where "truth r0 q p" "cs = [of_bool p]" using truth_eval [OF wx(3) q(2,1)] True ev(1) by metis
    moreover have "expr_vars q \<subseteq> ?W" using sub nd o(6) by blast
    ultimately show ?thesis by blast
  qed blast
  then obtain p where p: "is_scalar (type_of q) \<Longrightarrow> \<not> expr_uses_vars s q \<Longrightarrow> truth r0 q p \<and> expr_vars q \<subseteq> ?W \<and> cs = [of_bool p]" by blast
  have "\<exists>j. visit_bounds c (Suc k) s i e = Inr j \<and> brackets bd ec ?W r0 ?t j zs" for i
  proof -
    obtain a where a: "visit_bounds c k s i x = Inr a" "brackets True ec ?W r0 ?t a xs" using visitedD [OF vv(1), of "let_names e" i] e by auto
    obtain b where b: "visit_bounds c k s a y = Inr b" "brackets True ec ?W r0 ?t b ys" using visitedD [OF vv(2), of "let_names e" a] e ty by auto
    obtain j where "select_bounds c s q a b = Inr j" "brackets bd ec ?W r0 ?t j zs"
      using select_bounds_sound [OF o(1) a(2) b(2) l p] by blast
    then show ?thesis
      using a(1) b(1) e brackets_is_bounded [OF o(11) a(2)] brackets_is_bounded [OF o(11) b(2)] by (simp add: visit_bounds.simps)
  qed
  then show ?thesis using e by (simp add: visited_def)
qed

subsection \<open>Lets\<close>

lemma mangled_iff:
  "n @ ''.min'' \<in> mangled N \<longleftrightarrow> n \<in> N" "n @ ''.max'' \<in> mangled N \<longleftrightarrow> n \<in> N" "n @ ''.min'' \<noteq> n @ ''.max''"
proof -
  have d: "n @ ''.min'' \<noteq> m @ ''.max''" for n m :: string
  proof
    assume "n @ ''.min'' = m @ ''.max''"
    then have "last (n @ ''.min'') = last (m @ ''.max'')" by (rule arg_cong)
    then show False by simp
  qed
  show "n @ ''.min'' \<in> mangled N \<longleftrightarrow> n \<in> N" "n @ ''.max'' \<in> mangled N \<longleftrightarrow> n \<in> N" "n @ ''.min'' \<noteq> n @ ''.max''"
    using d d [symmetric] by (auto simp: mangled_def)
qed

lemma is_const_vars: "is_const e \<Longrightarrow> expr_vars e = {}"
  by (induction e) auto

text \<open>The variable of a bound that is not a constant is given the value of the bound.\<close>

definition bind_bound :: "bool \<Rightarrow> string \<Rightarrow> int \<Rightarrow> env \<Rightarrow> env" where
  "bind_bound g m u r = (if g then r\<lparr>var_val := (var_val r)(m \<mapsto> [u])\<rparr> else r)"

lemma bind_bound_simps [simp]:
  "same_memory (bind_bound g m u r) r" "load_val (bind_bound g m u r) = load_val r" "call_val (bind_bound g m u r) = call_val r"
  "x \<noteq> m \<Longrightarrow> var_val (bind_bound g m u r) x = var_val r x" "g \<Longrightarrow> var_val (bind_bound g m u r) m = Some [u]"
  by (auto simp: bind_bound_def same_memory_def)

lemma same_memory_sym: "same_memory r r' \<Longrightarrow> same_memory r' r"
  by (simp add: same_memory_def)

lemma close_let_sound:
  assumes e: "bval ec V (bind_bound g m u r) t e x" and v: "g \<Longrightarrow> \<exists>a. vo = Some a \<and> bval ea V' r ta a u" and ng: "\<not> g \<Longrightarrow> m \<notin> V"
  shows "\<exists>e'. close_let m vo e = Inr e' \<and> bval ec (V \<union> V') r t e' x"
proof (cases "g \<and> m \<in> expr_vars e")
  case True
  then obtain a where a: "vo = Some a" "bval ea V' r ta a u" using v by blast
  have "close_let m vo e = Inr (LetE m a e)"
    using True a(1) by (simp add: close_let_def expr_uses_var_iff Let_make_def defined_handle_def)
  moreover have "bval ec (V \<union> V') r t (LetE m a e) x"
    using e a(2) True by (auto simp: fin_def bound_pred_def bind_bound_def)
  ultimately show ?thesis by blast
next
  case False
  then have m: "m \<notin> expr_vars e" using ng e by (auto simp: fin_def bound_pred_def)
  then have "eval_in True (bind_bound g m u r) e = eval_in True r e"
    by (intro eval_in_vars_cong) (auto, metis bind_bound_simps(4))
  then have "bval ec (V \<union> V') r t e x" using e by (auto simp: fin_def bound_pred_def)
  then show ?thesis using m by (simp add: close_let_def expr_uses_var_iff)
qed

text \<open>The lower or the upper end of the interval of the variable of a \<open>Let\<close>.\<close>

lemma let_bound_lower:
  assumes h: "infinities_shared h" and b: "brackets bv xv V r t j xs" and m: "m \<noteq> []"
    and g: "g = (has_lower_bound h j \<and> \<not> is_const (interval_min j))"
  shows "\<exists>u vm vo. let_bound (has_lower_bound h j) t m (interval_min j) neg_inf = Inr (vm, vo) \<and>
    (g \<longrightarrow> vm = Variable t m None None None \<and> vo = Some (interval_min j) \<and> bval xv V r t (interval_min j) u \<and> (\<forall>x \<in> set xs. u \<le> x)) \<and>
    (\<not> g \<longrightarrow> below bv xv {} r t vm xs)"
proof (cases "has_lower_bound h j")
  case True
  then obtain u where u: "bval xv V r t (interval_min j) u" "\<forall>x \<in> set xs. u \<le> x" using brackets_lower [OF h b] by auto
  show ?thesis
  proof (cases "is_const (interval_min j)")
    case c: True
    have "bval xv {} r t (interval_min j) u" using u(1) is_const_vars [OF c] by (simp add: fin_def bound_pred_def)
    then have "below bv xv {} r t (interval_min j) xs" using u(2) unfolding below_def by blast
    then show ?thesis using True c g by (simp add: let_bound_def)
  next
    case c: False
    have "let_bound (has_lower_bound h j) t m (interval_min j) neg_inf = Inr (Variable t m None None None, Some (interval_min j))"
      using True c m by (simp add: let_bound_def Variable_make_def)
    then show ?thesis using True c g u by blast
  qed
next
  case False
  have "interval_min j = neg_inf \<and> \<not> bv" using False brackets_lower [OF h b] by simp
  then have "below bv xv {} r t neg_inf xs" by (simp add: below_def)
  then show ?thesis using False g by (simp add: let_bound_def)
qed

lemma let_bound_upper:
  assumes h: "infinities_shared h" and b: "brackets bv xv V r t j xs" and m: "m \<noteq> []"
    and g: "g = (has_upper_bound h j \<and> \<not> is_const (interval_max j))"
  shows "\<exists>u vm vo. let_bound (has_upper_bound h j) t m (interval_max j) pos_inf = Inr (vm, vo) \<and>
    (g \<longrightarrow> vm = Variable t m None None None \<and> vo = Some (interval_max j) \<and> bval xv V r t (interval_max j) u \<and> (\<forall>x \<in> set xs. x \<le> u)) \<and>
    (\<not> g \<longrightarrow> above bv xv {} r t vm xs)"
proof (cases "has_upper_bound h j")
  case True
  then obtain u where u: "bval xv V r t (interval_max j) u" "\<forall>x \<in> set xs. x \<le> u" using brackets_upper [OF h b] by auto
  show ?thesis
  proof (cases "is_const (interval_max j)")
    case c: True
    have "bval xv {} r t (interval_max j) u" using u(1) is_const_vars [OF c] by (simp add: fin_def bound_pred_def)
    then have "above bv xv {} r t (interval_max j) xs" using u(2) unfolding above_def by blast
    then show ?thesis using True c g by (simp add: let_bound_def)
  next
    case c: False
    have "let_bound (has_upper_bound h j) t m (interval_max j) pos_inf = Inr (Variable t m None None None, Some (interval_max j))"
      using True c m by (simp add: let_bound_def Variable_make_def)
    then show ?thesis using True c g u by blast
  qed
next
  case False
  have "interval_max j = pos_inf \<and> \<not> bv" using False brackets_upper [OF h b] by simp
  then have "above bv xv {} r t pos_inf xs" by (simp add: above_def)
  then show ?thesis using False g by (simp add: let_bound_def)
qed

lemma below_transport: "below bd ec {} r t e xs \<Longrightarrow> same_memory r r' \<Longrightarrow> below bd ec W r' t e xs"
  using bval_transport [of ec "{}" r t e _ r'] bval_weaken [of ec "{}" r' t e _ ec W] unfolding below_def by blast

lemma above_transport: "above bd ec {} r t e xs \<Longrightarrow> same_memory r r' \<Longrightarrow> above bd ec W r' t e xs"
  using bval_transport [of ec "{}" r t e _ r'] bval_weaken [of ec "{}" r' t e _ ec W] unfolding above_def by blast

lemma env_type_ok_cong: "same_memory r r' \<Longrightarrow> env_type_ok r = env_type_ok r'"
  by (simp add: same_memory_def env_type_ok_def)

text \<open>Both ends: the body is visited in an environment with the values of the new variables.\<close>

lemma let_interval_sound:
  assumes h: "infinities_shared (addrs c)" and mn: "mn = n @ ''.min''" and mx: "mx = n @ ''.max''"
    and i: "brackets bd ec V1 (bind_bound g mn u (bind_bound g' mx u' r)) t i xs"
    and lo: "g \<Longrightarrow> \<exists>a. vo = Some a \<and> bval x1 V r tv a u" "\<not> g \<Longrightarrow> mn \<notin> V1"
    and hi: "g' \<Longrightarrow> \<exists>a. vo' = Some a \<and> bval x1 V r tv a u'" "\<not> g' \<Longrightarrow> mx \<notin> V1"
    and fr: "mx \<notin> V"
  shows "\<exists>j. let_interval c n vo vo' i = Inr j \<and> brackets bd ec (V1 \<union> V) r t j xs"
proof -
  let ?r = "bind_bound g' mx u' r"
  have tr: "bval x1 V ?r tv a w" if "bval x1 V r tv a w" for a w
    by (rule bval_transport [OF that]) (use fr in \<open>auto intro!: same_memory_sym [OF bind_bound_simps(1)] bind_bound_simps(4) [symmetric]\<close>)
  have "\<exists>e'. rbind (close_let mn vo e) (close_let mx vo') = Inr e' \<and> bval ec (V1 \<union> V) r t e' x"
    if e: "bval ec V1 (bind_bound g mn u ?r) t e x" for e x
  proof -
    have "g \<Longrightarrow> \<exists>a. vo = Some a \<and> bval x1 V ?r tv a u" using lo(1) tr by blast
    then obtain e1 where e1: "close_let mn vo e = Inr e1" "bval ec (V1 \<union> V) ?r t e1 x" using close_let_sound [OF e _ lo(2)] by blast
    obtain e2 where "close_let mx vo' e1 = Inr e2" "bval ec (V1 \<union> V \<union> V) r t e2 x"
      using close_let_sound [OF e1(2) hi(1)] hi(2) fr by blast
    moreover have "V1 \<union> V \<union> V = V1 \<union> V" by blast
    ultimately show ?thesis using e1(1) by simp
  qed
  then show ?thesis
    using map_bounds_sound [OF h i, of "\<lambda>e. rbind (close_let mn vo e) (close_let mx vo')" ec "V1 \<union> V" r t]
    unfolding let_interval_def Let_def mn mx by blast
qed

text \<open>The body of a \<open>Let\<close> is visited in the environment that has the values of the bounds.\<close>

lemma let_visit_ok:
  fixes n :: string
  assumes vs: "visit_ok c (Suc k) s \<Gamma> W r r0 (LetE n v b)" and nn: "n \<notin> let_names v" "n \<notin> let_names b"
    and new: "brackets bv xv W1 r1 t i xs"
    and r1: "r1 = bind_bound g (n @ ''.min'') u (bind_bound g' (n @ ''.max'') u' r0)"
    and W1: "W1 = W \<union> (if g then {n @ ''.min''} else {}) \<union> (if g' then {n @ ''.max''} else {})"
  shows "visit_ok c k (scope_push n i s) (\<Gamma>(n \<mapsto> (t, bv, xv))) W1 (r\<lparr>var_val := (var_val r)(n \<mapsto> xs)\<rparr>) r1 b"
proof -
  let ?e = "LetE n v b" and ?mn = "n @ ''.min''" and ?mx = "n @ ''.max''" and ?r = "r\<lparr>var_val := (var_val r)(n \<mapsto> xs)\<rparr>"
  let ?s = "scope_push n i s" and ?G = "\<Gamma>(n \<mapsto> (t, bv, xv))"
  note o = visit_okD [OF vs]
  have fresh: "?mn \<notin> W" "?mx \<notin> W" "?mn \<notin> mangled (let_names b)" "?mx \<notin> mangled (let_names b)"
      "?mn \<notin> expr_vars ?e" "?mx \<notin> expr_vars ?e"
    using o(8) nn mangled_iff [of n] by auto
  have mem: "same_memory r0 r1" "same_memory ?r r1" using o(2) by (simp_all add: r1 same_memory_def)
  have same: "var_val r0 m = var_val r1 m" if "m \<noteq> ?mn" "m \<noteq> ?mx" for m using that by (simp add: r1)
  have sameW: "\<forall>m \<in> W. var_val r0 m = var_val r1 m"
  proof
    fix m
    assume "m \<in> W"
    then have "m \<noteq> ?mn" "m \<noteq> ?mx" using fresh(1,2) by auto
    then show "var_val r0 m = var_val r1 m" by (rule same)
  qed
  have sub: "W \<subseteq> W1" by (auto simp: W1)
  have tr: "brackets b' x' W1 r1 t' j ys" if "brackets b' x' W r0 t' j ys" for b' x' t' j ys
    using brackets_weaken [OF brackets_transport [OF that sameW mem(1)] _ _ sub] by blast
  have sw: "scope_wf s" and d: "dom (scope_lookup s) = dom \<Gamma>" using o(5) by (simp_all add: scope_rel_def)
  have rel: "scope_rel ?s ?G W1 ?r r1"
    unfolding scope_rel_def
  proof (intro conjI allI impI)
    show "scope_wf ?s" using sw by (rule scope_wf_push)
    show "dom (scope_lookup ?s) = dom ?G" using d sw by (simp add: scope_lookup_push)
    fix m j t' b' x' ys
    assume a: "scope_lookup ?s m = Some j" "?G m = Some (t', b', x')" "var_val ?r m = Some ys"
    show "brackets b' x' W1 r1 t' j ys"
    proof (cases "m = n")
      case True
      then show ?thesis using a new sw by (auto simp: scope_lookup_push)
    next
      case False
      then have "brackets b' x' W r0 t' j ys" using a o(5) sw by (simp add: scope_lookup_push scope_rel_def)
      then show ?thesis by (rule tr)
    qed
  qed
  have agree: "\<forall>m \<in> expr_vars b - dom ?G. var_val ?r m = var_val r1 m"
  proof
    fix m
    assume "m \<in> expr_vars b - dom ?G"
    then have m: "m \<noteq> n" "m \<in> expr_vars ?e" "m \<notin> dom \<Gamma>" by auto
    then have "var_val r m = var_val r0 m" using o(7) by blast
    moreover have "m \<noteq> ?mn" "m \<noteq> ?mx" using m(2) fresh(5,6) by auto
    ultimately show "var_val ?r m = var_val r1 m" using m(1) same by simp
  qed
  have mb: "mangled (let_names b) \<subseteq> mangled (let_names ?e)" "expr_vars b \<subseteq> expr_vars ?e" by (auto intro!: mangled_mono)
  have "setting c r1" using o(1) env_type_ok_cong [OF mem(1)] by (simp add: setting_def)
  moreover have "loads_by_element r1" using o(3) mem(1) by (simp add: loads_by_element_def same_memory_def)
  moreover have "funcs_ok c W1 r1" using o(4) mem(1) tr unfolding funcs_ok_def same_memory_def by metis
  moreover have "expr_vars b \<subseteq> W1 \<union> dom ?G" using o(6) sub by auto
  moreover have "mangled (let_names b) \<inter> (W1 \<union> expr_vars b) = {}" using o(8) mb fresh(3,4) by (auto simp: W1 split: if_splits)
  moreover have "\<forall>m < k. lane_name c m \<notin> expr_vars b \<union> mangled (let_names b)" using o(10) mb less_Suc_eq by blast
  ultimately show ?thesis using mem(2) rel agree o(9) unfolding visit_ok_def by blast
qed

lemma visited_let:
  assumes IH: "visits_soundly c k" and e: "e = LetE n v b" and f: "fuel_need e \<le> Suc k" and w: "wf_expr e"
    and ok: "bounds_ok bd ec \<Gamma> e" and vs: "visit_ok c (Suc k) s \<Gamma> W r r0 e" and z: "eval_in True r e = Some zs" and nz: "zs \<noteq> []"
  shows "visited c (Suc k) s W r0 bd ec e zs"
proof -
  let ?t = "element_of (type_of v)" and ?W = "W \<union> mangled (let_names e)" and ?mn = "n @ ''.min''" and ?mx = "n @ ''.max''"
  let ?V = "W \<union> mangled (let_names v)"
  note o = visit_okD [OF vs]
  have wv: "wf_expr v" "wf_expr b" and fv: "fuel_need v \<le> k" "fuel_need b \<le> k" using w f e by auto
  obtain xs where ev: "eval_in True r v = Some xs" "eval_in True (r\<lparr>var_val := (var_val r)(n \<mapsto> xs)\<rparr>) b = Some zs"
    using z e by (auto elim!: bind_eq_SomeE)
  obtain bv xv where okv: "bounds_ok bv xv \<Gamma> v" and okb: "bounds_ok bd ec (\<Gamma>(n \<mapsto> (?t, bv, xv))) b"
    and nn: "n \<noteq> []" "n \<notin> let_names v" "n \<notin> let_names b" using ok e by auto
  have val: "valued v" using bounds_ok_type [OF wv(1) okv] .
  then have t: "elem_type ?t" using valued_type [OF wv(1)] by (simp add: valued_def)
  have ne: "xs \<noteq> []" using eval_in_sound [OF wv(1) ev(1)] val by (auto simp: has_type_in_def valued_def)
  have vv: "visit_ok c k s \<Gamma> W r r0 v" by (rule visit_ok_child [OF vs]) (use e in auto)
  note V = visits_soundlyD [OF IH fv(1) wv(1) okv vv ev(1) ne]
  have fresh: "?mn \<notin> ?V" "?mx \<notin> ?V" "?mn \<noteq> ?mx" "?mn \<notin> mangled (let_names b)" "?mx \<notin> mangled (let_names b)"
      "?mn \<notin> expr_vars e" "?mx \<notin> expr_vars e"
    using o(8) nn mangled_iff [of n] e by auto
  have xr: "\<forall>x \<in> set xs. range_in True ?t x" using eval_range_element [OF wv(1) ev(1)] .
  have "\<exists>j. visit_bounds c (Suc k) s i e = Inr j \<and> brackets bd ec ?W r0 (element_of (type_of e)) j zs" for i
  proof -
    obtain a where a: "visit_bounds c k s i v = Inr a" "brackets bv xv ?V r0 ?t a xs" using V unfolding visited_def by blast
    define g where "g = (has_lower_bound (addrs c) a \<and> \<not> is_const (interval_min a))"
    define g' where "g' = (has_upper_bound (addrs c) a \<and> \<not> is_const (interval_max a))"
    obtain u vm vo where lo: "let_bound (has_lower_bound (addrs c) a) ?t ?mn (interval_min a) neg_inf = Inr (vm, vo)"
        "g \<longrightarrow> vm = Variable ?t ?mn None None None \<and> vo = Some (interval_min a) \<and> bval xv ?V r0 ?t (interval_min a) u \<and> (\<forall>x \<in> set xs. u \<le> x)"
        "\<not> g \<longrightarrow> below bv xv {} r0 ?t vm xs"
      using let_bound_lower [OF o(11) a(2) _ g_def, of ?mn] by auto
    obtain u' vm' vo' where hi: "let_bound (has_upper_bound (addrs c) a) ?t ?mx (interval_max a) pos_inf = Inr (vm', vo')"
        "g' \<longrightarrow> vm' = Variable ?t ?mx None None None \<and> vo' = Some (interval_max a) \<and> bval xv ?V r0 ?t (interval_max a) u' \<and> (\<forall>x \<in> set xs. x \<le> u')"
        "\<not> g' \<longrightarrow> above bv xv {} r0 ?t vm' xs"
      using let_bound_upper [OF o(11) a(2) _ g'_def, of ?mx] by auto
    define r1 where "r1 = bind_bound g ?mn u (bind_bound g' ?mx u' r0)"
    define W1 where "W1 = W \<union> (if g then {?mn} else {}) \<union> (if g' then {?mx} else {})"
    define s1 where "s1 = scope_push n (mk_Interval vm vm') s"
    define \<Gamma>1 where "\<Gamma>1 = \<Gamma>(n \<mapsto> (?t, bv, xv))"
    let ?r = "r\<lparr>var_val := (var_val r)(n \<mapsto> xs)\<rparr>"
    have mem: "same_memory r0 r1" by (simp add: r1_def same_memory_def)
    have same: "var_val r0 m = var_val r1 m" if "m \<noteq> ?mn" "m \<noteq> ?mx" for m using that by (simp add: r1_def)
    have sameW: "\<forall>m \<in> W. var_val r0 m = var_val r1 m" 
    proof
      fix m
      assume "m \<in> W"
      then have "m \<noteq> ?mn" "m \<noteq> ?mx" using fresh(1,2) by auto
      then show "var_val r0 m = var_val r1 m" by (rule same)
    qed
    have W1: "W \<subseteq> W1" by (auto simp: W1_def)
    have new: "brackets bv xv W1 r1 ?t (mk_Interval vm vm') xs"
    proof -
      have "below bv xv W1 r1 ?t vm xs"
      proof (cases g)
        case True
        then have "range_in True ?t u" using lo(2) bval_range by blast
        moreover have "var_val r1 ?mn = Some [u]" "?mn \<in> W1" using True by (simp_all add: r1_def W1_def)
        ultimately have "bval xv W1 r1 ?t vm u" using bval_var [OF t, of ?mn W1 r1 u xv] lo(2) True by simp
        then show ?thesis using lo(2) True unfolding below_def by blast
      qed (use lo(3) below_transport mem in blast)
      moreover have "above bv xv W1 r1 ?t vm' xs"
      proof (cases g')
        case True
        then have "range_in True ?t u'" using hi(2) bval_range by blast
        moreover have "var_val r1 ?mx = Some [u']" "?mx \<in> W1" using True fresh(3) by (simp_all add: r1_def W1_def)
        ultimately have "bval xv W1 r1 ?t vm' u'" using bval_var [OF t, of ?mx W1 r1 u' xv] hi(2) True by simp
        then show ?thesis using hi(2) True unfolding above_def by blast
      qed (use hi(3) above_transport mem in blast)
      ultimately show ?thesis by (simp add: brackets_def)
    qed
    have vb: "visit_ok c k s1 \<Gamma>1 W1 ?r r1 b"
      unfolding s1_def \<Gamma>1_def by (rule let_visit_ok [OF vs [unfolded e] nn(2,3) new r1_def W1_def])
    note B = visits_soundlyD [OF IH fv(2) wv(2) okb [folded \<Gamma>1_def] vb ev(2) nz]
    obtain d where d: "visit_bounds c k s1 a b = Inr d" "brackets bd ec (W1 \<union> mangled (let_names b)) r1 (element_of (type_of b)) d zs"
      using B unfolding visited_def by blast
    have gg: "g \<Longrightarrow> \<exists>a. vo = Some a \<and> bval xv ?V r0 ?t a u" "\<not> g \<Longrightarrow> ?mn \<notin> W1 \<union> mangled (let_names b)"
      "g' \<Longrightarrow> \<exists>a. vo' = Some a \<and> bval xv ?V r0 ?t a u'" "\<not> g' \<Longrightarrow> ?mx \<notin> W1 \<union> mangled (let_names b)"
      using lo(2) hi(2) fresh by (auto simp: W1_def)
    obtain j where j: "let_interval c n vo vo' d = Inr j" "brackets bd ec (W1 \<union> mangled (let_names b) \<union> ?V) r0 (element_of (type_of b)) j zs"
      using let_interval_sound [OF o(11) refl refl d(2) [unfolded r1_def] gg fresh(2)] by blast
    have "W1 \<union> mangled (let_names b) \<union> ?V \<subseteq> ?W" using e by (auto simp: W1_def mangled_def)
    then have "brackets bd ec ?W r0 (element_of (type_of e)) j zs" using brackets_weaken [OF j(2)] e by simp
    then show ?thesis using a(1) lo(1) hi(1) d(1) j(1) e by (simp add: visit_bounds.simps s1_def)
  qed
  then show ?thesis by (simp add: visited_def)
qed

end
