(* ===== verification/BoundsFacts.thy ===== *)
theory BoundsFacts
  imports BoundsVisit
begin

text \<open>
  The visits of ramps and calls, the induction over the fuel, and the theorem about
  \<open>bounds_of_expr_in_scope\<close>, with the half-bounded intervals for which it fails.
\<close>

subsection \<open>Ramps\<close>

lemma bounds_ok_cong:
  "(\<And>n. n \<in> expr_vars e \<Longrightarrow> \<Gamma> n = \<Gamma>' n) \<Longrightarrow> bounds_ok bd ec \<Gamma> e = bounds_ok bd ec \<Gamma>' e"
proof (induction e arbitrary: bd ec \<Gamma> \<Gamma>')
  case (Cast t v)
  have "bounds_ok b x \<Gamma> v = bounds_ok b x \<Gamma>' v" for b x by (rule Cast.IH) (simp add: Cast.prems)
  then show ?case by simp
next
  case (Binary op u v)
  have "bounds_ok b x \<Gamma> u = bounds_ok b x \<Gamma>' u" for b x by (rule Binary.IH) (simp add: Binary.prems)
  moreover have "bounds_ok b x \<Gamma> v = bounds_ok b x \<Gamma>' v" for b x by (rule Binary.IH) (simp add: Binary.prems)
  ultimately show ?case by (cases op) simp_all
next
  case (Select c u v)
  have "bounds_ok b x \<Gamma> u = bounds_ok b x \<Gamma>' u" for b x by (rule Select.IH) (simp add: Select.prems)
  moreover have "bounds_ok b x \<Gamma> v = bounds_ok b x \<Gamma>' v" for b x by (rule Select.IH) (simp add: Select.prems)
  ultimately show ?case by simp
next
  case (Load t n i im p)
  have "bounds_ok b x \<Gamma> i = bounds_ok b x \<Gamma>' i" for b x by (rule Load.IH) (simp add: Load.prems)
  then show ?case by simp
next
  case (Ramp u v n)
  have "bounds_ok b x \<Gamma> u = bounds_ok b x \<Gamma>' u" for b x by (rule Ramp.IH) (simp add: Ramp.prems)
  moreover have "bounds_ok b x \<Gamma> v = bounds_ok b x \<Gamma>' v" for b x by (rule Ramp.IH) (simp add: Ramp.prems)
  ultimately show ?case by simp
next
  case (Broadcast v n)
  have "bounds_ok b x \<Gamma> v = bounds_ok b x \<Gamma>' v" for b x by (rule Broadcast.IH) (simp add: Broadcast.prems)
  then show ?case by simp
next
  case (Call t n args ct f vi im p)
  have "bounds_ok b x \<Gamma> a = bounds_ok b x \<Gamma>' a" if "a \<in> set args" for a b x
    by (rule Call.IH [OF that]) (use Call.prems that in auto)
  then show ?case by simp
next
  case (LetE n v b)
  have "bounds_ok b' x \<Gamma> v = bounds_ok b' x \<Gamma>' v" for b' x by (rule LetE.IH) (simp add: LetE.prems)
  moreover have "bounds_ok b' x (\<Gamma>(n \<mapsto> u)) b = bounds_ok b' x (\<Gamma>'(n \<mapsto> u)) b" for b' x u
    by (rule LetE.IH) (simp add: LetE.prems)
  ultimately show ?case by simp
qed simp_all

lemma wrap_add_right: "wrap t (x + wrap t y) = wrap t (x + y)"
proof -
  have a: "wrap t (wrap t u + wrap t v) = wrap t (u + v)" for u v
    by (simp add: wrap_def signed_take_bit_add take_bit_add)
  have "wrap t (wrap t y) = wrap t y" by (simp add: wrap_def)
  then show ?thesis using a [of x y] a [of x "wrap t y"] by simp
qed

lemma fit_in_lane:
  assumes t: "elem_type t" and z: "fit_in True t (x + i * s) = Some z"
  shows "\<exists>y. fit_in True t (i * s) = Some y \<and> fit_in True t (x + y) = Some z"
proof -
  obtain y where y: "fit_in True t (i * s) = Some y" using fit_in_Some [OF elem_type_int [OF t]] by blast
  show ?thesis
  proof (cases "no_overflow_int t")
    case True
    then show ?thesis using z by (simp add: exact_no_overflow)
  next
    case False
    have w: "y = wrap t (i * s)" "z = wrap t (x + i * s)" using y z fit_in_wrap False by blast+
    obtain q where q: "fit_in True t (x + y) = Some q" using fit_in_Some [OF elem_type_int [OF t]] by blast
    then have "q = wrap t (x + y)" using fit_in_wrap False by blast
    then show ?thesis using y q w wrap_add_right by simp
  qed
qed

text \<open>The expression of one lane, in an environment with the number of the lane.\<close>

lemma lane_eval:
  assumes t: "elem_type t" and b: "eval_in True r b = Some [x]" "type_eq (type_of b) t" and st: "eval_in True r st = Some [d]"
    and m: "m \<notin> expr_vars b" "m \<notin> expr_vars st" and i: "range_in True t i" and z: "fit_in True t (x + i * d) = Some z"
  shows "eval_in True (r\<lparr>var_val := (var_val r)(m \<mapsto> [i])\<rparr>)
    (Binary AddOp b (Binary MulOp (Variable t m None None None) st)) = Some [z]"
proof -
  let ?r = "r\<lparr>var_val := (var_val r)(m \<mapsto> [i])\<rparr>"
  have "eval_in True ?r b = eval_in True r b" by (rule eval_in_vars_cong) (use m in \<open>auto simp: same_memory_def\<close>)
  moreover have "eval_in True ?r st = eval_in True r st" by (rule eval_in_vars_cong) (use m in \<open>auto simp: same_memory_def\<close>)
  moreover obtain y where y: "fit_in True t (i * d) = Some y" "fit_in True t (x + y) = Some z" using fit_in_lane [OF t z] by blast
  have "lift2 (binop_in True MulOp t) [i] [d] = Some [y]" using y(1) by simp
  moreover have "lift2 (binop_in True AddOp (type_of b)) [x] [y] = Some [z]" using y(2) type_eq_fit_in [OF b(2)] by simp
  ultimately show ?thesis using b(1) st i elem_type_scalar [OF t] by (simp del: lift2_singleton)
qed

lemma lane_operators:
  assumes "type_eq (type_of st) (type_of b)" and "\<not> is_handle (type_of b)"
  shows "operator_ee MulOp (Some (Variable (type_of b) m None None None)) (Some st) = Inr (Binary MulOp (Variable (type_of b) m None None None) st)"
    "operator_ee AddOp (Some b) (Some (Binary MulOp (Variable (type_of b) m None None None) st)) =
      Inr (Binary AddOp b (Binary MulOp (Variable (type_of b) m None None None) st))"
proof -
  have "type_eq (type_of b) (type_of b)" by (simp add: type_eq_def same_handle_type_def)
  then show "operator_ee MulOp (Some (Variable (type_of b) m None None None)) (Some st) = Inr (Binary MulOp (Variable (type_of b) m None None None) st)"
    "operator_ee AddOp (Some b) (Some (Binary MulOp (Variable (type_of b) m None None None) st)) =
      Inr (Binary AddOp b (Binary MulOp (Variable (type_of b) m None None None) st))"
    using type_eq_sym [OF assms(1)] assms(2)
    by (auto intro!: operator_same_type simp: is_logical_def is_arith_def)
qed

lemma lane_visit_ok:
  assumes v: "visit_ok c (Suc k) s \<Gamma> W r r0 (Ramp b st n)" and lo: "bval True {} r0 t lo 0" and hi: "bval True {} r0 t hi (n - 1)"
    and i: "0 \<le> i" "i \<le> n - 1"
  shows "visit_ok c k (scope_push (lane_name c k) (mk_Interval lo hi) s) (\<Gamma>(lane_name c k \<mapsto> (t, True, True))) W
    (r\<lparr>var_val := (var_val r)(lane_name c k \<mapsto> [i])\<rparr>) r0
    (Binary AddOp b (Binary MulOp (Variable t' (lane_name c k) None None None) st))"
proof -
  let ?m = "lane_name c k" and ?e = "Ramp b st n"
  note o = visit_okD [OF v]
  have m: "?m \<notin> expr_vars ?e" "?m \<notin> mangled (let_names ?e)" using o(10) by auto
  have sw: "scope_wf s" and d: "dom (scope_lookup s) = dom \<Gamma>" using o(5) by (simp_all add: scope_rel_def)
  have bl: "bval True W r0 t lo 0" "bval True W r0 t hi (n - 1)" using bval_weaken lo hi by blast+
  have lane: "brackets True True W r0 t (mk_Interval lo hi) [i]"
    by (rule bracketsI [where u = 0 and v = "n - 1"]) (use bl i in auto)
  have "scope_rel (scope_push ?m (mk_Interval lo hi) s) (\<Gamma>(?m \<mapsto> (t, True, True))) W (r\<lparr>var_val := (var_val r)(?m \<mapsto> [i])\<rparr>) r0"
    unfolding scope_rel_def
  proof (intro conjI allI impI)
    show "scope_wf (scope_push ?m (mk_Interval lo hi) s)" using sw by (rule scope_wf_push)
    show "dom (scope_lookup (scope_push ?m (mk_Interval lo hi) s)) = dom (\<Gamma>(?m \<mapsto> (t, True, True)))"
      using d sw by (simp add: scope_lookup_push)
    fix m' j t' b' x' ys
    assume "scope_lookup (scope_push ?m (mk_Interval lo hi) s) m' = Some j" "(\<Gamma>(?m \<mapsto> (t, True, True))) m' = Some (t', b', x')"
      "var_val (r\<lparr>var_val := (var_val r)(?m \<mapsto> [i])\<rparr>) m' = Some ys"
    then show "brackets b' x' W r0 t' j ys"
      using lane o(5) sw by (auto simp: scope_lookup_push scope_rel_def split: if_splits)
  qed
  moreover have "lane_name c j \<noteq> ?m" if "j < k" for j using o(9) that by (auto dest: injD)
  ultimately show ?thesis
    using o(1-4,6-10) m less_SucI unfolding visit_ok_def same_memory_def by auto
qed

lemma fuel_need_pos: "0 < fuel_need e"
  by (cases e) auto

lemma visited_ramp:
  assumes IH: "visits_soundly c k" and e: "e = Ramp b st n" and f: "fuel_need e \<le> Suc k" and w: "wf_expr e"
    and ok: "bounds_ok bd ec \<Gamma> e" and vs: "visit_ok c (Suc k) s \<Gamma> W r r0 e" and z: "eval_in True r e = Some zs" and nz: "zs \<noteq> []"
    and ln: "lane_name c k \<noteq> []"
  shows "visited c (Suc k) s W r0 bd ec e zs"
proof -
  let ?t = "type_of b" and ?et = "element_of (type_of b)" and ?m = "lane_name c k" and ?W = "W \<union> mangled (let_names e)"
  let ?lane = "Binary AddOp b (Binary MulOp (Variable ?t ?m None None None) st)"
  note o = visit_okD [OF vs]
  have wb: "wf_expr b" "wf_expr st" and sc: "is_scalar ?t" and ty: "type_eq (type_of st) ?t" and n: "1 < n" using w e by auto
  have val: "valued b" using bounds_ok_type [OF wb(1)] ok e by auto
  have tw: "type_wf ?t" using wf_expr_type_wf [OF wb(1)] .
  have t: "elem_type ?t" "elem_type ?et" "type_eq ?t ?et"
    using val sc tw valued_type [OF wb(1)] scalar_element [OF wb(1)] by (auto simp: elem_type_def valued_def is_scalar_def)
  have te: "element_of (type_of e) = ?et"
    using tw e by (simp add: element_of_def with_lanes_def mk_Type_def type_wf_def)
  obtain lo hi where mk: "make_const_int ?t 0 = Inr lo" "make_const_int ?t (n - 1) = Inr hi" using make_const_elem [OF t(1)] by metis
  have hr: "in_range ?t (n - 1)" using ok e by simp
  have w0: "wrap ?t 0 = 0" by (simp add: wrap_def)
  have ends: "bval True {} r0 ?et lo 0" "bval True {} r0 ?et hi (n - 1)"
    using bval_const [OF t(1) mk(1), of True "{}" r0] bval_const [OF t(1) mk(2), of True "{}" r0] wrap_in_range [OF hr]
      w0 bval_type_cong [OF t(3)] elem_type_handle [OF t(2)] by simp_all
  have "?m \<notin> expr_vars e" using o(10) by auto
  then have m: "?m \<notin> expr_vars b" "?m \<notin> expr_vars st" using e by simp_all
  let ?G = "\<Gamma>(?m \<mapsto> (?et, True, True))"
  have "bounds_ok x y ?G b = bounds_ok x y \<Gamma> b" "bounds_ok x y ?G st = bounds_ok x y \<Gamma> st" for x y
    using m by (auto intro!: bounds_ok_cong)
  then have okl: "bounds_ok bd ec ?G ?lane"
    using ok e val ty type_eq_sym by (auto simp: valued_def is_arith_def checked_type_def no_overflow_int_def type_eq_def)
  have wl: "wf_expr ?lane" using wb ty tw ln type_eq_sym [OF ty] by (simp add: is_logical_def is_arith_def)
  have fl: "fuel_need ?lane \<le> k" using f e fuel_need_pos [of st] by (auto simp: max_def split: if_splits)
  obtain x d where ev: "eval_in True r b = Some [x]" "eval_in True r st = Some [d]"
    and l: "list_all2 (\<lambda>i z. fit_in True ?t (x + i * d) = Some z) [0..n - 1] zs"
    using z e by (auto simp: length_Suc_conv those_map_eq_Some elim!: bind_eq_SomeE split: if_splits)
  have "\<exists>j. visit_bounds c (Suc k) s i e = Inr j \<and> brackets bd ec ?W r0 ?et j zs" for i
  proof -
    have one: "\<exists>j. visit_bounds c k (scope_push ?m (mk_Interval lo hi) s) i ?lane = Inr j \<and> brackets bd ec ?W r0 ?et j [y]"
      if y: "y \<in> set zs" for y
    proof -
      obtain q where q: "0 \<le> q" "q \<le> n - 1" "fit_in True ?t (x + q * d) = Some y" using list_all2_set1 [OF l y] by auto
      have rq: "range_in True ?t q" using in_range_down [of ?t "n - 1" q] hr q by (simp add: range_in_def)
      have vl: "visited c k (scope_push ?m (mk_Interval lo hi) s) W r0 bd ec ?lane [y]"
      proof (rule visits_soundlyD [OF IH fl wl okl])
        show "visit_ok c k (scope_push ?m (mk_Interval lo hi) s) ?G W (r\<lparr>var_val := (var_val r)(?m \<mapsto> [q])\<rparr>) r0 ?lane"
          using lane_visit_ok [OF vs [unfolded e] ends q(1,2)] .
        show "eval_in True (r\<lparr>var_val := (var_val r)(?m \<mapsto> [q])\<rparr>) ?lane = Some [y]"
          using lane_eval [OF t(1) ev(1) _ ev(2) m rq q(3)] by (simp add: type_eq_def same_handle_type_def)
      qed simp
      then show ?thesis using visitedD [OF vl, of "let_names e" i] e by (simp add: is_arith_def)
    qed
    obtain j where j: "visit_bounds c k (scope_push ?m (mk_Interval lo hi) s) i ?lane = Inr j" using one nz by (meson hd_in_set)
    then have "brackets bd ec ?W r0 ?et j zs" using one brackets_lanes [OF _ nz] by fastforce
    moreover have "visit_bounds c (Suc k) s i e = Inr j"
      using e j mk ln lane_operators [OF ty, of ?m] elem_type_handle [OF t(1)]
      by (simp add: visit_bounds.simps Variable_make_def)
    ultimately show ?thesis by blast
  qed
  then show ?thesis unfolding visited_def te by blast
qed

subsection \<open>Calls\<close>

lemma args_loop_sound:
  assumes h: "infinities_shared (addrs c)"
    and "list_all2 (\<lambda>a v. visited c k s W r0 b x a v \<and> let_names a \<subseteq> N) args vs"
  shows "\<exists>new j. const_args_loop (addrs c) (visit_bounds c k s) args acc i = Inr (new, j) \<and>
    (\<forall>es. new = Some es \<longrightarrow> (\<exists>fs. es = acc @ fs \<and> list_all2 (\<lambda>e (a, v). \<exists>u.
      bval x (W \<union> mangled N) r0 (element_of (type_of a)) e u \<and> (\<forall>x \<in> set v. x = u)) fs (zip args vs)))"
  using assms(2)
proof (induction args vs arbitrary: acc i rule: list_all2_induct)
  case (Cons a args v vs)
  obtain j where j: "visit_bounds c k s i a = Inr j" "brackets b x (W \<union> mangled N) r0 (element_of (type_of a)) j v"
    using visitedD [of c k s W r0 b x a v N i] Cons.hyps(1) by blast
  show ?case
  proof (cases "is_single_point (addrs c) j")
    case True
    obtain u where u: "bval x (W \<union> mangled N) r0 (element_of (type_of a)) (interval_min j) u" "\<forall>x \<in> set v. x = u"
      using brackets_is_single [OF h j(2) True] by blast
    obtain new j' where IH: "const_args_loop (addrs c) (visit_bounds c k s) args (acc @ [interval_min j]) j = Inr (new, j')"
      "\<forall>es. new = Some es \<longrightarrow> (\<exists>fs. es = (acc @ [interval_min j]) @ fs \<and> list_all2 (\<lambda>e (a, v). \<exists>u.
        bval x (W \<union> mangled N) r0 (element_of (type_of a)) e u \<and> (\<forall>x \<in> set v. x = u)) fs (zip args vs))"
      using Cons.IH by blast
    have "\<exists>fs. es = acc @ fs \<and> list_all2 (\<lambda>e (a, v). \<exists>u.
        bval x (W \<union> mangled N) r0 (element_of (type_of a)) e u \<and> (\<forall>x \<in> set v. x = u)) fs (zip (a # args) (v # vs))"
      if es: "new = Some es" for es
    proof -
      obtain fs where "es = acc @ interval_min j # fs" "list_all2 (\<lambda>e (a, v). \<exists>u.
        bval x (W \<union> mangled N) r0 (element_of (type_of a)) e u \<and> (\<forall>x \<in> set v. x = u)) fs (zip args vs)" using IH(2) es by auto
      then show ?thesis using u by (intro exI [of _ "interval_min j # fs"]) auto
    qed
    then show ?thesis using j(1) True IH(1) by simp
  qed (use j(1) in simp)
qed simp

lemma eval_single_args:
  assumes "list_all2 (\<lambda>e (a, v). \<exists>u. bval x W r0 (element_of (type_of a)) e u \<and> (\<forall>x \<in> set v. x = u)) es (zip args vs)"
    and "list_all2 (\<lambda>a v. length v = 1) args vs"
  shows "those (map (eval_in True r0) es) = Some vs \<and> (\<forall>e \<in> set es. wf_expr e \<and> expr_vars e \<subseteq> W) \<and>
    list_all2 (\<lambda>e a. type_eq (type_of e) (element_of (type_of a))) es args"
  using assms(2,1)
proof (induction args vs arbitrary: es rule: list_all2_induct)
  case (Cons a args v vs)
  then obtain e es' u where es: "es = e # es'" and u: "bval x W r0 (element_of (type_of a)) e u" "\<forall>x \<in> set v. x = u"
    and l: "list_all2 (\<lambda>e (a, v). \<exists>u. bval x W r0 (element_of (type_of a)) e u \<and> (\<forall>x \<in> set v. x = u)) es' (zip args vs)"
    by (auto simp: list_all2_Cons2)
  have "v = [u]" using Cons.hyps(1) u(2) by (cases v) auto
  then show ?case using u(1) es Cons.IH [OF l] by (auto simp: fin_def bound_pred_def)
qed simp

lemma call_point:
  assumes ct: "ct \<in> {PureExtern, Image}" and w: "wf_expr (Call t n args ct f vi im p)" and t: "elem_type t"
    and es: "list_all2 (\<lambda>e (a, v). \<exists>u. bval x W r0 (element_of (type_of a)) e u \<and> (\<forall>x \<in> set v. x = u)) es (zip args vs)"
    and vs: "list_all2 (\<lambda>a v. eval_in True r a = Some v) args vs" and sc: "\<forall>a \<in> set args. is_scalar (type_of a)"
    and z: "eval_in True r (Call t n args ct f vi im p) = Some zs" and m: "same_memory r r0" and r0: "env_type_ok r0"
  shows "\<exists>y. Call_make (element_of t) n (map Some es) ct f vi im p = Inr (Call (element_of t) n es ct f vi im p) \<and>
    bval ec W r0 (element_of t) (Call (element_of t) n es ct f vi im p) y \<and> zs = [y]"
proof -
  let ?t = "element_of t"
  have ni: "\<not> identity_intrinsic ct n" using ct by (auto simp: identity_intrinsic_def call_is_intrinsic_def)
  have et: "code ?t = code t" "bits ?t = bits t" "lanes ?t = lanes t" "type_wf ?t"
    using elem_type_wf [OF t] elem_type_scalar [OF t] by (auto simp: element_of_def mk_Type_def type_wf_def)
  have cz: "call_val r t n ct vi vs = Some zs" "length zs = lanes t" "\<forall>x \<in> set zs. range_in True t x"
    using z ni vs by (auto simp: those_map_eq_Some [symmetric] elim!: bind_eq_SomeE split: if_splits)
  then obtain y where y: "zs = [y]" using elem_type_scalar [OF t] by (auto simp: length_Suc_conv)
  have c0: "call_val r0 ?t n ct vi vs = Some zs"
    using cz(1) m et r0 [unfolded env_type_ok_def, rule_format, of ?t t] by (simp add: same_memory_def)
  have "length v = 1" if "a \<in> set args" "eval_in True r a = Some v" for a v
    using eval_in_sound [of a True r v] that sc w by (simp add: has_type_in_def is_scalar_def)
  then have "list_all2 (\<lambda>a v. length v = 1) args vs" using vs by (auto elim: list.rel_mono_strong)
  note ea = eval_single_args [OF es this]
  have rr: "range_in True ?t = range_in True t" using element_of_fit(2) [OF elem_type_wf [OF t]] .
  have i32: "\<forall>e \<in> set es. type_eq (type_of e) (Int_t 32 1)" if im: "ct = Image"
  proof
    fix e
    assume "e \<in> set es"
    then obtain q where q: "q < length es" "e = es ! q" by (auto simp: in_set_conv_nth)
    then have a: "type_eq (type_of e) (element_of (type_of (args ! q)))" "args ! q \<in> set args"
      using ea by (auto simp: list_all2_conv_all_nth)
    then have "type_eq (type_of (args ! q)) (Int_t 32 1)" using w im by simp
    then have "element_of (type_of (args ! q)) = Int_t 32 1"
      using element_of_eq by (fastforce simp: element_of_def Int_t_def mk_Type_def)
    then show "type_eq (type_of e) (Int_t 32 1)" using a(1) by simp
  qed
  have mk: "Call_make ?t n (map Some es) ct f vi im p = Inr (Call ?t n es ct f vi im p)"
  proof -
    have "rmap (\<lambda>a. defined_handle a ''Call of undefined'') (map Some es) = Inr es"
      by (induction es) (auto simp: defined_handle_def)
    then show ?thesis using ct w i32 by (auto simp: Call_make_def)
  qed
  have ev: "eval_in True r0 (Call ?t n es ct f vi im p) = Some [y]"
    using ea ni c0 cz(2,3) y et(3) rr by simp
  have "wf_expr (Call ?t n es ct f vi im p)" using ea ct w i32 et(4) ni by auto
  moreover have "expr_vars (Call ?t n es ct f vi im p) \<subseteq> W" using ea by auto
  moreover have "\<not> is_handle ?t" using elem_type_handle [OF t] et(1) by (simp add: is_handle_def)
  ultimately have "bval ec W r0 ?t (Call ?t n es ct f vi im p) y"
    using ev by (simp add: fin_def bound_pred_def type_eq_def same_handle_type_def)
  then show ?thesis using mk y by blast
qed

lemma bounds_of_func_sound:
  assumes t: "elem_type (element_of t)" and r: "\<forall>x \<in> set xs. range_in True (element_of t) x"
    and bt: "bd \<Longrightarrow> bits (element_of t) \<le> 16" and fo: "funcs_ok c W r0" and h: "infinities_shared (addrs c)"
    and cv: "call_val r0 t n Halide vi vs = Some xs"
  shows "\<exists>i. bounds_of_func c n vi t = Inr i \<and> brackets bd ec W r0 (element_of t) i xs"
proof -
  obtain i where i: "bounds_of_type t = Inr i" "brackets bd ec W r0 (element_of t) i xs"
    using bounds_of_type_sound [OF t r bt] by blast
  show ?thesis
  proof (cases "func_bounds c n vi")
    case None
    then show ?thesis using i by (simp add: bounds_of_func_def)
  next
    case (Some g)
    have f: "brackets False ec W r0 (element_of t) g xs"
      using fo Some cv brackets_weaken [of False True W r0 "element_of t" g xs False ec W] unfolding funcs_ok_def by blast
    have "below bd ec W r0 (element_of t) (if has_lower_bound (addrs c) g then interval_min g else interval_min i) xs"
      using brackets_lower [OF h f] i(2) unfolding brackets_def below_def by auto
    moreover have "above bd ec W r0 (element_of t) (if has_upper_bound (addrs c) g then interval_max g else interval_max i) xs"
      using brackets_upper [OF h f] i(2) unfolding brackets_def above_def by auto
    ultimately have "brackets bd ec W r0 (element_of t)
        (let i = (if has_lower_bound (addrs c) g then i\<lparr>interval_min := interval_min g\<rparr> else i);
             i = (if has_upper_bound (addrs c) g then i\<lparr>interval_max := interval_max g\<rparr> else i) in i) xs"
      by (auto simp: brackets_def Let_def split: if_splits)
    then show ?thesis using i(1) Some by (simp add: bounds_of_func_def Let_def)
  qed
qed

text \<open>A call that no case of the visitor singles out.\<close>

lemma plain_call_bounds:
  assumes "plain_call ct n" and "\<not> identity_intrinsic ct n" and "\<not> is_handle (element_of t)"
    and "\<not> (new \<noteq> None \<and> (ct = PureExtern \<or> ct = Image))"
  shows "bounds_call c visit t n args ct f vi im p new i =
    (if ct = Halide then bounds_of_func c n vi t else bounds_of_type (element_of t))"
proof -
  have s: "\<not> call_is_intrinsic ct n ''abs''"
    "\<not> call_is_intrinsic ct n ''likely''"
    "\<not> call_is_intrinsic ct n ''likely_if_innermost''"
    "\<not> call_is_intrinsic ct n ''return_second''"
    "\<not> call_is_intrinsic ct n ''if_then_else''"
    "\<not> call_is_intrinsic ct n ''shift_left''"
    "\<not> call_is_intrinsic ct n ''shift_right''"
    "\<not> call_is_intrinsic ct n ''bitwise_and''"
    "\<not> call_is_intrinsic ct n ''extract_buffer_min''"
    "\<not> call_is_intrinsic ct n ''extract_buffer_max''"
    "\<not> call_is_intrinsic ct n ''memoize_expr''"
    "\<not> call_is_intrinsic ct n ''trace_expr''"
    using assms(1,2) by (auto simp: plain_call_def identity_intrinsic_def call_is_intrinsic_def)
  have m: "n \<notin> set monotonic_externs" using assms(1) by (simp add: plain_call_def)
  show ?thesis unfolding bounds_call_def Let_def by (simp only: s m assms(3,4) simp_thms if_False)
qed

lemma identity_call_bounds:
  assumes i: "identity_intrinsic ct n" and l: "length args = (if n = ''return_second'' then 2 else 1)" and h: "\<not> is_handle (element_of t)"
  shows "bounds_call c visit t n args ct f vi im p new j = visit j (last args)"
proof -
  have ct: "ct = Intrinsic \<or> ct = PureIntrinsic" and n: "n \<in> {''likely'', ''likely_if_innermost'', ''return_second''}"
    using i by (auto simp: identity_intrinsic_def call_is_intrinsic_def)
  then have s: "\<not> call_is_intrinsic ct n ''abs''" "\<not> (new \<noteq> None \<and> (ct = PureExtern \<or> ct = Image))"
    by (auto simp: call_is_intrinsic_def)
  have la: "last args = args ! (length args - 1)" using l by (intro last_conv_nth) (auto split: if_splits)
  show ?thesis
  proof (cases "n = ''return_second''")
    case True
    then have q: "call_is_intrinsic ct n ''return_second''" "\<not> (call_is_intrinsic ct n ''likely'' \<or> call_is_intrinsic ct n ''likely_if_innermost'')"
      using ct by (auto simp: call_is_intrinsic_def)
    have l': "length args = 2" "last args = args ! 1" using l la True by simp_all
    show ?thesis unfolding bounds_call_def Let_def
      by (simp only: s h q l' c_assert_def if_True if_False rbind_Inr refl)
  next
    case False
    then have q: "call_is_intrinsic ct n ''likely'' \<or> call_is_intrinsic ct n ''likely_if_innermost''"
      using ct n by (auto simp: call_is_intrinsic_def)
    have l': "length args = 1" "last args = args ! 0" using l la False by simp_all
    show ?thesis unfolding bounds_call_def Let_def
      by (simp only: s h q l' c_assert_def if_True if_False rbind_Inr refl)
  qed
qed

lemma bounds_of_type_element: "bounds_of_type (element_of t) = bounds_of_type t"
  by (simp add: bounds_of_type_def)

lemma visited_call:
  assumes IH: "visits_soundly c k" and e: "e = Call t n args ct f vi im p" and fu: "fuel_need e \<le> Suc k" and w: "wf_expr e"
    and ok: "bounds_ok bd ec \<Gamma> e" and vs: "visit_ok c (Suc k) s \<Gamma> W r r0 e" and z: "eval_in True r e = Some zs" and nz: "zs \<noteq> []"
  shows "visited c (Suc k) s W r0 bd ec e zs"
proof -
  let ?t = "element_of t" and ?W = "W \<union> mangled (let_names e)" and ?id = "identity_intrinsic ct n"
  note o = visit_okD [OF vs]
  have t: "elem_type ?t" "type_wf t" using valued_type [OF w] ok e by (simp_all add: valued_def)
  have nh: "\<not> is_handle ?t" using elem_type_handle [OF t(1)] by blast
  obtain xss where xss: "list_all2 (\<lambda>a v. eval_in True r a = Some v) args xss"
    using z e by (auto simp: those_map_eq_Some elim!: bind_eq_SomeE)
  have arg: "visited c k s W r0 (bd \<and> ?id) (ec \<and> ?id) a v \<and> let_names a \<subseteq> let_names e"
    if a: "a \<in> set args" "eval_in True r a = Some v" for a v
  proof -
    have oka: "bounds_ok (bd \<and> ?id) (ec \<and> ?id) \<Gamma> a" and wa: "wf_expr a" using ok w e a(1) by auto
    have "fuel_need a \<le> sum_list (map fuel_need args)" using a(1) by (intro member_le_sum_list) auto
    then have "fuel_need a \<le> k" using fu e by simp
    moreover have ln: "let_names a \<subseteq> let_names e" using a(1) e by auto
    moreover have "visit_ok c k s \<Gamma> W r r0 a" by (rule visit_ok_child [OF vs _ ln]) (use a(1) e in auto)
    moreover have "v \<noteq> []" using eval_in_sound [OF wa a(2)] bounds_ok_type [OF wa oka] by (auto simp: has_type_in_def valued_def)
    ultimately show ?thesis using visits_soundlyD [OF IH _ wa oka _ a(2)] by blast
  qed
  then have "list_all2 (\<lambda>a v. visited c k s W r0 (bd \<and> ?id) (ec \<and> ?id) a v \<and> let_names a \<subseteq> let_names e) args xss"
    by (intro list.rel_mono_strong [OF xss]) blast
  note loop = args_loop_sound [OF o(11) this]
  have zr: "\<forall>x \<in> set zs. range_in True ?t x" using eval_range_element [OF w z] e by simp
  have "\<exists>j. visit_bounds c (Suc k) s i e = Inr j \<and> brackets bd ec ?W r0 ?t j zs" for i
  proof -
    obtain new j0 where lp: "const_args_loop (addrs c) (visit_bounds c k s) args [] i = Inr (new, j0)"
      and es: "\<forall>es. new = Some es \<longrightarrow> list_all2 (\<lambda>e (a, v). \<exists>u. bval (ec \<and> ?id) ?W r0 (element_of (type_of a)) e u \<and>
        (\<forall>x \<in> set v. x = u)) es (zip args xss)"
      using loop [of "[]" i] by auto
    have vb: "visit_bounds c (Suc k) s i e = bounds_call c (visit_bounds c k s) t n args ct f vi im p new j0"
      using lp e by (simp add: visit_bounds.simps)
    show ?thesis
    proof (cases ?id)
      case True
      then have l: "length args = (if n = ''return_second'' then 2 else 1)" and ty: "type_eq t (type_of (last args))"
        using ok w e by auto
      have ne: "args \<noteq> []" using l by (auto split: if_splits)
      have ez: "eval_in True r (last args) = Some zs"
        using list_all2_last [OF xss] z e True xss ne by (auto simp: those_map_eq_Some [symmetric] elim!: bind_eq_SomeE split: if_splits)
      have "visited c k s W r0 bd ec (last args) zs \<and> let_names (last args) \<subseteq> let_names e" using arg [OF _ ez] ne True by simp
      then obtain j where j: "visit_bounds c k s j0 (last args) = Inr j" "brackets bd ec ?W r0 (element_of (type_of (last args))) j zs"
        using visitedD by metis
      then show ?thesis using vb identity_call_bounds [OF True l nh] element_of_eq [OF ty] by simp
    next
      case False
      then have pc: "plain_call ct n" and bt: "bd \<longrightarrow> bits t \<le> 16"
        and sc: "ct \<in> {PureExtern, Image} \<longrightarrow> is_scalar t \<and> (\<forall>a \<in> set args. is_scalar (type_of a))" using ok e by auto
      show ?thesis
      proof (cases "new \<noteq> None \<and> (ct = PureExtern \<or> ct = Image)")
        case True
        then obtain es' where new: "new = Some es'" by blast
        have ts: "elem_type t" using t ok e sc True by (auto simp: elem_type_def valued_def)
        obtain y where y: "Call_make ?t n (map Some es') ct f vi im p = Inr (Call ?t n es' ct f vi im p)"
            "bval ec ?W r0 ?t (Call ?t n es' ct f vi im p) y" "zs = [y]"
          using call_point [OF _ w [unfolded e] ts es [rule_format, OF new] xss _ z [unfolded e] o(2)] True sc o(1)
          by (auto simp: setting_def)
        then have "brackets bd ec ?W r0 ?t (single_point (Call ?t n es' ct f vi im p)) zs" using brackets_single by simp
        moreover have "bounds_call c (visit_bounds c k s) t n args ct f vi im p new j0 = Inr (single_point (Call ?t n es' ct f vi im p))"
          using True new y(1) nh unfolding bounds_call_def Let_def by simp
        ultimately show ?thesis using vb by simp
      next
        case np: False
        note pcb = plain_call_bounds [OF pc False nh np, of c "visit_bounds c k s" args f vi im p j0]
        have bt': "bd \<Longrightarrow> bits ?t \<le> 16" using bt element_of_facts(1) [OF t(2)] by simp
        show ?thesis
        proof (cases "ct = Halide")
          case True
          have "call_val r t n Halide vi xss = Some zs"
            using z e False True xss by (auto simp: those_map_eq_Some [symmetric] elim!: bind_eq_SomeE split: if_splits)
          then have cv: "call_val r0 t n Halide vi xss = Some zs" using o(2) by (simp add: same_memory_def)
          obtain j where "bounds_of_func c n vi t = Inr j" "brackets bd ec W r0 ?t j zs"
            using bounds_of_func_sound [OF t(1) zr bt' o(4) o(11) cv] by blast
          then show ?thesis using vb pcb True brackets_weaken [of bd ec W r0 ?t j zs bd ec ?W] by simp
        next
          case nH: False
          then show ?thesis using vb pcb bounds_of_type_sound [OF t(1) zr bt'] by (simp add: bounds_of_type_element)
        qed
      qed
    qed
  qed
  then show ?thesis using e by (simp add: visited_def)
qed

subsection \<open>All visits\<close>

lemma visits_sound:
  assumes ln: "\<forall>m. lane_name c m \<noteq> []"
  shows "visits_soundly c k"
proof (induction k)
  case 0
  show ?case unfolding visits_soundly_def using fuel_need_pos by (metis not_less0 le_0_eq less_numeral_extra(3))
next
  case (Suc k)
  show ?case
    unfolding visits_soundly_def
  proof (intro allI impI)
    fix bd ec \<Gamma> s W r r0 e xs
    assume p: "fuel_need e \<le> Suc k" "wf_expr e" "bounds_ok bd ec \<Gamma> e" "visit_ok c (Suc k) s \<Gamma> W r r0 e"
      "eval_in True r e = Some xs" "xs \<noteq> []"
    show "visited c (Suc k) s W r0 bd ec e xs"
    proof (cases e)
      case (Binary op a b)
      show ?thesis
      proof (cases "op \<in> {AddOp, SubOp, MulOp, DivOp, ModOp, MinOp, MaxOp}")
        case True
        then show ?thesis using visited_binary [OF Suc Binary True p] by blast
      next
        case False
        then have "\<not> is_arith op" by (cases op) (auto simp: is_arith_def)
        then show ?thesis using visited_bool [OF _ p(2,3,5)] Binary by blast
      qed
    next
      case (NotE a)
      then show ?thesis using visited_bool [OF _ p(2,3,5)] by blast
    next
      case (Variable t n im q rd)
      then show ?thesis using visited_variable [OF Variable p(4,2,3,5,6)] by blast
    next
      case (IntImm t v)
      then show ?thesis using visited_const [OF _ p(2,5)] by blast
    next
      case (UIntImm t v)
      then show ?thesis using visited_const [OF _ p(2,5)] by blast
    next
      case (Cast t a)
      then show ?thesis using visited_cast [OF Suc Cast p] by blast
    next
      case (Select a b d)
      then show ?thesis using visited_select [OF Suc Select p] by blast
    next
      case (Load t n i im q)
      then show ?thesis using visited_load [OF Suc Load p] by blast
    next
      case (Ramp b st n)
      then show ?thesis using visited_ramp [OF Suc Ramp p] ln by blast
    next
      case (Broadcast a n)
      then show ?thesis using visited_broadcast [OF Suc Broadcast p(1-5)] by blast
    next
      case (Call t n args ct f vi im q)
      then show ?thesis using visited_call [OF Suc Call p] by blast
    next
      case (LetE n v b)
      then show ?thesis using visited_let [OF Suc LetE p] by blast
    qed (use p(5) in simp_all)
  qed
qed

lemma visit_ok_scope:
  assumes "visit_ok c k s \<Gamma> W r r0 e" and "scope_wf s'" and "scope_lookup s' = scope_lookup s"
  shows "visit_ok c k s' \<Gamma> W r r0 e"
  using assms by (auto simp: visit_ok_def scope_rel_def)

lemma set_containing_lookup:
  assumes "scope_wf s"
  shows "scope_wf (set_containing_scope (Some s) scope_new)" "scope_lookup (set_containing_scope (Some s) scope_new) = scope_lookup s"
  using assms by (auto simp: set_containing_scope_def scope_new_def)

text \<open>C1: the interval that \<open>bounds_of_expr_in_scope\<close> computes brackets the value of the
  expression: under the assumption of the analysis that signed integers of 32 bits and more do
  not overflow, an expression of the class \<open>bounds_ok\<close> whose variables lie in the intervals
  that the scope gives them has no lane below the value of the lower bound, if there is one,
  and none above the value of the upper bound; enough fuel gives an interval, which is bounded
  where the class says so.\<close>

theorem bounds_of_expr_in_scope_sound:
  assumes "wf_expr e" and "bounds_ok bd ec \<Gamma> e" and "fuel_need e \<le> k" and "visit_ok c k s \<Gamma> W r r0 e"
    and "\<forall>m. lane_name c m \<noteq> []" and "eval_in True r e = Some xs"
  shows "\<exists>i. bounds_of_expr_in_scope c k e s = Inr i \<and> (bd \<longrightarrow> is_bounded (addrs c) i) \<and>
    (has_lower_bound (addrs c) i \<longrightarrow> (\<exists>l. eval_in True r0 (interval_min i) = Some [l] \<and> (\<forall>x \<in> set xs. l \<le> x))) \<and>
    (has_upper_bound (addrs c) i \<longrightarrow> (\<exists>u. eval_in True r0 (interval_max i) = Some [u] \<and> (\<forall>x \<in> set xs. x \<le> u)))"
proof -
  let ?s = "set_containing_scope (Some s) scope_new" and ?h = "addrs c"
  note o = visit_okD [OF assms(4)]
  have val: "valued e" using bounds_ok_type [OF assms(1,2)] .
  then have ne: "xs \<noteq> []" using eval_in_sound [OF assms(1,6)] by (auto simp: has_type_in_def valued_def)
  have t: "elem_type (element_of (type_of e))" using valued_type [OF assms(1)] val by (simp add: valued_def)
  have w: "scope_wf s" using o(5) by (simp add: scope_rel_def)
  have "visit_ok c k ?s \<Gamma> W r r0 e" by (rule visit_ok_scope [OF assms(4) set_containing_lookup [OF w]])
  then have v: "visited c k ?s W r0 bd ec e xs"
    using visits_soundlyD [OF visits_sound [OF assms(5)] assms(3,1,2)] assms(6) ne by blast
  obtain i where i: "visit_bounds c k ?s everything e = Inr i"
      "brackets bd ec (W \<union> mangled (let_names e)) r0 (element_of (type_of e)) i xs"
    using v unfolding visited_def by blast
  note lo = brackets_lower [OF o(11) i(2)] and hi = brackets_upper [OF o(11) i(2)]
  have sc: "is_scalar (type_of b)" if "bval ec V r0 (element_of (type_of e)) b x" for b x V
    using that elem_type_scalar [OF t] by (auto simp: fin_def is_scalar_def dest!: type_eq_lanes)
  have "bounds_of_expr_in_scope c k e s = Inr i"
    using i(1) lo hi sc by (auto simp: bounds_of_expr_in_scope_def)
  moreover have "bd \<longrightarrow> is_bounded ?h i" using brackets_is_bounded [OF o(11)] i(2) by (cases bd) auto
  ultimately show ?thesis using lo hi by (auto simp: fin_def)
qed


text \<open>A context with distinct nodes at distinct addresses, as the examples use it.\<close>

definition plain_context :: "(expr \<Rightarrow> expr) \<Rightarrow> bounds_context" where
  "plain_context simplify =
     \<lparr>addrs = shared_addresses, simplifier = simplify, func_bounds = (\<lambda>f v. None), lane_name = (\<lambda>n. ''t'' @ replicate n (CHR ''.''))\<rparr>"

definition ex_scope :: "Interval scope" where
  "ex_scope = scope_push ''x'' (mk_Interval (ex_i 0) (ex_i 10)) scope_new"

definition ex_env :: env where
  "ex_env = \<lparr>var_val = [''x'' \<mapsto> [7]], load_val = (\<lambda>n t i. if n = ''a'' then Some 9 else None), call_val = (\<lambda>t n ct i vs. None)\<rparr>"

definition ex_load :: expr where
  "ex_load = Load (Int_t 32 1) ''a'' ex_x None None"

definition ex_let :: expr where
  "ex_let = LetE ''y'' (Binary AddOp ex_x (ex_i 1)) (Ramp (Variable (Int_t 32 1) ''y'' None None None) (ex_i 2) 4)"

lemma plain_context_setting: "setting (plain_context id) ex_env"
  by (simp add: setting_def plain_context_def infinities_shared_def addresses_ok_def shared_addresses_def
      exact_simplifier_def env_type_ok_def ex_env_def type_eq_def same_handle_type_def)

lemma ex_scope_lookup: "scope_wf ex_scope" "scope_lookup ex_scope = [''x'' \<mapsto> mk_Interval (ex_i 0) (ex_i 10)]"
  by (simp_all add: ex_scope_def scope_wf_push scope_lookup_push scope_wf_new scope_lookup_new)

lemma ex_brackets: "brackets True True W ex_env (Int_t 32 1) (mk_Interval (ex_i 0) (ex_i 10)) [7]"
  by (rule bracketsI [where u = 0 and v = 10])
    (simp_all add: fin_def bound_pred_def eval_concrete type_wf_def type_eq_def range_in_def)

lemma ex_let_ok:
  "wf_expr ex_let" "bounds_ok True True [''x'' \<mapsto> (Int_t 32 1, True, True)] ex_let"
  by (simp_all add: ex_let_def eval_concrete type_wf_def type_eq_def valued_def const_type_def is_scalar_def is_arith_def
      is_logical_def element_of_def checked_type_def no_overflow_int_def ex_bool_eq with_lanes_def Int_t_def mk_Type_def)

lemma ex_let_eval: "eval_in True ex_env ex_let = Some [8, 10, 12, 14]"
  by (simp add: ex_let_def ex_env_def eval_concrete range_in_def fit_in_def no_overflow_int_def upto_rec1 lift2_def
      del: lift2_singleton)

lemma ex_let_visit:
  "visit_ok (plain_context id) 5 ex_scope [''x'' \<mapsto> (Int_t 32 1, True, True)] {''y''} ex_env ex_env ex_let"
proof -
  have "funcs_ok (plain_context id) {''y''} ex_env" by (simp add: funcs_ok_def plain_context_def)
  moreover have "scope_rel ex_scope [''x'' \<mapsto> (Int_t 32 1, True, True)] {''y''} ex_env ex_env"
    using ex_scope_lookup ex_brackets by (auto simp: scope_rel_def ex_env_def split: if_splits)
  moreover have "inj (lane_name (plain_context id))" by (auto simp: inj_def plain_context_def)
  ultimately show ?thesis using plain_context_setting
    by (auto simp: visit_ok_def same_memory_def loads_by_element_def ex_env_def ex_let_def mangled_def plain_context_def)
qed

theorem bounds_of_expr_in_scope_sound_witness:
  "\<exists>i l u. bounds_of_expr_in_scope (plain_context id) 5 ex_let ex_scope = Inr i \<and> is_bounded shared_addresses i \<and>
     eval_in True ex_env (interval_min i) = Some [l] \<and> l \<le> 8 \<and>
     eval_in True ex_env (interval_max i) = Some [u] \<and> 14 \<le> u"
proof -
  have "fuel_need ex_let \<le> 5" by (simp add: ex_let_def)
  then show ?thesis
    using bounds_of_expr_in_scope_sound [OF ex_let_ok _ ex_let_visit _ ex_let_eval]
    by (fastforce simp: plain_context_def is_bounded_def)
qed

definition ex_mod :: expr where
  "ex_mod = Binary ModOp ex_x (Binary MaxOp ex_load (ex_i 10))"

definition ex_choice :: expr where
  "ex_choice = Select (Binary LTOp ex_x (ex_i 3)) (Binary MaxOp ex_load (ex_i 5)) (ex_i 0)"

definition ex_negate :: expr where
  "ex_negate = Binary MinOp (Binary MulOp (Binary MaxOp ex_load (ex_i 0)) (ex_i (- 1))) (ex_i 5)"

text \<open>C36: an interval with one infinite end is not always right, whatever the expression: the
  remainder by an unbounded divisor and the selection of an unbounded value get the
  interval of that operand, and a product with a negative constant takes the infinite end of the
  other factor for its other end. In each example the value is less than the lower bound.\<close>

theorem half_bounded_intervals:
  "(bounds_of_expr_in_scope (plain_context id) 5 ex_mod ex_scope = Inr (mk_Interval (ex_i 10) pos_inf) \<and>
    eval ex_env ex_mod = Some [7]) \<and>
   (bounds_of_expr_in_scope (plain_context id) 5 ex_choice ex_scope = Inr (mk_Interval (ex_i 5) pos_inf) \<and>
    eval ex_env ex_choice = Some [0]) \<and>
   (bounds_of_expr_in_scope (plain_context id) 5 ex_negate ex_scope = Inr (mk_Interval (ex_i 5) (Binary MinOp (Binary MulOp (ex_i 0) (ex_i (- 1))) (ex_i 5))) \<and>
    eval ex_env ex_negate = Some [- 9])"
proof (intro conjI)
  show "bounds_of_expr_in_scope (plain_context id) 5 ex_mod ex_scope = Inr (mk_Interval (ex_i 10) pos_inf)" by code_simp
  show "bounds_of_expr_in_scope (plain_context id) 5 ex_choice ex_scope = Inr (mk_Interval (ex_i 5) pos_inf)" by code_simp
  show "bounds_of_expr_in_scope (plain_context id) 5 ex_negate ex_scope = Inr (mk_Interval (ex_i 5) (Binary MinOp (Binary MulOp (ex_i 0) (ex_i (- 1))) (ex_i 5)))" by code_simp
  show "eval ex_env ex_mod = Some [7]" "eval ex_env ex_choice = Some [0]" "eval ex_env ex_negate = Some [- 9]"
    by code_simp+
qed



end
