(* ===== verification/MemoCache.thy ===== *)
theory MemoCache
  imports HalidePrelude "HOL-Library.AList"
begin

text \<open>
  The memoization cache of the runtime, \<open>src/runtime/cache.cpp\<close>: a hash table of 256
  chains of entries, threaded by a doubly linked list from the least to the most recently
  used entry, with a soft limit on the bytes it holds. Memory is explicit: \<open>heap\<close> has
  the live \<open>CacheEntry\<close> objects by address and \<open>headers\<close> the block headers that
  precede the host data, by address; a pointer that is not live in them is dangling, and
  reading it is undefined. The address 0 is \<open>NULL\<close>. The allocator is not part of the
  source that is modelled: \<open>pool\<close> lists the addresses it will return, 0 for a failure,
  so that a statement for all pools is a statement for all allocators.

  A loop over a chain has as much fuel as there are live entries: it ends within it unless
  the chain has a cycle, where the C++ loop has no defined behaviour either. The lock, the
  debug output and device memory are not modelled.
\<close>

subsection \<open>Buffers\<close>

type_synonym int4 = "int \<times> int \<times> int \<times> int"

record buffer_t =
  buf_dev :: int
  buf_host :: nat
  buf_extent :: int4
  buf_stride :: int4
  buf_min :: int4
  buf_elem_size :: int
  buf_host_dirty :: bool
  buf_dev_dirty :: bool

text \<open>
  \<open>buf_size\<close> of \<open>src/runtime/device_buffer_utils.h\<close>: the products are taken in
  \<open>int\<close> first and then in \<open>size_t\<close>.
\<close>

definition size_step :: "int \<Rightarrow> int \<times> int \<Rightarrow> int \<Rightarrow> int result" where
  "size_step elem se sz =
     rbind (if fst se < 0 then check32 (- fst se) else Inr (fst se)) (\<lambda>positive_stride.
     rbind (check32 (elem * snd se)) (\<lambda>m.
     let total_dim_size = (m * positive_stride) mod 2 ^ 64 in
     Inr (if total_dim_size > sz then total_dim_size else sz)))"

definition buf_size :: "buffer_t \<Rightarrow> int result" where
  "buf_size buf =
     (let (s0, s1, s2, s3) = buf_stride buf; (e0, e1, e2, e3) = buf_extent buf;
          elem = buf_elem_size buf in
      rbind (size_step elem (s0, e0) (elem mod 2 ^ 64)) (\<lambda>sz.
      rbind (size_step elem (s1, e1) sz) (\<lambda>sz.
      rbind (size_step elem (s2, e2) sz) (\<lambda>sz.
      size_step elem (s3, e3) sz))))"

subsection \<open>Entries and the state\<close>

definition keys_equal :: "nat list \<Rightarrow> nat list \<Rightarrow> nat \<Rightarrow> bool" where
  "keys_equal key1 key2 key_size \<longleftrightarrow> take key_size key1 = take key_size key2"

definition bounds_equal :: "buffer_t \<Rightarrow> buffer_t \<Rightarrow> bool" where
  "bounds_equal buf1 buf2 \<longleftrightarrow>
     buf_elem_size buf1 = buf_elem_size buf2 \<and> buf_min buf1 = buf_min buf2 \<and>
     buf_extent buf1 = buf_extent buf2 \<and> buf_stride buf1 = buf_stride buf2"

definition extra_bytes_host_bytes :: nat where
  "extra_bytes_host_bytes = 16"

record CacheEntry =
  next_entry :: nat
  more_recent :: nat
  less_recent :: nat
  key_size :: nat
  key :: "nat list"
  hash :: nat
  in_use_count :: nat
  tuple_count :: nat
  computed_bounds :: buffer_t
  buffers :: "buffer_t list"

record CacheBlockHeader =
  header_entry :: nat
  header_hash :: nat

record cache =
  heap :: "(nat \<times> CacheEntry) list"
  headers :: "(nat \<times> CacheBlockHeader) list"
  cache_entries :: "nat \<Rightarrow> nat"
  most_recently_used :: nat
  least_recently_used :: nat
  max_cache_size :: int
  current_cache_size :: int
  pool :: "nat list"

definition kHashTableSize :: nat where
  "kHashTableSize = 256"

definition kDefaultCacheSize :: int where
  "kDefaultCacheSize = 2 ^ 20"

definition empty_cache :: "nat list \<Rightarrow> cache" where
  "empty_cache p =
     \<lparr>heap = [], headers = [], cache_entries = (\<lambda>i. 0), most_recently_used = 0,
      least_recently_used = 0, max_cache_size = kDefaultCacheSize, current_cache_size = 0, pool = p\<rparr>"

definition get_pointer_to_header :: "nat \<Rightarrow> nat" where
  "get_pointer_to_header host = host - extra_bytes_host_bytes"

subsection \<open>Memory\<close>

definition halide_malloc :: "cache \<Rightarrow> nat \<times> cache" where
  "halide_malloc s = (case pool s of [] \<Rightarrow> (0, s) | p # ps \<Rightarrow> (p, s\<lparr>pool := ps\<rparr>))"

definition get_entry :: "nat \<Rightarrow> cache \<Rightarrow> CacheEntry result" where
  "get_entry a s = (case map_of (heap s) a of None \<Rightarrow> Inl Undefined_behaviour | Some e \<Rightarrow> Inr e)"

definition put_entry :: "nat \<Rightarrow> CacheEntry \<Rightarrow> cache \<Rightarrow> cache" where
  "put_entry a e s = s\<lparr>heap := AList.update a e (heap s)\<rparr>"

definition upd_entry :: "nat \<Rightarrow> (CacheEntry \<Rightarrow> CacheEntry) \<Rightarrow> cache \<Rightarrow> cache result" where
  "upd_entry a f s = rbind (get_entry a s) (\<lambda>e. Inr (put_entry a (f e) s))"

definition free_entry :: "nat \<Rightarrow> cache \<Rightarrow> cache result" where
  "free_entry a s = rbind (get_entry a s) (\<lambda>e. Inr (s\<lparr>heap := AList.delete a (heap s)\<rparr>))"

definition get_header :: "nat \<Rightarrow> cache \<Rightarrow> CacheBlockHeader result" where
  "get_header host s =
     (case map_of (headers s) (get_pointer_to_header host) of
        None \<Rightarrow> Inl Undefined_behaviour | Some h \<Rightarrow> Inr h)"

definition free_header :: "nat \<Rightarrow> cache \<Rightarrow> cache result" where
  "free_header host s =
     rbind (get_header host s) (\<lambda>h. Inr (s\<lparr>headers := AList.delete (get_pointer_to_header host) (headers s)\<rparr>))"

fun set_header_entries :: "nat \<Rightarrow> buffer_t list \<Rightarrow> cache \<Rightarrow> cache result" where
  "set_header_entries a [] s = Inr s"
| "set_header_entries a (b # bs) s =
     rbind (get_header (buf_host b) s) (\<lambda>h.
     set_header_entries a bs
       (s\<lparr>headers := AList.update (get_pointer_to_header (buf_host b)) (h\<lparr>header_entry := a\<rparr>) (headers s)\<rparr>))"

fun free_headers :: "buffer_t list \<Rightarrow> cache \<Rightarrow> cache result" where
  "free_headers [] s = Inr s"
| "free_headers (b # bs) s = rbind (free_header (buf_host b) s) (free_headers bs)"

text \<open>\<open>CacheEntry::init\<close> of a new object, and \<open>CacheEntry::destroy\<close>.\<close>

definition CacheEntry_init :: "nat list \<Rightarrow> nat \<Rightarrow> buffer_t \<Rightarrow> buffer_t list \<Rightarrow> CacheEntry" where
  "CacheEntry_init cache_key key_hash computed_buf tuple_buffers =
     \<lparr>next_entry = 0, more_recent = 0, less_recent = 0, key_size = length cache_key,
      key = cache_key, hash = key_hash, in_use_count = 0, tuple_count = length tuple_buffers,
      computed_bounds = computed_buf\<lparr>buf_host := 0, buf_dev := 0\<rparr>, buffers = tuple_buffers\<rparr>"

definition CacheEntry_destroy :: "CacheEntry \<Rightarrow> cache \<Rightarrow> cache result" where
  "CacheEntry_destroy e s = free_headers (buffers e) s"

text \<open>\<open>h << 5\<close> in \<open>uint32_t\<close>.\<close>

definition djb_hash :: "nat list \<Rightarrow> nat" where
  "djb_hash k = foldl (\<lambda>h c. (h * 32 + h + c) mod 2 ^ 32) 5381 k"

text \<open>Assigning a 64-bit unsigned result to \<open>int64_t\<close>.\<close>

definition to_int64 :: "int \<Rightarrow> int" where
  "to_int64 x = sint (word_of_int x :: 64 word)"

subsection \<open>Pruning\<close>

fun find_prev :: "nat \<Rightarrow> nat \<Rightarrow> nat \<Rightarrow> cache \<Rightarrow> nat result" where
  "find_prev fuel prev target s =
     (if prev = 0 then Inr 0
      else rbind (get_entry prev s) (\<lambda>e.
        if next_entry e = target then Inr prev
        else case fuel of 0 \<Rightarrow> Inl Undefined_behaviour
        | Suc n \<Rightarrow> find_prev n (next_entry e) target s))"

declare find_prev.simps [simp del]

definition unlink_hash :: "nat \<Rightarrow> cache \<Rightarrow> cache result" where
  "unlink_hash c s =
     rbind (get_entry c s) (\<lambda>e.
     let index = hash e mod kHashTableSize; first = cache_entries s index in
     if first = c then Inr (s\<lparr>cache_entries := (cache_entries s)(index := next_entry e)\<rparr>)
     else rbind (find_prev (length (heap s)) first c s) (\<lambda>prev.
       rbind (internal_assert (prev \<noteq> 0) ''prev_hash_entry != NULL'') (\<lambda>_.
       upd_entry prev (\<lambda>p. p\<lparr>next_entry := next_entry e\<rparr>) s)))"

text \<open>
  The last step writes the pointer to the more recent entry into the candidate itself, as
  the source does, and not into the entry less recent than it.
\<close>

definition unlink_recent :: "nat \<Rightarrow> nat \<Rightarrow> cache \<Rightarrow> cache result" where
  "unlink_recent c mr s =
     (let s1 = (if least_recently_used s = c then s\<lparr>least_recently_used := mr\<rparr> else s) in
      rbind (get_entry c s1) (\<lambda>e1.
      rbind (if mr \<noteq> 0 then upd_entry mr (\<lambda>m. m\<lparr>less_recent := less_recent e1\<rparr>) s1 else Inr s1) (\<lambda>s2.
      rbind (get_entry c s2) (\<lambda>e2.
      let s3 = (if most_recently_used s2 = c then s2\<lparr>most_recently_used := less_recent e2\<rparr> else s2) in
      if less_recent e2 \<noteq> 0 then upd_entry c (\<lambda>p. p\<lparr>less_recent := mr\<rparr>) s3 else Inr s3))))"

fun subtract_sizes :: "buffer_t list \<Rightarrow> cache \<Rightarrow> cache result" where
  "subtract_sizes [] s = Inr s"
| "subtract_sizes (b # bs) s =
     rbind (buf_size b) (\<lambda>n.
     subtract_sizes bs (s\<lparr>current_cache_size := to_int64 (current_cache_size s - n)\<rparr>))"

definition evict :: "nat \<Rightarrow> nat \<Rightarrow> cache \<Rightarrow> cache result" where
  "evict c mr s =
     rbind (unlink_hash c s) (\<lambda>s.
     rbind (unlink_recent c mr s) (\<lambda>s.
     rbind (get_entry c s) (\<lambda>e.
     rbind (subtract_sizes (buffers e) s) (\<lambda>s.
     rbind (CacheEntry_destroy e s) (\<lambda>s.
     free_entry c s)))))"

fun prune_loop :: "nat \<Rightarrow> nat \<Rightarrow> cache \<Rightarrow> cache result" where
  "prune_loop fuel candidate s =
     (if current_cache_size s > max_cache_size s \<and> candidate \<noteq> 0 then
        (case fuel of 0 \<Rightarrow> Inl Undefined_behaviour
         | Suc n \<Rightarrow>
             rbind (get_entry candidate s) (\<lambda>e.
             rbind (if in_use_count e = 0 then evict candidate (more_recent e) s else Inr s) (\<lambda>s.
             prune_loop n (more_recent e) s)))
      else Inr s)"

declare prune_loop.simps [simp del]

definition prune_cache :: "cache \<Rightarrow> cache result" where
  "prune_cache s = prune_loop (length (heap s)) (least_recently_used s) s"

definition halide_memoization_cache_set_size :: "int \<Rightarrow> cache \<Rightarrow> cache result" where
  "halide_memoization_cache_set_size sz s =
     prune_cache (s\<lparr>max_cache_size := (if sz = 0 then kDefaultCacheSize else sz)\<rparr>)"

subsection \<open>Lookup\<close>

definition entry_matches :: "nat \<Rightarrow> nat list \<Rightarrow> buffer_t \<Rightarrow> buffer_t list \<Rightarrow> CacheEntry \<Rightarrow> bool" where
  "entry_matches h cache_key bounds tuple_buffers e \<longleftrightarrow>
     hash e = h \<and> key_size e = length cache_key \<and> keys_equal (key e) cache_key (length cache_key) \<and>
     bounds_equal (computed_bounds e) bounds \<and> tuple_count e = length tuple_buffers \<and>
     list_all2 bounds_equal (buffers e) tuple_buffers"

fun find_entry :: "nat \<Rightarrow> (CacheEntry \<Rightarrow> bool) \<Rightarrow> nat \<Rightarrow> cache \<Rightarrow> nat result" where
  "find_entry fuel p a s =
     (if a = 0 then Inr 0
      else rbind (get_entry a s) (\<lambda>e.
        if p e then Inr a
        else case fuel of 0 \<Rightarrow> Inl Undefined_behaviour
        | Suc n \<Rightarrow> find_entry n p (next_entry e) s))"

declare find_entry.simps [simp del]

definition make_most_recent :: "nat \<Rightarrow> cache \<Rightarrow> cache result" where
  "make_most_recent a s =
     (if a = most_recently_used s then Inr s
      else rbind (get_entry a s) (\<lambda>e.
        rbind (internal_assert (more_recent e \<noteq> 0) ''entry->more_recent != NULL'') (\<lambda>_.
        rbind (if less_recent e \<noteq> 0
               then upd_entry (less_recent e) (\<lambda>l. l\<lparr>more_recent := more_recent e\<rparr>) s
               else rbind (internal_assert (least_recently_used s = a) ''least_recently_used == entry'') (\<lambda>_.
                 Inr (s\<lparr>least_recently_used := more_recent e\<rparr>))) (\<lambda>s.
        rbind (get_entry a s) (\<lambda>e.
        rbind (internal_assert (more_recent e \<noteq> 0) ''entry->more_recent != NULL'') (\<lambda>_.
        rbind (upd_entry (more_recent e) (\<lambda>m. m\<lparr>less_recent := less_recent e\<rparr>) s) (\<lambda>s.
        rbind (upd_entry a (\<lambda>e. e\<lparr>more_recent := 0, less_recent := most_recently_used s\<rparr>) s) (\<lambda>s.
        rbind (if most_recently_used s \<noteq> 0
               then upd_entry (most_recently_used s) (\<lambda>m. m\<lparr>more_recent := a\<rparr>) s else Inr s) (\<lambda>s.
        Inr (s\<lparr>most_recently_used := a\<rparr>))))))))))"

text \<open>The blocks of the buffers allocated so far are in \<open>done\<close>, the last one first.\<close>

fun alloc_tuples ::
  "nat \<Rightarrow> buffer_t list \<Rightarrow> buffer_t list \<Rightarrow> cache \<Rightarrow> (int \<times> buffer_t list \<times> cache) result" where
  "alloc_tuples h done [] s = Inr (1, rev done, s)"
| "alloc_tuples h done (b # bs) s =
     rbind (buf_size b) (\<lambda>_.
     let (p, s) = halide_malloc s in
     if p = 0 then
       rbind (free_headers done s) (\<lambda>s.
       Inr (- 1, rev (map (\<lambda>b. b\<lparr>buf_host := 0\<rparr>) done) @ b\<lparr>buf_host := 0\<rparr> # bs, s))
     else
       alloc_tuples h (b\<lparr>buf_host := p + extra_bytes_host_bytes\<rparr> # done) bs
         (s\<lparr>headers := AList.update p \<lparr>header_entry = 0, header_hash = h\<rparr> (headers s)\<rparr>))"

definition halide_memoization_cache_lookup ::
  "nat list \<Rightarrow> buffer_t \<Rightarrow> buffer_t list \<Rightarrow> cache \<Rightarrow> (int \<times> buffer_t list \<times> cache) result" where
  "halide_memoization_cache_lookup cache_key bounds tuple_buffers s =
     (let h = djb_hash cache_key; index = h mod kHashTableSize in
      rbind (find_entry (length (heap s)) (entry_matches h cache_key bounds tuple_buffers)
               (cache_entries s index) s) (\<lambda>a.
      if a \<noteq> 0 then
        rbind (make_most_recent a s) (\<lambda>s.
        rbind (get_entry a s) (\<lambda>e.
        Inr (0, buffers e,
          put_entry a (e\<lparr>in_use_count := (in_use_count e + length tuple_buffers) mod 2 ^ 32\<rparr>) s)))
      else alloc_tuples h [] tuple_buffers s))"

subsection \<open>Store, release and cleanup\<close>

fun add_sizes :: "buffer_t list \<Rightarrow> int \<Rightarrow> int result" where
  "add_sizes [] n = Inr n"
| "add_sizes (b # bs) n = rbind (buf_size b) (\<lambda>m. add_sizes bs ((n + m) mod 2 ^ 64))"

definition link_entry :: "nat \<Rightarrow> nat \<Rightarrow> CacheEntry \<Rightarrow> cache \<Rightarrow> cache result" where
  "link_entry p index e s =
     (let s = put_entry p (e\<lparr>next_entry := cache_entries s index, less_recent := most_recently_used s\<rparr>) s in
      rbind (if most_recently_used s \<noteq> 0
             then upd_entry (most_recently_used s) (\<lambda>m. m\<lparr>more_recent := p\<rparr>) s else Inr s) (\<lambda>s.
      let s = s\<lparr>most_recently_used := p,
                least_recently_used := (if least_recently_used s = 0 then p else least_recently_used s),
                cache_entries := (cache_entries s)(index := p)\<rparr> in
      upd_entry p (\<lambda>e. e\<lparr>in_use_count := tuple_count e\<rparr>) s))"

definition halide_memoization_cache_store ::
  "nat list \<Rightarrow> buffer_t \<Rightarrow> buffer_t list \<Rightarrow> cache \<Rightarrow> cache result" where
  "halide_memoization_cache_store cache_key bounds tuple_buffers s =
     (case tuple_buffers of [] \<Rightarrow> Inl Undefined_behaviour
      | b # _ \<Rightarrow>
      rbind (get_header (buf_host b) s) (\<lambda>hd.
      let h = header_hash hd; index = h mod kHashTableSize in
      rbind (find_entry (length (heap s)) (entry_matches h cache_key bounds tuple_buffers)
               (cache_entries s index) s) (\<lambda>a.
      if a \<noteq> 0 then
        rbind (get_entry a s) (\<lambda>e.
        rbind (internal_assert (list_all2 (\<lambda>x y. buf_host x \<noteq> buf_host y) (buffers e) tuple_buffers)
          ''no_host_pointers_equal'') (\<lambda>_.
        set_header_entries 0 tuple_buffers s))
      else
        rbind (add_sizes tuple_buffers 0) (\<lambda>added_size.
        rbind (prune_cache (s\<lparr>current_cache_size := to_int64 (current_cache_size s + added_size)\<rparr>)) (\<lambda>s.
        let (p, s) = halide_malloc s in
        if p = 0 then
          set_header_entries 0 tuple_buffers
            (s\<lparr>current_cache_size := to_int64 (current_cache_size s - added_size)\<rparr>)
        else
          let (k, s) = halide_malloc s in
          if k = 0 then
            set_header_entries 0 tuple_buffers
              (s\<lparr>current_cache_size := to_int64 (current_cache_size s - added_size)\<rparr>)
          else
            rbind (link_entry p index (CacheEntry_init cache_key h bounds tuple_buffers) s) (\<lambda>s.
            set_header_entries p tuple_buffers s))))))"

definition halide_memoization_cache_release :: "nat \<Rightarrow> cache \<Rightarrow> cache result" where
  "halide_memoization_cache_release host s =
     rbind (get_header host s) (\<lambda>h.
     if header_entry h = 0 then free_header host s
     else rbind (get_entry (header_entry h) s) (\<lambda>e.
       rbind (internal_assert (in_use_count e > 0) ''entry->in_use_count > 0'') (\<lambda>_.
       Inr (put_entry (header_entry h) (e\<lparr>in_use_count := in_use_count e - 1\<rparr>) s))))"

fun cleanup_chain :: "nat \<Rightarrow> nat \<Rightarrow> cache \<Rightarrow> cache result" where
  "cleanup_chain fuel a s =
     (if a = 0 then Inr s
      else case fuel of 0 \<Rightarrow> Inl Undefined_behaviour
      | Suc n \<Rightarrow>
          rbind (get_entry a s) (\<lambda>e.
          rbind (CacheEntry_destroy e s) (\<lambda>s.
          rbind (free_entry a s) (cleanup_chain n (next_entry e)))))"

declare cleanup_chain.simps [simp del]

fun cleanup_table :: "nat list \<Rightarrow> cache \<Rightarrow> cache result" where
  "cleanup_table [] s = Inr s"
| "cleanup_table (i # js) s =
     rbind (cleanup_chain (length (heap s)) (cache_entries s i)
              (s\<lparr>cache_entries := (cache_entries s)(i := 0)\<rparr>)) (cleanup_table js)"

definition halide_memoization_cache_cleanup :: "cache \<Rightarrow> cache result" where
  "halide_memoization_cache_cleanup s =
     rbind (cleanup_table [0..<kHashTableSize] s) (\<lambda>s. Inr (s\<lparr>current_cache_size := 0\<rparr>))"

end
