(* ===== verification/MemoCacheInv.thy ===== *)
theory MemoCacheInv
  imports MemoCache
begin

text \<open>
  The invariant of the memoization cache and what the steps of its operations do to it: the
  entries form one doubly linked list in the order of their use and one chain for each slot
  of the hash table, each entry owns the blocks of its buffers, and the size counter is the
  sum of their sizes. The heap is read through three views, one for each kind of link and
  one for the contents, so that a step is described by the one view it changes.
\<close>

subsection \<open>Linked structures in the heap\<close>

text \<open>
  The three aspects of the heap that different parts of the code change: the links of the
  list of recent use, the links of the hash chains, and the contents of the entries.
\<close>

definition lnk :: "(nat \<times> CacheEntry) list \<Rightarrow> nat \<Rightarrow> (nat \<times> nat) option" where
  "lnk h a = map_option (\<lambda>e. (less_recent e, more_recent e)) (map_of h a)"

definition nxt :: "(nat \<times> CacheEntry) list \<Rightarrow> nat \<Rightarrow> nat option" where
  "nxt h a = map_option next_entry (map_of h a)"

definition contents :: "CacheEntry \<Rightarrow> CacheEntry" where
  "contents e = e\<lparr>next_entry := 0, more_recent := 0, less_recent := 0\<rparr>"

definition dat :: "(nat \<times> CacheEntry) list \<Rightarrow> nat \<Rightarrow> CacheEntry option" where
  "dat h a = map_option contents (map_of h a)"

lemmas heap_views = lnk_def nxt_def dat_def

lemma nxt_Some: "nxt h a = Some b \<longleftrightarrow> (\<exists>e. map_of h a = Some e \<and> b = next_entry e)"
  by (auto simp: nxt_def)

lemma views_update [simp]:
  "lnk (AList.update a e h) = (lnk h)(a \<mapsto> (less_recent e, more_recent e))"
  "nxt (AList.update a e h) = (nxt h)(a \<mapsto> next_entry e)"
  "dat (AList.update a e h) = (dat h)(a \<mapsto> contents e)"
  by (auto simp: heap_views AList.update_conv' intro!: ext)

lemma views_delete [simp]:
  "lnk (AList.delete a h) = (lnk h)(a := None)"
  "nxt (AList.delete a h) = (nxt h)(a := None)"
  "dat (AList.delete a h) = (dat h)(a := None)"
  by (auto simp: heap_views AList.delete_conv' intro!: ext)

lemma views_same:
  assumes "map_of h a = Some e"
  shows "(lnk h)(a \<mapsto> (less_recent e, more_recent e)) = lnk h"
    and "(nxt h)(a \<mapsto> next_entry e) = nxt h" and "(dat h)(a \<mapsto> contents e) = dat h"
  using assms by (auto simp: heap_views intro!: ext)

lemma contents_simps [simp]:
  "contents (e\<lparr>next_entry := x\<rparr>) = contents e" "contents (e\<lparr>more_recent := x\<rparr>) = contents e"
  "contents (e\<lparr>less_recent := x\<rparr>) = contents e" "hash (contents e) = hash e"
  "buffers (contents e) = buffers e" "in_use_count (contents e) = in_use_count e"
  "key (contents e) = key e" "key_size (contents e) = key_size e"
  "tuple_count (contents e) = tuple_count e" "computed_bounds (contents e) = computed_bounds e"
  by (simp_all add: contents_def)

text \<open>A doubly linked list and a singly linked chain, as paths.\<close>

definition first :: "nat list \<Rightarrow> nat \<Rightarrow> nat" where
  "first xs n = (case xs of [] \<Rightarrow> n | x # _ \<Rightarrow> x)"

definition final :: "nat \<Rightarrow> nat list \<Rightarrow> nat" where
  "final p xs = (if xs = [] then p else last xs)"

lemma first_simps [simp]: "first [] n = n" "first (x # xs) n = x"
  by (simp_all add: first_def)

lemma final_simps [simp]: "final p [] = p" "final p (xs @ [x]) = x" "final p (x # xs) = final x xs"
  by (simp_all add: final_def)

lemma first_append [simp]: "first (xs @ ys) n = first xs (first ys n)"
  by (cases xs) simp_all

lemma final_append [simp]: "final p (xs @ ys) = final (final p xs) ys"
  by (simp add: final_def)

lemma first_in: "first xs 0 \<noteq> 0 \<Longrightarrow> first xs 0 \<in> set xs"
  by (cases xs) simp_all

lemma final_in: "final 0 xs \<noteq> 0 \<Longrightarrow> final 0 xs \<in> set xs"
  by (auto simp: final_def split: if_splits)

fun dll :: "(nat \<Rightarrow> (nat \<times> nat) option) \<Rightarrow> nat \<Rightarrow> nat list \<Rightarrow> nat \<Rightarrow> bool" where
  "dll l p [] n \<longleftrightarrow> True"
| "dll l p (a # as) n \<longleftrightarrow> l a = Some (p, first as n) \<and> dll l a as n"

lemma dll_append [simp]:
  "dll l p (xs @ ys) n \<longleftrightarrow> dll l p xs (first ys n) \<and> dll l (final p xs) ys n"
  by (induction xs arbitrary: p) auto

lemma dll_upd [simp]: "a \<notin> set xs \<Longrightarrow> dll (l(a := v)) p xs n \<longleftrightarrow> dll l p xs n"
  by (induction xs arbitrary: p) auto

fun chain :: "(nat \<Rightarrow> nat option) \<Rightarrow> nat \<Rightarrow> nat list \<Rightarrow> nat \<Rightarrow> bool" where
  "chain nx x [] y \<longleftrightarrow> x = y"
| "chain nx x (a # as) y \<longleftrightarrow> x = a \<and> a \<noteq> 0 \<and> (\<exists>b. nx a = Some b \<and> chain nx b as y)"

lemma chain_append [simp]: "chain nx x (xs @ ys) y \<longleftrightarrow> (\<exists>z. chain nx x xs z \<and> chain nx z ys y)"
  by (induction xs arbitrary: x) auto

lemma chain_upd [simp]: "a \<notin> set xs \<Longrightarrow> chain (nx(a := v)) x xs y \<longleftrightarrow> chain nx x xs y"
  by (induction xs arbitrary: x) auto

lemma chain_0 [simp]: "chain nx 0 xs y \<longleftrightarrow> xs = [] \<and> y = 0"
  by (cases xs) auto

subsection \<open>Invariant\<close>

abbreviation ptr :: "buffer_t \<Rightarrow> nat" where
  "ptr b \<equiv> get_pointer_to_header (buf_host b)"

text \<open>
  \<open>L\<close> has the entries from the least to the most recently used, \<open>B i\<close> the chain of
  slot \<open>i\<close>.
\<close>

definition list_inv :: "cache \<Rightarrow> nat list \<Rightarrow> bool" where
  "list_inv s L \<longleftrightarrow> distinct (map fst (heap s)) \<and> distinct L \<and> 0 \<notin> set L \<and> set L = fst ` set (heap s) \<and>
     dll (lnk (heap s)) 0 L 0 \<and> least_recently_used s = first L 0 \<and> most_recently_used s = final 0 L"

definition table_inv :: "cache \<Rightarrow> (nat \<Rightarrow> nat list) \<Rightarrow> bool" where
  "table_inv s B \<longleftrightarrow> (\<forall>i. distinct (B i) \<and> chain (nxt (heap s)) (cache_entries s i) (B i) 0 \<and>
     set (B i) = {a. \<exists>e. dat (heap s) a = Some e \<and> hash e mod kHashTableSize = i})"

definition entry_ok :: "cache \<Rightarrow> nat \<Rightarrow> CacheEntry \<Rightarrow> bool" where
  "entry_ok s a e \<longleftrightarrow> key_size e = length (key e) \<and> tuple_count e = length (buffers e) \<and>
     buffers e \<noteq> [] \<and> distinct (map ptr (buffers e)) \<and>
     (\<forall>b \<in> set (buffers e). (\<exists>n. buf_size b = Inr n) \<and>
       (\<exists>h. map_of (headers s) (ptr b) = Some h \<and> header_entry h = a))"

definition own_inv :: "cache \<Rightarrow> bool" where
  "own_inv s \<longleftrightarrow> (\<forall>a e. dat (heap s) a = Some e \<longrightarrow> entry_ok s a e)"

definition pool_inv :: "cache \<Rightarrow> bool" where
  "pool_inv s \<longleftrightarrow> distinct (filter (\<lambda>p. p \<noteq> 0) (pool s)) \<and>
     (\<forall>p \<in> set (pool s). p \<noteq> 0 \<longrightarrow> dat (heap s) p = None \<and> map_of (headers s) p = None)"

definition cache_inv :: "cache \<Rightarrow> nat list \<Rightarrow> (nat \<Rightarrow> nat list) \<Rightarrow> bool" where
  "cache_inv s L B \<longleftrightarrow> list_inv s L \<and> table_inv s B \<and> own_inv s \<and> pool_inv s"

text \<open>The bytes the entries of a list account for.\<close>

definition bsize :: "buffer_t \<Rightarrow> int" where
  "bsize b = (case buf_size b of Inr n \<Rightarrow> n | Inl _ \<Rightarrow> 0)"

definition esize :: "CacheEntry \<Rightarrow> int" where
  "esize e = sum_list (map bsize (buffers e))"

definition total_size :: "cache \<Rightarrow> nat list \<Rightarrow> int" where
  "total_size s L = (\<Sum>a \<leftarrow> L. case dat (heap s) a of Some e \<Rightarrow> esize e | None \<Rightarrow> 0)"

text \<open>The size counter, when \<open>k\<close> bytes are reserved for an entry that is not yet linked.\<close>

definition size_inv :: "cache \<Rightarrow> nat list \<Rightarrow> int \<Rightarrow> bool" where
  "size_inv s L k \<longleftrightarrow> current_cache_size s = to_int64 (k + total_size s L)"

subsection \<open>Basic facts\<close>

lemma to_int64_eq: "to_int64 x = signed_take_bit 63 x"
  by (simp add: to_int64_def sint_uint uint_word_of_int_eq signed_take_bit_take_bit)

lemma to_int64_diff [simp]: "to_int64 (to_int64 x - y) = to_int64 (x - y)"
  using signed_take_bit_diff [of 63 "signed_take_bit 63 x" y] signed_take_bit_diff [of 63 x y]
  by (simp add: to_int64_eq)

lemma to_int64_add [simp]: "to_int64 (to_int64 x + y) = to_int64 (x + y)"
  using signed_take_bit_add [of 63 "signed_take_bit 63 x" y] signed_take_bit_add [of 63 x y]
  by (simp add: to_int64_eq)

lemma dom_views: "dat h a = None \<longleftrightarrow> map_of h a = None" "lnk h a = None \<longleftrightarrow> map_of h a = None"
  "nxt h a = None \<longleftrightarrow> map_of h a = None"
  by (simp_all add: heap_views)

lemma in_heap: "a \<in> fst ` set (heap s) \<longleftrightarrow> (\<exists>e. map_of (heap s) a = Some e)"
  by (metis domD domI dom_map_of_conv_image_fst)

lemma get_entry_Some [simp]: "map_of (heap s) a = Some e \<Longrightarrow> get_entry a s = Inr e"
  by (simp add: get_entry_def)

lemma list_inv_entry: "list_inv s L \<Longrightarrow> a \<in> set L \<Longrightarrow> \<exists>e. map_of (heap s) a = Some e"
  by (auto simp: list_inv_def in_heap [symmetric])

lemma length_heap: "list_inv s L \<Longrightarrow> length (heap s) = length L"
  using distinct_card [of "map fst (heap s)"] distinct_card [of L] by (simp add: list_inv_def)

lemma table_inv_length:
  assumes "list_inv s L" and "table_inv s B"
  shows "length (B i) \<le> length (heap s)"
proof -
  have "set (B i) \<subseteq> set L"
    using assms by (auto simp: table_inv_def list_inv_def in_heap dat_def)
  then have "card (set (B i)) \<le> card (set L)" by (simp add: card_mono)
  moreover have "distinct (B i)" "distinct L" using assms by (simp_all add: table_inv_def list_inv_def)
  ultimately show ?thesis using length_heap [OF assms(1)] by (simp add: distinct_card)
qed

text \<open>Searching a chain returns the first entry that satisfies the test, or \<open>NULL\<close>.\<close>

lemma find_entry_chain:
  assumes "chain (nxt (heap s)) x as 0" and "length as \<le> fuel"
  shows "find_entry fuel p x s = Inr (case List.find (\<lambda>a. p (the (map_of (heap s) a))) as of Some a \<Rightarrow> a | None \<Rightarrow> 0)"
  using assms
proof (induction as arbitrary: x fuel)
  case Nil
  then show ?case by (simp add: find_entry.simps)
next
  case (Cons a as)
  then obtain e where e: "map_of (heap s) a = Some e" "chain (nxt (heap s)) (next_entry e) as 0" "x = a" "a \<noteq> 0"
    by (auto simp: nxt_Some)
  obtain n where "fuel = Suc n" using Cons.prems(2) by (cases fuel) auto
  with Cons.IH [OF e(2), of n] Cons.prems(2) e show ?case by (subst find_entry.simps) simp
qed

lemma find_prev_chain:
  assumes "chain (nxt (heap s)) x (as @ [p]) c" and "c \<notin> set as" and "length as \<le> fuel" and "c \<notin> set (as @ [p])"
  shows "find_prev fuel x c s = Inr p"
  using assms
proof (induction as arbitrary: x fuel)
  case Nil
  then show ?case by (auto simp: find_prev.simps nxt_Some)
next
  case (Cons a as)
  then obtain e where e: "map_of (heap s) a = Some e" "chain (nxt (heap s)) (next_entry e) (as @ [p]) c" "x = a" "a \<noteq> 0"
    by (auto simp: nxt_Some)
  have "next_entry e \<noteq> c"
    using e(2) Cons.prems(2,4) by (cases as) auto
  obtain n where "fuel = Suc n" using Cons.prems(3) by (cases fuel) auto
  with Cons.IH [OF e(2), of n] Cons.prems e \<open>next_entry e \<noteq> c\<close> show ?case by (subst find_prev.simps) simp
qed

subsection \<open>Removing the least recently used entry\<close>

lemma keys_update [simp]: "a \<in> fst ` set h \<Longrightarrow> map fst (AList.update a e h) = map fst h"
  by (simp add: AList.update_keys)

lemma upd_entry_Inr:
  "map_of (heap s) a = Some e \<Longrightarrow> upd_entry a f s = Inr (s\<lparr>heap := AList.update a (f e) (heap s)\<rparr>)"
  by (simp add: upd_entry_def put_entry_def)

lemma map_of_in_keys: "map_of h a = Some e \<Longrightarrow> a \<in> fst ` set h"
  by (metis domI dom_map_of_conv_image_fst)

lemma unlink_hash_ok:
  assumes inv: "list_inv s L" "table_inv s B" and e: "map_of (heap s) c = Some e"
    and i: "i = hash e mod kHashTableSize"
  shows "\<exists>h ce. unlink_hash c s = Inr (s\<lparr>heap := h, cache_entries := ce\<rparr>) \<and> lnk h = lnk (heap s) \<and>
    dat h = dat (heap s) \<and> map fst h = map fst (heap s) \<and>
    (\<forall>j. chain (nxt h) (ce j) ((B(i := remove1 c (B i))) j) 0)"
proof -
  have B: "\<And>j. distinct (B j)" "\<And>j. chain (nxt (heap s)) (cache_entries s j) (B j) 0"
    "\<And>j a. a \<in> set (B j) \<longleftrightarrow> (\<exists>e. dat (heap s) a = Some e \<and> hash e mod kHashTableSize = j)"
    using inv(2) by (auto simp: table_inv_def)
  have "c \<in> set (B i)" using e i by (auto simp: B(3) dat_def)
  then obtain xs ys where xs: "B i = xs @ c # ys" by (auto simp: in_set_conv_decomp)
  with B(1) [of i] have d: "c \<notin> set xs" "c \<notin> set ys" "distinct xs" "distinct ys" "set xs \<inter> set ys = {}" by auto
  have rem: "remove1 c (B i) = xs @ ys" using xs d by (simp add: remove1_append)
  have ch: "chain (nxt (heap s)) (cache_entries s i) xs c" "chain (nxt (heap s)) (next_entry e) ys 0"
    using B(2) [of i] e unfolding xs by (auto simp: nxt_def)
  show ?thesis
  proof (cases xs rule: rev_cases)
    case Nil
    then have "unlink_hash c s = Inr (s\<lparr>heap := heap s, cache_entries := (cache_entries s)(i := next_entry e)\<rparr>)"
      using ch(1) e i by (simp add: unlink_hash_def Let_def)
    then show ?thesis using ch(2) B(2) rem Nil
      by (intro exI [of _ "heap s"] exI [of _ "(cache_entries s)(i := next_entry e)"]) auto
  next
    case (snoc zs p)
    then have p: "p \<in> set (B i)" "p \<noteq> c" using xs d by auto
    then obtain pe where pe: "map_of (heap s) p = Some pe" by (auto simp: B(3) dat_def)
    have "cache_entries s i \<noteq> c"
      using ch(1) d(1) snoc by (cases zs) auto
    moreover have "find_prev (length (heap s)) (cache_entries s i) c s = Inr p"
      using find_prev_chain [of s "cache_entries s i" zs p c] ch(1) snoc d(1)
        table_inv_length [OF inv, of i] xs by simp
    moreover have "p \<noteq> 0" using ch(1) snoc by auto
    ultimately have u: "unlink_hash c s =
        Inr (s\<lparr>heap := AList.update p (pe\<lparr>next_entry := next_entry e\<rparr>) (heap s), cache_entries := cache_entries s\<rparr>)"
      using e i pe by (simp add: unlink_hash_def Let_def upd_entry_Inr)
    let ?h = "AList.update p (pe\<lparr>next_entry := next_entry e\<rparr>) (heap s)"
    have "chain (nxt ?h) (cache_entries s j) ((B(i := remove1 c (B i))) j) 0" for j
    proof (cases "j = i")
      case True
      have "p \<notin> set zs" "p \<notin> set ys" using d snoc by auto
      then show ?thesis using True ch snoc by (auto simp: rem)
    next
      case False
      then have "p \<notin> set (B j)" using p(1) B(3) [of p] by force
      then show ?thesis using False B(2) by simp
    qed
    with u show ?thesis
      using views_same [OF pe] map_of_in_keys [OF pe]
      by (intro exI [of _ ?h] exI [of _ "cache_entries s"]) simp
  qed
qed

lemma unlink_recent_first:
  assumes l: "dll (lnk (heap s)) 0 (c # L) 0" "distinct (c # L)" "0 \<notin> set (c # L)"
    and r: "least_recently_used s = c" "most_recently_used s = final c L"
    and k: "set L \<subseteq> fst ` set (heap s)" and e: "map_of (heap s) c = Some e"
  shows "\<exists>h. unlink_recent c (first L 0) s =
      Inr (s\<lparr>heap := h, least_recently_used := first L 0, most_recently_used := final 0 L\<rparr>) \<and>
    nxt h = nxt (heap s) \<and> dat h = dat (heap s) \<and> map fst h = map fst (heap s) \<and> dll (lnk h) 0 L 0 \<and>
    map_of h c = Some e"
proof (cases L)
  case Nil
  then show ?thesis using r e l
    by (intro exI [of _ "heap s"]) (simp add: unlink_recent_def Let_def lnk_def)
next
  case (Cons m L')
  then obtain me where me: "map_of (heap s) m = Some me"
    using k by (metis in_heap list.set_intros(1) subsetD)
  have lr: "less_recent e = 0" and mr: "more_recent me = first L' 0" "less_recent me = c"
    using l(1) e me Cons by (auto simp: lnk_def)
  have mc: "most_recently_used s \<noteq> c"
    using r(2) l(2) Cons by (cases L' rule: rev_cases) auto
  let ?h = "AList.update m (me\<lparr>less_recent := 0\<rparr>) (heap s)"
  have "map_of ?h c = Some e" using e l(2) Cons by (auto simp: AList.update_conv')
  moreover have "unlink_recent c (first L 0) s =
      Inr (s\<lparr>heap := ?h, least_recently_used := first L 0, most_recently_used := final 0 L\<rparr>)"
    using r e lr mc l(2,3) Cons me calculation
    by (simp add: unlink_recent_def Let_def upd_entry_Inr)
  moreover have "dll (lnk ?h) 0 L 0"
    using l(1,2) Cons mr by simp
  ultimately show ?thesis
    using views_same [OF me] map_of_in_keys [OF me] by (intro exI [of _ ?h]) simp
qed

lemma subtract_sizes_ok:
  "\<forall>b \<in> set bs. \<exists>n. buf_size b = Inr n \<Longrightarrow>
   subtract_sizes bs s = Inr (s\<lparr>current_cache_size :=
     (if bs = [] then current_cache_size s else to_int64 (current_cache_size s - sum_list (map bsize bs)))\<rparr>)"
proof (induction bs arbitrary: s)
  case Nil
  then show ?case by simp
next
  case (Cons b bs)
  then obtain n where n: "buf_size b = Inr n" by auto
  with Cons show ?case by (auto simp: bsize_def algebra_simps)
qed

lemma free_headers_ok:
  "distinct (map ptr bs) \<Longrightarrow> \<forall>b \<in> set bs. \<exists>h. map_of (headers s) (ptr b) = Some h \<Longrightarrow>
   \<exists>hs. free_headers bs s = Inr (s\<lparr>headers := hs\<rparr>) \<and> map_of hs = (map_of (headers s)) |` (- ptr ` set bs)"
proof (induction bs arbitrary: s)
  case Nil
  then show ?case by (intro exI [of _ "headers s"]) simp
next
  case (Cons b bs)
  then obtain h where h: "map_of (headers s) (ptr b) = Some h" by auto
  let ?s = "s\<lparr>headers := AList.delete (ptr b) (headers s)\<rparr>"
  have f: "free_header (buf_host b) s = Inr ?s" using h by (simp add: free_header_def get_header_def)
  have "\<forall>x \<in> set bs. \<exists>h. map_of (headers ?s) (ptr x) = Some h"
  proof
    fix x
    assume x: "x \<in> set bs"
    then have "ptr x \<in> ptr ` set bs" by (rule imageI)
    with Cons.prems(1) have "ptr x \<noteq> ptr b" by (metis distinct.simps(2) set_map list.map(2))
    with x Cons.prems(2) show "\<exists>h. map_of (headers ?s) (ptr x) = Some h" by (simp add: AList.delete_conv')
  qed
  from Cons.IH [OF _ this] Cons.prems(1) obtain hs where
    "free_headers bs ?s = Inr (?s\<lparr>headers := hs\<rparr>)" "map_of hs = (map_of (headers ?s)) |` (- ptr ` set bs)"
    by auto
  with f show ?case
    by (intro exI [of _ hs]) (auto simp: AList.delete_conv' restrict_map_def fun_upd_def)
qed


lemma free_entry_ok:
  "map_of (heap s) c = Some e \<Longrightarrow> free_entry c s = Inr (s\<lparr>heap := AList.delete c (heap s)\<rparr>)"
  by (simp add: free_entry_def)

lemma distinct_delete [simp]: "distinct (map fst h) \<Longrightarrow> distinct (map fst (AList.delete a h))"
  by (rule AList.distinct_delete)

lemma fst_set_delete [simp]: "fst ` set (AList.delete a h) = fst ` set h - {a}"
  by (metis AList.delete_keys image_set removeAll_filter_not_eq set_removeAll)

lemma evict_first:
  assumes inv: "cache_inv s (c # L) B" and e: "map_of (heap s) c = Some e"
  shows "\<exists>s'. evict c (more_recent e) s = Inr s' \<and>
    cache_inv s' L (B(hash e mod kHashTableSize := remove1 c (B (hash e mod kHashTableSize)))) \<and>
    dat (heap s') = (dat (heap s))(c := None) \<and>
    current_cache_size s' = to_int64 (current_cache_size s - esize e) \<and>
    max_cache_size s' = max_cache_size s \<and> pool s' = pool s \<and>
    (\<forall>p h. map_of (headers s) p = Some h \<and> header_entry h \<noteq> c \<longrightarrow> map_of (headers s') p = Some h)"
proof -
  define i where "i = hash e mod kHashTableSize"
  have li: "list_inv s (c # L)" and ti: "table_inv s B" and oi: "own_inv s" and pi: "pool_inv s"
    using inv by (auto simp: cache_inv_def)
  have keys: "set (c # L) = fst ` set (heap s)" "distinct (c # L)" "0 \<notin> set (c # L)"
    and dk: "distinct (map fst (heap s))" and d: "dll (lnk (heap s)) 0 (c # L) 0"
    and r: "least_recently_used s = first (c # L) 0" "most_recently_used s = final 0 (c # L)"
    using li unfolding list_inv_def by blast+
  have lk: "lnk (heap s) c = Some (0, first L 0)" and rest: "dll (lnk (heap s)) c L 0"
    using d by simp_all
  have mr: "more_recent e = first L 0" using lk e by (simp add: lnk_def)
  obtain h ce where u1: "unlink_hash c s = Inr (s\<lparr>heap := h, cache_entries := ce\<rparr>)"
    and h: "lnk h = lnk (heap s)" "dat h = dat (heap s)" "map fst h = map fst (heap s)"
    and ch: "\<And>j. chain (nxt h) (ce j) ((B(i := remove1 c (B i))) j) 0"
    using unlink_hash_ok [OF li ti e i_def] by blast
  have hk: "fst ` set h = fst ` set (heap s)" using h(3) by (metis image_set)
  obtain e1 where e1: "map_of h c = Some e1" "contents e1 = contents e"
    using h(2) e by (metis (no_types, lifting) dat_def map_option_eq_Some)
  let ?s1 = "s\<lparr>heap := h, cache_entries := ce\<rparr>"
  have "dll (lnk (heap ?s1)) 0 (c # L) 0" and "set L \<subseteq> fst ` set (heap ?s1)"
    and "least_recently_used ?s1 = c" and "most_recently_used ?s1 = final c L" and "map_of (heap ?s1) c = Some e1"
    using d h(1) keys(1) hk r e1(1) by auto
  from unlink_recent_first [OF this(1) keys(2,3) this(3,4,2,5)]
  obtain h2 where u2: "unlink_recent c (first L 0) ?s1 =
      Inr (?s1\<lparr>heap := h2, least_recently_used := first L 0, most_recently_used := final 0 L\<rparr>)"
    and h2: "nxt h2 = nxt h" "dat h2 = dat h" "map fst h2 = map fst h" "dll (lnk h2) 0 L 0" "map_of h2 c = Some e1"
    by auto
  have hk2: "fst ` set h2 = fst ` set (heap s)" using h2(3) hk by (metis image_set)
  let ?s2 = "?s1\<lparr>heap := h2, least_recently_used := first L 0, most_recently_used := final 0 L\<rparr>"
  have ok: "entry_ok s c (contents e)" using oi e by (simp add: own_inv_def dat_def)
  have b: "buffers e1 = buffers e" using e1(2) by (metis contents_simps(5))
  let ?s3 = "?s2\<lparr>current_cache_size := to_int64 (current_cache_size s - esize e)\<rparr>"
  have u3: "subtract_sizes (buffers e1) ?s2 = Inr ?s3"
    using subtract_sizes_ok [of "buffers e" ?s2] ok b by (auto simp: entry_ok_def esize_def)
  have fh: "\<forall>b \<in> set (buffers e). \<exists>h. map_of (headers ?s3) (ptr b) = Some h" "distinct (map ptr (buffers e))"
    using ok by (auto simp: entry_ok_def)
  obtain hs where u4: "free_headers (buffers e) ?s3 = Inr (?s3\<lparr>headers := hs\<rparr>)"
    and hs: "map_of hs = (map_of (headers s)) |` (- ptr ` set (buffers e))"
    using free_headers_ok [OF fh(2,1)] by auto
  let ?s4 = "?s3\<lparr>headers := hs, heap := AList.delete c h2\<rparr>"
  have ev: "evict c (more_recent e) s = Inr ?s4"
    using u1 u2 u3 u4 h2(5) b
    by (simp add: evict_def mr CacheEntry_destroy_def free_entry_ok [of "?s3\<lparr>headers := hs\<rparr>" c e1, simplified])
  have keep: "map_of hs p = Some hd" if "map_of (headers s) p = Some hd" "header_entry hd \<noteq> c" for p hd
    using ok that by (auto simp: hs entry_ok_def restrict_map_def)
  have dat: "dat (heap ?s4) = (dat (heap s))(c := None)" using h2(2) h(2) by simp
  have "list_inv ?s4 L"
    using h2(4) keys hk2 dk h2(3) h(3) by (auto simp: list_inv_def)
  moreover have "table_inv ?s4 (B(i := remove1 c (B i)))"
    unfolding table_inv_def
  proof (intro allI conjI)
    fix j
    have ci: "c \<in> set (B j) \<longleftrightarrow> j = i" using ti e by (auto simp: table_inv_def dat_def i_def)
    have "distinct (B j)" using ti by (simp add: table_inv_def)
    then show "distinct ((B(i := remove1 c (B i))) j)" using ti by (simp add: table_inv_def)
    have nc: "c \<notin> set ((B(i := remove1 c (B i))) j)"
      using ci ti by (auto simp: table_inv_def)
    then show "chain (nxt (heap ?s4)) (cache_entries ?s4 j) ((B(i := remove1 c (B i))) j) 0"
      using ch [of j] h2(1) by (simp del: fun_upd_apply)
    show "set ((B(i := remove1 c (B i))) j) =
        {a. \<exists>e. dat (heap ?s4) a = Some e \<and> hash e mod kHashTableSize = j}"
      unfolding dat using ti nc ci by (auto simp: table_inv_def split: if_splits)
  qed
  moreover have "own_inv ?s4"
    unfolding own_inv_def dat
  proof (intro allI impI)
    fix a x
    assume a: "((dat (heap s))(c := None)) a = Some x"
    then have "entry_ok s a x" "a \<noteq> c" using oi by (auto simp: own_inv_def split: if_splits)
    then show "entry_ok ?s4 a x" using keep by (auto simp: entry_ok_def)
  qed
  moreover have "pool_inv ?s4"
    using pi dat hs by (auto simp: pool_inv_def restrict_map_def)
  ultimately have "cache_inv ?s4 L (B(i := remove1 c (B i)))" by (simp add: cache_inv_def)
  with ev dat keep show ?thesis unfolding i_def by (intro exI [of _ ?s4]) simp
qed

subsection \<open>Pruning\<close>

abbreviation in_use :: "cache \<Rightarrow> nat \<Rightarrow> bool" where
  "in_use s a \<equiv> (case dat (heap s) a of Some e \<Rightarrow> 0 < in_use_count e | None \<Rightarrow> False)"

lemma prune_all_in_use:
  assumes "dll (lnk (heap s)) p vs 0" and "\<forall>a \<in> set vs. in_use s a" and "length vs \<le> fuel"
  shows "prune_loop fuel (first vs 0) s = Inr s"
  using assms
proof (induction vs arbitrary: p fuel)
  case Nil
  then show ?case by (simp add: prune_loop.simps)
next
  case (Cons a vs)
  then obtain e n where e: "map_of (heap s) a = Some e" "0 < in_use_count e" "fuel = Suc n"
    by (cases fuel) (auto simp: dat_def split: option.splits)
  moreover have "more_recent e = first vs 0" using Cons.prems(1) e(1) by (simp add: lnk_def)
  ultimately show ?case using Cons.IH [of a n] Cons.prems
    by (subst prune_loop.simps) simp
qed

lemma total_size_Cons [simp]:
  "dat (heap s) a = Some e \<Longrightarrow> total_size s (a # L) = esize e + total_size s L"
  by (simp add: total_size_def)

lemma total_size_cong:
  "(\<And>a. a \<in> set L \<Longrightarrow> dat (heap s) a = dat (heap s') a) \<Longrightarrow> total_size s L = total_size s' L"
  unfolding total_size_def by (intro arg_cong [of _ _ sum_list] map_cong) auto

definition pruned :: "cache \<Rightarrow> cache \<Rightarrow> nat list \<Rightarrow> bool" where
  "pruned s s' us \<longleftrightarrow> dat (heap s') = (dat (heap s)) |` (- set us) \<and> max_cache_size s' = max_cache_size s \<and>
     pool s' = pool s \<and>
     (\<forall>p h. map_of (headers s) p = Some h \<and> header_entry h \<notin> set us \<longrightarrow> map_of (headers s') p = Some h)"

lemma pruned_refl: "pruned s s []"
  by (simp add: pruned_def restrict_map_def)

lemma pruned_step:
  assumes "dat (heap s1) = (dat (heap s))(c := None)" and "max_cache_size s1 = max_cache_size s" and "pool s1 = pool s"
    and "\<forall>p h. map_of (headers s) p = Some h \<and> header_entry h \<noteq> c \<longrightarrow> map_of (headers s1) p = Some h"
    and "pruned s1 s' us"
  shows "pruned s s' (c # us)"
  using assms by (auto simp: pruned_def restrict_map_def fun_eq_iff)

text \<open>
  What pruning is meant to do, on the contents of the entries in the order of their use: the
  least recently used entries go first, those in use stay, and it stops at the limit.
\<close>

definition entries :: "cache \<Rightarrow> nat list \<Rightarrow> CacheEntry list" where
  "entries s L = map (\<lambda>a. the (dat (heap s) a)) L"

fun lru_prune :: "int \<Rightarrow> int \<Rightarrow> CacheEntry list \<Rightarrow> CacheEntry list" where
  "lru_prune limit n [] = []"
| "lru_prune limit n (e # es) =
     (if n \<le> limit then e # es
      else if 0 < in_use_count e then e # lru_prune limit n es
      else lru_prune limit (to_int64 (n - esize e)) es)"

lemma lru_prune_in_use: "\<forall>e \<in> set es. 0 < in_use_count e \<Longrightarrow> lru_prune limit n es = es"
  by (induction es) auto

lemma entries_simps [simp]:
  "entries s [] = []" "entries s (a # L) = the (dat (heap s) a) # entries s L"
  by (simp_all add: entries_def)

lemma entries_cong:
  "(\<And>a. a \<in> set L \<Longrightarrow> dat (heap s) a = dat (heap s') a) \<Longrightarrow> entries s L = entries s' L"
  by (simp add: entries_def)

lemma entries_in_use: "\<forall>a \<in> set L. in_use s a \<Longrightarrow> \<forall>e \<in> set (entries s L). 0 < in_use_count e"
  by (auto simp: entries_def split: option.splits)

lemma prune_prefix:
  assumes "cache_inv s (us @ vs) B" and "\<forall>a \<in> set us. \<not> in_use s a" and "\<forall>a \<in> set vs. in_use s a"
    and "size_inv s (us @ vs) k" and "length (us @ vs) \<le> fuel"
  shows "\<exists>s' us1 us2 B'. us = us1 @ us2 \<and> prune_loop fuel (first (us @ vs) 0) s = Inr s' \<and>
    cache_inv s' (us2 @ vs) B' \<and> size_inv s' (us2 @ vs) k \<and> pruned s s' us1 \<and>
    (current_cache_size s' \<le> max_cache_size s \<or> us2 = []) \<and>
    entries s' (us2 @ vs) = lru_prune (max_cache_size s) (current_cache_size s) (entries s (us @ vs))"
  using assms
proof (induction us arbitrary: s B fuel)
  case Nil
  then have "prune_loop fuel (first vs 0) s = Inr s"
    by (intro prune_all_in_use [of s 0]) (auto simp: cache_inv_def list_inv_def)
  moreover have "lru_prune (max_cache_size s) (current_cache_size s) (entries s vs) = entries s vs"
    using Nil.prems(3) by (intro lru_prune_in_use entries_in_use)
  ultimately show ?case using Nil.prems pruned_refl by auto
next
  case (Cons c us)
  show ?case
  proof (cases "current_cache_size s > max_cache_size s")
    case False
    then have "prune_loop fuel (first ((c # us) @ vs) 0) s = Inr s" by (simp add: prune_loop.simps)
    moreover have "lru_prune (max_cache_size s) (current_cache_size s) (entries s (c # us @ vs)) = entries s (c # us @ vs)"
      using False by (simp add: entries_def)
    ultimately show ?thesis using Cons.prems(1,4) False pruned_refl
      by (intro exI [of _ s] exI [of _ "[]"] exI [of _ "c # us"] exI [of _ B]) simp
  next
    case True
    have li: "list_inv s (c # us @ vs)" using Cons.prems(1) by (simp add: cache_inv_def)
    then obtain e where e: "map_of (heap s) c = Some e" using list_inv_entry by fastforce
    then have d: "dat (heap s) c = Some (contents e)" by (simp add: dat_def)
    have c0: "c \<noteq> 0" "c \<notin> set (us @ vs)" and mr: "more_recent e = first (us @ vs) 0"
      using li e by (auto simp: list_inv_def lnk_def)
    have "in_use_count e = 0" using Cons.prems(2) d by simp
    obtain n where n: "fuel = Suc n" using Cons.prems(5) by (cases fuel) auto
    obtain s1 B1 where ev: "evict c (more_recent e) s = Inr s1" and inv1: "cache_inv s1 (us @ vs) B1"
      and s1: "dat (heap s1) = (dat (heap s))(c := None)" "max_cache_size s1 = max_cache_size s" "pool s1 = pool s"
        "\<forall>p h. map_of (headers s) p = Some h \<and> header_entry h \<noteq> c \<longrightarrow> map_of (headers s1) p = Some h"
      and cs: "current_cache_size s1 = to_int64 (current_cache_size s - esize e)"
      using evict_first [of s c "us @ vs" B, OF _ e] Cons.prems(1) by auto
    have same: "\<And>a. a \<in> set (us @ vs) \<Longrightarrow> dat (heap s) a = dat (heap s1) a"
      using c0(2) s1(1) by (metis fun_upd_other)
    have "total_size s (us @ vs) = total_size s1 (us @ vs)" by (rule total_size_cong) (rule same)
    then have a1: "size_inv s1 (us @ vs) k"
      using Cons.prems(4) cs d by (simp add: size_inv_def esize_def)
    have a2: "\<forall>a \<in> set us. \<not> in_use s1 a" "\<forall>a \<in> set vs. in_use s1 a" "length (us @ vs) \<le> n"
      using Cons.prems(2,3,5) same n by auto
    from Cons.IH [OF inv1 a2(1,2) a1 a2(3)] obtain s' us1 us2 B' where r: "us = us1 @ us2"
      "prune_loop n (first (us @ vs) 0) s1 = Inr s'" "cache_inv s' (us2 @ vs) B'" "size_inv s' (us2 @ vs) k"
      "pruned s1 s' us1" "current_cache_size s' \<le> max_cache_size s1 \<or> us2 = []"
      "entries s' (us2 @ vs) = lru_prune (max_cache_size s1) (current_cache_size s1) (entries s1 (us @ vs))"
      by blast
    have "entries s (us @ vs) = entries s1 (us @ vs)" by (rule entries_cong) (rule same)
    moreover have "the (dat (heap s) c) = contents e" using d by simp
    moreover have "esize (contents e) = esize e" by (simp add: esize_def)
    ultimately have lp: "entries s' (us2 @ vs) = lru_prune (max_cache_size s) (current_cache_size s) (entries s ((c # us) @ vs))"
      using True \<open>in_use_count e = 0\<close> r(7) s1(2) cs by simp
    have "prune_loop fuel (first ((c # us) @ vs) 0) s = Inr s'"
      using True c0 n e ev mr r(2) \<open>in_use_count e = 0\<close> by (subst prune_loop.simps) simp
    moreover have "pruned s s' (c # us1)" using pruned_step [OF s1 r(5)] .
    ultimately show ?thesis using r(1-6) lp s1(2)
      by (intro exI [of _ s'] exI [of _ "c # us1"] exI [of _ us2] exI [of _ B']) simp
  qed
qed

subsection \<open>Moving an entry to the front\<close>

lemma upd_more:
  assumes "lnk (heap s) a = Some (l, m)"
  shows "\<exists>h. upd_entry a (\<lambda>e. e\<lparr>more_recent := x\<rparr>) s = Inr (s\<lparr>heap := h\<rparr>) \<and>
    lnk h = (lnk (heap s))(a \<mapsto> (l, x)) \<and> nxt h = nxt (heap s) \<and> dat h = dat (heap s) \<and> map fst h = map fst (heap s)"
proof -
  obtain e where e: "map_of (heap s) a = Some e" "less_recent e = l" using assms by (auto simp: lnk_def)
  then show ?thesis
    using views_same [OF e(1)] map_of_in_keys [OF e(1)] upd_entry_Inr [OF e(1)]
    by (intro exI [of _ "AList.update a (e\<lparr>more_recent := x\<rparr>) (heap s)"]) simp
qed

lemma upd_less:
  assumes "lnk (heap s) a = Some (l, m)"
  shows "\<exists>h. upd_entry a (\<lambda>e. e\<lparr>less_recent := x\<rparr>) s = Inr (s\<lparr>heap := h\<rparr>) \<and>
    lnk h = (lnk (heap s))(a \<mapsto> (x, m)) \<and> nxt h = nxt (heap s) \<and> dat h = dat (heap s) \<and> map fst h = map fst (heap s)"
proof -
  obtain e where e: "map_of (heap s) a = Some e" "more_recent e = m" using assms by (auto simp: lnk_def)
  then show ?thesis
    using views_same [OF e(1)] map_of_in_keys [OF e(1)] upd_entry_Inr [OF e(1)]
    by (intro exI [of _ "AList.update a (e\<lparr>less_recent := x\<rparr>) (heap s)"]) simp
qed

lemma upd_links:
  assumes "lnk (heap s) a = Some (l, m)"
  shows "\<exists>h. upd_entry a (\<lambda>e. e\<lparr>more_recent := x, less_recent := y\<rparr>) s = Inr (s\<lparr>heap := h\<rparr>) \<and>
    lnk h = (lnk (heap s))(a \<mapsto> (y, x)) \<and> nxt h = nxt (heap s) \<and> dat h = dat (heap s) \<and> map fst h = map fst (heap s)"
proof -
  obtain e where e: "map_of (heap s) a = Some e" using assms by (auto simp: lnk_def)
  then show ?thesis
    using views_same [OF e(1)] map_of_in_keys [OF e(1)] upd_entry_Inr [OF e(1)]
    by (intro exI [of _ "AList.update a (e\<lparr>more_recent := x, less_recent := y\<rparr>) (heap s)"]) simp
qed

lemma get_entry_lnk:
  "lnk (heap s) a = Some (l, m) \<Longrightarrow> \<exists>e. get_entry a s = Inr e \<and> less_recent e = l \<and> more_recent e = m"
  by (auto simp: lnk_def)

lemma detach_less:
  assumes "dll (lnk (heap s)) 0 xs a" and "distinct xs" and "0 \<notin> set xs" and "least_recently_used s = first xs a"
  shows "\<exists>h. (if final 0 xs \<noteq> 0 then upd_entry (final 0 xs) (\<lambda>l. l\<lparr>more_recent := y\<rparr>) s
       else rbind (internal_assert (least_recently_used s = a) msg) (\<lambda>_. Inr (s\<lparr>least_recently_used := y\<rparr>))) =
      Inr (s\<lparr>heap := h, least_recently_used := first xs y\<rparr>) \<and>
    dll (lnk h) 0 xs y \<and> (\<forall>b. b \<notin> set xs \<longrightarrow> lnk h b = lnk (heap s) b) \<and>
    nxt h = nxt (heap s) \<and> dat h = dat (heap s) \<and> map fst h = map fst (heap s)"
proof (cases xs rule: rev_cases)
  case Nil
  then show ?thesis using assms(4) by (intro exI [of _ "heap s"]) simp
next
  case (snoc zs x)
  then have l: "lnk (heap s) x = Some (final 0 zs, a)" and x: "x \<noteq> 0" "x \<notin> set zs" using assms by auto
  obtain h where h: "upd_entry x (\<lambda>e. e\<lparr>more_recent := y\<rparr>) s = Inr (s\<lparr>heap := h\<rparr>)"
    "lnk h = (lnk (heap s))(x \<mapsto> (final 0 zs, y))" "nxt h = nxt (heap s)" "dat h = dat (heap s)"
    "map fst h = map fst (heap s)"
    using upd_more [OF l] by blast
  have "s\<lparr>heap := h, least_recently_used := first xs y\<rparr> = s\<lparr>heap := h\<rparr>"
    using assms(4) snoc by (cases zs) simp_all
  then show ?thesis using h x assms(1) snoc by (intro exI [of _ h]) auto
qed

lemma make_most_recent_ok:
  assumes li: "list_inv s (xs @ a # ys)"
  shows "\<exists>h l. make_most_recent a s = Inr (s\<lparr>heap := h, least_recently_used := l, most_recently_used := a\<rparr>) \<and>
    list_inv (s\<lparr>heap := h, least_recently_used := l, most_recently_used := a\<rparr>) (xs @ ys @ [a]) \<and>
    nxt h = nxt (heap s) \<and> dat h = dat (heap s)"
proof (cases ys rule: rev_cases)
  case Nil
  then have "a = most_recently_used s" using li by (simp add: list_inv_def)
  then show ?thesis
    using li Nil by (intro exI [of _ "heap s"] exI [of _ "least_recently_used s"]) (simp add: make_most_recent_def)
next
  case (snoc ws m)
  define y where "y = first ys 0"
  obtain ys' where ys: "ys = y # ys'" unfolding y_def using snoc by (cases ws) auto
  have d: "distinct (xs @ a # ys)" and z: "0 \<notin> set (xs @ a # ys)"
    and k: "set (xs @ a # ys) = fst ` set (heap s)" "distinct (map fst (heap s))"
    and lru: "least_recently_used s = first xs a"
    and l: "dll (lnk (heap s)) 0 xs a" "lnk (heap s) a = Some (final 0 xs, y)" "dll (lnk (heap s)) a ys 0"
    using li unfolding list_inv_def by (auto simp: ys)
  have mru: "most_recently_used s = m" using li snoc by (simp add: list_inv_def)
  have m0: "a \<noteq> m" "m \<noteq> 0" "m \<notin> set xs" "m \<notin> set ws" "a \<notin> set ws" using d z by (auto simp: snoc)
  have y0: "y \<noteq> 0" "y \<notin> set xs" "y \<noteq> a" using d z by (auto simp: ys)
  obtain e where e: "get_entry a s = Inr e" "less_recent e = final 0 xs" "more_recent e = y"
    using get_entry_lnk [OF l(2)] by blast
  have dx: "distinct xs" and zx: "0 \<notin> set xs" using d z by auto
  obtain h1 where s1: "(if final 0 xs \<noteq> 0 then upd_entry (final 0 xs) (\<lambda>l. l\<lparr>more_recent := y\<rparr>) s
       else rbind (internal_assert (least_recently_used s = a) ''least_recently_used == entry'')
         (\<lambda>_. Inr (s\<lparr>least_recently_used := y\<rparr>))) = Inr (s\<lparr>heap := h1, least_recently_used := first xs y\<rparr>)"
    and h1: "dll (lnk h1) 0 xs y" "\<And>b. b \<notin> set xs \<Longrightarrow> lnk h1 b = lnk (heap s) b"
      "nxt h1 = nxt (heap s)" "dat h1 = dat (heap s)" "map fst h1 = map fst (heap s)"
    using detach_less [OF l(1) dx zx lru, of y "''least_recently_used == entry''"] by blast
  let ?s1 = "s\<lparr>heap := h1, least_recently_used := first xs y\<rparr>"
  have la: "lnk (heap ?s1) a = Some (final 0 xs, y)" using h1(2) [of a] l(2) d by simp
  obtain e1 where e1: "get_entry a ?s1 = Inr e1" "less_recent e1 = final 0 xs" "more_recent e1 = y"
    using get_entry_lnk [OF la] by blast
  have "lnk (heap ?s1) y = Some (a, first ys' 0)" using h1(2) [of y] l(3) ys y0 by simp
  then obtain h2 where s2: "upd_entry y (\<lambda>e. e\<lparr>less_recent := final 0 xs\<rparr>) ?s1 = Inr (?s1\<lparr>heap := h2\<rparr>)"
    and h2: "lnk h2 = (lnk h1)(y \<mapsto> (final 0 xs, first ys' 0))" "nxt h2 = nxt h1" "dat h2 = dat h1"
      "map fst h2 = map fst h1"
    using upd_less by fastforce
  have "dll (lnk h1) a ys 0 \<longleftrightarrow> dll (lnk (heap s)) a ys 0"
    using h1(2) d by (induction ys arbitrary: a) auto
  then have "dll (lnk h1) a ys 0" using l(3) by simp
  then have ly: "dll (lnk h2) (final 0 xs) ys 0" using h2(1) d ys by auto
  have lm: "lnk h2 m = Some (final (final 0 xs) ws, 0)" "dll (lnk h2) (final 0 xs) ws m" using ly snoc by auto
  have la2: "lnk (heap (?s1\<lparr>heap := h2\<rparr>)) a = Some (final 0 xs, y)" using h2(1) la y0 by simp
  obtain h3 where s3: "upd_entry a (\<lambda>e. e\<lparr>more_recent := 0, less_recent := m\<rparr>) (?s1\<lparr>heap := h2\<rparr>) = Inr (?s1\<lparr>heap := h3\<rparr>)"
    and h3: "lnk h3 = (lnk h2)(a \<mapsto> (m, 0))" "nxt h3 = nxt h2" "dat h3 = dat h2" "map fst h3 = map fst h2"
    using upd_links [OF la2, where x = 0 and y = m] by auto
  have lm3: "lnk (heap (?s1\<lparr>heap := h3\<rparr>)) m = Some (final (final 0 xs) ws, 0)" using lm h3(1) m0 by simp
  obtain h4 where s4: "upd_entry m (\<lambda>e. e\<lparr>more_recent := a\<rparr>) (?s1\<lparr>heap := h3\<rparr>) = Inr (?s1\<lparr>heap := h4\<rparr>)"
    and h4: "lnk h4 = (lnk h3)(m \<mapsto> (final (final 0 xs) ws, a))" "nxt h4 = nxt h3" "dat h4 = dat h3"
      "map fst h4 = map fst h3"
    using upd_more [OF lm3, where x = a] by auto
  let ?s4 = "s\<lparr>heap := h4, least_recently_used := first xs y, most_recently_used := a\<rparr>"
  have run: "make_most_recent a s = Inr ?s4"
    unfolding make_most_recent_def using e e1 y0 m0 mru s1 s2 s3 s4
    by (simp del: rbind_eq_Inr cong: if_cong split del: if_split)
  have "dll (lnk h4) 0 xs y" using h4 h3 h2 h1(1) d m0 y0 by simp
  moreover have "dll (lnk h4) (final 0 xs) ws m" using h4 h3 lm(2) m0 by simp
  moreover have "lnk h4 m = Some (final (final 0 xs) ws, a)" "lnk h4 a = Some (m, 0)"
    using h4 h3 m0 by auto
  ultimately have "dll (lnk h4) 0 (xs @ ys @ [a]) 0" using ys snoc by (metis append_assoc dll.simps dll_append final_append final_simps(2) first_append first_simps)
  moreover have kk: "map fst h4 = map fst (heap s)" using h4(4) h3(4) h2(4) h1(5) by simp
  then have "fst ` set h4 = fst ` set (heap s)" by (metis image_set)
  then have "set (xs @ ys @ [a]) = fst ` set h4" using k(1) by auto
  ultimately have "list_inv ?s4 (xs @ ys @ [a])"
    using d z k(2) unfolding list_inv_def by (auto simp: ys kk)
  then show ?thesis using run h4 h3 h2 h1 by (intro exI [of _ h4] exI [of _ "first xs y"]) simp
qed

subsection \<open>Counting uses, and the blocks of the clients\<close>

lemma cache_inv_views:
  assumes "cache_inv s L B" and "list_inv s' L'" and "nxt (heap s') = nxt (heap s)" and "dat (heap s') = dat (heap s)"
    and "cache_entries s' = cache_entries s" and "headers s' = headers s" and "pool s' = pool s"
  shows "cache_inv s' L' B"
  using assms by (simp add: cache_inv_def table_inv_def own_inv_def pool_inv_def entry_ok_def)

lemma own_inv_D: "cache_inv s L B \<Longrightarrow> dat (heap s) a = Some e \<Longrightarrow> entry_ok s a e"
  by (simp add: cache_inv_def own_inv_def)

lemma entry_ok_block:
  "entry_ok s a e \<Longrightarrow> b \<in> set (buffers e) \<Longrightarrow> \<exists>h. map_of (headers s) (ptr b) = Some h \<and> header_entry h = a"
  by (simp add: entry_ok_def)

lemma contents_in_use: "contents (e\<lparr>in_use_count := n\<rparr>) = (contents e)\<lparr>in_use_count := n\<rparr>"
  by (cases e) (simp add: contents_def)

lemma dat_in_use:
  assumes "map_of (heap s) a = Some e"
  shows "dat (heap (put_entry a (e\<lparr>in_use_count := n\<rparr>) s)) = (dat (heap s))(a \<mapsto> (contents e)\<lparr>in_use_count := n\<rparr>)"
  by (simp add: put_entry_def contents_in_use)

lemma cache_inv_in_use:
  assumes "cache_inv s L B" and e: "map_of (heap s) a = Some e"
  shows "cache_inv (put_entry a (e\<lparr>in_use_count := n\<rparr>) s) L B"
proof -
  let ?s = "put_entry a (e\<lparr>in_use_count := n\<rparr>) s"
  have v: "lnk (heap ?s) = lnk (heap s)" "nxt (heap ?s) = nxt (heap s)" "map fst (heap ?s) = map fst (heap s)"
    using views_same [OF e] map_of_in_keys [OF e] by (simp_all add: put_entry_def)
  have d: "dat (heap s) a = Some (contents e)" using e by (simp add: dat_def)
  have "fst ` set (heap ?s) = fst ` set (heap s)" using v(3) by (metis image_set)
  moreover have "least_recently_used ?s = least_recently_used s" "most_recently_used ?s = most_recently_used s"
    by (simp_all add: put_entry_def)
  ultimately have "list_inv ?s L" using assms(1) v unfolding cache_inv_def list_inv_def by metis
  moreover have "table_inv ?s B"
    using assms(1) v d unfolding table_inv_def cache_inv_def dat_in_use [OF e]
    by (auto simp: put_entry_def split: if_splits)
  moreover have "own_inv ?s"
    using own_inv_D [OF assms(1)] own_inv_D [OF assms(1) d] unfolding own_inv_def dat_in_use [OF e]
    by (simp add: put_entry_def entry_ok_def)
  moreover have "pool_inv ?s"
    using assms(1) d unfolding pool_inv_def cache_inv_def dat_in_use [OF e]
    by (auto simp: put_entry_def split: if_splits)
  ultimately show ?thesis by (simp add: cache_inv_def)
qed

text \<open>A block that a failed lookup has handed to its caller: it belongs to no entry.\<close>

definition client_block :: "cache \<Rightarrow> nat \<Rightarrow> buffer_t \<Rightarrow> bool" where
  "client_block s h b \<longleftrightarrow> map_of (headers s) (ptr b) = Some \<lparr>header_entry = 0, header_hash = h\<rparr>"

lemma owner_not_client:
  assumes "cache_inv s L B" and "dat (heap s) a = Some e" and "b \<in> set (buffers e)" and "client_block s h c"
  shows "ptr b \<noteq> ptr c"
proof -
  have "a \<in> set L" and "0 \<notin> set L"
    using assms(1,2) by (auto simp: cache_inv_def list_inv_def in_heap dat_def)
  then have "a \<noteq> 0" by metis
  moreover have "\<exists>h. map_of (headers s) (ptr b) = Some h \<and> header_entry h = a"
    using assms(1-3) by (auto simp: cache_inv_def own_inv_def entry_ok_def)
  ultimately show ?thesis using assms(4) by (auto simp: client_block_def)
qed

lemma cache_inv_headers:
  assumes "cache_inv s L B"
    and keep: "\<And>a e b. dat (heap s) a = Some e \<Longrightarrow> b \<in> set (buffers e) \<Longrightarrow> map_of hs (ptr b) = map_of (headers s) (ptr b)"
    and pool: "set ps \<subseteq> set (pool s)" "distinct (filter (\<lambda>p. p \<noteq> 0) ps)"
      "\<And>p. p \<in> set ps \<Longrightarrow> p \<noteq> 0 \<Longrightarrow> map_of hs p = None"
  shows "cache_inv (s\<lparr>headers := hs, pool := ps\<rparr>) L B"
proof -
  have "own_inv (s\<lparr>headers := hs, pool := ps\<rparr>)"
    using assms(1) keep by (auto simp: cache_inv_def own_inv_def entry_ok_def)
  then show ?thesis
    using assms(1) pool by (auto simp: cache_inv_def list_inv_def table_inv_def pool_inv_def)
qed

lemma set_header_entries_ok:
  "distinct (map ptr bs) \<Longrightarrow> \<forall>b \<in> set bs. \<exists>h. map_of (headers s) (ptr b) = Some h \<Longrightarrow>
   \<exists>hs. set_header_entries a bs s = Inr (s\<lparr>headers := hs\<rparr>) \<and>
     (\<forall>q. map_of hs q = (if q \<in> ptr ` set bs then map_option (\<lambda>h. h\<lparr>header_entry := a\<rparr>) (map_of (headers s) q)
        else map_of (headers s) q))"
proof (induction bs arbitrary: s)
  case Nil
  then show ?case by (intro exI [of _ "headers s"]) simp
next
  case (Cons b bs)
  then obtain h where h: "map_of (headers s) (ptr b) = Some h" by auto
  let ?s = "s\<lparr>headers := AList.update (ptr b) (h\<lparr>header_entry := a\<rparr>) (headers s)\<rparr>"
  have "\<forall>x \<in> set bs. \<exists>h. map_of (headers ?s) (ptr x) = Some h"
    using Cons.prems(2) by (auto simp: AList.update_conv')
  from Cons.IH [OF _ this] Cons.prems(1) obtain hs where
    r: "set_header_entries a bs ?s = Inr (?s\<lparr>headers := hs\<rparr>)"
    "\<forall>q. map_of hs q = (if q \<in> ptr ` set bs then map_option (\<lambda>h. h\<lparr>header_entry := a\<rparr>) (map_of (headers ?s) q)
        else map_of (headers ?s) q)"
    by auto
  have "ptr b \<notin> ptr ` set bs" using Cons.prems(1) by (metis distinct.simps(2) set_map list.map(2))
  then show ?case using r h
    by (intro exI [of _ hs]) (auto simp: AList.update_conv' get_header_def)
qed

subsection \<open>Looking up\<close>

lemma ptr_block [simp]: "get_pointer_to_header (p + extra_bytes_host_bytes) = p"
  by (simp add: get_pointer_to_header_def)

definition same_shape :: "buffer_t \<Rightarrow> buffer_t \<Rightarrow> bool" where
  "same_shape x y \<longleftrightarrow> (\<exists>p. y = x\<lparr>buf_host := p\<rparr>)"

lemma halide_malloc_cases:
  obtains "halide_malloc s = (0, s\<lparr>pool := tl (pool s)\<rparr>)"
  | p ps where "p \<noteq> 0" "pool s = p # ps" "halide_malloc s = (p, s\<lparr>pool := ps\<rparr>)"
  by (cases "pool s") (auto simp: halide_malloc_def)

lemma cache_inv_tl_pool: "cache_inv s L B \<Longrightarrow> cache_inv (s\<lparr>pool := tl (pool s)\<rparr>) L B"
  using cache_inv_headers [of s L B "headers s" "tl (pool s)"]
  by (cases "pool s") (auto simp: cache_inv_def pool_inv_def split: if_splits)

text \<open>The next \<open>n\<close> allocations succeed.\<close>

definition enough_memory :: "nat \<Rightarrow> cache \<Rightarrow> bool" where
  "enough_memory n s \<longleftrightarrow> n \<le> length (pool s) \<and> 0 \<notin> set (take n (pool s))"

lemma enough_memory_simps [simp]: "enough_memory 0 s"
  "enough_memory (Suc n) s \<longleftrightarrow> (\<exists>p ps. pool s = p # ps \<and> p \<noteq> 0 \<and> enough_memory n (s\<lparr>pool := ps\<rparr>))"
  by (cases "pool s"; auto simp: enough_memory_def)+

lemma enough_memory_headers [simp]: "enough_memory n (s\<lparr>headers := hs, pool := ps\<rparr>) = enough_memory n (s\<lparr>pool := ps\<rparr>)"
  by (simp add: enough_memory_def)

lemma malloc_fails: "halide_malloc s = (0, t) \<Longrightarrow> \<not> enough_memory (Suc n) s"
  by (auto simp: halide_malloc_def split: list.splits)

lemma alloc_tuples_ok:
  assumes "cache_inv s L B" and "\<forall>b \<in> set bs. \<exists>n. buf_size b = Inr n"
    and "\<forall>b \<in> set done. client_block s h b" and "distinct (map ptr done)"
  shows "\<exists>ret bufs s'. alloc_tuples h done bs s = Inr (ret, bufs, s') \<and> cache_inv s' L B \<and> heap s' = heap s \<and>
    current_cache_size s' = current_cache_size s \<and> max_cache_size s' = max_cache_size s \<and>
    (ret = - 1 \<and> \<not> enough_memory (length bs) s \<or> ret = 1 \<and> (\<exists>cs. bufs = rev done @ cs \<and> list_all2 same_shape bs cs \<and>
       (\<forall>b \<in> set bufs. client_block s' h b) \<and> distinct (map ptr bufs)))"
  using assms
proof (induction bs arbitrary: s "done")
  case Nil
  then show ?case by (auto simp: rev_map [symmetric])
next
  case (Cons b bs)
  obtain n where n: "buf_size b = Inr n" using Cons.prems(2) by auto
  show ?case
  proof (rule halide_malloc_cases [of s])
    assume m: "halide_malloc s = (0, s\<lparr>pool := tl (pool s)\<rparr>)"
    let ?s = "s\<lparr>pool := tl (pool s)\<rparr>"
    have inv: "cache_inv ?s L B" using cache_inv_tl_pool Cons.prems(1) .
    obtain hs where hs: "free_headers done ?s = Inr (?s\<lparr>headers := hs\<rparr>)"
      "map_of hs = (map_of (headers s)) |` (- ptr ` set done)"
      using free_headers_ok [of "done" ?s] Cons.prems(3,4) by (auto simp: client_block_def)
    have "map_of hs (ptr x) = map_of (headers s) (ptr x)" if "dat (heap s) a = Some e" "x \<in> set (buffers e)" for a e x
      using owner_not_client [OF Cons.prems(1) that] Cons.prems(3) unfolding hs(2) by (auto simp: restrict_map_def)
    then have "cache_inv (?s\<lparr>headers := hs, pool := pool ?s\<rparr>) L B"
      using inv hs(2) by (intro cache_inv_headers) (auto simp: cache_inv_def pool_inv_def restrict_map_def)
    moreover have "?s\<lparr>headers := hs, pool := pool ?s\<rparr> = ?s\<lparr>headers := hs\<rparr>" by simp
    ultimately have "cache_inv (?s\<lparr>headers := hs\<rparr>) L B" by metis
    then show ?thesis using n m hs(1) malloc_fails [OF m] by simp
  next
    fix p ps
    assume p: "p \<noteq> 0" "pool s = p # ps" "halide_malloc s = (p, s\<lparr>pool := ps\<rparr>)"
    let ?b = "b\<lparr>buf_host := p + extra_bytes_host_bytes\<rparr>"
    let ?hs = "AList.update p \<lparr>header_entry = 0, header_hash = h\<rparr> (headers s)"
    let ?s = "s\<lparr>headers := ?hs, pool := ps\<rparr>"
    have fresh: "map_of (headers s) p = None" "p \<notin> set ps" "distinct (filter (\<lambda>p. p \<noteq> 0) ps)"
      using Cons.prems(1) p by (auto simp: cache_inv_def pool_inv_def)
    have "ptr x \<noteq> p" if "dat (heap s) a = Some e" "x \<in> set (buffers e)" for a e x
      using entry_ok_block [OF own_inv_D [OF Cons.prems(1) that(1)] that(2)] fresh(1) by auto
    then have inv: "cache_inv ?s L B"
      using Cons.prems(1) p fresh
      by (intro cache_inv_headers) (auto simp: AList.update_conv' cache_inv_def pool_inv_def)
    have dp: "\<forall>x \<in> set done. ptr x \<noteq> p" using Cons.prems(3) fresh(1) by (auto simp: client_block_def)
    have "\<forall>x \<in> set (?b # done). client_block ?s h x" "distinct (map ptr (?b # done))"
      using Cons.prems(3,4) dp by (auto simp: client_block_def AList.update_conv')
    from Cons.IH [OF inv _ this] Cons.prems(2) obtain ret bufs s' where
      r: "alloc_tuples h (?b # done) bs ?s = Inr (ret, bufs, s')" "cache_inv s' L B" "heap s' = heap ?s"
        "current_cache_size s' = current_cache_size ?s" "max_cache_size s' = max_cache_size ?s"
        "ret = - 1 \<and> \<not> enough_memory (length bs) ?s \<or> ret = 1 \<and> (\<exists>cs. bufs = rev (?b # done) @ cs \<and> list_all2 same_shape bs cs \<and>
       (\<forall>b \<in> set bufs. client_block s' h b) \<and> distinct (map ptr bufs))"
      by auto
    have eq: "s\<lparr>pool := ps, headers := ?hs\<rparr> = ?s" by (cases s) simp
    have "alloc_tuples h done (b # bs) s = Inr (ret, bufs, s')" using n p r(1) [folded eq] by simp
    moreover have "same_shape b ?b" by (auto simp: same_shape_def)
    moreover have "enough_memory (length (b # bs)) s = enough_memory (length bs) ?s" using p(1,2) by simp
    ultimately show ?thesis using r
      by (intro exI [of _ ret] exI [of _ bufs] exI [of _ s']) fastforce
  qed
qed

end
