(* ===== verification/MemoCacheRefine.thy ===== *)
theory MemoCacheRefine
  imports MemoCacheInv
begin

text \<open>
  The operations of the memoization cache against an abstract one: the list of the contents
  of the entries, from the least to the most recently used. A lookup moves the entry it finds
  to the end, a store prunes from the front and appends, and neither reads freed memory nor
  fails an assertion. The sessions of a client are an inductive set of reachable states, and
  the interface a memoizing client relies on is the locale \<open>memo_table\<close>.
\<close>

subsection \<open>Lookup\<close>

abbreviation matches :: "nat list \<Rightarrow> buffer_t \<Rightarrow> buffer_t list \<Rightarrow> CacheEntry \<Rightarrow> bool" where
  "matches k bounds bufs e \<equiv> entry_matches (djb_hash k) k bounds bufs e"

lemma entry_matches_contents [simp]: "entry_matches h k bd bufs (contents e) \<longleftrightarrow> entry_matches h k bd bufs e"
  by (simp add: entry_matches_def)

lemma cache_inv_dat:
  assumes "cache_inv s L B" and "dat (heap s) a = Some e"
  shows "a \<in> set L" and "a \<noteq> 0" and "a \<in> set (B i) \<longleftrightarrow> hash e mod kHashTableSize = i"
proof -
  show l: "a \<in> set L" using assms by (auto simp: cache_inv_def list_inv_def in_heap dat_def)
  have "0 \<notin> set L" using assms(1) unfolding cache_inv_def list_inv_def by blast
  then show "a \<noteq> 0" using l by metis
  show "a \<in> set (B i) \<longleftrightarrow> hash e mod kHashTableSize = i"
    using assms by (auto simp: cache_inv_def table_inv_def)
qed

text \<open>The search of a slot finds a matching entry whenever the cache has one.\<close>

lemma find_entry_ok:
  assumes inv: "cache_inv s L B" and i: "i = h mod kHashTableSize"
  obtains "find_entry (length (heap s)) (entry_matches h k bd bufs) (cache_entries s i) s = Inr 0"
      "\<forall>a e. dat (heap s) a = Some e \<longrightarrow> \<not> entry_matches h k bd bufs e"
  | a e where "find_entry (length (heap s)) (entry_matches h k bd bufs) (cache_entries s i) s = Inr a" "a \<noteq> 0"
      "map_of (heap s) a = Some e" "entry_matches h k bd bufs e"
proof -
  have ch: "chain (nxt (heap s)) (cache_entries s i) (B i) 0" and len: "length (B i) \<le> length (heap s)"
    using inv table_inv_length [of s L B i] by (auto simp: cache_inv_def table_inv_def)
  note f = find_entry_chain [OF ch len, of "entry_matches h k bd bufs"]
  show ?thesis
  proof (cases "List.find (\<lambda>a. entry_matches h k bd bufs (the (map_of (heap s) a))) (B i)")
    case None
    have "\<not> entry_matches h k bd bufs e" if d: "dat (heap s) a = Some e" for a e
    proof
      assume m: "entry_matches h k bd bufs e"
      then have "a \<in> set (B i)" using cache_inv_dat(3) [OF inv d, of i] i by (simp add: entry_matches_def)
      then have "\<not> entry_matches h k bd bufs (the (map_of (heap s) a))"
        using None by (auto simp: find_None_iff)
      then show False using d m by (auto simp: dat_def)
    qed
    then show ?thesis using that(1) f None by simp
  next
    case (Some a)
    then have "a \<in> set (B i)" and m: "entry_matches h k bd bufs (the (map_of (heap s) a))"
      by (auto simp: find_Some_iff)
    then obtain e where e: "map_of (heap s) a = Some e" using inv by (auto simp: cache_inv_def table_inv_def dat_def)
    then have "a \<noteq> 0" using cache_inv_dat(2) [OF inv, of a "contents e"] by (simp add: dat_def)
    then show ?thesis using that(2) [of a e] f Some e m by simp
  qed
qed

lemma lookup_hit:
  assumes inv: "cache_inv s L B" and e: "map_of (heap s) a = Some e"
  shows "\<exists>s1 s2 e1 xs ys. make_most_recent a s = Inr s1 \<and> get_entry a s1 = Inr e1 \<and> contents e1 = contents e \<and>
    s2 = put_entry a (e1\<lparr>in_use_count := n\<rparr>) s1 \<and> L = xs @ a # ys \<and> cache_inv s2 (xs @ ys @ [a]) B \<and>
    dat (heap s2) = (dat (heap s))(a \<mapsto> (contents e)\<lparr>in_use_count := n\<rparr>) \<and> headers s2 = headers s \<and>
    current_cache_size s2 = current_cache_size s \<and> max_cache_size s2 = max_cache_size s \<and> pool s2 = pool s"
proof -
  have "a \<in> set L" using cache_inv_dat(1) [OF inv, of a "contents e"] e by (simp add: dat_def)
  then obtain xs ys where L: "L = xs @ a # ys" by (auto simp: in_set_conv_decomp)
  have "list_inv s (xs @ a # ys)" using inv L by (simp add: cache_inv_def)
  then obtain h l where mk: "make_most_recent a s = Inr (s\<lparr>heap := h, least_recently_used := l, most_recently_used := a\<rparr>)"
    and li: "list_inv (s\<lparr>heap := h, least_recently_used := l, most_recently_used := a\<rparr>) (xs @ ys @ [a])"
    and h: "nxt h = nxt (heap s)" "dat h = dat (heap s)"
    using make_most_recent_ok by blast
  let ?s = "s\<lparr>heap := h, least_recently_used := l, most_recently_used := a\<rparr>"
  have i1: "cache_inv ?s (xs @ ys @ [a]) B" by (rule cache_inv_views [OF inv li]) (simp_all add: h)
  have "dat h a = Some (contents e)" using e h(2) by (simp add: dat_def)
  then obtain e1 where e1: "map_of (heap ?s) a = Some e1" "contents e1 = contents e" by (auto simp: dat_def)
  let ?t = "put_entry a (e1\<lparr>in_use_count := n\<rparr>) ?s"
  have "dat (heap ?t) = (dat (heap s))(a \<mapsto> (contents e)\<lparr>in_use_count := n\<rparr>)"
    unfolding dat_in_use [OF e1(1)] by (simp add: e1(2) h(2))
  moreover have "cache_inv ?t (xs @ ys @ [a]) B" by (rule cache_inv_in_use [OF i1 e1(1)])
  ultimately show ?thesis using mk L e1 get_entry_Some [OF e1(1)]
    by (intro exI [of _ ?s] exI [of _ ?t] exI [of _ e1] exI [of _ xs] exI [of _ ys]) (simp add: put_entry_def)
qed

lemma lookup_ok:
  assumes inv: "cache_inv s L B" and sz: "\<forall>b \<in> set bufs. \<exists>n. buf_size b = Inr n"
  obtains (hit) a e xs ys s' where "dat (heap s) a = Some e" "matches k bd bufs e" "L = xs @ a # ys"
      "halide_memoization_cache_lookup k bd bufs s = Inr (0, buffers e, s')" "cache_inv s' (xs @ ys @ [a]) B"
      "dat (heap s') = (dat (heap s))(a \<mapsto> e\<lparr>in_use_count := (in_use_count e + length bufs) mod 2 ^ 32\<rparr>)"
      "headers s' = headers s" "current_cache_size s' = current_cache_size s" "max_cache_size s' = max_cache_size s"
  | (miss) ret bufs' s' where "\<forall>a e. dat (heap s) a = Some e \<longrightarrow> \<not> matches k bd bufs e"
      "halide_memoization_cache_lookup k bd bufs s = Inr (ret, bufs', s')" "cache_inv s' L B"
      "heap s' = heap s" "current_cache_size s' = current_cache_size s" "max_cache_size s' = max_cache_size s"
      "ret = - 1 \<and> \<not> enough_memory (length bufs) s \<or> ret = 1 \<and> list_all2 same_shape bufs bufs' \<and> (\<forall>b \<in> set bufs'. client_block s' (djb_hash k) b) \<and>
         distinct (map ptr bufs')"
proof (rule find_entry_ok [OF inv refl, of "djb_hash k" k bd bufs])
  assume f: "find_entry (length (heap s)) (matches k bd bufs) (cache_entries s (djb_hash k mod kHashTableSize)) s = Inr 0"
    and no: "\<forall>a e. dat (heap s) a = Some e \<longrightarrow> \<not> matches k bd bufs e"
  have eq: "halide_memoization_cache_lookup k bd bufs s = alloc_tuples (djb_hash k) [] bufs s"
    using f by (simp add: halide_memoization_cache_lookup_def)
  show thesis using alloc_tuples_ok [OF inv sz, of "[]" "djb_hash k"] miss [OF no] unfolding eq by auto
next
  fix a e
  assume f: "find_entry (length (heap s)) (matches k bd bufs) (cache_entries s (djb_hash k mod kHashTableSize)) s = Inr a"
    and a: "a \<noteq> 0" "map_of (heap s) a = Some e" "matches k bd bufs e"
  obtain s1 s2 e1 xs ys where r: "make_most_recent a s = Inr s1" "get_entry a s1 = Inr e1" "contents e1 = contents e"
      "s2 = put_entry a (e1\<lparr>in_use_count := (in_use_count e + length bufs) mod 2 ^ 32\<rparr>) s1"
      "L = xs @ a # ys" "cache_inv s2 (xs @ ys @ [a]) B"
      "dat (heap s2) = (dat (heap s))(a \<mapsto> (contents e)\<lparr>in_use_count := (in_use_count e + length bufs) mod 2 ^ 32\<rparr>)"
      "headers s2 = headers s" "current_cache_size s2 = current_cache_size s" "max_cache_size s2 = max_cache_size s"
    using lookup_hit [OF inv a(2), of "(in_use_count e + length bufs) mod 2 ^ 32"] by metis
  have "buffers e1 = buffers e" "in_use_count e1 = in_use_count e" using r(3) contents_simps(5,6) by metis+
  then have "halide_memoization_cache_lookup k bd bufs s = Inr (0, buffers (contents e), s2)"
    using f a r(1,2,4) by (simp add: halide_memoization_cache_lookup_def)
  then show thesis using hit [of a "contents e" xs ys s2] a r by (simp add: dat_def)
qed

subsection \<open>Linking a new entry\<close>

lemma keys_update_new: "a \<notin> fst ` set h \<Longrightarrow> map fst (AList.update a e h) = map fst h @ [a]"
  by (simp add: AList.update_keys)

lemma link_entry_ok:
  assumes li: "list_inv s L" and p: "p \<noteq> 0" "p \<notin> set L" and e: "more_recent e = 0"
  shows "\<exists>h. link_entry p i e s = Inr (s\<lparr>heap := h, most_recently_used := p,
      least_recently_used := first L p, cache_entries := (cache_entries s)(i := p)\<rparr>) \<and>
    list_inv (s\<lparr>heap := h, most_recently_used := p, least_recently_used := first L p,
      cache_entries := (cache_entries s)(i := p)\<rparr>) (L @ [p]) \<and>
    nxt h = (nxt (heap s))(p \<mapsto> cache_entries s i) \<and>
    dat h = (dat (heap s))(p \<mapsto> (contents e)\<lparr>in_use_count := tuple_count e\<rparr>)"
proof -
  define e1 where "e1 = e\<lparr>next_entry := cache_entries s i, less_recent := most_recently_used s\<rparr>"
  define h1 where "h1 = AList.update p e1 (heap s)"
  have L: "distinct (map fst (heap s))" "distinct L" "0 \<notin> set L" "set L = fst ` set (heap s)"
    "dll (lnk (heap s)) 0 L 0" "least_recently_used s = first L 0" "most_recently_used s = final 0 L"
    using li unfolding list_inv_def by blast+
  have ep: "contents e1 = contents e" "tuple_count e1 = tuple_count e" "more_recent e1 = 0"
    "less_recent e1 = final 0 L" "next_entry e1 = cache_entries s i"
    using e L(7) by (simp_all add: e1_def)
  have k1: "map fst h1 = map fst (heap s) @ [p]" using p(2) L(4) by (simp add: h1_def keys_update_new)
  have "\<exists>h2. (if most_recently_used s \<noteq> 0
             then upd_entry (most_recently_used s) (\<lambda>m. m\<lparr>more_recent := p\<rparr>) (s\<lparr>heap := h1\<rparr>) else Inr (s\<lparr>heap := h1\<rparr>)) =
      Inr (s\<lparr>heap := h2\<rparr>) \<and> dll (lnk h2) 0 L p \<and> map_of h2 p = Some e1 \<and>
      nxt h2 = nxt h1 \<and> dat h2 = dat h1 \<and> map fst h2 = map fst h1"
  proof (cases L rule: rev_cases)
    case Nil
    then show ?thesis using L(7) by (intro exI [of _ h1]) (simp add: h1_def AList.update_conv')
  next
    case (snoc xs m)
    have m: "m \<noteq> 0" "m \<noteq> p" "m \<notin> set xs" "most_recently_used s = m" "p \<notin> set xs" using L(2,3,7) p snoc by auto
    have lm: "lnk (heap s) m = Some (final 0 xs, 0)" using L(5) snoc by simp
    then obtain f where f: "map_of (heap s) m = Some f" "less_recent f = final 0 xs" by (auto simp: lnk_def)
    then have f1: "map_of h1 m = Some f" using m by (simp add: h1_def AList.update_conv')
    let ?h = "AList.update m (f\<lparr>more_recent := p\<rparr>) h1"
    have "upd_entry m (\<lambda>m. m\<lparr>more_recent := p\<rparr>) (s\<lparr>heap := h1\<rparr>) = Inr (s\<lparr>heap := ?h\<rparr>)"
      using upd_entry_Inr [of "s\<lparr>heap := h1\<rparr>" m f] f1 by simp
    moreover have "dll (lnk ?h) 0 L p" using L(5) snoc m f(2) by (simp add: h1_def)
    moreover have "map_of ?h p = Some e1" using m by (simp add: h1_def AList.update_conv')
    ultimately show ?thesis
      using m views_same(2,3) [OF f1] map_of_in_keys [OF f1] by (intro exI [of _ ?h]) simp
  qed
  then obtain h2 where s2: "(if most_recently_used s \<noteq> 0
             then upd_entry (most_recently_used s) (\<lambda>m. m\<lparr>more_recent := p\<rparr>) (s\<lparr>heap := h1\<rparr>) else Inr (s\<lparr>heap := h1\<rparr>)) =
      Inr (s\<lparr>heap := h2\<rparr>)" and h2: "dll (lnk h2) 0 L p" "map_of h2 p = Some e1"
      "nxt h2 = nxt h1" "dat h2 = dat h1" "map fst h2 = map fst h1" by blast
  define h3 where "h3 = AList.update p (e1\<lparr>in_use_count := tuple_count e1\<rparr>) h2"
  let ?s = "s\<lparr>heap := h3, most_recently_used := p, least_recently_used := first L p,
      cache_entries := (cache_entries s)(i := p)\<rparr>"
  have lru: "(if least_recently_used s = 0 then p else least_recently_used s) = first L p"
    using L(3,6) by (cases L) auto
  let ?t = "s\<lparr>heap := h2, most_recently_used := p, least_recently_used := first L p,
      cache_entries := (cache_entries s)(i := p)\<rparr>"
  have "?t\<lparr>heap := h3\<rparr> = ?s" by (cases s) simp
  then have last: "upd_entry p (\<lambda>e. e\<lparr>in_use_count := tuple_count e\<rparr>) ?t = Inr ?s"
    using upd_entry_Inr [of ?t p e1 "\<lambda>e. e\<lparr>in_use_count := tuple_count e\<rparr>"] h2(2) by (simp add: h3_def)
  have "link_entry p i e s = Inr ?s"
    unfolding link_entry_def put_entry_def e1_def [symmetric] h1_def [symmetric] Let_def
    using s2 lru last by (simp del: rbind_eq_Inr cong: if_cong split del: if_split)
  moreover have v: "lnk h3 = lnk h2" "nxt h3 = nxt h2" "map fst h3 = map fst (heap s) @ [p]"
    using views_same [OF h2(2)] map_of_in_keys [OF h2(2)] h2(5) k1 by (simp_all add: h3_def)
  moreover have "dat h3 = (dat (heap s))(p \<mapsto> (contents e)\<lparr>in_use_count := tuple_count e\<rparr>)"
    using h2(4) ep by (simp add: h3_def h1_def contents_in_use)
  moreover have "lnk h2 p = Some (final 0 L, 0)" using h2(2) ep by (simp add: lnk_def)
  moreover have "fst ` set h3 = insert p (fst ` set (heap s))" using v(3) by (metis set_append list.set_map insert_is_Un Un_commute list.simps(15) empty_set)
  ultimately show ?thesis
    using L p h2(1,3) ep k1 unfolding list_inv_def
    by (intro exI [of _ h3]) (simp add: h1_def)
qed

lemma list_inv_update [simp]:
  "list_inv (s\<lparr>headers := hs\<rparr>) L = list_inv s L" "list_inv (s\<lparr>pool := ps\<rparr>) L = list_inv s L"
  "list_inv (s\<lparr>current_cache_size := n\<rparr>) L = list_inv s L" "list_inv (s\<lparr>max_cache_size := n\<rparr>) L = list_inv s L"
  by (simp_all add: list_inv_def)

text \<open>An entry that is linked and given its blocks keeps the invariant.\<close>

definition new_entry :: "nat list \<Rightarrow> nat \<Rightarrow> buffer_t \<Rightarrow> buffer_t list \<Rightarrow> CacheEntry" where
  "new_entry k h bd bufs = (CacheEntry_init k h bd bufs)\<lparr>in_use_count := length bufs\<rparr>"

definition client_blocks :: "cache \<Rightarrow> nat \<Rightarrow> buffer_t list \<Rightarrow> bool" where
  "client_blocks s h bufs \<longleftrightarrow> bufs \<noteq> [] \<and> distinct (map ptr bufs) \<and>
     (\<forall>b \<in> set bufs. client_block s h b \<and> (\<exists>n. buf_size b = Inr n))"

lemma client_blocks_headers:
  "client_blocks s h bufs \<Longrightarrow> distinct (map ptr bufs) \<and> (\<forall>b \<in> set bufs. \<exists>h. map_of (headers s) (ptr b) = Some h)"
  by (auto simp: client_blocks_def client_block_def)

lemma link_store_ok:
  assumes inv: "cache_inv s L B" and cb: "client_blocks s h bufs"
    and p: "p \<noteq> 0" "p \<notin> set L" "p \<notin> set (pool s)" and i: "i = h mod kHashTableSize"
  shows "\<exists>s'. rbind (link_entry p i (CacheEntry_init k h bd bufs) s) (set_header_entries p bufs) = Inr s' \<and>
    cache_inv s' (L @ [p]) (B(i := p # B i)) \<and>
    dat (heap s') = (dat (heap s))(p \<mapsto> new_entry k h bd bufs) \<and>
    current_cache_size s' = current_cache_size s \<and> max_cache_size s' = max_cache_size s"
proof -
  let ?e = "CacheEntry_init k h bd bufs"
  have li: "list_inv s L" using inv by (simp add: cache_inv_def)
  have mr: "more_recent ?e = 0" by (simp add: CacheEntry_init_def)
  obtain g where g: "link_entry p i ?e s = Inr (s\<lparr>heap := g, most_recently_used := p,
      least_recently_used := first L p, cache_entries := (cache_entries s)(i := p)\<rparr>)"
    "list_inv (s\<lparr>heap := g, most_recently_used := p, least_recently_used := first L p,
      cache_entries := (cache_entries s)(i := p)\<rparr>) (L @ [p])"
    "nxt g = (nxt (heap s))(p \<mapsto> cache_entries s i)"
    "dat g = (dat (heap s))(p \<mapsto> (contents ?e)\<lparr>in_use_count := tuple_count ?e\<rparr>)"
    using link_entry_ok [OF li p(1,2) mr] by blast
  let ?t = "s\<lparr>heap := g, most_recently_used := p, least_recently_used := first L p,
      cache_entries := (cache_entries s)(i := p)\<rparr>"
  have d: "dat g = (dat (heap s))(p \<mapsto> new_entry k h bd bufs)"
    unfolding g(4) by (simp add: new_entry_def CacheEntry_init_def contents_def)
  obtain hs where hs: "set_header_entries p bufs ?t = Inr (?t\<lparr>headers := hs\<rparr>)"
    "\<forall>q. map_of hs q = (if q \<in> ptr ` set bufs then map_option (\<lambda>h. h\<lparr>header_entry := p\<rparr>) (map_of (headers s) q)
        else map_of (headers s) q)"
    using set_header_entries_ok [of bufs ?t p] client_blocks_headers [OF cb] by auto
  let ?u = "?t\<lparr>headers := hs\<rparr>"
  have pn: "dat (heap s) p = None" using p(2) cache_inv_dat(1) [OF inv] by (cases "dat (heap s) p") auto
  have "p \<notin> set (B j)" for j using inv pn by (auto simp: cache_inv_def table_inv_def)
  then have "table_inv ?u (B(i := p # B i))"
    using inv i p(1) pn unfolding cache_inv_def table_inv_def
    by (auto simp: g(3) d new_entry_def CacheEntry_init_def split: if_splits)
  moreover have "list_inv ?u (L @ [p])" using g(2) by simp
  moreover have "own_inv ?u" unfolding own_inv_def
  proof (intro allI impI)
    fix a e assume a: "dat (heap ?u) a = Some e"
    show "entry_ok ?u a e"
    proof (cases "a = p")
      case True
      then have "e = new_entry k h bd bufs" using a d by simp
      then show ?thesis using cb True hs(2)
        by (auto simp: entry_ok_def client_blocks_def client_block_def new_entry_def CacheEntry_init_def)
    next
      case False
      then have ae: "dat (heap s) a = Some e" using a d by simp
      have "ptr b \<notin> ptr ` set bufs" if "b \<in> set (buffers e)" for b
        using owner_not_client [OF inv ae that] cb by (auto simp: client_blocks_def)
      then show ?thesis using own_inv_D [OF inv ae] hs(2) by (simp add: entry_ok_def)
    qed
  qed
  moreover have "pool_inv ?u"
    using inv p(3) d hs(2) by (auto simp: cache_inv_def pool_inv_def split: if_splits)
  ultimately have "cache_inv ?u (L @ [p]) (B(i := p # B i))" by (simp add: cache_inv_def)
  moreover have "rbind (link_entry p i ?e s) (set_header_entries p bufs) = Inr ?u"
    using g(1) hs(1) by (simp del: rbind_eq_Inr)
  ultimately show ?thesis using d by (intro exI [of _ ?u]) simp
qed

lemma client_release_ok:
  assumes inv: "cache_inv s L B" and cb: "client_blocks s h bufs"
  shows "\<exists>s'. set_header_entries 0 bufs s = Inr s' \<and> cache_inv s' L B \<and> heap s' = heap s \<and>
    current_cache_size s' = current_cache_size s \<and> max_cache_size s' = max_cache_size s \<and> client_blocks s' h bufs"
proof -
  obtain hs where hs: "set_header_entries 0 bufs s = Inr (s\<lparr>headers := hs\<rparr>)"
    "\<And>q. map_of hs q = (if q \<in> ptr ` set bufs then map_option (\<lambda>h. h\<lparr>header_entry := 0\<rparr>) (map_of (headers s) q)
        else map_of (headers s) q)"
    using set_header_entries_ok [of bufs s 0] client_blocks_headers [OF cb] by auto
  have "map_of hs q = map_of (headers s) q" for q
  proof (cases "q \<in> ptr ` set bufs")
    case True
    then show ?thesis using cb hs(2) [of q] by (auto simp: client_blocks_def client_block_def)
  qed (use hs(2) in simp)
  then have "map_of hs = map_of (headers s)" by blast
  then show ?thesis using inv cb hs(1)
    by (intro exI [of _ "s\<lparr>headers := hs\<rparr>"])
      (auto simp: cache_inv_def table_inv_def own_inv_def pool_inv_def entry_ok_def client_blocks_def client_block_def)
qed

subsection \<open>Store, set size and release\<close>

lemma cache_inv_size [simp]:
  "cache_inv (s\<lparr>current_cache_size := n\<rparr>) L B = cache_inv s L B"
  "cache_inv (s\<lparr>max_cache_size := n\<rparr>) L B = cache_inv s L B"
  by (simp_all add: cache_inv_def table_inv_def own_inv_def pool_inv_def entry_ok_def)

lemma to_int64_mod: "to_int64 (x + y mod 2 ^ 64) = to_int64 (x + y)" "to_int64 (x - y mod 2 ^ 64) = to_int64 (x - y)"
proof -
  have t: "signed_take_bit 63 (take_bit 64 z) = signed_take_bit 63 z" for z :: int
    by (simp add: signed_take_bit_take_bit)
  have "take_bit 64 (x + y mod 2 ^ 64) = take_bit 64 (x + y)" "take_bit 64 (x - y mod 2 ^ 64) = take_bit 64 (x - y)"
    by (simp_all only: take_bit_eq_mod mod_add_right_eq mod_diff_right_eq)
  then show "to_int64 (x + y mod 2 ^ 64) = to_int64 (x + y)" "to_int64 (x - y mod 2 ^ 64) = to_int64 (x - y)"
    unfolding to_int64_eq using t by metis+
qed

lemma add_sizes_ok:
  "\<forall>b \<in> set bs. \<exists>n. buf_size b = Inr n \<Longrightarrow> bs \<noteq> [] \<or> n = n mod 2 ^ 64 \<Longrightarrow>
   add_sizes bs n = Inr ((n + sum_list (map bsize bs)) mod 2 ^ 64)"
proof (induction bs arbitrary: n)
  case (Cons b bs)
  then obtain m where m: "buf_size b = Inr m" by auto
  have "add_sizes bs ((n + m) mod 2 ^ 64) = Inr (((n + m) mod 2 ^ 64 + sum_list (map bsize bs)) mod 2 ^ 64)"
    using Cons by (intro Cons.IH) auto
  moreover have "bsize b = m" using m by (simp add: bsize_def)
  ultimately show ?case using m by (simp add: mod_simps ac_simps)
qed auto

lemma prune_cache_ok:
  assumes inv: "cache_inv s (us @ vs) B" and u: "\<forall>a \<in> set us. \<not> in_use s a" "\<forall>a \<in> set vs. in_use s a"
    and sz: "size_inv s (us @ vs) k"
  obtains s' us1 us2 B' where "us = us1 @ us2" "prune_cache s = Inr s'" "cache_inv s' (us2 @ vs) B'"
    "size_inv s' (us2 @ vs) k" "pruned s s' us1" "current_cache_size s' \<le> max_cache_size s \<or> us2 = []"
    "entries s' (us2 @ vs) = lru_prune (max_cache_size s) (current_cache_size s) (entries s (us @ vs))"
proof -
  have "list_inv s (us @ vs)" using inv by (simp add: cache_inv_def)
  then have "length (us @ vs) \<le> length (heap s)" "least_recently_used s = first (us @ vs) 0"
    using length_heap [of s "us @ vs"] by (simp, simp add: list_inv_def)
  then show ?thesis using prune_prefix [OF inv u sz, of "length (heap s)"] that
    unfolding prune_cache_def by metis
qed

lemma pruned_client_blocks:
  assumes "pruned s s' us" and "client_blocks s h bufs" and "0 \<notin> set us"
  shows "client_blocks s' h bufs"
  using assms by (auto simp: pruned_def client_blocks_def client_block_def)

lemma cache_inv_distinct: "cache_inv s L B \<Longrightarrow> 0 \<notin> set L" "cache_inv s L B \<Longrightarrow> distinct L"
  unfolding cache_inv_def list_inv_def by blast+

lemma cache_inv_pool: "cache_inv s L B \<Longrightarrow> p \<in> set (pool s) \<Longrightarrow> p \<noteq> 0 \<Longrightarrow> dat (heap s) p = None"
  by (simp add: cache_inv_def pool_inv_def)

lemma in_list_dat: "cache_inv s L B \<Longrightarrow> a \<in> set L \<Longrightarrow> dat (heap s) a \<noteq> None"
  using list_inv_entry [of s L a] by (auto simp: cache_inv_def dat_def)

lemma total_size_snoc:
  assumes "dat (heap s') = (dat (heap s))(p \<mapsto> e)" and "p \<notin> set L"
  shows "total_size s' (L @ [p]) = total_size s L + esize e"
proof -
  have "total_size s' L = total_size s L" using assms by (intro total_size_cong) auto
  then show ?thesis using assms(1) by (simp add: total_size_def)
qed

lemma halide_malloc_inv:
  assumes "cache_inv s L B"
  obtains s' where "halide_malloc s = (0, s')" "cache_inv s' L B" "s' = s\<lparr>pool := tl (pool s)\<rparr>"
  | p s' where "halide_malloc s = (p, s')" "cache_inv s' L B" "s' = s\<lparr>pool := tl (pool s)\<rparr>"
      "p \<noteq> 0" "p \<in> set (pool s)" "p \<notin> set (pool s')"
proof -
  define t where "t = s\<lparr>pool := tl (pool s)\<rparr>"
  have inv: "cache_inv t L B" unfolding t_def by (rule cache_inv_tl_pool [OF assms])
  show thesis
  proof (cases "pool s")
    case Nil
    then have "halide_malloc s = (0, t)" by (simp add: halide_malloc_def t_def)
    then show thesis using inv t_def by (rule that(1))
  next
    case (Cons p ps)
    then have m: "halide_malloc s = (p, t)" by (simp add: halide_malloc_def t_def)
    show thesis
    proof (cases "p = 0")
      case True
      then show thesis using m inv t_def by (intro that(1)) simp_all
    next
      case False
      have "p \<in> set (pool s)" "p \<notin> set (pool t)" using assms False Cons by (auto simp: cache_inv_def pool_inv_def t_def)
      then show thesis by (rule that(2) [OF m inv t_def False])
    qed
  qed
qed

lemma client_blocks_update [simp]:
  "client_blocks (s\<lparr>pool := ps\<rparr>) h bufs = client_blocks s h bufs"
  "client_blocks (s\<lparr>current_cache_size := n\<rparr>) h bufs = client_blocks s h bufs"
  by (simp_all add: client_blocks_def client_block_def)


subsection \<open>The abstract cache\<close>

text \<open>
  A cache is, to its users, the list of the contents of its entries in the order of their
  use. The entries not in use precede those in use: the condition under which the pruning of
  the code is the intended one.
\<close>

definition unused_first :: "CacheEntry list \<Rightarrow> bool" where
  "unused_first es \<longleftrightarrow> list_all (\<lambda>e. 0 < in_use_count e) (dropWhile (\<lambda>e. in_use_count e = 0) es)"

definition lru_stored :: "nat \<Rightarrow> nat list \<Rightarrow> buffer_t \<Rightarrow> buffer_t list \<Rightarrow> CacheEntry list \<Rightarrow> bool" where
  "lru_stored h k bd bufs es \<longleftrightarrow> (\<exists>e \<in> set es. entry_matches h k bd bufs e)"

lemma entries_dat:
  assumes "cache_inv s L B" and "a \<in> set L"
  shows "\<exists>e. dat (heap s) a = Some e \<and> e \<in> set (entries s L)"
  using in_list_dat [OF assms] assms(2) by (auto simp: entries_def image_iff intro!: bexI [of _ a])

lemma entries_set:
  assumes inv: "cache_inv s L B"
  shows "e \<in> set (entries s L) \<longleftrightarrow> (\<exists>a. dat (heap s) a = Some e)"
proof
  assume "e \<in> set (entries s L)"
  then obtain a where "a \<in> set L" "e = the (dat (heap s) a)" by (auto simp: entries_def)
  then show "\<exists>a. dat (heap s) a = Some e" using in_list_dat [OF inv] by auto
next
  assume "\<exists>a. dat (heap s) a = Some e"
  then obtain a where "dat (heap s) a = Some e" by blast
  then show "e \<in> set (entries s L)" using cache_inv_dat(1) [OF inv] by (force simp: entries_def)
qed

lemma unused_first_split:
  assumes inv: "cache_inv s L B" and u: "unused_first (entries s L)"
  obtains us vs where "L = us @ vs" "\<forall>a \<in> set us. \<not> in_use s a" "\<forall>a \<in> set vs. in_use s a"
proof -
  define p where "p = (\<lambda>a. in_use_count (the (dat (heap s) a)) = 0)"
  have iu: "in_use s a \<longleftrightarrow> \<not> p a" if "a \<in> set L" for a
    using in_list_dat [OF inv that] by (auto simp: p_def)
  have "dropWhile (\<lambda>e. in_use_count e = 0) (entries s L) = entries s (dropWhile p L)"
    by (simp add: entries_def dropWhile_map p_def comp_def)
  then have "\<forall>a \<in> set (dropWhile p L). \<not> p a" using u by (auto simp: unused_first_def list_all_iff entries_def p_def)
  moreover have "\<forall>a \<in> set (takeWhile p L). p a" using set_takeWhileD by fast
  ultimately show thesis
    using that [of "takeWhile p L" "dropWhile p L"] iu set_takeWhileD [of _ p L] set_dropWhileD [of _ p L]
    by (simp add: takeWhile_dropWhile_id)
qed

lemma to_int64_add' [simp]: "to_int64 (y + to_int64 x) = to_int64 (y + x)"
  using to_int64_add [of x y] by (simp add: ac_simps)

text \<open>The allocator has room for an entry and its key.\<close>

definition has_memory :: "cache \<Rightarrow> bool" where
  "has_memory s \<longleftrightarrow> (case pool s of p # q # _ \<Rightarrow> p \<noteq> 0 \<and> q \<noteq> 0 | _ \<Rightarrow> False)"

lemma store_found:
  assumes inv: "cache_inv s L B" and cb: "client_blocks s h bufs"
    and e: "map_of (heap s) a = Some e" "entry_matches h k bd bufs e" "a \<noteq> 0"
    and f: "find_entry (length (heap s)) (entry_matches h k bd bufs) (cache_entries s (h mod kHashTableSize)) s = Inr a"
  shows "\<exists>s'. halide_memoization_cache_store k bd bufs s = Inr s' \<and> cache_inv s' L B \<and> heap s' = heap s \<and>
    current_cache_size s' = current_cache_size s \<and> max_cache_size s' = max_cache_size s \<and> client_blocks s' h bufs"
proof -
  have d: "dat (heap s) a = Some (contents e)" using e by (simp add: dat_def)
  have "buf_host x \<noteq> buf_host y" if "x \<in> set (buffers e)" "y \<in> set bufs" for x y
    using owner_not_client [OF inv d, of x h y] that cb by (auto simp: client_blocks_def)
  then have "list_all2 (\<lambda>x y. buf_host x \<noteq> buf_host y) (buffers e) bufs"
    using e(2) by (auto simp: entry_matches_def list_all2_conv_all_nth)
  moreover obtain b bs where b: "bufs = b # bs" using cb by (cases bufs) (auto simp: client_blocks_def)
  moreover have "get_header (buf_host b) s = Inr \<lparr>header_entry = 0, header_hash = h\<rparr>"
    using cb b by (simp add: client_blocks_def client_block_def get_header_def)
  ultimately have "halide_memoization_cache_store k bd bufs s = set_header_entries 0 bufs s"
    using f e by (simp add: halide_memoization_cache_store_def)
  then show ?thesis using client_release_ok [OF inv cb] by simp
qed

definition store_entry :: "nat \<Rightarrow> nat list \<Rightarrow> buffer_t \<Rightarrow> buffer_t list \<Rightarrow> int \<Rightarrow> cache \<Rightarrow> cache result" where
  "store_entry h k bd bufs n s1 =
    (case halide_malloc s1 of (p, s2) \<Rightarrow>
       if p = 0 then set_header_entries 0 bufs (s2\<lparr>current_cache_size := to_int64 (current_cache_size s2 - n)\<rparr>)
       else case halide_malloc s2 of (q, s3) \<Rightarrow>
         if q = 0 then set_header_entries 0 bufs (s3\<lparr>current_cache_size := to_int64 (current_cache_size s3 - n)\<rparr>)
         else rbind (link_entry p (h mod kHashTableSize) (CacheEntry_init k h bd bufs) s3) (set_header_entries p bufs))"

lemma store_fresh:
  assumes cb: "client_blocks s h bufs" and ad: "add_sizes bufs 0 = Inr n"
    and f: "find_entry (length (heap s)) (entry_matches h k bd bufs) (cache_entries s (h mod kHashTableSize)) s = Inr 0"
    and pr: "prune_cache (s\<lparr>current_cache_size := to_int64 (current_cache_size s + n)\<rparr>) = Inr s1"
  shows "halide_memoization_cache_store k bd bufs s = store_entry h k bd bufs n s1"
proof -
  obtain b bs where b: "bufs = b # bs" using cb by (cases bufs) (auto simp: client_blocks_def)
  have "get_header (buf_host b) s = Inr \<lparr>header_entry = 0, header_hash = h\<rparr>"
    using cb b by (simp add: client_blocks_def client_block_def get_header_def)
  then show ?thesis using f ad pr b
    by (simp add: halide_memoization_cache_store_def store_entry_def Let_def del: rbind_eq_Inr cong: if_cong split del: if_split split: prod.split)
qed

lemma store_no_memory:
  assumes inv: "cache_inv s L B" and cb: "client_blocks s h bufs" and sz: "size_inv s L k" and n: "n = k mod 2 ^ 64"
  shows "\<exists>s'. set_header_entries 0 bufs (s\<lparr>current_cache_size := to_int64 (current_cache_size s - n)\<rparr>) = Inr s' \<and>
    cache_inv s' L B \<and> size_inv s' L 0 \<and> heap s' = heap s \<and> max_cache_size s' = max_cache_size s \<and> client_blocks s' h bufs"
proof -
  let ?s = "s\<lparr>current_cache_size := to_int64 (current_cache_size s - n)\<rparr>"
  have "cache_inv ?s L B" "client_blocks ?s h bufs" using inv cb by simp_all
  from client_release_ok [OF this] obtain s' where s': "set_header_entries 0 bufs ?s = Inr s'" "cache_inv s' L B"
    "heap s' = heap ?s" "current_cache_size s' = current_cache_size ?s" "max_cache_size s' = max_cache_size ?s"
    "client_blocks s' h bufs" by blast
  have "total_size s' L = total_size s L" using s'(3) by (intro total_size_cong) simp
  then have "size_inv s' L 0" using sz s'(4) n by (simp add: size_inv_def to_int64_mod(2) [simplified])
  then show ?thesis using s' by (intro exI [of _ s']) simp
qed


lemma size_inv_pool [simp]: "size_inv (s\<lparr>pool := ps\<rparr>) L k = size_inv s L k"
  using total_size_cong [of L "s\<lparr>pool := ps\<rparr>" s] by (simp add: size_inv_def)

lemma store_entry_ok:
  assumes inv: "cache_inv s L B" and cb: "client_blocks s h bufs" and m: "m = sum_list (map bsize bufs)"
    and sz: "size_inv s L m" and n: "n = m mod 2 ^ 64"
  shows "\<exists>s' L' B'. store_entry h k bd bufs n s = Inr s' \<and> cache_inv s' L' B' \<and> size_inv s' L' 0 \<and>
    (\<not> has_memory s \<and> L' = L \<and> heap s' = heap s \<and> client_blocks s' h bufs \<or>
     (\<exists>p. has_memory s \<and> p \<noteq> 0 \<and> p \<in> set (pool s) \<and> L' = L @ [p] \<and> dat (heap s') = (dat (heap s))(p \<mapsto> new_entry k h bd bufs) \<and>
       current_cache_size s' = current_cache_size s))"
proof (rule halide_malloc_inv [OF inv])
  fix s2 assume s2: "halide_malloc s = (0, s2)" "cache_inv s2 L B" "s2 = s\<lparr>pool := tl (pool s)\<rparr>"
  have "client_blocks s2 h bufs" "size_inv s2 L m" "heap s2 = heap s" using cb sz s2(3) by simp_all
  moreover have "\<not> has_memory s" using s2(1) by (auto simp: halide_malloc_def has_memory_def split: list.splits)
  ultimately show ?thesis
    using store_no_memory [OF s2(2) _ _ n, of h bufs] s2(1) unfolding store_entry_def by fastforce
next
  fix p s2 assume s2: "halide_malloc s = (p, s2)" "cache_inv s2 L B" "s2 = s\<lparr>pool := tl (pool s)\<rparr>"
    and p: "p \<noteq> 0" "p \<in> set (pool s)" "p \<notin> set (pool s2)"
  have c2: "client_blocks s2 h bufs" "size_inv s2 L m" "heap s2 = heap s" using cb sz s2(3) by simp_all
  show ?thesis
  proof (rule halide_malloc_inv [OF s2(2)])
    fix s3 assume s3: "halide_malloc s2 = (0, s3)" "cache_inv s3 L B" "s3 = s2\<lparr>pool := tl (pool s2)\<rparr>"
    have "client_blocks s3 h bufs" "size_inv s3 L m" "heap s3 = heap s" using c2 s3(3) by simp_all
    moreover have "\<not> has_memory s"
      using s2(1,3) s3(1) by (auto simp: halide_malloc_def has_memory_def split: list.splits)
    ultimately show ?thesis
      using store_no_memory [OF s3(2) _ _ n, of h bufs] s2(1) p(1) s3(1) unfolding store_entry_def by fastforce
  next
    fix q s3 assume s3: "halide_malloc s2 = (q, s3)" "cache_inv s3 L B" "s3 = s2\<lparr>pool := tl (pool s2)\<rparr>" and q: "q \<noteq> 0"
    have c3: "client_blocks s3 h bufs" "size_inv s3 L m" "heap s3 = heap s" "p \<notin> set (pool s3)"
      "current_cache_size s3 = current_cache_size s"
      using c2 s3(3) s2(3) p(3) list.set_sel(2) [of "pool s2" p] by (cases "pool s2"; simp)+
    have "p \<notin> set L" using cache_inv_pool [OF inv p(2,1)] in_list_dat [OF inv, of p] by blast
    from link_store_ok [OF s3(2) c3(1) p(1) this c3(4) refl] obtain s' where
      s': "rbind (link_entry p (h mod kHashTableSize) (CacheEntry_init k h bd bufs) s3) (set_header_entries p bufs) = Inr s'"
        "cache_inv s' (L @ [p]) (B(h mod kHashTableSize := p # B (h mod kHashTableSize)))"
        "dat (heap s') = (dat (heap s3))(p \<mapsto> new_entry k h bd bufs)" "current_cache_size s' = current_cache_size s3"
      by blast
    have "esize (new_entry k h bd bufs) = m" by (simp add: esize_def new_entry_def CacheEntry_init_def m)
    then have "size_inv s' (L @ [p]) 0"
      using total_size_snoc [OF s'(3) \<open>p \<notin> set L\<close>] c3(2) s'(4) by (simp add: size_inv_def ac_simps)
    moreover have "store_entry h k bd bufs n s = Inr s'" using s'(1) s2(1) s3(1) p(1) q by (simp add: store_entry_def)
    moreover have "has_memory s"
      using s2(1,3) s3(1) p(1) q by (auto simp: halide_malloc_def has_memory_def split: list.splits)
    ultimately show ?thesis using s' c3(3,5) p(1,2) by metis
  qed
qed

definition lru_store ::
  "nat \<Rightarrow> nat list \<Rightarrow> buffer_t \<Rightarrow> buffer_t list \<Rightarrow> bool \<Rightarrow> int \<Rightarrow> int \<Rightarrow> CacheEntry list \<Rightarrow> CacheEntry list" where
  "lru_store h k bd bufs mem limit n es =
     (if lru_stored h k bd bufs es then es
      else lru_prune limit (to_int64 (n + sum_list (map bsize bufs))) es @ (if mem then [new_entry k h bd bufs] else []))"

lemma store_ok:
  assumes inv: "cache_inv s L B" and u: "unused_first (entries s L)"
    and sz: "size_inv s L 0" and cb: "client_blocks s h bufs"
  obtains s' L' B' where "halide_memoization_cache_store k bd bufs s = Inr s'" "cache_inv s' L' B'" "size_inv s' L' 0"
    "entries s' L' = lru_store h k bd bufs (has_memory s) (max_cache_size s) (current_cache_size s) (entries s L)"
    "lru_stored h k bd bufs (entries s L) \<or> \<not> has_memory s \<longrightarrow> client_blocks s' h bufs"
proof (rule find_entry_ok [OF inv refl, of h k bd bufs])
  fix a e assume a: "find_entry (length (heap s)) (entry_matches h k bd bufs) (cache_entries s (h mod kHashTableSize)) s = Inr a"
    "a \<noteq> 0" "map_of (heap s) a = Some e" "entry_matches h k bd bufs e"
  have "contents e \<in> set (entries s L)" using a(3) by (auto simp: entries_set [OF inv] dat_def)
  then have "lru_stored h k bd bufs (entries s L)" using a(4) unfolding lru_stored_def by (intro bexI [of _ "contents e"]) simp_all
  moreover obtain s' where s': "halide_memoization_cache_store k bd bufs s = Inr s'" "cache_inv s' L B" "heap s' = heap s"
    "current_cache_size s' = current_cache_size s" "client_blocks s' h bufs"
    using store_found [OF inv cb a(3,4,2,1)] by blast
  moreover have "total_size s' L = total_size s L" using s'(3) by (intro total_size_cong) simp
  moreover have "entries s' L = entries s L" using s'(3) by (intro entries_cong) simp
  ultimately show thesis using sz that [of s' L B] by (simp add: size_inv_def lru_store_def)
next
  assume f: "find_entry (length (heap s)) (entry_matches h k bd bufs) (cache_entries s (h mod kHashTableSize)) s = Inr 0"
    and no: "\<forall>a e. dat (heap s) a = Some e \<longrightarrow> \<not> entry_matches h k bd bufs e"
  have na: "\<not> lru_stored h k bd bufs (entries s L)" using no by (auto simp: lru_stored_def entries_set [OF inv])
  define m where "m = sum_list (map bsize bufs)"
  define n where "n = m mod 2 ^ 64"
  define t where "t = s\<lparr>current_cache_size := to_int64 (current_cache_size s + n)\<rparr>"
  have ad: "add_sizes bufs 0 = Inr n" using cb add_sizes_ok [of bufs 0] by (simp add: client_blocks_def n_def m_def)
  have tn: "to_int64 (current_cache_size s + n) = to_int64 (current_cache_size s + m)" unfolding n_def by (rule to_int64_mod)
  obtain us vs where uv: "L = us @ vs" "\<forall>a \<in> set us. \<not> in_use s a" "\<forall>a \<in> set vs. in_use s a"
    by (rule unused_first_split [OF inv u])
  have "cache_inv t (us @ vs) B" "\<forall>a \<in> set us. \<not> in_use t a" "\<forall>a \<in> set vs. in_use t a" "size_inv t (us @ vs) m"
    using inv uv sz total_size_cong [of "us @ vs" t s] tn by (simp_all add: t_def size_inv_def ac_simps)
  then obtain s1 us1 us2 B1 where s1: "us = us1 @ us2" "prune_cache t = Inr s1" "cache_inv s1 (us2 @ vs) B1"
    "size_inv s1 (us2 @ vs) m" "pruned t s1 us1" 
    "entries s1 (us2 @ vs) = lru_prune (max_cache_size t) (current_cache_size t) (entries t (us @ vs))"
    by (rule prune_cache_ok)
  have cb1: "client_blocks s1 h bufs"
    using pruned_client_blocks [OF s1(5), of h bufs] cb cache_inv_distinct(1) [OF inv] s1(1) uv(1) by (simp add: t_def)
  have p1: "has_memory s1 = has_memory s" using s1(5) by (simp add: pruned_def t_def has_memory_def)
  have "entries t (us @ vs) = entries s L" unfolding uv(1) by (intro entries_cong) (simp add: t_def)
  then have e1: "entries s1 (us2 @ vs) = lru_prune (max_cache_size s) (to_int64 (current_cache_size s + m)) (entries s L)"
    using s1(6) tn by (simp add: t_def)
  note st = store_fresh [OF cb ad f s1(2) [unfolded t_def]]
  obtain s' L' B' where s': "store_entry h k bd bufs n s1 = Inr s'" "cache_inv s' L' B'" "size_inv s' L' 0"
    and c: "\<not> has_memory s1 \<and> L' = us2 @ vs \<and> heap s' = heap s1 \<and> client_blocks s' h bufs \<or>
     (\<exists>p. has_memory s1 \<and> p \<noteq> 0 \<and> p \<in> set (pool s1) \<and> L' = (us2 @ vs) @ [p] \<and> dat (heap s') = (dat (heap s1))(p \<mapsto> new_entry k h bd bufs) \<and>
       current_cache_size s' = current_cache_size s1)"
    using store_entry_ok [OF s1(3) cb1 m_def s1(4) n_def, of k bd] by (elim exE conjE)
  have "entries s' L' = entries s1 (us2 @ vs) @ (if has_memory s then [new_entry k h bd bufs] else [])"
    using c
  proof (elim disjE exE conjE)
    assume "\<not> has_memory s1" and a: "L' = us2 @ vs" "heap s' = heap s1"
    moreover have "entries s' L' = entries s1 (us2 @ vs)" unfolding a(1) by (rule entries_cong) (simp add: a(2))
    ultimately show ?thesis using p1 by simp
  next
    fix p assume p: "has_memory s1" "p \<noteq> 0" "p \<in> set (pool s1)" "L' = (us2 @ vs) @ [p]"
      "dat (heap s') = (dat (heap s1))(p \<mapsto> new_entry k h bd bufs)"
    then have "p \<notin> set (us2 @ vs)" using cache_inv_pool [OF s1(3), of p] in_list_dat [OF s1(3), of p] by auto
    then show ?thesis using p p1 by (auto simp: entries_def)
  qed
  then have "entries s' L' = lru_store h k bd bufs (has_memory s) (max_cache_size s) (current_cache_size s) (entries s L)"
    unfolding lru_store_def using na e1 m_def by simp
  moreover have "\<not> has_memory s \<longrightarrow> client_blocks s' h bufs" using c p1 by auto
  ultimately show thesis using st s' na by (intro that [of s' L' B']) auto
qed

subsection \<open>At most one entry for a computation\<close>

definition same_key :: "CacheEntry \<Rightarrow> CacheEntry \<Rightarrow> bool" where
  "same_key e f \<longleftrightarrow> hash e = hash f \<and> key e = key f \<and> bounds_equal (computed_bounds e) (computed_bounds f) \<and>
     list_all2 bounds_equal (buffers e) (buffers f)"

definition distinct_keys :: "CacheEntry list \<Rightarrow> bool" where
  "distinct_keys es \<longleftrightarrow> sorted_wrt (\<lambda>e f. \<not> same_key e f) es"

lemma bounds_equal_sym: "bounds_equal a b \<Longrightarrow> bounds_equal b a"
  by (simp add: bounds_equal_def)

lemma bounds_equal_trans: "bounds_equal a b \<Longrightarrow> bounds_equal b c \<Longrightarrow> bounds_equal a c"
  by (simp add: bounds_equal_def)

lemma all_bounds_equal_sym: "list_all2 bounds_equal as bs \<Longrightarrow> list_all2 bounds_equal bs as"
  by (auto simp: list_all2_conv_all_nth bounds_equal_sym)

lemma all_bounds_equal_trans:
  "list_all2 bounds_equal as bs \<Longrightarrow> list_all2 bounds_equal bs cs \<Longrightarrow> list_all2 bounds_equal as cs"
  using list_all2_trans [of bounds_equal bounds_equal bounds_equal] bounds_equal_trans by blast

lemma same_key_sym: "same_key e f \<Longrightarrow> same_key f e"
  by (simp add: same_key_def bounds_equal_sym all_bounds_equal_sym)

lemma entry_matches_iff:
  "entry_ok s a e \<Longrightarrow> entry_matches h k bd bufs e \<longleftrightarrow> same_key e (new_entry k h bd bufs)"
  by (auto simp: entry_matches_def same_key_def new_entry_def CacheEntry_init_def entry_ok_def keys_equal_def
      bounds_equal_def dest: list_all2_lengthD)

lemma entry_matches_same_key:
  assumes "entry_ok s a e" "entry_ok s b f" "entry_matches h k bd bufs e" "entry_matches h k bd bufs f"
  shows "same_key e f"
proof -
  let ?n = "new_entry k h bd bufs"
  have "same_key e ?n" "same_key ?n f" using assms entry_matches_iff same_key_sym by blast+
  then show ?thesis unfolding same_key_def using bounds_equal_trans all_bounds_equal_trans by metis
qed

lemma same_key_in_use [simp]:
  "same_key (e\<lparr>in_use_count := n\<rparr>) f = same_key e f" "same_key f (e\<lparr>in_use_count := n\<rparr>) = same_key f e"
  by (simp_all add: same_key_def)

lemma distinct_keys_middle:
  assumes "distinct_keys (xs @ e # ys)" and "f \<in> set (xs @ ys)"
  shows "\<not> same_key e f"
  using assms same_key_sym [of e f] by (auto simp: distinct_keys_def sorted_wrt_append)

lemma distinct_keys_move:
  assumes "distinct_keys (xs @ e # ys)"
  shows "distinct_keys (xs @ ys @ [e\<lparr>in_use_count := n\<rparr>])"
  using assms by (auto simp: distinct_keys_def sorted_wrt_append dest: same_key_sym)

lemma lru_prune_subset: "set (lru_prune limit n es) \<subseteq> set es"
  by (induction limit n es rule: lru_prune.induct) (auto split: if_splits)

lemma distinct_keys_lru_prune: "distinct_keys es \<Longrightarrow> distinct_keys (lru_prune limit n es)"
proof (induction limit n es rule: lru_prune.induct)
  case (2 limit n e es)
  then show ?case using lru_prune_subset [of limit n es] by (auto simp: distinct_keys_def)
qed simp

lemma find_middle:
  "p e \<Longrightarrow> \<forall>x \<in> set xs. \<not> p x \<Longrightarrow> List.find p (xs @ e # ys) = Some e"
  by (induction xs) auto

lemma distinct_keys_lru_store:
  assumes inv: "cache_inv s L B" and "distinct_keys (entries s L)"
  shows "distinct_keys (lru_store h k bd bufs mem limit n (entries s L))"
proof -
  have "\<not> same_key e (new_entry k h bd bufs)" 
    if no: "\<not> lru_stored h k bd bufs (entries s L)" and e: "e \<in> set (entries s L)" for e
  proof -
    obtain a where "dat (heap s) a = Some e" using e entries_set [OF inv] by blast
    then show ?thesis using no e entry_matches_iff [OF own_inv_D [OF inv]] by (auto simp: lru_stored_def)
  qed
  then show ?thesis
    using assms(2) distinct_keys_lru_prune [OF assms(2)]
      lru_prune_subset [of limit "to_int64 (n + sum_list (map bsize bufs))" "entries s L"]
    by (auto simp: lru_store_def distinct_keys_def sorted_wrt_append)
qed

subsection \<open>Lookup refines the abstract cache\<close>

definition lru_lookup ::
  "(CacheEntry \<Rightarrow> bool) \<Rightarrow> nat \<Rightarrow> CacheEntry list \<Rightarrow> (buffer_t list \<times> CacheEntry list) option" where
  "lru_lookup p n es =
     (case List.find p es of None \<Rightarrow> None
      | Some e \<Rightarrow> Some (buffers e,
          filter (\<lambda>x. \<not> p x) es @ [e\<lparr>in_use_count := (in_use_count e + n) mod 2 ^ 32\<rparr>]))"

lemma entries_append [simp]: "entries s (xs @ ys) = entries s xs @ entries s ys"
  by (simp add: entries_def)

lemma lru_lookup_middle:
  assumes inv: "cache_inv s (xs @ a # ys) B" and dk: "distinct_keys (entries s (xs @ a # ys))"
    and a: "dat (heap s) a = Some e" "entry_matches h k bd bufs e"
  shows "lru_lookup (entry_matches h k bd bufs) n (entries s (xs @ a # ys)) =
    Some (buffers e, entries s xs @ entries s ys @ [e\<lparr>in_use_count := (in_use_count e + n) mod 2 ^ 32\<rparr>])"
proof -
  have "\<not> entry_matches h k bd bufs f" if "f \<in> set (entries s xs @ entries s ys)" for f
  proof
    assume m: "entry_matches h k bd bufs f"
    have "f \<in> set (entries s (xs @ a # ys))" using that by auto
    then obtain b where b: "dat (heap s) b = Some f" using entries_set [OF inv] by blast
    have "same_key e f" using entry_matches_same_key [OF own_inv_D [OF inv a(1)] own_inv_D [OF inv b] a(2) m] .
    then show False using distinct_keys_middle [of "entries s xs" e "entries s ys" f] dk a(1) that by simp
  qed
  then have "List.find (entry_matches h k bd bufs) (entries s xs @ e # entries s ys) = Some e"
    "filter (\<lambda>x. \<not> entry_matches h k bd bufs x) (entries s xs @ e # entries s ys) = entries s xs @ entries s ys"
    using a(2) by (auto simp: find_middle filter_id_conv)
  then show ?thesis using a(1) by (simp add: lru_lookup_def)
qed

lemma total_size_entries:
  assumes "cache_inv s L B" and "set M \<subseteq> set L"
  shows "total_size s M = sum_list (map esize (entries s M))"
proof -
  have "(case dat (heap s) a of Some e \<Rightarrow> esize e | None \<Rightarrow> 0) = esize (the (dat (heap s) a))" if "a \<in> set M" for a
    using in_list_dat [OF assms(1) subsetD [OF assms(2) that]] by auto
  then show ?thesis unfolding total_size_def entries_def by (auto intro!: arg_cong [of _ _ sum_list])
qed

lemma esize_in_use [simp]: "esize (e\<lparr>in_use_count := n\<rparr>) = esize e"
  by (simp add: esize_def)

definition cache_ok :: "cache \<Rightarrow> nat list \<Rightarrow> bool" where
  "cache_ok s L \<longleftrightarrow> (\<exists>B. cache_inv s L B) \<and> size_inv s L 0 \<and> distinct_keys (entries s L)"

definition sizes_ok :: "buffer_t list \<Rightarrow> bool" where
  "sizes_ok bufs \<longleftrightarrow> (\<forall>b \<in> set bufs. \<exists>n. buf_size b = Inr n)"

lemma size_inv_entries:
  assumes "cache_inv s L B" and "cache_inv s' L' B'" and "current_cache_size s' = current_cache_size s"
    and "sum_list (map esize (entries s' L')) = sum_list (map esize (entries s L))"
  shows "size_inv s' L' k = size_inv s L k"
  using assms(3,4) total_size_entries [OF assms(1) subset_refl] total_size_entries [OF assms(2) subset_refl]
  by (simp add: size_inv_def)

lemma same_shape_size: "same_shape b c \<Longrightarrow> buf_size c = buf_size b"
  by (auto simp: same_shape_def buf_size_def)

lemma lookup_refines:
  assumes ok: "cache_ok s L" and sz: "sizes_ok bufs"
  obtains (hit) b es s' L' where "lru_lookup (matches k bd bufs) (length bufs) (entries s L) = Some (b, es)"
      "halide_memoization_cache_lookup k bd bufs s = Inr (0, b, s')" "cache_ok s' L'" "entries s' L' = es"
  | (miss) ret b s' where "lru_lookup (matches k bd bufs) (length bufs) (entries s L) = None"
      "halide_memoization_cache_lookup k bd bufs s = Inr (ret, b, s')" "cache_ok s' L" "entries s' L = entries s L"
      "ret = - 1 \<and> \<not> enough_memory (length bufs) s \<or>
       ret = 1 \<and> list_all2 same_shape bufs b \<and> (bufs \<noteq> [] \<longrightarrow> client_blocks s' (djb_hash k) b)"
proof -
  obtain B where inv: "cache_inv s L B" and si: "size_inv s L 0" and dk: "distinct_keys (entries s L)"
    using ok by (auto simp: cache_ok_def)
  show thesis
  proof (rule lookup_ok [OF inv sz [unfolded sizes_ok_def], of k bd])
    fix a e xs ys s'
    assume a: "dat (heap s) a = Some e" "matches k bd bufs e" "L = xs @ a # ys"
      and r: "halide_memoization_cache_lookup k bd bufs s = Inr (0, buffers e, s')" "cache_inv s' (xs @ ys @ [a]) B"
      "dat (heap s') = (dat (heap s))(a \<mapsto> e\<lparr>in_use_count := (in_use_count e + length bufs) mod 2 ^ 32\<rparr>)"
      "current_cache_size s' = current_cache_size s"
    have an: "a \<notin> set xs" "a \<notin> set ys" using cache_inv_distinct(2) [OF inv] a(3) by auto
    then have "entries s' xs = entries s xs" "entries s' ys = entries s ys"
      using r(3) by (auto intro!: entries_cong)
    then have es: "entries s' (xs @ ys @ [a]) =
        entries s xs @ entries s ys @ [e\<lparr>in_use_count := (in_use_count e + length bufs) mod 2 ^ 32\<rparr>]"
      using r(3) by simp
    have "distinct_keys (entries s' (xs @ ys @ [a]))"
      unfolding es using dk a(1,3) by (intro distinct_keys_move) simp
    moreover have "sum_list (map esize (entries s' (xs @ ys @ [a]))) = sum_list (map esize (entries s L))"
      unfolding es using a(1,3) by simp
    then have "size_inv s' (xs @ ys @ [a]) 0" using size_inv_entries [OF inv r(2,4)] si by simp
    ultimately have "cache_ok s' (xs @ ys @ [a])" using r(2) by (auto simp: cache_ok_def)
    moreover have "lru_lookup (matches k bd bufs) (length bufs) (entries s L) =
        Some (buffers e, entries s' (xs @ ys @ [a]))"
      using lru_lookup_middle [of s xs a ys B, OF _ _ a(1,2)] inv dk a(3) es by simp
    ultimately show thesis using hit r(1) by blast
  next
    fix ret b s'
    assume no: "\<forall>a e. dat (heap s) a = Some e \<longrightarrow> \<not> matches k bd bufs e"
      and r: "halide_memoization_cache_lookup k bd bufs s = Inr (ret, b, s')" "cache_inv s' L B"
      "heap s' = heap s" "current_cache_size s' = current_cache_size s"
      "ret = - 1 \<and> \<not> enough_memory (length bufs) s \<or> ret = 1 \<and> list_all2 same_shape bufs b \<and> (\<forall>b \<in> set b. client_block s' (djb_hash k) b) \<and>
         distinct (map ptr b)"
    have es: "entries s' L = entries s L" using r(3) by (intro entries_cong) simp
    then have "cache_ok s' L" using r(2) dk si size_inv_entries [OF inv r(2,4), of 0] by (auto simp: cache_ok_def)
    moreover have "lru_lookup (matches k bd bufs) (length bufs) (entries s L) = None"
      using no entries_set [OF inv] by (auto simp: lru_lookup_def find_None_iff split: option.splits)
    moreover have "\<exists>n. buf_size y = Inr n" if "list_all2 same_shape bufs b" "y \<in> set b" for y
      using sz that same_shape_size by (fastforce simp: sizes_ok_def list_all2_conv_all_nth in_set_conv_nth)
    then have "ret = - 1 \<and> \<not> enough_memory (length bufs) s \<or> ret = 1 \<and> list_all2 same_shape bufs b \<and> (bufs \<noteq> [] \<longrightarrow> client_blocks s' (djb_hash k) b)"
      using r(5) by (auto simp: client_blocks_def)
    ultimately show thesis using miss r(1) es by blast
  qed
qed

subsection \<open>The other operations\<close>

lemma store_refines:
  assumes ok: "cache_ok s L" and u: "unused_first (entries s L)" and cb: "client_blocks s h bufs"
  obtains s' L' where "halide_memoization_cache_store k bd bufs s = Inr s'" "cache_ok s' L'"
    "entries s' L' = lru_store h k bd bufs (has_memory s) (max_cache_size s) (current_cache_size s) (entries s L)"
    "lru_stored h k bd bufs (entries s L) \<or> \<not> has_memory s \<longrightarrow> client_blocks s' h bufs"
proof -
  obtain B where inv: "cache_inv s L B" and si: "size_inv s L 0" and dk: "distinct_keys (entries s L)"
    using ok by (auto simp: cache_ok_def)
  obtain s' L' B' where s': "halide_memoization_cache_store k bd bufs s = Inr s'" "cache_inv s' L' B'" "size_inv s' L' 0"
    "entries s' L' = lru_store h k bd bufs (has_memory s) (max_cache_size s) (current_cache_size s) (entries s L)"
    "lru_stored h k bd bufs (entries s L) \<or> \<not> has_memory s \<longrightarrow> client_blocks s' h bufs"
    by (rule store_ok [OF inv u si cb, of k bd])
  have "cache_ok s' L'"
    using s'(2,3) distinct_keys_lru_store [OF inv dk] unfolding cache_ok_def s'(4) by blast
  with s'(1,4,5) show thesis by (intro that)
qed

lemma set_size_refines:
  assumes ok: "cache_ok s L" and u: "unused_first (entries s L)" and l: "limit = (if n = 0 then kDefaultCacheSize else n)"
  obtains s' L' where "halide_memoization_cache_set_size n s = Inr s'" "cache_ok s' L'" "max_cache_size s' = limit"
    "entries s' L' = lru_prune limit (current_cache_size s) (entries s L)"
    "current_cache_size s' \<le> limit \<or> list_all (\<lambda>e. 0 < in_use_count e) (entries s' L')"
proof -
  obtain B where inv: "cache_inv s L B" and si: "size_inv s L 0" and dk: "distinct_keys (entries s L)"
    using ok by (auto simp: cache_ok_def)
  obtain us vs where uv: "L = us @ vs" "\<forall>a \<in> set us. \<not> in_use s a" "\<forall>a \<in> set vs. in_use s a"
    by (rule unused_first_split [OF inv u])
  define t where "t = s\<lparr>max_cache_size := limit\<rparr>"
  have "cache_inv t (us @ vs) B" "\<forall>a \<in> set us. \<not> in_use t a" "\<forall>a \<in> set vs. in_use t a" "size_inv t (us @ vs) 0"
    using inv uv si total_size_cong [of "us @ vs" t s] by (simp_all add: t_def size_inv_def)
  then obtain s' us1 us2 B' where s': "us = us1 @ us2" "prune_cache t = Inr s'" "cache_inv s' (us2 @ vs) B'"
    "size_inv s' (us2 @ vs) 0" "pruned t s' us1" "current_cache_size s' \<le> max_cache_size t \<or> us2 = []"
    "entries s' (us2 @ vs) = lru_prune (max_cache_size t) (current_cache_size t) (entries t (us @ vs))"
    by (rule prune_cache_ok)
  have "entries t (us @ vs) = entries s L" unfolding uv(1) by (intro entries_cong) (simp add: t_def)
  then have es: "entries s' (us2 @ vs) = lru_prune limit (current_cache_size s) (entries s L)"
    using s'(7) by (simp add: t_def)
  have "in_use s' a" if "a \<in> set vs" for a
  proof -
    have "a \<notin> set us1" using cache_inv_distinct(2) [OF inv] that uv(1) s'(1) by auto
    then show ?thesis using s'(5) uv(3) that by (simp add: pruned_def t_def)
  qed
  then have "current_cache_size s' \<le> limit \<or> list_all (\<lambda>e. 0 < in_use_count e) (entries s' (us2 @ vs))"
    using s'(6) entries_in_use [of vs s'] by (auto simp: t_def list_all_iff)
  moreover have "cache_ok s' (us2 @ vs)"
    using s'(3,4) distinct_keys_lru_prune [OF dk] unfolding cache_ok_def es by blast
  moreover have "halide_memoization_cache_set_size n s = Inr s'"
    using s'(2) by (simp add: halide_memoization_cache_set_size_def t_def l)
  moreover have "max_cache_size s' = limit" using s'(5) by (simp add: pruned_def t_def)
  ultimately show thesis using es that by blast
qed

text \<open>
  A block can be released by the client that owns it, or by one that has a use of the entry
  it belongs to.
\<close>

definition may_release :: "cache \<Rightarrow> nat \<Rightarrow> bool" where
  "may_release s host \<longleftrightarrow> (case map_of (headers s) (get_pointer_to_header host) of None \<Rightarrow> False
     | Some h \<Rightarrow> header_entry h = 0 \<or> in_use s (header_entry h))"

lemma cache_ok_in_use:
  assumes ok: "cache_ok s L" and e: "map_of (heap s) a = Some e"
  shows "cache_ok (put_entry a (e\<lparr>in_use_count := n\<rparr>) s) L"
proof -
  obtain B where inv: "cache_inv s L B" and si: "size_inv s L 0" and dk: "distinct_keys (entries s L)"
    using ok by (auto simp: cache_ok_def)
  let ?s = "put_entry a (e\<lparr>in_use_count := n\<rparr>) s"
  have inv': "cache_inv ?s L B" by (rule cache_inv_in_use [OF inv e])
  have d: "dat (heap s) a = Some (contents e)" using e by (simp add: dat_def)
  have "same_key (the (dat (heap ?s) x)) (the (dat (heap ?s) y)) = same_key (the (dat (heap s) x)) (the (dat (heap s) y))" for x y
    unfolding dat_in_use [OF e] using d by simp
  then have "distinct_keys (entries ?s L)" using dk by (simp add: distinct_keys_def entries_def sorted_wrt_map)
  moreover have "esize (the (dat (heap ?s) x)) = esize (the (dat (heap s) x))" for x
    unfolding dat_in_use [OF e] using d by simp
  then have "sum_list (map esize (entries ?s L)) = sum_list (map esize (entries s L))" by (simp add: entries_def comp_def)
  then have "size_inv ?s L 0" using si size_inv_entries [OF inv inv', of 0] by (simp add: put_entry_def)
  ultimately show ?thesis using inv' by (auto simp: cache_ok_def)
qed

lemma release_client:
  assumes inv: "cache_inv s L B" and h: "map_of (headers s) (get_pointer_to_header host) = Some h" "header_entry h = 0"
  shows "\<exists>s'. halide_memoization_cache_release host s = Inr s' \<and> cache_inv s' L B \<and> heap s' = heap s \<and>
    current_cache_size s' = current_cache_size s \<and> map_of (headers s') (get_pointer_to_header host) = None"
proof -
  let ?q = "get_pointer_to_header host"
  let ?hs = "AList.delete ?q (headers s)"
  have "map_of ?hs (ptr b) = map_of (headers s) (ptr b)" if "dat (heap s) a = Some e" "b \<in> set (buffers e)" for a e b
    using entry_ok_block [OF own_inv_D [OF inv that(1)] that(2)] cache_inv_dat(2) [OF inv that(1)] h
    by (auto simp: AList.delete_conv')
  then have "cache_inv (s\<lparr>headers := ?hs, pool := pool s\<rparr>) L B"
    using inv by (intro cache_inv_headers) (auto simp: AList.delete_conv' cache_inv_def pool_inv_def)
  then show ?thesis using h
    by (intro exI [of _ "s\<lparr>headers := ?hs\<rparr>"])
      (simp add: halide_memoization_cache_release_def get_header_def free_header_def AList.delete_conv')
qed

lemma release_ok:
  assumes ok: "cache_ok s L" and m: "may_release s host"
  obtains (client) s' where "halide_memoization_cache_release host s = Inr s'" "cache_ok s' L" "heap s' = heap s"
      "map_of (headers s') (get_pointer_to_header host) = None"
  | (entry) s' h e where "halide_memoization_cache_release host s = Inr s'" "cache_ok s' L"
      "map_of (headers s) (get_pointer_to_header host) = Some h" "dat (heap s) (header_entry h) = Some e"
      "dat (heap s') = (dat (heap s))(header_entry h \<mapsto> e\<lparr>in_use_count := in_use_count e - 1\<rparr>)"
proof -
  obtain B where inv: "cache_inv s L B" and si: "size_inv s L 0" and dk: "distinct_keys (entries s L)"
    using ok by (auto simp: cache_ok_def)
  obtain h where h: "map_of (headers s) (get_pointer_to_header host) = Some h" "header_entry h = 0 \<or> in_use s (header_entry h)"
    using m by (auto simp: may_release_def split: option.splits)
  show thesis
  proof (cases "header_entry h = 0")
    case True
    obtain s' where s': "halide_memoization_cache_release host s = Inr s'" "cache_inv s' L B" "heap s' = heap s"
      "current_cache_size s' = current_cache_size s" "map_of (headers s') (get_pointer_to_header host) = None"
      using release_client [OF inv h(1) True] by blast
    have es: "entries s' L = entries s L" using s'(3) by (intro entries_cong) simp
    then have "cache_ok s' L" using s'(2) dk si size_inv_entries [OF inv s'(2,4), of 0] by (auto simp: cache_ok_def)
    with s' show thesis by (intro client)
  next
    case False
    obtain e where e: "map_of (heap s) (header_entry h) = Some e" "0 < in_use_count e"
      using h(2) False by (auto simp: dat_def split: option.splits)
    let ?s = "put_entry (header_entry h) (e\<lparr>in_use_count := in_use_count e - 1\<rparr>) s"
    have "halide_memoization_cache_release host s = Inr ?s"
      using h(1) False e by (simp add: halide_memoization_cache_release_def get_header_def)
    moreover have "dat (heap s) (header_entry h) = Some (contents e)" using e(1) by (simp add: dat_def)
    ultimately show thesis
      using entry [OF _ cache_ok_in_use [OF ok e(1)] h(1)] dat_in_use [OF e(1)] by simp
  qed
qed

subsection \<open>Sessions\<close>

text \<open>
  The calls of a client and what it has to respect: the blocks of a store come from a failed
  lookup and are still its own, a release gives up a use it has, and an operation that
  prunes is called when no entry in use is older than one not in use.
\<close>

datatype cache_op =
    Lookup "nat list" buffer_t "buffer_t list"
  | Store "nat list" buffer_t "buffer_t list"
  | Release nat
  | Set_size int

definition in_order :: "cache \<Rightarrow> bool" where
  "in_order s \<longleftrightarrow> (\<exists>L. list_inv s L \<and> unused_first (entries s L))"

fun allowed :: "cache \<Rightarrow> cache_op \<Rightarrow> bool" where
  "allowed s (Lookup k bd bufs) \<longleftrightarrow> sizes_ok bufs"
| "allowed s (Store k bd bufs) \<longleftrightarrow> in_order s \<and> (\<exists>h. client_blocks s h bufs)"
| "allowed s (Release host) \<longleftrightarrow> may_release s host"
| "allowed s (Set_size n) \<longleftrightarrow> in_order s"

fun run_op :: "cache_op \<Rightarrow> cache \<Rightarrow> cache result" where
  "run_op (Lookup k bd bufs) s = rbind (halide_memoization_cache_lookup k bd bufs s) (\<lambda>(_, _, s). Inr s)"
| "run_op (Store k bd bufs) s = halide_memoization_cache_store k bd bufs s"
| "run_op (Release host) s = halide_memoization_cache_release host s"
| "run_op (Set_size n) s = halide_memoization_cache_set_size n s"

inductive reachable :: "nat list \<Rightarrow> cache \<Rightarrow> bool" for p where
  init: "distinct (filter (\<lambda>a. a \<noteq> 0) p) \<Longrightarrow> reachable p (empty_cache p)"
| step: "reachable p s \<Longrightarrow> allowed s op \<Longrightarrow> run_op op s = Inr s' \<Longrightarrow> reachable p s'"

lemma dll_unique:
  "dll l q xs 0 \<Longrightarrow> dll l q ys 0 \<Longrightarrow> first xs 0 = first ys 0 \<Longrightarrow> 0 \<notin> set xs \<Longrightarrow> 0 \<notin> set ys \<Longrightarrow> xs = ys"
proof (induction xs arbitrary: q ys)
  case Nil
  then show ?case by (cases ys) auto
next
  case (Cons x xs)
  then obtain ys' where ys: "ys = x # ys'" by (cases ys) auto
  have "xs = ys'" using Cons.prems ys by (intro Cons.IH [of x ys']) auto
  then show ?case using ys by simp
qed

lemma list_inv_unique:
  assumes "list_inv s L" and "list_inv s M"
  shows "L = M"
proof (rule dll_unique)
  show "dll (lnk (heap s)) 0 L 0" "dll (lnk (heap s)) 0 M 0" "0 \<notin> set L" "0 \<notin> set M"
    using assms unfolding list_inv_def by blast+
  show "first L 0 = first M 0" using assms unfolding list_inv_def by metis
qed

lemma cache_ok_list_inv: "cache_ok s L \<Longrightarrow> list_inv s L"
  by (auto simp: cache_ok_def cache_inv_def)

lemma in_order_unused_first: "cache_ok s L \<Longrightarrow> in_order s \<longleftrightarrow> unused_first (entries s L)"
  using list_inv_unique cache_ok_list_inv unfolding in_order_def by metis

lemma empty_cache_ok: "distinct (filter (\<lambda>a. a \<noteq> 0) p) \<Longrightarrow> cache_ok (empty_cache p) []"
  by (auto simp: cache_ok_def empty_cache_def cache_inv_def list_inv_def table_inv_def own_inv_def pool_inv_def
      heap_views size_inv_def total_size_def distinct_keys_def to_int64_def entries_def intro!: exI [of _ "\<lambda>i. []"])

lemma allowed_op_ok:
  assumes ok: "cache_ok s L" and a: "allowed s op"
  shows "\<exists>s' L'. run_op op s = Inr s' \<and> cache_ok s' L'"
proof (cases op)
  case (Lookup k bd bufs)
  then show ?thesis using lookup_refines [OF ok, of bufs k bd] a by fastforce
next
  case (Store k bd bufs)
  then obtain h where "client_blocks s h bufs" "unused_first (entries s L)"
    using a in_order_unused_first [OF ok] by auto
  then show ?thesis by (auto simp: Store elim!: store_refines [OF ok, where k = k and bd = bd])
next
  case (Release host)
  then have "may_release s host" using a by simp
  then show ?thesis by (rule release_ok [OF ok]) (use Release in auto)
next
  case (Set_size n)
  then have "unused_first (entries s L)" using a in_order_unused_first [OF ok] by simp
  then show ?thesis by (rule set_size_refines [OF ok _ refl, of n]) (use Set_size in auto)
qed

lemma reachable_ok: "reachable p s \<Longrightarrow> \<exists>L. cache_ok s L"
proof (induction rule: reachable.induct)
  case init
  then show ?case using empty_cache_ok by blast
next
  case (step s op s')
  then show ?case using allowed_op_ok by fastforce
qed

subsection \<open>Lookups as an interface\<close>

fun run_looks :: "('q \<Rightarrow> 's \<Rightarrow> 'v option \<times> 's) \<Rightarrow> 'q list \<Rightarrow> 's \<Rightarrow> 'v option list \<times> 's" where
  "run_looks look [] s = ([], s)"
| "run_looks look (q # qs) s =
     (let (v, s) = look q s; (vs, s) = run_looks look qs s in (v # vs, s))"

text \<open>
  What a memoizing client relies on: a lookup answers with what the table has for the query,
  and disturbs neither the table nor the answer to any other query.
\<close>

locale memo_table =
  fixes ok :: "'s \<Rightarrow> bool" and valid :: "'q \<Rightarrow> bool"
    and peek :: "'q \<Rightarrow> 's \<Rightarrow> 'v option" and look :: "'q \<Rightarrow> 's \<Rightarrow> 'v option \<times> 's"
  assumes look_ok: "ok s \<Longrightarrow> valid q \<Longrightarrow> ok (snd (look q s))"
    and look_peek: "ok s \<Longrightarrow> valid q \<Longrightarrow> fst (look q s) = peek q s"
    and peek_look: "ok s \<Longrightarrow> valid q \<Longrightarrow> peek q' (snd (look q s)) = peek q' s"
begin

lemma run_looks_peek:
  "ok s \<Longrightarrow> list_all valid qs \<Longrightarrow> run_looks look qs s = (vs, s') \<Longrightarrow>
   ok s' \<and> vs = map (\<lambda>q. peek q s) qs \<and> (\<forall>q. peek q s' = peek q s)"
proof (induction qs arbitrary: s vs)
  case (Cons q qs)
  obtain v t where t: "look q s = (v, t)" by fastforce
  obtain ws where ws: "run_looks look qs t = (ws, s')" "vs = v # ws"
    using Cons.prems(3) t by (auto split: prod.splits)
  have "ok t" "v = peek q s" "\<And>q'. peek q' t = peek q' s"
    using look_ok [of s q] look_peek [of s q] peek_look [of s q] Cons.prems t by auto
  then show ?case using Cons.IH [of t ws] Cons.prems(2) ws by simp
qed simp

end

definition cache_look ::
  "nat list \<times> buffer_t \<times> buffer_t list \<Rightarrow> cache \<Rightarrow> buffer_t list option \<times> cache" where
  "cache_look q s = (case q of (k, bd, bufs) \<Rightarrow>
     (case halide_memoization_cache_lookup k bd bufs s of
        Inr (r, b, s') \<Rightarrow> (if r = 0 then Some b else None, s') | Inl _ \<Rightarrow> (None, s)))"

definition cache_peek :: "nat list \<times> buffer_t \<times> buffer_t list \<Rightarrow> cache \<Rightarrow> buffer_t list option" where
  "cache_peek q s = (case q of (k, bd, bufs) \<Rightarrow>
     map_option buffers (List.find (matches k bd bufs) (map snd (heap s))))"

lemma distinct_keys_nth:
  "distinct_keys es \<Longrightarrow> i < length es \<Longrightarrow> j < length es \<Longrightarrow> same_key (es ! i) (es ! j) \<Longrightarrow> i = j"
  unfolding distinct_keys_def sorted_wrt_iff_nth_less using same_key_sym by (metis linorder_neqE_nat)

lemma one_match:
  assumes inv: "cache_inv s L B" and dk: "distinct_keys (entries s L)"
    and a: "dat (heap s) a = Some e" "entry_matches h k bd bufs e"
    and b: "dat (heap s) b = Some f" "entry_matches h k bd bufs f"
  shows "a = b"
proof -
  obtain i j where ij: "i < length L" "L ! i = a" "j < length L" "L ! j = b"
    using cache_inv_dat(1) [OF inv a(1)] cache_inv_dat(1) [OF inv b(1)] by (auto simp: in_set_conv_nth)
  have "same_key e f" using entry_matches_same_key [OF own_inv_D [OF inv a(1)] own_inv_D [OF inv b(1)] a(2) b(2)] .
  then have "i = j" using distinct_keys_nth [OF dk, of i j] ij a(1) b(1) by (simp add: entries_def)
  then show ?thesis using ij by simp
qed

lemma find_SomeD: "List.find p xs = Some x \<Longrightarrow> x \<in> set xs \<and> p x"
  by (induction xs) (auto split: if_splits)

lemma cache_peek_Some:
  assumes ok: "cache_ok s L"
  shows "cache_peek (k, bd, bufs) s = Some v \<longleftrightarrow> (\<exists>a e. dat (heap s) a = Some e \<and> matches k bd bufs e \<and> v = buffers e)"
proof -
  obtain B where inv: "cache_inv s L B" and dk: "distinct_keys (entries s L)" using ok by (auto simp: cache_ok_def)
  have dm: "distinct (map fst (heap s))" using inv unfolding cache_inv_def list_inv_def by blast
  show ?thesis
  proof (cases "List.find (matches k bd bufs) (map snd (heap s))")
    case None
    then have "\<not> matches k bd bufs e" if "dat (heap s) a = Some e" for a e
      using that map_of_SomeD [of "heap s" a] by (force simp: dat_def find_None_iff)
    then show ?thesis using None by (auto simp: cache_peek_def)
  next
    case (Some e)
    then obtain a where ae: "(a, e) \<in> set (heap s)" and m: "matches k bd bufs e"
      using find_SomeD [OF Some] by auto
    then have d: "dat (heap s) a = Some (contents e)" using dm by (simp add: dat_def map_of_is_SomeI)
    have "v = buffers e" if "dat (heap s) b = Some f" "matches k bd bufs f" "v = buffers f" for b f
      using one_match [OF inv dk d _ that(1,2)] m d that by simp
    moreover have "cache_peek (k, bd, bufs) s = Some (buffers e)" using Some by (simp add: cache_peek_def)
    moreover have "matches k bd bufs (contents e)" "buffers (contents e) = buffers e" using m by simp_all
    ultimately show ?thesis using d by (metis option.inject)
  qed
qed

lemma cache_look_ok:
  assumes ok: "cache_ok s L" and q: "q = (k, bd, bufs)" and sz: "sizes_ok bufs"
  shows "\<exists>L'. cache_ok (snd (cache_look q s)) L'" and "fst (cache_look q s) = cache_peek q s"
    and "cache_peek q' (snd (cache_look q s)) = cache_peek q' s"
proof -
  obtain k' bd' bufs' where q': "q' = (k', bd', bufs')" by (cases q')
  have eqI: "(\<And>v. x = Some v \<longleftrightarrow> y = Some v) \<Longrightarrow> x = y" for x y :: "buffer_t list option"
    by (cases y) (metis option.exhaust)+
  obtain B where inv: "cache_inv s L B" using ok by (auto simp: cache_ok_def)
  show 1: "\<exists>L'. cache_ok (snd (cache_look q s)) L'"
    by (rule lookup_refines [OF ok sz, of k bd]) (auto simp: cache_look_def q)
  then obtain L' where ok': "cache_ok (snd (cache_look q s)) L'" by blast
  have "fst (cache_look q s) = cache_peek q s \<and> cache_peek q' (snd (cache_look q s)) = cache_peek q' s"
  proof (rule lookup_ok [OF inv sz [unfolded sizes_ok_def], of k bd])
    fix a e xs ys s'
    assume a: "dat (heap s) a = Some e" "matches k bd bufs e"
      and r: "halide_memoization_cache_lookup k bd bufs s = Inr (0, buffers e, s')"
      and d: "dat (heap s') = (dat (heap s))(a \<mapsto> e\<lparr>in_use_count := (in_use_count e + length bufs) mod 2 ^ 32\<rparr>)"
    have l: "cache_look q s = (Some (buffers e), s')" using r by (simp add: cache_look_def q)
    have m: "entry_matches h k' bd' bufs' (f\<lparr>in_use_count := n\<rparr>) = entry_matches h k' bd' bufs' f" for h f n
      by (simp add: entry_matches_def)
    have ok1: "cache_ok s' L'" using ok' l by simp
    have "cache_peek (k', bd', bufs') s' = Some v \<longleftrightarrow> cache_peek (k', bd', bufs') s = Some v" for v
      unfolding cache_peek_Some [OF ok] cache_peek_Some [OF ok1] d using a(1) by (auto simp: m split: if_splits) (metis option.inject)
    then have "cache_peek q' s' = cache_peek q' s" unfolding q' by (rule eqI)
    moreover have "cache_peek q s = Some (buffers e)" unfolding q using a by (auto simp: cache_peek_Some [OF ok])
    ultimately show ?thesis using l by simp
  next
    fix ret b s'
    assume no: "\<forall>a e. dat (heap s) a = Some e \<longrightarrow> \<not> matches k bd bufs e"
      and r: "halide_memoization_cache_lookup k bd bufs s = Inr (ret, b, s')" and hs: "heap s' = heap s"
      and ret: "ret = - 1 \<and> \<not> enough_memory (length bufs) s \<or> ret = 1 \<and> list_all2 same_shape bufs b \<and> (\<forall>b\<in>set b. client_block s' (djb_hash k) b) \<and> distinct (map ptr b)"
    have "cache_look q s = (None, s')" using r ret by (auto simp: cache_look_def q)
    moreover have "cache_peek q s = None"
      using no cache_peek_Some [OF ok, of k bd bufs] unfolding q by (metis option.exhaust)
    moreover have "cache_peek q' s' = cache_peek q' s" by (simp add: cache_peek_def hs)
    ultimately show ?thesis by simp
  qed
  then show "fst (cache_look q s) = cache_peek q s" "cache_peek q' (snd (cache_look q s)) = cache_peek q' s" by blast+
qed

interpretation mc: memo_table "\<lambda>s. \<exists>L. cache_ok s L" "\<lambda>(k, bd, bufs). sizes_ok bufs" cache_peek cache_look
proof
  fix s q q' assume "\<exists>L. cache_ok s L" and v: "(\<lambda>(k :: nat list, bd :: buffer_t, bufs). sizes_ok bufs) q"
  then obtain L where ok: "cache_ok s L" by blast
  obtain k bd bufs where q: "q = (k, bd, bufs)" by (cases q)
  then have sz: "sizes_ok bufs" using v by simp
  show "\<exists>L. cache_ok (snd (cache_look q s)) L" by (rule cache_look_ok(1) [OF ok q sz])
  show "fst (cache_look q s) = cache_peek q s" by (rule cache_look_ok(2) [OF ok q sz])
  show "cache_peek q' (snd (cache_look q s)) = cache_peek q' s" by (rule cache_look_ok(3) [OF ok q sz])
qed

end
