(* ===== verification/MemoCacheFacts.thy ===== *)
theory MemoCacheFacts
  imports MemoCacheRefine
begin

text \<open>
  What the memoization cache guarantees, a concrete session on which the guarantees apply,
  and the session on which pruning follows a pointer to freed memory.
\<close>

subsection \<open>A session\<close>

text \<open>A one-dimensional buffer of four bytes, the allocator's addresses, and the first calls.\<close>

definition ex_buf :: buffer_t where
  "ex_buf = \<lparr>buf_dev = 0, buf_host = 0, buf_extent = (4, 1, 1, 1), buf_stride = (1, 4, 4, 4), buf_min = (0, 0, 0, 0),
     buf_elem_size = 1, buf_host_dirty = False, buf_dev_dirty = False\<rparr>"

definition ex_pool :: "nat list" where
  "ex_pool = [100, 200, 300, 400, 500, 600]"

definition ex_entry :: "nat \<Rightarrow> nat \<Rightarrow> nat \<Rightarrow> nat \<Rightarrow> nat \<Rightarrow> nat \<Rightarrow> CacheEntry" where
  "ex_entry k h m l uses host = \<lparr>next_entry = 0, more_recent = m, less_recent = l, key_size = 1, key = [k],
     hash = h, in_use_count = uses, tuple_count = 1, computed_bounds = ex_buf, buffers = [ex_buf\<lparr>buf_host := host\<rparr>]\<rparr>"

definition ex_cache1 :: cache where
  "ex_cache1 = (empty_cache [200, 300, 400, 500, 600])\<lparr>headers := [(100, \<lparr>header_entry = 0, header_hash = 177580\<rparr>)]\<rparr>"

definition ex_cache :: "(nat \<times> CacheEntry) list \<Rightarrow> (nat \<times> CacheBlockHeader) list \<Rightarrow> nat \<Rightarrow> int \<Rightarrow> int \<Rightarrow> nat list \<Rightarrow> cache" where
  "ex_cache hp hs b sz lim p = \<lparr>heap = hp, headers = hs, cache_entries = (if b = 0 then (\<lambda>i. 0)(172 := 200) else (\<lambda>i. 0)(172 := 200, 173 := b)),
     most_recently_used = (if b = 0 then 200 else b), least_recently_used = 200,
     max_cache_size = lim, current_cache_size = sz, pool = p\<rparr>"

definition ex_cache2 :: cache where
  "ex_cache2 = ex_cache [(200, ex_entry 7 177580 0 0 1 116)] [(100, \<lparr>header_entry = 200, header_hash = 177580\<rparr>)] 0 4
     kDefaultCacheSize [400, 500, 600]"

lemma djb_hash_ex: "djb_hash [7] = 177580" "djb_hash [8] = 177581"
  by (simp_all add: djb_hash_def)

lemma to_int64_small: "- (2 ^ 63) \<le> n \<Longrightarrow> n < 2 ^ 63 \<Longrightarrow> to_int64 n = n"
  by (simp add: to_int64_eq signed_take_bit_int_eq_self)

lemma buf_size_ex [simp]: "buf_size (ex_buf\<lparr>buf_host := p\<rparr>) = Inr 4" "buf_size ex_buf = Inr 4"
  by (simp_all add: ex_buf_def buf_size_def size_step_def check32_def in_int32_def)

lemma ex_buf_null [simp]: "ex_buf\<lparr>buf_host := 0, buf_dev := 0\<rparr> = ex_buf"
  "ex_buf\<lparr>buf_host := p, buf_dev := 0\<rparr> = ex_buf\<lparr>buf_host := p\<rparr>" "buf_host (ex_buf\<lparr>buf_host := p\<rparr>) = p"
  by (simp_all add: ex_buf_def)

lemma ex_lookup1: "halide_memoization_cache_lookup [7] ex_buf [ex_buf] (empty_cache ex_pool) =
    Inr (1, [ex_buf\<lparr>buf_host := 116\<rparr>], ex_cache1)"
  by (simp add: halide_memoization_cache_lookup_def djb_hash_ex find_entry.simps empty_cache_def ex_pool_def
      halide_malloc_def extra_bytes_host_bytes_def ex_cache1_def)

lemmas run_cache = Let_def get_header_def get_pointer_to_header_def extra_bytes_host_bytes_def halide_malloc_def
  kHashTableSize_def find_entry.simps prune_cache_def prune_loop.simps link_entry_def put_entry_def upd_entry_def get_entry_def
  CacheEntry_init_def empty_cache_def ex_entry_def

lemma ex_store1: "halide_memoization_cache_store [7] ex_buf [ex_buf\<lparr>buf_host := 116\<rparr>] ex_cache1 = Inr ex_cache2"
  by (simp add: halide_memoization_cache_store_def ex_cache1_def ex_cache2_def ex_cache_def run_cache to_int64_small kDefaultCacheSize_def)


definition ex_bug_ops :: "cache_op list" where
  "ex_bug_ops = [Lookup [7] ex_buf [ex_buf], Store [7] ex_buf [ex_buf\<lparr>buf_host := 116\<rparr>],
     Lookup [8] ex_buf [ex_buf], Store [8] ex_buf [ex_buf\<lparr>buf_host := 416\<rparr>],
     Release 416, Set_size 4, Release 116]"

fun run_ops :: "cache_op list \<Rightarrow> cache \<Rightarrow> cache result" where
  "run_ops [] s = Inr s"
| "run_ops (op # ops) s = rbind (run_op op s) (run_ops ops)"

abbreviation "ex_h1 \<equiv> (100, \<lparr>header_entry = 200, header_hash = 177580\<rparr>)"

lemma ex_lookup2: "run_op (Lookup [8] ex_buf [ex_buf]) ex_cache2 =
   Inr (ex_cache [(200, ex_entry 7 177580 0 0 1 116)] [ex_h1, (400, \<lparr>header_entry = 0, header_hash = 177581\<rparr>)] 0 4 kDefaultCacheSize [500, 600])"
  by (simp add: halide_memoization_cache_lookup_def djb_hash_ex run_cache ex_cache2_def ex_cache_def)

lemma ex_store2: "run_op (Store [8] ex_buf [ex_buf\<lparr>buf_host := 416\<rparr>])
    (ex_cache [(200, ex_entry 7 177580 0 0 1 116)] [ex_h1, (400, \<lparr>header_entry = 0, header_hash = 177581\<rparr>)] 0 4 kDefaultCacheSize [500, 600]) =
   Inr (ex_cache [(200, ex_entry 7 177580 500 0 1 116), (500, ex_entry 8 177581 0 200 1 416)]
     [ex_h1, (400, \<lparr>header_entry = 500, header_hash = 177581\<rparr>)] 500 8 kDefaultCacheSize [])"
  by (simp add: halide_memoization_cache_store_def run_cache ex_cache_def to_int64_small kDefaultCacheSize_def)


lemma ex_release2: "run_op (Release 416)
   (ex_cache [(200, ex_entry 7 177580 500 0 1 116), (500, ex_entry 8 177581 0 200 1 416)]
     [ex_h1, (400, \<lparr>header_entry = 500, header_hash = 177581\<rparr>)] 500 8 kDefaultCacheSize []) =
   Inr (ex_cache [(200, ex_entry 7 177580 500 0 1 116), (500, ex_entry 8 177581 0 200 0 416)]
     [ex_h1, (400, \<lparr>header_entry = 500, header_hash = 177581\<rparr>)] 500 8 kDefaultCacheSize [])"
  by (simp add: halide_memoization_cache_release_def run_cache ex_cache_def)

lemmas run_evict = evict_def unlink_hash_def unlink_recent_def CacheEntry_destroy_def free_header_def free_entry_def

lemma ex_set_size: "run_op (Set_size 4)
   (ex_cache [(200, ex_entry 7 177580 500 0 1 116), (500, ex_entry 8 177581 0 200 0 416)]
     [ex_h1, (400, \<lparr>header_entry = 500, header_hash = 177581\<rparr>)] 500 8 kDefaultCacheSize []) =
   Inr (ex_cache [(200, ex_entry 7 177580 500 0 1 116)] [ex_h1] 0 4 4 [])"
  by (simp add: halide_memoization_cache_set_size_def run_evict run_cache ex_cache_def to_int64_small fun_upd_idem_iff)

lemma ex_release1: "run_op (Release 116) (ex_cache [(200, ex_entry 7 177580 500 0 1 116)] [ex_h1] 0 4 4 []) =
   Inr (ex_cache [(200, ex_entry 7 177580 500 0 0 116)] [ex_h1] 0 4 4 [])"
  by (simp add: halide_memoization_cache_release_def run_cache ex_cache_def)

lemma ex_set_size1: "run_op (Set_size 1) (ex_cache [(200, ex_entry 7 177580 500 0 0 116)] [ex_h1] 0 4 4 []) = Inl Undefined_behaviour"
  by (simp add: halide_memoization_cache_set_size_def run_evict run_cache ex_cache_def to_int64_small)

lemma ex_first_ops: "run_op (Lookup [7] ex_buf [ex_buf]) (empty_cache ex_pool) = Inr ex_cache1"
  "run_op (Store [7] ex_buf [ex_buf\<lparr>buf_host := 116\<rparr>]) ex_cache1 = Inr ex_cache2"
  by (simp_all add: ex_lookup1 ex_store1)

lemma run_ops_bug: "run_ops ex_bug_ops (empty_cache ex_pool) = Inr (ex_cache [(200, ex_entry 7 177580 500 0 0 116)] [ex_h1] 0 4 4 [])"
  by (simp add: ex_bug_ops_def ex_first_ops ex_lookup2 ex_store2 ex_release2 ex_set_size ex_release1
      del: rbind_eq_Inr run_op.simps One_nat_def)

lemma ex_reachable:
  "reachable ex_pool (empty_cache ex_pool)" "reachable ex_pool ex_cache1" "reachable ex_pool ex_cache2"
proof -
  show 0: "reachable ex_pool (empty_cache ex_pool)" by (rule reachable.init) (simp add: ex_pool_def)
  have "allowed (empty_cache ex_pool) (Lookup [7] ex_buf [ex_buf])" by (simp add: sizes_ok_def)
  then show 1: "reachable ex_pool ex_cache1" by (rule reachable.step [OF 0]) (simp add: ex_lookup1)
  have "client_blocks ex_cache1 177580 [ex_buf\<lparr>buf_host := 116\<rparr>]"
    by (simp add: client_blocks_def client_block_def ex_cache1_def run_cache)
  moreover have "list_inv ex_cache1 []" by (simp add: list_inv_def ex_cache1_def empty_cache_def)
  then have "in_order ex_cache1" unfolding in_order_def by (intro exI [of _ "[]"]) (simp add: unused_first_def)
  ultimately have "allowed ex_cache1 (Store [7] ex_buf [ex_buf\<lparr>buf_host := 116\<rparr>])" by auto
  then show "reachable ex_pool ex_cache2" by (rule reachable.step [OF 1]) (simp add: ex_store1)
qed

lemma ex_list_inv: "list_inv (empty_cache ex_pool) []" "list_inv ex_cache1 []" "list_inv ex_cache2 [200]"
  by (simp_all add: list_inv_def ex_cache1_def empty_cache_def ex_cache2_def ex_cache_def lnk_def ex_entry_def)

lemma cache_ok_reachable: "reachable p s \<Longrightarrow> list_inv s L \<Longrightarrow> cache_ok s L"
  using reachable_ok cache_ok_list_inv list_inv_unique by metis

lemma ex_cache_ok: "cache_ok (empty_cache ex_pool) []" "cache_ok ex_cache1 []" "cache_ok ex_cache2 [200]"
  using cache_ok_reachable ex_reachable ex_list_inv by metis+

lemma ex_entries2: "entries ex_cache2 [200] = [ex_entry 7 177580 0 0 1 116]"
  by (simp add: ex_cache2_def ex_cache_def dat_def contents_def ex_entry_def)

lemma ex_client: "client_blocks ex_cache1 177580 [ex_buf\<lparr>buf_host := 116\<rparr>]"
  by (simp add: client_blocks_def client_block_def ex_cache1_def run_cache)

subsection \<open>Properties\<close>

text \<open>C16: A lookup in a well-formed cache never fails an assertion or reads freed memory, and
  answers as the abstract cache does: when an entry has the key, the bounds and the shapes
  asked for, its buffers are returned with code 0 and it becomes the most recently used one,
  with its uses counted; otherwise the cache is unchanged and the code is 1, with newly
  allocated blocks of the shapes asked for that belong to the caller, or -1, only when the
  allocator failed.\<close>

theorem lookup_refines_lru:
  assumes "cache_ok s L" and "sizes_ok bufs"
  shows "\<exists>r b s' L'. halide_memoization_cache_lookup k bd bufs s = Inr (r, b, s') \<and> cache_ok s' L' \<and>
    (case lru_lookup (matches k bd bufs) (length bufs) (entries s L) of
       Some (v, es) \<Rightarrow> r = 0 \<and> b = v \<and> entries s' L' = es
     | None \<Rightarrow> entries s' L' = entries s L \<and>
         (r = - 1 \<and> \<not> enough_memory (length bufs) s \<or>
          r = 1 \<and> list_all2 same_shape bufs b \<and> (bufs \<noteq> [] \<longrightarrow> client_blocks s' (djb_hash k) b)))"
proof (rule lookup_refines [OF assms, of k bd], goal_cases)
  case (1 b es s' L')
  then show ?case by (intro exI [of _ 0] exI [of _ b] exI [of _ s'] exI [of _ L']) simp
next
  case (2 ret b s')
  then show ?case by (intro exI [of _ ret] exI [of _ b] exI [of _ s'] exI [of _ L]) simp
qed

theorem lookup_refines_lru_witness:
  "\<exists>s' L'. halide_memoization_cache_lookup [7] ex_buf [ex_buf] ex_cache2 = Inr (0, [ex_buf\<lparr>buf_host := 116\<rparr>], s') \<and>
     cache_ok s' L' \<and> entries s' L' = [ex_entry 7 177580 0 0 2 116]"
proof -
  have "lru_lookup (matches [7] ex_buf [ex_buf]) (length [ex_buf]) (entries ex_cache2 [200]) =
      Some ([ex_buf\<lparr>buf_host := 116\<rparr>], [ex_entry 7 177580 0 0 2 116])"
    unfolding ex_entries2 by (simp add: lru_lookup_def entry_matches_def djb_hash_ex ex_entry_def keys_equal_def bounds_equal_def)
  then show ?thesis
    using lookup_refines_lru [OF ex_cache_ok(3), of "[ex_buf]" "[7]" ex_buf] by (auto simp: sizes_ok_def)
qed

text \<open>C17: A store in a well-formed cache whose unused entries are its oldest ones never
  fails, and refines the abstract store: an entry that is already there is kept and the
  caller keeps its blocks; otherwise the least recently used unused entries are dropped until
  the new size fits under the limit or only entries in use are left, and the new entry is
  appended with one use for each buffer, unless the allocator has no room for it, when the
  caller keeps its blocks.\<close>

theorem store_refines_lru:
  assumes "cache_ok s L" and "unused_first (entries s L)" and "client_blocks s h bufs"
  shows "\<exists>s' L'. halide_memoization_cache_store k bd bufs s = Inr s' \<and> cache_ok s' L' \<and>
    entries s' L' = lru_store h k bd bufs (has_memory s) (max_cache_size s) (current_cache_size s) (entries s L) \<and>
    (lru_stored h k bd bufs (entries s L) \<or> \<not> has_memory s \<longrightarrow> client_blocks s' h bufs)"
  by (rule store_refines [OF assms, of k bd]) blast

theorem store_refines_lru_witness:
  "\<exists>s' L'. halide_memoization_cache_store [7] ex_buf [ex_buf\<lparr>buf_host := 116\<rparr>] ex_cache1 = Inr s' \<and> cache_ok s' L' \<and>
     entries s' L' = [new_entry [7] 177580 ex_buf [ex_buf\<lparr>buf_host := 116\<rparr>]]"
proof -
  have "has_memory ex_cache1" by (simp add: ex_cache1_def has_memory_def empty_cache_def)
  then have "lru_store 177580 [7] ex_buf [ex_buf\<lparr>buf_host := 116\<rparr>] (has_memory ex_cache1) (max_cache_size ex_cache1)
      (current_cache_size ex_cache1) (entries ex_cache1 []) = [new_entry [7] 177580 ex_buf [ex_buf\<lparr>buf_host := 116\<rparr>]]"
    by (simp add: lru_store_def lru_stored_def)
  then show ?thesis
    using store_refines_lru [OF ex_cache_ok(2) _ ex_client, of "[7]" ex_buf] by (auto simp: unused_first_def)
qed

text \<open>C20: Setting the limit of a well-formed cache whose unused entries are its oldest ones
  drops the least recently used ones, in order, and stops at the limit: afterwards the
  counted size is at most the limit, the default of one megabyte when 0 is given, or every
  entry left is in use.\<close>

theorem set_size_bounds_cache:
  assumes "cache_ok s L" and "unused_first (entries s L)" and "limit = (if n = 0 then kDefaultCacheSize else n)"
  shows "\<exists>s' L'. halide_memoization_cache_set_size n s = Inr s' \<and> cache_ok s' L' \<and> max_cache_size s' = limit \<and>
    entries s' L' = lru_prune limit (current_cache_size s) (entries s L) \<and>
    (current_cache_size s' \<le> limit \<or> list_all (\<lambda>e. 0 < in_use_count e) (entries s' L'))"
  by (rule set_size_refines [OF assms]) blast

theorem set_size_bounds_cache_witness:
  "\<exists>s' L'. halide_memoization_cache_set_size 2 ex_cache2 = Inr s' \<and> cache_ok s' L' \<and> max_cache_size s' = 2 \<and>
     entries s' L' = [ex_entry 7 177580 0 0 1 116]"
proof -
  have "unused_first (entries ex_cache2 [200])"
    "lru_prune 2 (current_cache_size ex_cache2) (entries ex_cache2 [200]) = [ex_entry 7 177580 0 0 1 116]"
    unfolding ex_entries2 by (simp_all add: unused_first_def ex_entry_def)
  then show ?thesis using set_size_bounds_cache [OF ex_cache_ok(3) _ refl, of 2] by auto
qed

text \<open>C18: In every session that starts with the empty cache, however the allocator behaves,
  a call that respects the client's obligations succeeds and leads to a well-formed cache:
  the lists and chains are consistent, no two entries are for the same computation, and the
  size counter is the sum of the sizes of the entries.\<close>

theorem cache_session_safe:
  assumes "reachable p s" and "allowed s op"
  shows "\<exists>s' L. run_op op s = Inr s' \<and> reachable p s' \<and> cache_ok s' L"
proof -
  obtain L where "cache_ok s L" using reachable_ok [OF assms(1)] by blast
  then obtain s' L' where "run_op op s = Inr s'" "cache_ok s' L'" using allowed_op_ok [OF _ assms(2)] by blast
  then show ?thesis using reachable.step [OF assms] by blast
qed

theorem cache_session_safe_witness:
  "\<exists>s' L. run_op (Release 116) ex_cache2 = Inr s' \<and> reachable ex_pool s' \<and> cache_ok s' L"
proof -
  have "allowed ex_cache2 (Release 116)"
    by (simp add: may_release_def ex_cache2_def ex_cache_def run_cache dat_def)
  then show ?thesis by (rule cache_session_safe [OF ex_reachable(3)])
qed

text \<open>C19: What is stored is found: after a store for which the allocator has room, a lookup
  for the same key, bounds and shapes hits, and it returns exactly the buffers that were
  stored unless an entry for them was in the cache before.\<close>

theorem store_then_lookup:
  assumes "cache_ok s L" and "unused_first (entries s L)" and cb: "client_blocks s (djb_hash k) bufs" and "has_memory s"
  shows "\<exists>s' b s''. halide_memoization_cache_store k bd bufs s = Inr s' \<and>
    halide_memoization_cache_lookup k bd bufs s' = Inr (0, b, s'') \<and> list_all2 bounds_equal b bufs \<and>
    (lru_stored (djb_hash k) k bd bufs (entries s L) \<or> b = bufs)"
proof -
  let ?m = "matches k bd bufs"
  obtain s' L' where s': "halide_memoization_cache_store k bd bufs s = Inr s'" "cache_ok s' L'"
    and es: "entries s' L' = lru_store (djb_hash k) k bd bufs (has_memory s) (max_cache_size s) (current_cache_size s) (entries s L)"
    by (rule store_refines [OF assms(1-3), of k bd])
  have new: "?m (new_entry k (djb_hash k) bd bufs)"
    by (simp add: entry_matches_def new_entry_def CacheEntry_init_def keys_equal_def bounds_equal_def list_all2_same)
  then have "\<exists>e \<in> set (entries s' L'). ?m e"
    using assms(4) unfolding es by (auto simp: lru_store_def lru_stored_def)
  then obtain e where e: "List.find ?m (entries s' L') = Some e"
    by (cases "List.find ?m (entries s' L')") (auto simp: find_None_iff)
  have "sizes_ok bufs" using cb by (auto simp: client_blocks_def sizes_ok_def)
  then obtain s'' where "halide_memoization_cache_lookup k bd bufs s' = Inr (0, buffers e, s'')"
    by (rule lookup_refines [OF s'(2), of bufs k bd]) (auto simp: lru_lookup_def e)
  moreover have "list_all2 bounds_equal (buffers e) bufs" using find_SomeD [OF e] by (simp add: entry_matches_def)
  moreover have "lru_stored (djb_hash k) k bd bufs (entries s L) \<or> buffers e = bufs"
  proof (rule disjCI)
    assume "buffers e \<noteq> bufs"
    then have "e \<noteq> new_entry k (djb_hash k) bd bufs" by (auto simp: new_entry_def CacheEntry_init_def)
    then show "lru_stored (djb_hash k) k bd bufs (entries s L)"
      using find_SomeD [OF e] lru_prune_subset [of "max_cache_size s"
          "to_int64 (current_cache_size s + sum_list (map bsize bufs))" "entries s L"]
      unfolding es lru_store_def lru_stored_def by (auto split: if_splits)
  qed
  ultimately show ?thesis using s'(1) by blast
qed

theorem store_then_lookup_witness:
  "\<exists>s' s''. halide_memoization_cache_store [7] ex_buf [ex_buf\<lparr>buf_host := 116\<rparr>] ex_cache1 = Inr s' \<and>
    halide_memoization_cache_lookup [7] ex_buf [ex_buf\<lparr>buf_host := 116\<rparr>] s' = Inr (0, [ex_buf\<lparr>buf_host := 116\<rparr>], s'')"
proof -
  have "has_memory ex_cache1" by (simp add: ex_cache1_def has_memory_def empty_cache_def)
  then show ?thesis
    using store_then_lookup [OF ex_cache_ok(2), of "[7]" "[ex_buf\<lparr>buf_host := 116\<rparr>]" ex_buf] ex_client
    by (auto simp: unused_first_def djb_hash_ex lru_stored_def)
qed

text \<open>C21: Lookups do not disturb one another: a sequence of lookups in a well-formed cache
  answers each query as if it were the only one, hits and misses alike, and leaves a
  well-formed cache that has the same answer to every query.\<close>

theorem lookups_stable:
  assumes "cache_ok s L" and "list_all (\<lambda>(k, bd, bufs). sizes_ok bufs) qs"
    and "run_looks cache_look qs s = (vs, s')"
  shows "(\<exists>L'. cache_ok s' L') \<and> vs = map (\<lambda>q. cache_peek q s) qs \<and> cache_peek q s' = cache_peek q s"
  using mc.run_looks_peek [OF _ assms(2,3)] assms(1) by blast

theorem lookups_stable_witness:
  "\<exists>s' L'. cache_ok s' L' \<and> cache_peek ([7], ex_buf, [ex_buf]) s' = Some [ex_buf\<lparr>buf_host := 116\<rparr>] \<and>
     fst (run_looks cache_look [([8], ex_buf, [ex_buf]), ([7], ex_buf, [ex_buf])] ex_cache2) = [None, Some [ex_buf\<lparr>buf_host := 116\<rparr>]]"
proof -
  let ?qs = "[([8], ex_buf, [ex_buf]), ([7], ex_buf, [ex_buf])]"
  obtain vs s' where r: "run_looks cache_look ?qs ex_cache2 = (vs, s')" by fastforce
  have "list_all (\<lambda>(k, bd, bufs). sizes_ok bufs) ?qs" by (simp add: sizes_ok_def)
  note * = lookups_stable [OF ex_cache_ok(3) this r, of "([7], ex_buf, [ex_buf])"]
  have "cache_peek ([7], ex_buf, [ex_buf]) ex_cache2 = Some [ex_buf\<lparr>buf_host := 116\<rparr>]"
    "cache_peek ([8], ex_buf, [ex_buf]) ex_cache2 = None"
    by (simp_all add: cache_peek_def ex_cache2_def ex_cache_def entry_matches_def djb_hash_ex ex_entry_def keys_equal_def bounds_equal_def)
  then show ?thesis using * r by auto
qed

text \<open>C34: Pruning leaves a dangling pointer when an unused entry is newer than one in use:
  the pointer of the older entry to it is not redirected. In the session below the first
  entry is in use while the second, newer one is released and pruned by a smaller limit;
  when the first is released too, pruning it follows the stale pointer into freed
  memory.\<close>

theorem prune_newer_entry_dangles:
  "\<exists>s. run_ops ex_bug_ops (empty_cache ex_pool) = Inr s \<and> run_op (Set_size 1) s = Inl Undefined_behaviour"
  using run_ops_bug ex_set_size1 by metis

end
