(* ===== verification/BitOps.thy ===== *)
theory BitOps
  imports IROpsFacts
begin

text \<open>
  The bitwise operators of \<open>src/IROperator.h\<close>, which build calls to intrinsics, and
  the semantics of those intrinsics.

  Second half: an interface for code that builds expressions, the \<open>builder\<close> of a value:
  each step succeeds and its result has the expected type and value.
\<close>

subsection \<open>Operators\<close>

definition pure_intrinsic :: "Type \<Rightarrow> string \<Rightarrow> expr list \<Rightarrow> expr result" where
  "pure_intrinsic t n args = Call_make t n (map Some args) PureIntrinsic None 0 None None"

definition reinterpret :: "Type \<Rightarrow> Expr \<Rightarrow> expr result" where
  "reinterpret t e =
     rbind (user_defined e) (\<lambda>e.
     rbind (user_assert (bits (type_of e) * lanes (type_of e) = bits t * lanes t)
       ''Reinterpret cast between types of different sizes'') (\<lambda>_.
     pure_intrinsic t ''reinterpret'' [e]))"

definition int_operand :: "expr \<Rightarrow> bool" where
  "int_operand x \<longleftrightarrow> is_int (type_of x) \<or> is_uint (type_of x)"

text \<open>The three bitwise operators differ in the intrinsic: first widen or narrow, then bitcast.\<close>

definition bitwise_op :: "string \<Rightarrow> Expr \<Rightarrow> Expr \<Rightarrow> expr result" where
  "bitwise_op n x y =
     rbind (user_defined x) (\<lambda>x. rbind (user_defined y) (\<lambda>y.
     rbind (user_assert (int_operand x) ''The first argument must be an integer'') (\<lambda>_.
     rbind (user_assert (int_operand y) ''The second argument must be an integer'') (\<lambda>_.
     rbind (if bits (type_of y) \<noteq> bits (type_of x)
            then cast (with_bits (bits (type_of x)) (type_of y)) y else Inr y) (\<lambda>y.
     rbind (if type_neq (type_of y) (type_of x) then reinterpret (type_of x) (Some y) else Inr y) (\<lambda>y.
     pure_intrinsic (type_of x) n [x, y]))))))"

definition operator_bitand :: "Expr \<Rightarrow> Expr \<Rightarrow> expr result" where
  "operator_bitand = bitwise_op ''bitwise_and''"

definition operator_bitor :: "Expr \<Rightarrow> Expr \<Rightarrow> expr result" where
  "operator_bitor = bitwise_op ''bitwise_or''"

definition operator_bitxor :: "Expr \<Rightarrow> Expr \<Rightarrow> expr result" where
  "operator_bitxor = bitwise_op ''bitwise_xor''"

definition operator_bitnot :: "Expr \<Rightarrow> expr result" where
  "operator_bitnot x =
     rbind (user_defined x) (\<lambda>x.
     rbind (user_assert (int_operand x) ''Argument to bitwise not must be an integer'') (\<lambda>_.
     pure_intrinsic (type_of x) ''bitwise_not'' [x]))"

definition shift_op :: "string \<Rightarrow> Expr \<Rightarrow> Expr \<Rightarrow> expr result" where
  "shift_op n x y =
     rbind (user_defined x) (\<lambda>x. rbind (user_defined y) (\<lambda>y.
     rbind (user_assert (\<not> is_float (type_of x)) ''First argument to shift is a float'') (\<lambda>_.
     rbind (user_assert (\<not> is_float (type_of y)) ''Second argument to shift is a float'') (\<lambda>_.
     rbind (match_types x y) (\<lambda>(x, y). pure_intrinsic (type_of x) n [x, y])))))"

definition operator_shl :: "Expr \<Rightarrow> Expr \<Rightarrow> expr result" where
  "operator_shl = shift_op ''shift_left''"

definition operator_shr :: "Expr \<Rightarrow> Expr \<Rightarrow> expr result" where
  "operator_shr = shift_op ''shift_right''"

text \<open>
  The overloads with an \<open>int\<close> operand read the type of the expression before any check
  that it is defined.
\<close>

definition shift_ei :: "string \<Rightarrow> Expr \<Rightarrow> int \<Rightarrow> expr result" where
  "shift_ei n x y =
     (case x of None \<Rightarrow> Inl Undefined_behaviour
      | Some x \<Rightarrow>
          rbind (check_representable (type_of x) y) (\<lambda>_.
          rbind (make_const_int (type_of x) y) (\<lambda>c. shift_op n (Some x) (Some c))))"

definition shift_ie :: "string \<Rightarrow> int \<Rightarrow> Expr \<Rightarrow> expr result" where
  "shift_ie n x y =
     (case y of None \<Rightarrow> Inl Undefined_behaviour
      | Some y \<Rightarrow>
          rbind (check_representable (type_of y) x) (\<lambda>_.
          rbind (make_const_int (type_of y) x) (\<lambda>c. shift_op n (Some c) (Some y))))"

definition operator_shl_ei :: "Expr \<Rightarrow> int \<Rightarrow> expr result" where
  "operator_shl_ei = shift_ei ''shift_left''"

definition operator_shr_ei :: "Expr \<Rightarrow> int \<Rightarrow> expr result" where
  "operator_shr_ei = shift_ei ''shift_right''"

definition operator_shl_ie :: "int \<Rightarrow> Expr \<Rightarrow> expr result" where
  "operator_shl_ie = shift_ie ''shift_left''"

definition operator_shr_ie :: "int \<Rightarrow> Expr \<Rightarrow> expr result" where
  "operator_shr_ie = shift_ie ''shift_right''"

definition floor_expr :: "Expr \<Rightarrow> expr result" where
  "floor_expr x =
     rbind (user_defined x) (\<lambda>x.
     if type_eq (element_of (type_of x)) (Float_t 64 1) then
       Call_make (type_of x) ''floor_f64'' [Some x] PureExtern None 0 None None
     else if type_eq (element_of (type_of x)) (Float_t 16 1) then
       Call_make (Float_t 16 1) ''floor_f16'' [Some x] PureExtern None 0 None None
     else let t = Float_t 32 (int (lanes (type_of x))) in
       rbind (cast t x) (\<lambda>c. Call_make t ''floor_f32'' [Some c] PureExtern None 0 None None))"

subsection \<open>The semantics of the intrinsics\<close>

text \<open>
  The values that \<open>CodeGen_LLVM\<close> gives the calls: shifts by less than the width, of
  which the right shift keeps the sign of a signed type, bitwise operations on the two's
  complement representation, a bitcast, and the quotient and remainder of C. A division by
  zero or of the least number by minus one has no value.
\<close>

definition c_div_defined :: "Type \<Rightarrow> int \<Rightarrow> int \<Rightarrow> bool" where
  "c_div_defined t x y \<longleftrightarrow> y \<noteq> 0 \<and> \<not> (is_int t \<and> x = type_lo t \<and> y = - 1)"

definition unary_intrinsic :: "Type \<Rightarrow> string \<Rightarrow> (int \<Rightarrow> int) option" where
  "unary_intrinsic t n =
     (if n = ''bitwise_not'' then Some (\<lambda>x. wrap t (NOT x))
      else if n = ''reinterpret'' then Some (wrap t)
      else if n = ''abs'' then Some abs
      else None)"

definition binary_intrinsic :: "Type \<Rightarrow> string \<Rightarrow> int \<Rightarrow> int \<Rightarrow> int option" where
  "binary_intrinsic t n x y =
     (if n = ''shift_left'' then (if 0 \<le> y \<and> y < int (bits t) then Some (wrap t (push_bit (nat y) x)) else None)
      else if n = ''shift_right'' then (if 0 \<le> y \<and> y < int (bits t) then Some (drop_bit (nat y) x) else None)
      else if n = ''bitwise_and'' then Some (x AND y)
      else if n = ''bitwise_or'' then Some (x OR y)
      else if n = ''bitwise_xor'' then Some (x XOR y)
      else if n = ''div_round_to_zero'' then (if c_div_defined t x y then Some (x sdiv y) else None)
      else if n = ''mod_round_to_zero'' then (if c_div_defined t x y then Some (x smod y) else None)
      else None)"

definition intrinsic_val :: "Type \<Rightarrow> string \<Rightarrow> lane_values list \<Rightarrow> lane_values option" where
  "intrinsic_val t n vs =
     (case vs of
        [xs] \<Rightarrow> (case unary_intrinsic t n of Some f \<Rightarrow> Some (map f xs) | None \<Rightarrow> None)
      | [xs, ys] \<Rightarrow> lift2 (binary_intrinsic t n) xs ys
      | _ \<Rightarrow> None)"

text \<open>An environment that gives these intrinsics their meaning.\<close>

definition honours_intrinsics :: "env \<Rightarrow> bool" where
  "honours_intrinsics r \<longleftrightarrow>
     (\<forall>t n vs xs. (is_int t \<or> is_uint t) \<longrightarrow> intrinsic_val t n vs = Some xs \<longrightarrow>
        call_val r t n PureIntrinsic 0 vs = Some xs)"

subsection \<open>Builders\<close>

text \<open>The types of the arithmetic: integers of a width that has constants.\<close>

definition itype :: "Type \<Rightarrow> bool" where
  "itype t \<longleftrightarrow> type_wf t \<and> const_type t \<and> 0 < lanes t"

definition valued_as :: "env \<Rightarrow> expr \<Rightarrow> Type \<Rightarrow> lane_values \<Rightarrow> bool" where
  "valued_as r e t xs \<longleftrightarrow> wf_expr e \<and> type_eq (type_of e) t \<and> eval r e = Some xs"

definition builds :: "env \<Rightarrow> expr result \<Rightarrow> Type \<Rightarrow> lane_values \<Rightarrow> bool" where
  "builds r m t xs \<longleftrightarrow> (\<exists>e. m = Inr e \<and> valued_as r e t xs)"

lemma builds_Inr [simp]: "builds r (Inr e) t xs = valued_as r e t xs"
  by (simp add: builds_def)

lemma builds_bind:
  "builds r m t xs \<Longrightarrow> (\<And>e. m = Inr e \<Longrightarrow> valued_as r e t xs \<Longrightarrow> builds r (f e) t' ys) \<Longrightarrow> builds r (rbind m f) t' ys"
  by (auto simp: builds_def)

lemma itype_int: "itype t \<Longrightarrow> is_int t \<or> is_uint t"
  by (auto simp: itype_def const_type_def)

lemma itype_not_handle: "itype t \<Longrightarrow> \<not> is_handle t" "itype t \<Longrightarrow> \<not> is_float t"
  using itype_int [of t] by (auto simp: type_predicates)

lemma type_eq_fields: "type_eq s t \<Longrightarrow> code s = code t" "type_eq s t \<Longrightarrow> bits s = bits t"
  "type_eq s t \<Longrightarrow> lanes s = lanes t"
  by (simp_all add: type_eq_def)

lemma type_eq_cong:
  assumes "type_eq s t"
  shows "is_int s = is_int t" "is_uint s = is_uint t" "is_float s = is_float t" "is_handle s = is_handle t"
    "is_bool s = is_bool t" "is_scalar s = is_scalar t" "is_vector s = is_vector t"
    "no_overflow_int s = no_overflow_int t" "in_range s = in_range t" "wrap s = wrap t" "fit s = fit t"
    "binop_val op s = binop_val op t"
proof -
  note f = type_eq_fields [OF assms]
  show g: "is_int s = is_int t" "is_uint s = is_uint t" "is_float s = is_float t" "is_handle s = is_handle t"
    "is_bool s = is_bool t" "is_scalar s = is_scalar t" "is_vector s = is_vector t"
    using f by (simp_all add: type_predicates)
  show n: "no_overflow_int s = no_overflow_int t" "in_range s = in_range t"
    using assms by (rule no_overflow_type_eq, rule type_eq_range)
  show w: "wrap s = wrap t" by (rule ext) (simp add: wrap_def g f)
  show h: "fit s = fit t" by (rule ext) (simp add: fit_def g n w)
  show "binop_val op s = binop_val op t" by (intro ext; cases op; simp add: h)
qed

lemma type_eq_commute: "type_eq s t \<longleftrightarrow> type_eq t s"
  using type_eq_sym by blast

lemma valued_as_type:
  assumes "valued_as r e t xs" and "itype t"
  shows "type_wf (type_of e)" "itype (type_of e)" "length xs = lanes t" "\<forall>x \<in> set xs. in_range t x"
proof -
  have e: "wf_expr e" "type_eq (type_of e) t" "eval r e = Some xs" using assms(1) by (auto simp: valued_as_def)
  show w: "type_wf (type_of e)" by (rule wf_expr_type_wf [OF e(1)])
  show "itype (type_of e)"
    using assms(2) w type_eq_fields [OF e(2)] by (auto simp: itype_def const_type_def type_predicates)
  show "length xs = lanes t" "\<forall>x \<in> set xs. in_range t x"
    using eval_sound [OF e(1,3)] type_eq_cong(9) [OF e(2)] type_eq_fields [OF e(2)] by (auto simp: has_type_def)
qed

lemma valued_as_retype: "valued_as r e t xs \<Longrightarrow> type_eq t t' \<Longrightarrow> valued_as r e t' xs"
  unfolding valued_as_def using type_eq_trans by blast

lemma make_const_wf:
  assumes "type_wf t" and "const_type t" and "make_const_int t v = Inr c"
  shows "wf_expr c"
proof -
  note t = const_type_int [OF assms(2)]
  have imm: "wf_expr c'" if c': "(if is_int s then IntImm_make s v else UIntImm_make s v) = Inr c'"
    and s: "is_int s \<or> is_uint s" "is_scalar s" "type_wf s" for s c'
  proof (cases "is_int s")
    case True
    with c' have "IntImm_make s v = Inr c'" by simp
    note e = imm_make_eval [OF True this]
    have "in_range s (wrap s v)" using e(2) [of env0] unfolding e(1) by (simp split: if_splits)
    with e(1) True s c' show ?thesis by (auto simp: IntImm_make_def)
  next
    case False
    with s c' have u: "is_uint s" "UIntImm_make s v = Inr c'" by auto
    note e = uimm_make_eval [OF u]
    have "in_range s (wrap s v)" using e(2) [of env0] unfolding e(1) by (simp split: if_splits)
    with e(1) u s show ?thesis by (auto simp: UIntImm_make_def)
  qed
  show ?thesis
  proof (cases "is_vector t")
    case True
    with assms t obtain c' where c': "(if is_int t then IntImm_make (element_of t) v else UIntImm_make (element_of t) v) = Inr c'"
      and c: "c = Broadcast c' (int (lanes t))"
      by (auto simp: make_const_int_def make_vector_const_def Broadcast_make_def defined_handle_def split: if_splits)
    have "wf_expr c'" using imm [of "element_of t" c'] c' t assms(1) by simp
    moreover have "type_of c' = element_of t" using c' imm_make_type by (auto split: if_splits)
    ultimately show ?thesis using True assms(1) by (auto simp: c is_vector_def type_wf_def)
  next
    case False
    then show ?thesis
      using assms t imm [of t c]
      by (auto simp: make_const_int_def make_vector_const_def is_vector_def is_scalar_def split: if_splits)
  qed
qed

lemma make_const_builds:
  assumes "itype t"
  shows "builds r (make_const_int t v) t (replicate (lanes t) (wrap t v))"
proof -
  have t: "type_wf t" "const_type t" "is_int t \<or> is_uint t" "\<not> is_handle t"
    using assms itype_int itype_not_handle by (auto simp: itype_def)
  obtain c where c: "make_const_int t v = Inr c" using make_const_int_ok [OF t(1,2)] by blast
  then show ?thesis
    using make_const_wf [OF t(1,2) c] make_const_int_eval [OF t(1,3) c] make_const_type(1) [OF t(1,4) c]
    by (simp add: valued_as_def)
qed

subsection \<open>Casts and arithmetic\<close>

lemma fold_cast_ok:
  assumes "itype t" and "wf_expr a" and "\<not> is_handle (type_of a)" and "as_const_float a = None"
    and "\<exists>e. rest = Inr e \<and> wf_expr e"
  shows "\<exists>e. fold_cast t a rest = Inr e \<and> wf_expr e"
proof -
  have t: "type_wf t" "const_type t" "is_int t \<or> is_uint t" "\<not> is_handle t"
    using assms(1) itype_int itype_not_handle by (auto simp: itype_def)
  have "\<exists>c. make_const_int t v = Inr c \<and> wf_expr c" for v
    using make_const_int_ok [OF t(1,2)] make_const_wf [OF t(1,2)] by blast
  then show ?thesis
    using assms(2-5) t(3,4)
    by (auto simp: fold_cast_def make_const_uint_int split: option.splits)
qed

lemma itype_element_of: "itype t \<Longrightarrow> itype (element_of t)"
  by (auto simp: itype_def const_type_def)

lemma cast_scalar_ok:
  assumes "itype t" and "is_scalar t" and "wf_expr a" and "is_scalar (type_of a)"
    and "\<not> is_handle (type_of a)" and "as_const_float a = None"
  shows "\<exists>e. cast_scalar t a = Inr e \<and> wf_expr e"
proof -
  have "\<exists>e. Cast_make t (Some a) = Inr e \<and> wf_expr e"
    using assms by (auto simp: Cast_make_def defined_handle_def itype_def is_scalar_def)
  with assms show ?thesis unfolding cast_scalar_def by (intro fold_cast_ok) auto
qed

lemma broadcast_cast_ok:
  assumes "itype t" and "is_vector t" and "wf_expr a" and "is_scalar (type_of a)"
    and "\<not> is_handle (type_of a)" and "as_const_float a = None"
  shows "\<exists>e. rbind (cast_scalar (element_of t) a) (\<lambda>v. Broadcast_make (Some v) (int (lanes t))) = Inr e \<and> wf_expr e"
proof -
  have et: "itype (element_of t)" "\<not> is_handle (element_of t)"
    using assms(1) itype_element_of itype_not_handle by auto
  obtain v where v: "cast_scalar (element_of t) a = Inr v" "wf_expr v"
    using cast_scalar_ok [OF et(1) _ assms(3-6)] by auto
  have "type_eq (type_of v) (element_of t)"
    using cast_scalar_type [of "element_of t" a v] et v by (simp add: itype_def)
  then have "is_scalar (type_of v)" by (simp add: type_eq_cong)
  with v assms(1,2) show ?thesis
    by (auto simp: Broadcast_make_def defined_handle_def is_vector_def itype_def type_wf_def)
qed

lemma cast_ok:
  assumes "itype t" and "wf_expr a" and "lanes (type_of a) = lanes t" and "\<not> is_handle (type_of a)"
    and "as_const_float a = None"
  shows "\<exists>e. cast t a = Inr e \<and> wf_expr e"
  unfolding cast_def
proof (rule fold_cast_ok [OF assms(1,2,4,5)])
  have c: "\<exists>e. Cast_make t (Some a) = Inr e \<and> wf_expr e"
    using assms by (auto simp: Cast_make_def defined_handle_def itype_def)
  show "\<exists>e. (if is_vector t then
          (if is_scalar (type_of a) then
             rbind (cast_scalar (element_of t) a) (\<lambda>v. Broadcast_make (Some v) (int (lanes t)))
           else case a of
             Broadcast v n \<Rightarrow>
               rbind (internal_assert (n = int (lanes t)) []) (\<lambda>_.
               rbind (cast_scalar (element_of t) v) (\<lambda>v. Broadcast_make (Some v) (int (lanes t))))
           | _ \<Rightarrow> Cast_make t (Some a))
        else Cast_make t (Some a)) = Inr e \<and> wf_expr e"
  proof (cases "is_vector t \<and> (\<exists>v n. a = Broadcast v n)")
    case True
    then obtain v n where a: "a = Broadcast v n" and vt: "is_vector t" by blast
    have v: "wf_expr v" "is_scalar (type_of v)" "as_const_float v = None" "\<not> is_handle (type_of v)"
      using assms(2,4,5) by (auto simp: a type_predicates)
    have "nat n = lanes t" "0 \<le> n" using assms(2,3) wf_expr_type_wf [OF v(1)] by (auto simp: a)
    then have n: "n = int (lanes t)" by linarith
    have "\<not> is_scalar (type_of a)" using assms(3) vt by (simp add: is_scalar_def is_vector_def)
    then show ?thesis
      using broadcast_cast_ok [OF assms(1) vt v(1,2) v(4,3)] vt by (simp add: a n)
  next
    case False
    then show ?thesis using c assms(3) by (cases a) (auto simp: is_vector_def is_scalar_def)
  qed
qed

lemma cast_builds:
  assumes a: "valued_as r a s xs" and s: "itype s" and t: "itype t" and l: "lanes s = lanes t"
    and ys: "those (map (fit t) xs) = Some ys"
  shows "builds r (cast t a) t ys"
proof -
  have e: "wf_expr a" "type_eq (type_of a) s" "eval r a = Some xs" using a by (auto simp: valued_as_def)
  have t': "type_wf t" "is_int t \<or> is_uint t" "\<not> is_handle t" "0 < lanes t"
    using t itype_int itype_not_handle by (auto simp: itype_def)
  have la: "lanes (type_of a) = lanes t" using type_eq_fields [OF e(2)] l by simp
  have h: "\<not> is_handle (type_of a)" using type_eq_cong [OF e(2)] itype_not_handle [OF s] by simp
  have f: "as_const_float a = None" using as_const_float_eval [of a _ False r] e(3) by (cases "as_const_float a") auto
  obtain c where c: "cast t a = Inr c" "wf_expr c" using cast_ok [OF t e(1) la h f] by blast
  have "eval r c = Some ys"
    using cast_eval [OF t'(1,2) e(1) la t'(4) c(1)] e(3) ys by simp
  then show ?thesis using c cast_type [OF t'(1,3) e(1) c(1)] by (simp add: valued_as_def)
qed

lemma binary_builds:
  assumes a: "valued_as r a t xs" and b: "valued_as r b t ys" and t: "itype t" and op: "is_arith op"
    and zs: "lift2 (binop_val op t) xs ys = Some zs"
  shows "builds r (binary_make op (Some a) (Some b)) t zs"
proof -
  have "type_eq (type_of a) (type_of b)"
    using a b type_eq_trans type_eq_sym unfolding valued_as_def by blast
  moreover have "\<not> is_logical op" using op by (auto simp: is_arith_def is_logical_def)
  ultimately show ?thesis
    using a b op zs type_eq_cong(12) [of "type_of a" t]
    by (simp add: valued_as_def builds_def binary_make_def defined_handle_def)
qed

lemma compare_builds:
  assumes a: "valued_as r a t xs" and b: "valued_as r b t ys" and t: "itype t" and op: "op \<in> {EQOp, NEOp, LTOp, LEOp, GTOp, GEOp}"
    and zs: "lift2 (binop_val op t) xs ys = Some zs"
  shows "builds r (binary_make op (Some a) (Some b)) (Bool_t (int (lanes t))) zs"
proof -
  have "type_eq (type_of a) (type_of b)"
    using a b type_eq_trans type_eq_sym unfolding valued_as_def by blast
  moreover have "\<not> is_logical op" "\<not> is_arith op" using op by (auto simp: is_arith_def is_logical_def)
  ultimately show ?thesis
    using a b zs type_eq_cong(12) [of "type_of a" t] type_eq_fields [of "type_of a" t]
    by (simp add: valued_as_def builds_def binary_make_def defined_handle_def)
qed

subsection \<open>Operators\<close>

lemma valued_types:
  "valued_as r a t xs \<Longrightarrow> valued_as r b t ys \<Longrightarrow> type_eq (type_of a) (type_of b)"
  using type_eq_trans type_eq_sym unfolding valued_as_def by blast

lemma valued_not_handle: "valued_as r a t xs \<Longrightarrow> itype t \<Longrightarrow> \<not> is_handle (type_of a) \<and> \<not> is_float (type_of a)"
  using type_eq_cong(3,4) [of "type_of a" t] itype_not_handle [of t] by (auto simp: valued_as_def)

lemma operator_ee_builds:
  assumes a: "valued_as r a t xs" and b: "valued_as r b t ys" and t: "itype t" and op: "op \<in> {AddOp, SubOp, MulOp, DivOp, MinOp, MaxOp}"
    and zs: "lift2 (binop_val op t) xs ys = Some zs"
  shows "builds r (operator_ee op (Some a) (Some b)) t zs"
proof -
  have "op \<noteq> ModOp" "\<not> is_logical op" "is_arith op" using op by (auto simp: is_arith_def is_logical_def)
  then have "operator_ee op (Some a) (Some b) = binary_make op (Some a) (Some b)"
    using valued_not_handle [OF a t] valued_not_handle [OF b t] valued_types [OF a b]
    by (simp add: operator_ee_def operand_def user_defined_def match_types_def)
  then show ?thesis using binary_builds [OF a b t \<open>is_arith op\<close> zs] by simp
qed

lemma itype_int_width: "itype t \<Longrightarrow> int_width t" "itype t \<Longrightarrow> 0 < bits t"
  by (auto simp: itype_def const_type_def int_width_def)

lemma representable:
  assumes "valued_as r a t xs" and "itype t" and "in_range t k"
  shows "check_representable (type_of a) k = Inr ()"
proof -
  have "itype (type_of a)" by (rule valued_as_type [OF assms(1,2)])
  moreover have "in_range (type_of a) k"
    using assms(1,3) type_eq_cong(9) [of "type_of a" t] by (simp add: valued_as_def)
  ultimately show ?thesis
    by (simp add: check_representable_def can_represent_int64_int itype_int_width)
qed

lemma typed_const_builds:
  assumes "valued_as r a t xs" and "itype t" and "in_range t k"
  shows "builds r (make_const_int (type_of a) k) t (replicate (lanes t) k)"
proof -
  have ta: "itype (type_of a)" by (rule valued_as_type [OF assms(1,2)])
  have te: "type_eq (type_of a) t" using assms(1) by (simp add: valued_as_def)
  have "wrap (type_of a) k = k" using assms(3) wrap_in_range type_eq_cong [OF te] by simp
  then show ?thesis
    using make_const_builds [OF ta, of r k] te type_eq_fields [OF te]
    by (auto simp: builds_def intro: valued_as_retype)
qed

lemma operator_ei_builds:
  assumes a: "valued_as r a t xs" and t: "itype t" and k: "in_range t k" and op: "op \<in> {AddOp, SubOp, MulOp, DivOp, MinOp, MaxOp}"
    and zs: "lift2 (binop_val op t) xs (replicate (lanes t) k) = Some zs"
  shows "builds r (operator_ei op (Some a) k) t zs"
proof -
  have "op \<noteq> ModOp" and ar: "is_arith op" using op by (auto simp: is_arith_def)
  then have "operator_ei op (Some a) k = rbind (make_const_int (type_of a) k) (\<lambda>c. binary_make op (Some a) (Some c))"
    using representable [OF a t k] by (simp add: operator_ei_def user_defined_def)
  then show ?thesis
    using builds_bind [OF typed_const_builds [OF a t k]] binary_builds [OF a _ t ar zs] by metis
qed

lemma compare_ei_builds:
  assumes a: "valued_as r a t xs" and t: "itype t" and k: "in_range t k" and op: "op \<in> {EQOp, NEOp, LTOp, LEOp, GTOp, GEOp}"
    and zs: "lift2 (binop_val op t) xs (replicate (lanes t) k) = Some zs"
  shows "builds r (operator_ei op (Some a) k) (Bool_t (int (lanes t))) zs"
proof -
  have "op \<noteq> ModOp" using op by auto
  then have "operator_ei op (Some a) k = rbind (make_const_int (type_of a) k) (\<lambda>c. binary_make op (Some a) (Some c))"
    using representable [OF a t k] by (simp add: operator_ei_def user_defined_def)
  then show ?thesis
    using builds_bind [OF typed_const_builds [OF a t k]] compare_builds [OF a _ t op zs] by metis
qed

text \<open>The common type of two operands with the same number of lanes.\<close>

definition match_type :: "Type \<Rightarrow> Type \<Rightarrow> Type" where
  "match_type s t =
     (if type_eq s t then s
      else if is_uint s \<and> is_uint t then (if bits t < bits s then s else t)
      else Int_t (max (bits s) (bits t)) (int (lanes s)))"

lemma itype_Int: "itype s \<Longrightarrow> bits s \<noteq> 1 \<Longrightarrow> itype (Int_t (bits s) (int (lanes s)))"
  by (auto simp: itype_def const_type_def type_ctor_simps type_predicates type_wf_def)

lemma itype_bits: "itype t \<Longrightarrow> 0 < bits t"
  by (auto simp: itype_def const_type_def)

lemma itype_lanes: "itype t \<Longrightarrow> lanes t < 2 ^ 16 \<and> bits t < 2 ^ 8"
  by (simp add: itype_def type_wf_def)

lemma itype_max:
  assumes "itype s" and "itype t" and "lanes s = lanes t" and "bits s \<noteq> 1 \<or> bits t \<noteq> 1"
  shows "itype (Int_t (max (bits s) (bits t)) (int (lanes s)))"
proof (cases "bits s \<le> bits t")
  case True
  then have "bits t \<noteq> 1" using assms(4) itype_bits [OF assms(1)] by linarith
  then show ?thesis using itype_Int [OF assms(2)] True assms(3) by (simp add: max_absorb2)
next
  case False
  then have "bits s \<noteq> 1" using itype_bits [OF assms(2)] by linarith
  then show ?thesis using itype_Int [OF assms(1)] False by (simp add: max_absorb1)
qed

lemma itype_match:
  assumes "itype s" and "itype t" and "lanes s = lanes t" and "type_eq s t \<or> bits s \<noteq> 1 \<or> bits t \<noteq> 1"
  shows "itype (match_type s t)" "lanes (match_type s t) = lanes s"
proof -
  have n1: "bits s \<noteq> 1 \<or> bits t \<noteq> 1" if "\<not> type_eq s t" using assms(4) that by blast
  show "itype (match_type s t)"
    unfolding match_type_def using assms(1,2) itype_max [OF assms(1-3) n1] by presburger
  show "lanes (match_type s t) = lanes s"
    using assms(3) itype_lanes [OF assms(1)] by (simp add: match_type_def type_ctor_simps nat_mod_distrib)
qed

lemma valued_as_fit:
  assumes "valued_as r a t xs" and "itype t" and "those (map (fit t) xs) = Some xs'"
  shows "xs' = xs"
  using valued_as_type(4) [OF assms(1,2)] those_fit_same [of xs t] assms(3) by auto

lemma match_types_builds:
  assumes a: "valued_as r a s xs" and b: "valued_as r b t ys" and s: "itype s" and t: "itype t"
    and l: "lanes s = lanes t" and n1: "type_eq s t \<or> bits s \<noteq> 1 \<or> bits t \<noteq> 1"
    and xs: "those (map (fit (match_type s t)) xs) = Some xs'" and ys: "those (map (fit (match_type s t)) ys) = Some ys'"
  shows "\<exists>a' b'. match_types a b = Inr (a', b') \<and> valued_as r a' (match_type s t) xs' \<and> valued_as r b' (match_type s t) ys'"
proof -
  let ?a = "type_of a" and ?b = "type_of b"
  have ea: "type_eq ?a s" and eb: "type_eq ?b t" using a b by (auto simp: valued_as_def)
  note ca = type_eq_cong [OF ea] type_eq_fields [OF ea] and cb = type_eq_cong [OF eb] type_eq_fields [OF eb]
  have nh: "\<not> is_handle ?a" "\<not> is_handle ?b" "\<not> is_float ?a" "\<not> is_float ?b"
    using valued_not_handle [OF a s] valued_not_handle [OF b t] by auto
  have eq: "type_eq ?a ?b \<longleftrightarrow> type_eq s t"
    using ea eb type_eq_trans type_eq_sym by metis
  have w: "match_types a b = (if type_eq ?a ?b then Inr (a, b) else match_codes a b)"
    using nh ca(15) cb(15) l by (simp add: match_types_def match_widths_def is_scalar_def is_vector_def)
  have mc: "match_codes a b =
      (if is_uint s \<and> is_uint t then
         (if bits t < bits s then rbind (cast ?a b) (\<lambda>b. Inr (a, b)) else rbind (cast ?b a) (\<lambda>a. Inr (a, b)))
       else rbind (cast (Int_t (max (bits s) (bits t)) (int (lanes s))) a) (\<lambda>a.
         rbind (cast (Int_t (max (bits s) (bits t)) (int (lanes s))) b) (\<lambda>b. Inr (a, b))))" if "\<not> type_eq s t"
    by (simp only: match_codes_def Let_def eq that nh ca(2,14,15) cb(2,14,15) if_False if_True simp_thms)
  have ta: "itype ?a" "itype ?b" by (rule valued_as_type(2) [OF a s], rule valued_as_type(2) [OF b t])
  show ?thesis
  proof (cases "type_eq s t")
    case True
    then have T: "match_type s t = s" by (simp add: match_type_def)
    have bs: "valued_as r b s ys" using b True type_eq_sym valued_as_retype by blast
    have "xs' = xs" "ys' = ys"
      using valued_as_fit [OF a s] valued_as_fit [OF bs s] xs ys unfolding T by blast+
    then show ?thesis using True w eq T a bs by simp
  next
    case ne: False
    have m: "match_types a b = match_codes a b" using w eq ne by simp
    consider (left) "is_uint s \<and> is_uint t" "bits t < bits s" | (right) "is_uint s \<and> is_uint t" "\<not> bits t < bits s"
      | (signed) "\<not> (is_uint s \<and> is_uint t)" by blast
    then show ?thesis
    proof cases
      case left
      then have T: "match_type s t = s" using ne by (simp add: match_type_def)
      have "builds r (cast ?a b) ?a ys'"
        using cast_builds [OF b t ta(1)] ys ca(11,15) l unfolding T by simp
      then obtain b' where b': "cast ?a b = Inr b'" "valued_as r b' ?a ys'" by (auto simp: builds_def)
      moreover have "xs' = xs" using valued_as_fit [OF a s] xs unfolding T by blast
      ultimately show ?thesis
        using left a valued_as_retype [OF b'(2) ea] by (simp add: m mc [OF ne] T)
    next
      case right
      then have T: "match_type s t = t" using ne by (simp add: match_type_def)
      have "builds r (cast ?b a) ?b xs'"
        using cast_builds [OF a s ta(2)] xs cb(11,15) l unfolding T by simp
      then obtain a' where a': "cast ?b a = Inr a'" "valued_as r a' ?b xs'" by (auto simp: builds_def)
      moreover have "ys' = ys" using valued_as_fit [OF b t] ys unfolding T by blast
      ultimately show ?thesis
        using right b valued_as_retype [OF a'(2) eb] by (simp add: m mc [OF ne] T)
    next
      case signed
      let ?T = "Int_t (max (bits s) (bits t)) (int (lanes s))"
      have T: "match_type s t = ?T" using ne signed by (auto simp: match_type_def)
      have it: "itype ?T" "lanes ?T = lanes s" using itype_match [OF s t l n1] unfolding T by simp_all
      have "builds r (cast ?T a) ?T xs'" using cast_builds [OF a s it(1)] xs it l unfolding T by simp
      then obtain a' where a': "cast ?T a = Inr a'" "valued_as r a' ?T xs'" by (auto simp: builds_def)
      have "builds r (cast ?T b) ?T ys'" using cast_builds [OF b t it(1)] ys it l unfolding T by simp
      then obtain b' where b': "cast ?T b = Inr b'" "valued_as r b' ?T ys'" by (auto simp: builds_def)
      show ?thesis using a' b' by (simp add: m mc [OF ne] signed T)
    qed
  qed
qed

subsection \<open>Bitwise operators\<close>

lemma pure_intrinsic_builds:
  assumes r: "honours_intrinsics r" and t: "itype t" and te: "type_eq t' t" and tw: "type_wf t'"
    and args: "list_all2 (\<lambda>a xs. wf_expr a \<and> eval r a = Some xs) args vs"
    and val: "intrinsic_val t' n vs = Some zs" and zs: "length zs = lanes t" "\<forall>z \<in> set zs. in_range t z"
    and n: "\<not> identity_intrinsic PureIntrinsic n"
  shows "builds r (pure_intrinsic t' n args) t zs"
proof -
  have "rmap (\<lambda>a. defined_handle a ''Call of undefined'') (map Some args) = Inr args" for args :: "expr list"
    by (induction args) (auto simp: defined_handle_def)
  then have c: "pure_intrinsic t' n args = Inr (Call t' n args PureIntrinsic None 0 None None)"
    by (simp add: pure_intrinsic_def Call_make_def)
  have i: "is_int t' \<or> is_uint t'" using itype_int [OF t] type_eq_cong [OF te] by simp
  have cv: "call_val r t' n PureIntrinsic 0 vs = Some zs" using r i val unfolding honours_intrinsics_def by blast
  have "map (eval r) args = map Some vs"
    using args by (induction rule: list_all2_induct) auto
  then have "those (map (eval r) args) = Some vs" by (simp add: those_eq_Some)
  then have ev: "eval r (Call t' n args PureIntrinsic None 0 None None) = Some zs"
    using cv zs n type_eq_cong(9) [OF te] type_eq_fields [OF te] by simp
  have "\<forall>a \<in> set args. wf_expr a" using args by (auto simp: list_all2_conv_all_nth in_set_conv_nth)
  with c ev te tw n show ?thesis by (simp add: valued_as_def)
qed

lemma identity_names:
  "\<not> identity_intrinsic PureIntrinsic ''bitwise_and''" "\<not> identity_intrinsic PureIntrinsic ''bitwise_or''"
  "\<not> identity_intrinsic PureIntrinsic ''bitwise_xor''" "\<not> identity_intrinsic PureIntrinsic ''bitwise_not''"
  "\<not> identity_intrinsic PureIntrinsic ''shift_left''" "\<not> identity_intrinsic PureIntrinsic ''shift_right''"
  "\<not> identity_intrinsic PureIntrinsic ''reinterpret''" "\<not> identity_intrinsic PureIntrinsic ''abs''"
  "\<not> identity_intrinsic PureIntrinsic ''div_round_to_zero''" "\<not> identity_intrinsic PureIntrinsic ''mod_round_to_zero''"
  by (simp_all add: identity_intrinsic_def call_is_intrinsic_def)

lemma wrap_range: "is_int t \<or> is_uint t \<Longrightarrow> in_range t (wrap t x)"
  using take_bit_int_less_exp [of "bits t" x] signed_take_bit_int_less_exp [of "bits t - 1" x]
    signed_take_bit_int_greater_eq_minus_exp [of "bits t - 1" x]
  by (auto simp: in_range_def wrap_def type_lo_def type_hi_def)

lemma reinterpret_builds:
  assumes r: "honours_intrinsics r" and x: "valued_as r x s xs" and s: "itype s" and t: "itype t" and te: "type_eq t' t"
    and tw: "type_wf t'" and b: "bits s = bits t" "lanes s = lanes t"
  shows "builds r (reinterpret t' (Some x)) t (map (wrap t) xs)"
proof -
  have ex: "type_eq (type_of x) s" using x by (simp add: valued_as_def)
  have "reinterpret t' (Some x) = pure_intrinsic t' ''reinterpret'' [x]"
    using b type_eq_fields [OF ex] type_eq_fields [OF te] by (simp add: reinterpret_def user_defined_def)
  moreover have "builds r (pure_intrinsic t' ''reinterpret'' [x]) t (map (wrap t) xs)"
  proof (rule pure_intrinsic_builds [OF r t te tw])
    show "list_all2 (\<lambda>a xs. wf_expr a \<and> eval r a = Some xs) [x] [xs]" using x by (simp add: valued_as_def)
    show "intrinsic_val t' ''reinterpret'' [xs] = Some (map (wrap t) xs)"
      using type_eq_cong(10) [OF te] by (simp add: intrinsic_val_def unary_intrinsic_def)
    show "length (map (wrap t) xs) = lanes t" using valued_as_type(3) [OF x s] b by simp
    show "\<forall>z \<in> set (map (wrap t) xs). in_range t z" using wrap_range itype_int [OF t] by simp
  qed (rule identity_names)
  ultimately show ?thesis by simp
qed

text \<open>Operands of one width: the second is bitcast to the type of the first.\<close>

lemma bitwise_op_builds:
  assumes r: "honours_intrinsics r" and x: "valued_as r x t xs" and y: "valued_as r y s ys" and t: "itype t" and s: "itype s"
    and b: "bits s = bits t" "lanes s = lanes t"
    and n: "n \<in> {''bitwise_and'', ''bitwise_or'', ''bitwise_xor''}"
    and val: "lift2 (binary_intrinsic t n) xs (map (wrap t) ys) = Some zs" and zs: "\<forall>z \<in> set zs. in_range t z"
  shows "builds r (bitwise_op n (Some x) (Some y)) t zs"
proof -
  let ?x = "type_of x" and ?y = "type_of y"
  have ex: "type_eq ?x t" and ey: "type_eq ?y s" using x y by (auto simp: valued_as_def)
  note cx = type_eq_cong [OF ex] type_eq_fields [OF ex] and cy = type_eq_cong [OF ey] type_eq_fields [OF ey]
  have i: "int_operand x" "int_operand y" using itype_int [OF t] itype_int [OF s] cx(1,2) cy(1,2) by (simp_all add: int_operand_def)
  have ix: "itype ?x" using valued_as_type(2) [OF x t] .
  have step: "builds r (pure_intrinsic ?x n [x, y']) t zs" if y': "valued_as r y' t (map (wrap t) ys)" for y'
  proof (rule pure_intrinsic_builds [OF r t ex valued_as_type(1) [OF x t]])
    show "list_all2 (\<lambda>a xs. wf_expr a \<and> eval r a = Some xs) [x, y'] [xs, map (wrap t) ys]"
      using x y' by (simp add: valued_as_def)
    show "intrinsic_val ?x n [xs, map (wrap t) ys] = Some zs"
      using val n by (auto simp: intrinsic_val_def binary_intrinsic_def [abs_def])
    show "length zs = lanes t" using val valued_as_type(3) [OF x t] by (simp add: lift2_Some)
    show "\<forall>z \<in> set zs. in_range t z" by (rule zs)
    show "\<not> identity_intrinsic PureIntrinsic n" using n identity_names by blast
  qed
  have "builds r (if type_neq ?y ?x then reinterpret ?x (Some y) else Inr y) t (map (wrap t) ys)"
  proof (cases "type_neq ?y ?x")
    case True
    then show ?thesis using reinterpret_builds [OF r y s t ex valued_as_type(1) [OF x t] b] by simp
  next
    case False
    then have "type_eq ?y ?x" by (simp add: type_neq_def type_eq_def)
    then have "type_eq ?y t" using ex by (rule type_eq_trans)
    then have v: "valued_as r y t ys" using y by (simp add: valued_as_def)
    then have "map (wrap t) ys = ys" using valued_as_type(4) [OF v t] wrap_in_range by (simp add: map_idI)
    with False v show ?thesis by simp
  qed
  from builds_bind [OF this step] show ?thesis
    using i b cx(14) cy(14) by (simp add: bitwise_op_def user_defined_def)
qed

lemma bitnot_builds:
  assumes r: "honours_intrinsics r" and x: "valued_as r x t xs" and t: "itype t"
  shows "builds r (operator_bitnot (Some x)) t (map (\<lambda>x. wrap t (NOT x)) xs)"
proof -
  have ex: "type_eq (type_of x) t" using x by (simp add: valued_as_def)
  have "int_operand x" using itype_int [OF t] type_eq_cong [OF ex] by (simp add: int_operand_def)
  then have "operator_bitnot (Some x) = pure_intrinsic (type_of x) ''bitwise_not'' [x]"
    by (simp add: operator_bitnot_def user_defined_def)
  moreover have "builds r (pure_intrinsic (type_of x) ''bitwise_not'' [x]) t (map (\<lambda>x. wrap t (NOT x)) xs)"
  proof (rule pure_intrinsic_builds [OF r t ex valued_as_type(1) [OF x t]])
    show "list_all2 (\<lambda>a xs. wf_expr a \<and> eval r a = Some xs) [x] [xs]" using x by (simp add: valued_as_def)
    show "intrinsic_val (type_of x) ''bitwise_not'' [xs] = Some (map (\<lambda>x. wrap t (NOT x)) xs)"
      using type_eq_cong(10) [OF ex] by (simp add: intrinsic_val_def unary_intrinsic_def)
    show "length (map (\<lambda>x. wrap t (NOT x)) xs) = lanes t" using valued_as_type(3) [OF x t] by simp
    show "\<forall>z \<in> set (map (\<lambda>x. wrap t (NOT x)) xs). in_range t z" using wrap_range itype_int [OF t] by simp
  qed (rule identity_names)
  ultimately show ?thesis by simp
qed

lemma binary_intrinsic_cong: "type_eq s t \<Longrightarrow> binary_intrinsic s n = binary_intrinsic t n"
  using type_eq_cong [of s t] type_eq_fields [of s t]
  by (intro ext) (simp add: binary_intrinsic_def c_div_defined_def type_lo_def)

lemma binary_intrinsic_builds:
  assumes r: "honours_intrinsics r" and x: "valued_as r x t xs" and y: "valued_as r y t ys" and t: "itype t"
    and te: "type_eq t' t" "type_wf t'"
    and n: "\<not> identity_intrinsic PureIntrinsic n"
    and val: "lift2 (binary_intrinsic t n) xs ys = Some zs" and zs: "\<forall>z \<in> set zs. in_range t z"
  shows "builds r (pure_intrinsic t' n [x, y]) t zs"
proof (rule pure_intrinsic_builds [OF r t te])
  show "list_all2 (\<lambda>a xs. wf_expr a \<and> eval r a = Some xs) [x, y] [xs, ys]" using x y by (simp add: valued_as_def)
  show "intrinsic_val t' n [xs, ys] = Some zs"
    using val binary_intrinsic_cong [OF te(1)] by (simp add: intrinsic_val_def)
  show "length zs = lanes t" using val valued_as_type(3) [OF x t] by (simp add: lift2_Some)
qed (use zs n in auto)

lemma shift_op_builds:
  assumes r: "honours_intrinsics r" and x: "valued_as r x s xs" and y: "valued_as r y t ys" and s: "itype s" and t: "itype t"
    and l: "lanes s = lanes t" and n1: "type_eq s t \<or> bits s \<noteq> 1 \<or> bits t \<noteq> 1"
    and xs: "those (map (fit (match_type s t)) xs) = Some xs'" and ys: "those (map (fit (match_type s t)) ys) = Some ys'"
    and n: "n \<in> {''shift_left'', ''shift_right''}"
    and val: "lift2 (binary_intrinsic (match_type s t) n) xs' ys' = Some zs" and zs: "\<forall>z \<in> set zs. in_range (match_type s t) z"
  shows "builds r (shift_op n (Some x) (Some y)) (match_type s t) zs"
proof -
  have it: "itype (match_type s t)" by (rule itype_match [OF s t l n1])
  obtain x' y' where m: "match_types x y = Inr (x', y')" "valued_as r x' (match_type s t) xs'"
      "valued_as r y' (match_type s t) ys'"
    using match_types_builds [OF x y s t l n1 xs ys] by blast
  have i: "\<not> identity_intrinsic PureIntrinsic n" using n identity_names by blast
  have "shift_op n (Some x) (Some y) = pure_intrinsic (type_of x') n [x', y']"
    using m valued_not_handle [OF x s] valued_not_handle [OF y t] by (simp add: shift_op_def user_defined_def)
  moreover have "type_eq (type_of x') (match_type s t)" using m(2) by (simp add: valued_as_def)
  ultimately show ?thesis
    using binary_intrinsic_builds [OF r m(2,3) it _ valued_as_type(1) [OF m(2) it] i val zs] by simp
qed

subsection \<open>Builders lane by lane\<close>

text \<open>The same steps where every operand is given as a function of one list of lanes.\<close>

lemma lift2_maps:
  "(\<And>x. x \<in> set xs \<Longrightarrow> g (f1 x) (f2 x) = Some (h x)) \<Longrightarrow> lift2 g (map f1 xs) (map f2 xs) = Some (map h xs)"
  by (auto simp: lift2_Some)

lemma those_maps:
  "(\<And>x. x \<in> set xs \<Longrightarrow> f (g x) = Some (h x)) \<Longrightarrow> those (map f (map g xs)) = Some (map h xs)"
  by (simp add: those_eq_Some)

lemma valued_map_length: "valued_as r a t (map f xs) \<Longrightarrow> itype t \<Longrightarrow> length xs = lanes t"
  using valued_as_type(3) [of r a t "map f xs"] by simp

lemma valued_map_range: "valued_as r a t (map f xs) \<Longrightarrow> itype t \<Longrightarrow> x \<in> set xs \<Longrightarrow> in_range t (f x)"
  using valued_as_type(4) [of r a t "map f xs"] by simp

lemma builds_map_cong:
  "builds r m t (map f xs) \<Longrightarrow> (\<And>x. x \<in> set xs \<Longrightarrow> f x = g x) \<Longrightarrow> builds r m t (map g xs)"
  by (metis map_cong)

lemma replicate_map: "length xs = n \<Longrightarrow> replicate n k = map (\<lambda>_. k) xs"
  by (simp add: map_replicate_const)

lemma const_lanes:
  assumes "itype t" and "in_range t k" and "length xs = lanes t"
  shows "builds r (make_const_int t k) t (map (\<lambda>_. k) xs)"
  using make_const_builds [OF assms(1), of r k] assms by (simp add: wrap_in_range replicate_map [OF assms(3)])

lemma cast_lanes:
  assumes "valued_as r a s (map f xs)" and "itype s" and "itype t" and "lanes s = lanes t"
    and "\<And>x. x \<in> set xs \<Longrightarrow> fit t (f x) = Some (h x)"
  shows "builds r (cast t a) t (map h xs)"
  using assms by (intro cast_builds [OF assms(1-4)] those_maps)

lemma arith_lanes:
  assumes "valued_as r a t (map f xs)" and "valued_as r b t (map g xs)" and "itype t"
    and "op \<in> {AddOp, SubOp, MulOp, DivOp, MinOp, MaxOp}"
    and "\<And>x. x \<in> set xs \<Longrightarrow> binop_val op t (f x) (g x) = Some (h x)"
  shows "builds r (operator_ee op (Some a) (Some b)) t (map h xs)"
  using assms by (intro operator_ee_builds [OF assms(1-4)] lift2_maps)

lemma arith_ei_lanes:
  assumes "valued_as r a t (map f xs)" and "itype t" and "in_range t k"
    and "op \<in> {AddOp, SubOp, MulOp, DivOp, MinOp, MaxOp}"
    and "\<And>x. x \<in> set xs \<Longrightarrow> binop_val op t (f x) k = Some (h x)"
  shows "builds r (operator_ei op (Some a) k) t (map h xs)"
proof (rule operator_ei_builds [OF assms(1-4)])
  show "lift2 (binop_val op t) (map f xs) (replicate (lanes t) k) = Some (map h xs)"
    unfolding replicate_map [OF valued_map_length [OF assms(1,2)]] using assms(5) by (rule lift2_maps)
qed

lemma compare_ei_lanes:
  assumes "valued_as r a t (map f xs)" and "itype t" and "in_range t k"
    and "op \<in> {EQOp, NEOp, LTOp, LEOp, GTOp, GEOp}"
    and "\<And>x. x \<in> set xs \<Longrightarrow> binop_val op t (f x) k = Some (h x)"
  shows "builds r (operator_ei op (Some a) k) (Bool_t (int (lanes t))) (map h xs)"
proof (rule compare_ei_builds [OF assms(1-4)])
  show "lift2 (binop_val op t) (map f xs) (replicate (lanes t) k) = Some (map h xs)"
    unfolding replicate_map [OF valued_map_length [OF assms(1,2)]] using assms(5) by (rule lift2_maps)
qed

lemma match_type_same [simp]: "match_type t t = t"
  by (simp add: match_type_def)

lemma drop_bit_range:
  assumes "in_range t x"
  shows "in_range t (drop_bit k x)"
proof (cases "0 \<le> x")
  case True
  then have "x div 2 ^ k \<le> x" "0 \<le> x div 2 ^ k"
    using zdiv_mono2 [of x 1 "2 ^ k"] by (simp_all add: pos_imp_zdiv_nonneg_iff)
  moreover have "type_lo t \<le> 0" by (simp add: type_lo_def)
  ultimately show ?thesis using assms by (auto simp: in_range_def drop_bit_eq_div)
next
  case False
  then have "x \<le> x div 2 ^ k" "x div 2 ^ k < 0"
    using zdiv_mono2_neg [of x 1 "2 ^ k"] by (simp_all add: div_neg_pos_less0)
  moreover have "- 1 \<le> type_hi t" by (auto simp: type_hi_def intro: less_le_trans [of _ 0])
  ultimately show ?thesis using assms False by (auto simp: in_range_def drop_bit_eq_div)
qed

lemma less_bits_range: "itype t \<Longrightarrow> 0 \<le> k \<Longrightarrow> k < int (bits t) \<Longrightarrow> in_range t k"
  by (auto simp: itype_def const_type_def in_range_def type_lo_def type_hi_def)

lemma shr_lanes:
  assumes r: "honours_intrinsics r" and a: "valued_as r a t (map f xs)" and b: "valued_as r b t (map (\<lambda>_. k) xs)" and t: "itype t"
    and k: "0 \<le> k" "k < int (bits t)"
  shows "builds r (operator_shr (Some a) (Some b)) t (map (\<lambda>x. drop_bit (nat k) (f x)) xs)"
proof -
  have fx: "those (map (fit t) (map f xs)) = Some (map f xs)"
    using valued_map_range [OF a t] by (intro those_maps) simp
  have fk: "those (map (fit t) (map (\<lambda>_. k) xs)) = Some (map (\<lambda>_. k) xs)"
    using valued_map_range [OF b t] by (intro those_maps) simp
  have v: "lift2 (binary_intrinsic t ''shift_right'') (map f xs) (map (\<lambda>_. k) xs) =
      Some (map (\<lambda>x. drop_bit (nat k) (f x)) xs)"
    using k by (intro lift2_maps) (simp add: binary_intrinsic_def)
  have z: "\<forall>z \<in> set (map (\<lambda>x. drop_bit (nat k) (f x)) xs). in_range t z"
    using valued_map_range [OF a t] by (auto intro: drop_bit_range)
  show ?thesis
    using shift_op_builds [OF r a b t t refl _ _ _ _ _ , of "map f xs" "map (\<lambda>_. k) xs" "''shift_right''"] fx fk v z
    by (simp add: operator_shr_def)
qed

lemma shr_ei_lanes:
  assumes r: "honours_intrinsics r" and a: "valued_as r a t (map f xs)" and t: "itype t"
    and k: "0 \<le> k" "k < int (bits t)"
  shows "builds r (operator_shr_ei (Some a) k) t (map (\<lambda>x. drop_bit (nat k) (f x)) xs)"
proof -
  have kr: "in_range t k" using less_bits_range [OF t k] .
  have "operator_shr_ei (Some a) k = rbind (make_const_int (type_of a) k) (\<lambda>c. operator_shr (Some a) (Some c))"
    using representable [OF a t kr] by (simp add: operator_shr_ei_def shift_ei_def operator_shr_def)
  moreover have "builds r (make_const_int (type_of a) k) t (map (\<lambda>_. k) xs)"
    using typed_const_builds [OF a t kr] by (simp add: replicate_map [OF valued_map_length [OF a t]])
  ultimately show ?thesis using builds_bind shr_lanes [OF r a _ t k] by metis
qed

lemma bitwise_lanes:
  assumes r: "honours_intrinsics r" and a: "valued_as r a t (map f xs)" and b: "valued_as r b s (map g xs)" and t: "itype t" and s: "itype s"
    and l: "bits s = bits t" "lanes s = lanes t" and n: "n \<in> {''bitwise_and'', ''bitwise_or'', ''bitwise_xor''}"
    and h: "\<And>x. x \<in> set xs \<Longrightarrow> binary_intrinsic t n (f x) (wrap t (g x)) = Some (h x) \<and> in_range t (h x)"
  shows "builds r (bitwise_op n (Some a) (Some b)) t (map h xs)"
proof (rule bitwise_op_builds [OF r a b t s l n])
  show "lift2 (binary_intrinsic t n) (map f xs) (map (wrap t) (map g xs)) = Some (map h xs)"
    unfolding map_map comp_def using h by (intro lift2_maps) simp
  show "\<forall>z \<in> set (map h xs). in_range t z" using h by auto
qed

end
