(* ===== verification/IntDivision.thy ===== *)
theory IntDivision
  imports BitOps DivisionTables
begin

text \<open>
  Integer division as the LLVM back end lowers it: \<open>mulhi_shr\<close>,
  \<open>sorted_avg\<close> and the \<open>visit\<close> methods of \<open>Div\<close> and \<open>Mod\<close> of
  \<open>src/CodeGen_LLVM.cpp\<close>, and \<open>lower_euclidean_div\<close> and
  \<open>lower_euclidean_mod\<close> of \<open>src/CodeGen_Internal.cpp\<close>. The result says what
  the visitor does with the expression it has built: the instruction selection of
  \<open>codegen\<close> on it is LLVM's.

  Second half: for integer operands the expression emitted has the value of Euclidean division
  and remainder. The multiplications are right because the rows of the tables are exact
  (theory DivisionTables).
\<close>

subsection \<open>Lowering a division\<close>

datatype emitted =
    Codegen expr
  | Codegen_after_CSE expr
  | Codegen_simplified expr
  | CreateFDiv expr expr

definition mulhi_shr :: "expr \<Rightarrow> expr \<Rightarrow> int \<Rightarrow> expr result" where
  "mulhi_shr a b shr =
     (let ty = type_of a; wide_ty = with_bits (bits ty * 2) ty in
      rbind (cast wide_ty a) (\<lambda>wa. rbind (cast wide_ty b) (\<lambda>wb.
      rbind (operator_ee MulOp (Some wa) (Some wb)) (\<lambda>p_wide.
      rbind (operator_shr_ei (Some p_wide) (shr + int (bits ty))) (\<lambda>s. cast ty s)))))"

definition sorted_avg :: "expr \<Rightarrow> expr \<Rightarrow> expr result" where
  "sorted_avg a b =
     rbind (operator_ee SubOp (Some b) (Some a)) (\<lambda>d.
     rbind (operator_ei DivOp (Some d) 2) (\<lambda>h. operator_ee AddOp (Some a) (Some h)))"

definition lower_euclidean_div :: "expr \<Rightarrow> expr \<Rightarrow> emitted result" where
  "lower_euclidean_div a b =
     rbind (internal_assert (type_eq (type_of a) (type_of b)) []) (\<lambda>_.
     rbind (pure_intrinsic (type_of a) ''div_round_to_zero'' [a, b]) (\<lambda>q.
     if is_int (type_of a) then
       rbind (operator_ee MulOp (Some q) (Some b)) (\<lambda>qb.
       rbind (operator_ee SubOp (Some a) (Some qb)) (\<lambda>r.
       rbind (operator_shr_ei (Some b) (int (bits (type_of a)) - 1)) (\<lambda>bs.
       rbind (operator_shr_ei (Some r) (int (bits (type_of a)) - 1)) (\<lambda>rs.
       rbind (operator_bitand (Some rs) (Some bs)) (\<lambda>u.
       rbind (operator_ee SubOp (Some q) (Some u)) (\<lambda>q1.
       rbind (operator_bitnot (Some bs)) (\<lambda>nbs.
       rbind (operator_bitand (Some rs) (Some nbs)) (\<lambda>v.
       rbind (operator_ee AddOp (Some q1) (Some v)) (\<lambda>q2. Inr (Codegen_after_CSE q2))))))))))
     else Inr (Codegen q)))"

definition lower_euclidean_mod :: "expr \<Rightarrow> expr \<Rightarrow> emitted result" where
  "lower_euclidean_mod a b =
     rbind (internal_assert (type_eq (type_of a) (type_of b)) []) (\<lambda>_.
     rbind (pure_intrinsic (type_of a) ''mod_round_to_zero'' [a, b]) (\<lambda>r.
     if is_int (type_of a) then
       rbind (operator_ei LTOp (Some r) 0) (\<lambda>c.
       rbind (abs_expr b) (\<lambda>ab.
       rbind (operator_ee AddOp (Some r) (Some ab)) (\<lambda>rb.
       rbind (select c rb r) (\<lambda>s. Inr (Codegen_after_CSE s)))))
     else Inr (Codegen r)))"

definition signed_table :: "nat \<Rightarrow> division_row list" where
  "signed_table w = (if w = 32 then table_s32 else if w = 16 then table_s16 else table_s8)"

definition unsigned_table :: "nat \<Rightarrow> division_row list" where
  "unsigned_table w = (if w = 32 then table_u32 else if w = 16 then table_u16 else table_u8)"

text \<open>The two branches of small constant divisors, signed and unsigned.\<close>

definition signed_constant_div :: "expr \<Rightarrow> int \<Rightarrow> emitted result" where
  "signed_constant_div a d =
     (let t = type_of a; row = signed_table (bits t) ! nat d;
          multiplier = row_multiplier row; shift = row_shift row in
      rbind (make_const_int t (int (bits t) - 1)) (\<lambda>c.
      rbind (operator_shr (Some a) (Some c)) (\<lambda>sign.
      rbind (cast (with_code halide_type_uint t) a) (\<lambda>num.
      rbind (operator_bitxor (Some num) (Some sign)) (\<lambda>num.
      rbind (make_const_int (type_of num) multiplier) (\<lambda>mult.
      rbind (mulhi_shr num mult shift) (\<lambda>num.
      rbind (operator_bitxor (Some num) (Some sign)) (\<lambda>num. Inr (Codegen num)))))))))"

definition unsigned_constant_div :: "expr \<Rightarrow> int \<Rightarrow> emitted result" where
  "unsigned_constant_div a d =
     (let t = type_of a; row = unsigned_table (bits t) ! nat d;
          meth = row_method row; multiplier = row_multiplier row; shift = row_shift row in
      rbind (internal_assert (meth \<noteq> 0)
        ''method 0 division is for powers of two and should have been handled elsewhere'') (\<lambda>_.
      rbind (make_const_int t multiplier) (\<lambda>mult.
      rbind (mulhi_shr a mult (if meth = 1 then shift else 0)) (\<lambda>val.
      if meth = 2 then
        rbind (sorted_avg val a) (\<lambda>val.
        if shift \<noteq> 0 then
          rbind (make_const_int t shift) (\<lambda>c.
          rbind (operator_shr (Some val) (Some c)) (\<lambda>val. Inr (Codegen val)))
        else Inr (Codegen val))
      else Inr (Codegen val)))))"

text \<open>\<open>visit(const Div *)\<close> and \<open>visit(const Mod *)\<close>, whose operands have the type \<open>t\<close>.\<close>

definition visit_Div :: "expr \<Rightarrow> expr \<Rightarrow> emitted result" where
  "visit_Div a b =
     (let t = type_of a in
      rbind (user_assert (\<not> is_zero b) ''Division by constant zero in expression'') (\<lambda>_.
      if is_float t then Inr (CreateFDiv a b)
      else if is_const_power_of_two_integer b \<noteq> None \<and> (is_int t \<or> is_uint t) then
        rbind (operator_shr_ei (Some a) (int (the (is_const_power_of_two_integer b)))) (\<lambda>e. Inr (Codegen e))
      else case (as_const_int b, as_const_uint b) of
        (Some d, _) \<Rightarrow>
          if is_int t \<and> bits t \<in> {8, 16, 32} \<and> 1 < d \<and> (8 < bits t \<and> d < 256 \<or> d < 128)
          then signed_constant_div a d else lower_euclidean_div a b
      | (None, Some d) \<Rightarrow>
          if is_uint t \<and> bits t \<in> {8, 16, 32} \<and> 1 < d \<and> d < 256
          then unsigned_constant_div a d else lower_euclidean_div a b
      | (None, None) \<Rightarrow> lower_euclidean_div a b))"

definition visit_Mod :: "expr \<Rightarrow> expr \<Rightarrow> emitted result" where
  "visit_Mod a b =
     (if is_float (type_of a) then
        rbind (operator_ee DivOp (Some a) (Some b)) (\<lambda>q.
        rbind (floor_expr (Some q)) (\<lambda>f.
        rbind (operator_ee MulOp (Some b) (Some f)) (\<lambda>m.
        rbind (operator_ee SubOp (Some a) (Some m)) (\<lambda>e. Inr (Codegen_simplified e)))))
      else if is_const_power_of_two_integer b \<noteq> None then
        rbind (operator_ei SubOp (Some b) 1) (\<lambda>m.
        rbind (operator_bitand (Some a) (Some m)) (\<lambda>e. Inr (Codegen e)))
      else lower_euclidean_mod a b)"

subsection \<open>Facts: multiply and keep the high half\<close>

lemma itype_wide:
  assumes "itype t" and "bits t \<in> {8, 16, 32}"
  shows "itype (with_bits (bits t * 2) t)" "lanes (with_bits (bits t * 2) t) = lanes t"
    "bits (with_bits (bits t * 2) t) = 2 * bits t" "is_uint (with_bits (bits t * 2) t) = is_uint t"
    "is_int (with_bits (bits t * 2) t) = is_int t"
  using assms itype_lanes [OF assms(1)]
  by (auto simp: with_bits_def mk_Type_def itype_def const_type_def type_predicates type_wf_def nat_mod_distrib)

lemma with_bits_cong: "type_eq s t \<Longrightarrow> with_bits n s = with_bits n t"
  by (simp add: with_bits_def type_eq_def)

lemma with_code_cong: "type_eq s t \<Longrightarrow> with_code c s = with_code c t"
  by (simp add: with_code_def type_eq_def)

lemma uint_range: "is_uint t \<Longrightarrow> in_range t x \<longleftrightarrow> 0 \<le> x \<and> x < 2 ^ bits t"
  by (auto simp: in_range_def type_lo_def type_hi_def is_int_def is_uint_def)

lemma int_range: "is_int t \<Longrightarrow> in_range t x \<longleftrightarrow> - (2 ^ (bits t - 1)) \<le> x \<and> x < 2 ^ (bits t - 1)"
  by (auto simp: in_range_def type_lo_def type_hi_def)

lemma mulhi_shr_lanes:
  assumes r: "honours_intrinsics r" and a: "valued_as r a t (map f xs)" and b: "valued_as r b t (map (\<lambda>_. m) xs)"
    and t: "itype t" "is_uint t" "bits t \<in> {8, 16, 32}" and s: "0 \<le> s" "s < int (bits t)"
  shows "builds r (mulhi_shr a b s) t (map (\<lambda>x. f x * m div 2 ^ (bits t + nat s)) xs)"
proof -
  let ?w = "with_bits (bits t * 2) t" and ?N = "bits t"
  have ea: "type_eq (type_of a) t" using a by (simp add: valued_as_def)
  have tw: "with_bits (?N * 2) (type_of a) = ?w" "bits (type_of a) = ?N"
    using with_bits_cong [OF ea] type_eq_fields [OF ea] by simp_all
  note w = itype_wide [OF t(1,3)]
  have wu: "is_uint ?w" using w t by simp
  have N2: "(2::int) ^ ?N \<le> 2 ^ (2 * ?N)" by (rule power_increasing) auto
  have fr: "0 \<le> f x \<and> f x < 2 ^ ?N" "0 \<le> m \<and> m < 2 ^ ?N" if "x \<in> set xs" for x
    using valued_map_range [OF a t(1) that] valued_map_range [OF b t(1) that] uint_range [OF t(2)] by auto
  have wr: "in_range ?w y" if "0 \<le> y" "y < 2 ^ ?N" for y
    using that(1) less_le_trans [OF that(2) N2] uint_range [OF wu] w by simp
  have pr: "in_range ?w (f x * m)" if "x \<in> set xs" for x
  proof -
    have "f x * m < 2 ^ ?N * 2 ^ ?N" using fr [OF that] by (intro mult_strict_mono') auto
    then show ?thesis using fr [OF that] uint_range [OF wu] w by (simp add: mult_2 power_add)
  qed
  have wa: "builds r (cast ?w a) ?w (map f xs)"
    by (rule cast_lanes [OF a t(1) w(1)]) (use w fr wr in auto)
  have wb: "builds r (cast ?w b) ?w (map (\<lambda>_. m) xs)"
    by (rule cast_lanes [OF b t(1) w(1)]) (use w fr wr in auto)
  have mul: "builds r (operator_ee MulOp (Some c) (Some d)) ?w (map (\<lambda>x. f x * m) xs)"
    if "valued_as r c ?w (map f xs)" "valued_as r d ?w (map (\<lambda>_. m) xs)" for c d
    by (rule arith_lanes [OF that w(1)]) (use pr in auto)
  have shr: "builds r (operator_shr_ei (Some c) (s + int ?N)) ?w (map (\<lambda>x. drop_bit (nat (s + int ?N)) (f x * m)) xs)"
    if "valued_as r c ?w (map (\<lambda>x. f x * m) xs)" for c
    by (rule shr_ei_lanes [OF r that w(1)]) (use s w in auto)
  have narrow: "builds r (cast (type_of a) c) t (map (\<lambda>x. f x * m div 2 ^ (?N + nat s)) xs)"
    if c: "valued_as r c ?w (map (\<lambda>x. drop_bit (nat (s + int ?N)) (f x * m)) xs)" for c
  proof -
    have n: "nat (s + int ?N) = ?N + nat s" using s by simp
    have le: "in_range t (f x * m div 2 ^ (?N + nat s))" if "x \<in> set xs" for x
    proof -
      have "f x * m \<le> f x * 2 ^ ?N" using fr [OF that] by (intro mult_left_mono) auto
      then have "f x * m div 2 ^ ?N \<le> f x" using zdiv_mono1 [of "f x * m" "f x * 2 ^ ?N" "2 ^ ?N"] by simp
      moreover have "f x * m div 2 ^ (?N + nat s) \<le> f x * m div 2 ^ ?N"
        using fr [OF that] by (intro zdiv_mono2) (auto intro: power_increasing)
      ultimately show ?thesis
        using fr [OF that] uint_range [OF t(2)] by (simp add: pos_imp_zdiv_nonneg_iff)
    qed
    have "builds r (cast (type_of a) c) (type_of a) (map (\<lambda>x. f x * m div 2 ^ (?N + nat s)) xs)"
    proof (rule cast_lanes [OF c w(1) valued_as_type(2) [OF a t(1)]])
      show "lanes ?w = lanes (type_of a)" using w type_eq_fields [OF ea] by simp
      show "fit (type_of a) (drop_bit (nat (s + int ?N)) (f x * m)) = Some (f x * m div 2 ^ (?N + nat s))"
        if "x \<in> set xs" for x
        using le [OF that] type_eq_cong(11) [OF ea] by (simp add: n drop_bit_eq_div)
    qed
    then show ?thesis using ea by (auto simp: builds_def intro: valued_as_retype)
  qed
  show ?thesis
    unfolding mulhi_shr_def Let_def tw
    by (intro builds_bind [OF wa] builds_bind [OF wb] builds_bind [OF mul] builds_bind [OF shr] narrow)
qed

lemma sorted_avg_lanes:
  assumes a: "valued_as r a t (map f xs)" and b: "valued_as r b t (map g xs)"
    and t: "itype t" "is_uint t" "1 < bits t" and le: "\<And>x. x \<in> set xs \<Longrightarrow> f x \<le> g x"
  shows "builds r (sorted_avg a b) t (map (\<lambda>x. f x + (g x - f x) div 2) xs)"
proof -
  have fr: "0 \<le> f x" "g x < 2 ^ bits t" if "x \<in> set xs" for x
    using valued_map_range [OF a t(1) that] valued_map_range [OF b t(1) that] uint_range [OF t(2)] by auto
  have 2: "in_range t 2"
    using t uint_range [OF t(2)] power_strict_increasing [of 1 "bits t" "2::int"] by simp
  have rg: "in_range t y" if "0 \<le> y" "y \<le> g x" "x \<in> set xs" for x y
    using that fr uint_range [OF t(2)] by fastforce
  have d: "builds r (operator_ee SubOp (Some b) (Some a)) t (map (\<lambda>x. g x - f x) xs)"
  proof (rule arith_lanes [OF b a t(1)])
    show "binop_val SubOp t (g x) (f x) = Some (g x - f x)" if "x \<in> set xs" for x
      using le [OF that] fr [OF that] rg [of "g x - f x" x] that by simp
  qed simp
  have h: "builds r (operator_ei DivOp (Some c) 2) t (map (\<lambda>x. (g x - f x) div 2) xs)"
    if "valued_as r c t (map (\<lambda>x. g x - f x) xs)" for c
  proof (rule arith_ei_lanes [OF that t(1) 2])
    fix x
    assume x: "x \<in> set xs"
    have "(g x - f x) div 2 \<le> g x" "0 \<le> (g x - f x) div 2" using le [OF x] fr [OF x] by presburger+
    then show "binop_val DivOp t (g x - f x) 2 = Some ((g x - f x) div 2)"
      using rg [OF _ _ x] by (simp add: ediv_def)
  qed simp
  have s: "builds r (operator_ee AddOp (Some a) (Some c)) t (map (\<lambda>x. f x + (g x - f x) div 2) xs)"
    if "valued_as r c t (map (\<lambda>x. (g x - f x) div 2) xs)" for c
  proof (rule arith_lanes [OF a that t(1)])
    fix x
    assume x: "x \<in> set xs"
    have "f x + (g x - f x) div 2 \<le> g x" "0 \<le> f x + (g x - f x) div 2" using le [OF x] fr [OF x] by presburger+
    then show "binop_val AddOp t (f x) ((g x - f x) div 2) = Some (f x + (g x - f x) div 2)"
      using rg [OF _ _ x] by simp
  qed simp
  show ?thesis
    unfolding sorted_avg_def by (intro builds_bind [OF d] builds_bind [OF h] s)
qed

subsection \<open>Facts: small constant divisors\<close>

text \<open>A visitor emits an expression whose lanes have the given values.\<close>

definition emits :: "env \<Rightarrow> emitted result \<Rightarrow> Type \<Rightarrow> lane_values \<Rightarrow> bool" where
  "emits r m t zs \<longleftrightarrow> (\<exists>e. (m = Inr (Codegen e) \<or> m = Inr (Codegen_after_CSE e)) \<and> valued_as r e t zs)"

lemma emits_Codegen: "builds r m t zs \<Longrightarrow> emits r (rbind m (\<lambda>e. Inr (Codegen e))) t zs"
  by (auto simp: builds_def emits_def)

lemma emits_CSE: "builds r m t zs \<Longrightarrow> emits r (rbind m (\<lambda>e. Inr (Codegen_after_CSE e))) t zs"
  by (auto simp: builds_def emits_def)

lemma emits_bind:
  "builds r m t xs \<Longrightarrow> (\<And>e. valued_as r e t xs \<Longrightarrow> emits r (f e) t' ys) \<Longrightarrow> emits r (rbind m f) t' ys"
  by (auto simp: builds_def)

lemma emits_Inr [simp]:
  "emits r (Inr (Codegen e)) t zs = valued_as r e t zs" "emits r (Inr (Codegen_after_CSE e)) t zs = valued_as r e t zs"
  by (simp_all add: emits_def)

lemma table_rows:
  assumes "bits t \<in> {8, 16, 32}" and "1 < d" and "d < 256" and "\<not> is_power d"
  shows "row_exact (bits t) (2 ^ bits t - 1) d (unsigned_table (bits t) ! nat d)"
    and "8 < bits t \<or> d < 128 \<Longrightarrow> row_method (signed_table (bits t) ! nat d) = 1 \<and>
      row_exact (bits t) (2 ^ (bits t - 1) - 1) d (signed_table (bits t) ! nat d)"
proof -
  have d: "0 < nat d" "nat d < 256" "int (nat d) = d" "\<not> is_power (int (nat d))" using assms by auto
  note u = constant_rows_exactD [OF table_u8_exact d(1,2,4)] constant_rows_exactD [OF table_u16_exact d(1,2,4)]
    constant_rows_exactD [OF table_u32_exact d(1,2,4)]
  note s = constant_rows_exactD [OF table_s16_exact d(1,2,4)] constant_rows_exactD [OF table_s32_exact d(1,2,4)]
  show "row_exact (bits t) (2 ^ bits t - 1) d (unsigned_table (bits t) ! nat d)"
    using assms(1) u d(3) by (auto simp: unsigned_table_def)
  show "row_method (signed_table (bits t) ! nat d) = 1 \<and>
      row_exact (bits t) (2 ^ (bits t - 1) - 1) d (signed_table (bits t) ! nat d)" if "8 < bits t \<or> d < 128"
  proof (cases "bits t = 8")
    case True
    then have "nat d < 128" using that assms(2) by auto
    from constant_rows_exactD [OF table_s8_exact d(1) this d(4)] True d(3)
    show ?thesis by (simp add: signed_table_def)
  next
    case False
    then show ?thesis using assms(1) s d(3) by (auto simp: signed_table_def)
  qed
qed

lemma unsigned_constant_div_lanes:
  assumes r: "honours_intrinsics r" and a: "valued_as r a t xs" and t: "itype t" "is_uint t" "bits t \<in> {8, 16, 32}"
    and d: "1 < d" "d < 256" "\<not> is_power d"
  shows "emits r (unsigned_constant_div a d) t (map (\<lambda>x. x div d) xs)"
proof -
  let ?N = "bits t"
  define row where "row = unsigned_table ?N ! nat d"
  define m where "m = row_multiplier row"
  define s where "s = row_shift row"
  have row: "row_exact ?N (2 ^ ?N - 1) d row" unfolding row_def by (rule table_rows(1) [OF t(3) d])
  have m: "0 \<le> m" "m < 2 ^ ?N" and s: "0 \<le> s" "s < 8" using row by (auto simp: row_exact_def m_def s_def)
  have ea: "type_eq (type_of a) t" using a by (simp add: valued_as_def)
  have N: "bits (type_of a) = ?N" using type_eq_fields [OF ea] by simp
  have a': "valued_as r a t (map (\<lambda>x. x) xs)" using a by simp
  have ax: "0 \<le> x \<and> x \<le> 2 ^ ?N - 1" if "x \<in> set xs" for x
    using valued_map_range [OF a' t(1) that] uint_range [OF t(2)] by auto
  have mult: "builds r (make_const_int (type_of a) m) t (map (\<lambda>_. m) xs)"
    using typed_const_builds [OF a t(1), of m] m uint_range [OF t(2)] valued_as_type(3) [OF a t(1)]
    by (simp add: map_replicate_const)
  have sN: "s < int ?N" using s t(3) by auto
  note hi = mulhi_shr_lanes [OF r a' _ t]
  show ?thesis
  proof (cases "row_method row = 1")
    case True
    have x: "x * m div 2 ^ (?N + nat s) = x div d" if "x \<in> set xs" for x
      using row True ax [OF that] exact_multiplier_div by (auto simp: row_exact_def m_def s_def)
    have "emits r (rbind (mulhi_shr a c s) (\<lambda>v. Inr (Codegen v))) t (map (\<lambda>x. x div d) xs)"
      if "valued_as r c t (map (\<lambda>_. m) xs)" for c
      by (intro emits_Codegen builds_map_cong [OF hi [OF that s(1) sN]]) (rule x)
    from emits_bind [OF mult this] show ?thesis
      using True by (simp add: unsigned_constant_div_def Let_def N m_def s_def flip: row_def)
  next
    case False
    then have two: "row_method row = 2" using row by (simp add: row_exact_def)
    have ex: "exact_multiplier d (m + 2 ^ ?N) (?N + 1 + nat s) (2 ^ ?N - 1)"
      using row two by (simp add: row_exact_def m_def s_def)
    let ?v = "\<lambda>x. x * m div 2 ^ (?N + nat 0)"
    let ?w = "\<lambda>x. ?v x + (x - ?v x) div 2"
    have le: "?v x \<le> x" and x: "?w x div 2 ^ nat s = x div d" if "x \<in> set xs" for x
      using average_div(1) [of x m ?N] average_div(2) [of x m ?N "nat s"] ax [OF that] m exact_multiplier_div [OF ex] by auto
    have fin: "emits r (if s \<noteq> 0 then rbind (make_const_int (type_of a) s) (\<lambda>c.
          rbind (operator_shr (Some v) (Some c)) (\<lambda>v. Inr (Codegen v))) else Inr (Codegen v)) t (map (\<lambda>x. x div d) xs)"
      if v: "valued_as r v t (map ?w xs)" for v
    proof (cases "s = 0")
      case True
      then have e: "map ?w xs = map (\<lambda>x. x div d) xs" using x by (intro map_cong) auto
      from v [unfolded e] True show ?thesis by simp
    next
      case False
      have c: "builds r (make_const_int (type_of a) s) t (map (\<lambda>_. s) xs)"
        using typed_const_builds [OF a t(1) less_bits_range [OF t(1) s(1) sN]] valued_as_type(3) [OF a t(1)]
        by (simp add: map_replicate_const)
      have "emits r (rbind (operator_shr (Some v) (Some c)) (\<lambda>v. Inr (Codegen v))) t (map (\<lambda>x. x div d) xs)"
        if "valued_as r c t (map (\<lambda>_. s) xs)" for c
        by (intro emits_Codegen builds_map_cong [OF shr_lanes [OF r v that t(1) s(1) sN]])
          (simp only: drop_bit_eq_div x)
      from emits_bind [OF c this] False show ?thesis by simp
    qed
    have avg: "builds r (sorted_avg v a) t (map ?w xs)" if "valued_as r v t (map ?v xs)" for v
      using sorted_avg_lanes [OF that a' t(1,2)] t(3) le by force
    have body: "emits r (rbind (mulhi_shr a c 0) (\<lambda>v. rbind (sorted_avg v a) (\<lambda>v.
        if s \<noteq> 0 then rbind (make_const_int (type_of a) s) (\<lambda>c.
          rbind (operator_shr (Some v) (Some c)) (\<lambda>v. Inr (Codegen v))) else Inr (Codegen v)))) t (map (\<lambda>x. x div d) xs)"
      if "valued_as r c t (map (\<lambda>_. m) xs)" for c
      using t(3) by (intro emits_bind [OF hi [OF that]] emits_bind [OF avg] fin) auto
    show ?thesis
      unfolding unsigned_constant_div_def Let_def N row_def [symmetric] m_def [symmetric] s_def [symmetric]
      using emits_bind [OF mult body] two by simp
  qed
qed

lemma signed_flip:
  fixes x :: int
  assumes "- (2 ^ (N - 1)) \<le> x" "x < 2 ^ (N - 1)" "0 < N"
  shows "take_bit N x XOR take_bit N (if x < 0 then - 1 else 0) = (if x < 0 then - x - 1 else x)"
proof -
  have N: "(2::int) ^ (N - 1) \<le> 2 ^ N" by (rule power_increasing) auto
  have "take_bit N x XOR take_bit N (if x < 0 then - 1 else 0) = take_bit N (if x < 0 then - x - 1 else x)"
    by (simp add: not_int_def flip: take_bit_xor)
  also have "\<dots> = (if x < 0 then - x - 1 else x)"
  proof (rule take_bit_int_eq_self)
    have "- x - 1 < 2 ^ (N - 1)" using assms(1) by linarith
    then have "- x - 1 < 2 ^ N" "x < 2 ^ N" using N assms(2) by (rule_tac [!] less_le_trans)
    then show "(if x < 0 then - x - 1 else x) < 2 ^ N" by simp
  qed simp
  finally show ?thesis .
qed

lemma flip_div:
  fixes x d :: int
  assumes "0 < d" and "x < 0"
  shows "- ((- x - 1) div d) - 1 = x div d"
proof -
  have "(- x - 1) div d = - (x div d) - 1"
  proof (rule int_div_pos_eq [where r = "d - 1 - x mod d"])
    show "- x - 1 = d * (- (x div d) - 1) + (d - 1 - x mod d)"
      using mult_div_mod_eq [of d x] by (simp add: algebra_simps)
  qed (use pos_mod_bound [OF assms(1), of x] pos_mod_sign [OF assms(1), of x] in auto)
  then show ?thesis by simp
qed

lemma itype_unsigned:
  assumes "itype t" and "bits t \<in> {8, 16, 32}"
  shows "itype (with_code halide_type_uint t)" "is_uint (with_code halide_type_uint t)"
    "bits (with_code halide_type_uint t) = bits t" "lanes (with_code halide_type_uint t) = lanes t"
  using assms itype_lanes [OF assms(1)]
  by (auto simp: with_code_def mk_Type_def itype_def const_type_def type_predicates type_wf_def nat_mod_distrib)

lemma wrap_uint: "is_uint t \<Longrightarrow> wrap t x = take_bit (bits t) x"
  by (simp add: wrap_def)

lemma fit_uint: "is_uint t \<Longrightarrow> fit t x = Some (take_bit (bits t) x)"
  using wrap_in_range [of t x] by (auto simp: fit_def no_overflow_int_def wrap_uint)

text \<open>The signed quotient comes out as an unsigned number with the bits of the quotient.\<close>

lemma signed_constant_div_lanes:
  assumes r: "honours_intrinsics r" and a: "valued_as r a t xs" and t: "itype t" "is_int t" "bits t \<in> {8, 16, 32}"
    and d: "1 < d" "d < 256" "\<not> is_power d" "8 < bits t \<or> d < 128"
  shows "emits r (signed_constant_div a d) (with_code halide_type_uint t)
    (map (\<lambda>x. wrap (with_code halide_type_uint t) (x div d)) xs)"
proof -
  let ?N = "bits t" and ?u = "with_code halide_type_uint t"
  define row where "row = signed_table ?N ! nat d"
  define m where "m = row_multiplier row"
  define s where "s = row_shift row"
  have row: "row_method row = 1" "row_exact ?N (2 ^ (?N - 1) - 1) d row"
    unfolding row_def using table_rows(2) [OF t(3) d(1-4)] by auto
  have m: "0 \<le> m" "m < 2 ^ ?N" and s: "0 \<le> s" "s < 8" using row by (auto simp: row_exact_def m_def s_def)
  note u = itype_unsigned [OF t(1,3)]
  have ea: "type_eq (type_of a) t" using a by (simp add: valued_as_def)
  have N: "bits (type_of a) = ?N" "with_code halide_type_uint (type_of a) = ?u"
    using type_eq_fields [OF ea] with_code_cong [OF ea] by simp_all
  let ?sg = "\<lambda>x::int. if x < 0 then - 1 else 0 :: int" and ?fl = "\<lambda>x::int. if x < 0 then - x - 1 else x"
  have a': "valued_as r a t (map (\<lambda>x. x) xs)" using a by simp
  have ax: "- (2 ^ (?N - 1)) \<le> x \<and> x < 2 ^ (?N - 1)" if "x \<in> set xs" for x
    using valued_map_range [OF a' t(1) that] int_range [OF t(2)] by auto
  have N0: "0 < ?N" using t(3) by auto
  have c: "builds r (make_const_int (type_of a) (int ?N - 1)) t (map (\<lambda>_. int ?N - 1) xs)"
    using typed_const_builds [OF a t(1) less_bits_range [OF t(1), of "int ?N - 1"]] N0 valued_as_type(3) [OF a t(1)]
    by (simp add: map_replicate_const)
  have sign: "builds r (operator_shr (Some a) (Some c)) t (map ?sg xs)"
    if "valued_as r c t (map (\<lambda>_. int ?N - 1) xs)" for c
  proof (rule builds_map_cong [OF shr_lanes [OF r a' that t(1)]])
    show "drop_bit (nat (int ?N - 1)) x = ?sg x" if "x \<in> set xs" for x
      using drop_bit_sign [of ?N x] ax [OF that] N0 by (simp add: nat_diff_distrib)
  qed (use N0 in auto)
  have num: "builds r (cast ?u a) ?u (map (take_bit ?N) xs)"
    by (rule cast_lanes [OF a' t(1) u(1)]) (use u fit_uint [OF u(2)] in auto)
  have ux: "in_range ?u (take_bit ?N y)" for y :: int
    using uint_range [OF u(2)] u(3) by (simp add: take_bit_int_less_exp)
  have flip: "builds r (operator_bitxor (Some v) (Some g)) ?u (map ?fl xs)"
    if "valued_as r v ?u (map (take_bit ?N) xs)" "valued_as r g t (map ?sg xs)" for v g
    unfolding operator_bitxor_def
  proof (rule bitwise_lanes [OF r that u(1) t(1)])
    fix x
    assume x: "x \<in> set xs"
    have e: "take_bit ?N x XOR take_bit ?N (?sg x) = ?fl x" using signed_flip ax [OF x] N0 by blast
    have "in_range ?u (?fl x)" using ux [of "x XOR ?sg x"] e by (simp add: take_bit_xor)
    with e show "binary_intrinsic ?u ''bitwise_xor'' (take_bit ?N x) (wrap ?u (?sg x)) = Some (?fl x) \<and> in_range ?u (?fl x)"
      using u by (simp add: binary_intrinsic_def wrap_uint)
  qed (use u in auto)
  have mult: "builds r (make_const_int (type_of v) m) ?u (map (\<lambda>_. m) xs)" if "valued_as r v ?u (map ?fl xs)" for v
    using typed_const_builds [OF that u(1), of m] m uint_range [OF u(2)] u valued_map_length [OF that u(1)]
    by (simp add: map_replicate_const)
  have sN: "s < int ?N" using s t(3) by auto
  let ?q = "\<lambda>x. ?fl x * m div 2 ^ (?N + nat s)"
  have q: "?q x = ?fl x div d" if "x \<in> set xs" for x
    using row ax [OF that] exact_multiplier_div [of d m "?N + nat s" "2 ^ (?N - 1) - 1" "?fl x"]
    by (auto simp: row_exact_def m_def s_def)
  have hi: "builds r (mulhi_shr v c s) ?u (map ?q xs)" if "valued_as r v ?u (map ?fl xs)" "valued_as r c ?u (map (\<lambda>_. m) xs)" for v c
    using mulhi_shr_lanes [OF r that u(1,2) _ s(1)] sN t(3) by (simp only: u(3))
  have out: "builds r (operator_bitxor (Some v) (Some g)) ?u (map (\<lambda>x. wrap ?u (x div d)) xs)"
    if v: "valued_as r v ?u (map ?q xs)" and g: "valued_as r g t (map ?sg xs)" for v g
    unfolding operator_bitxor_def
  proof (rule bitwise_lanes [OF r v g u(1) t(1)])
    fix x
    assume x: "x \<in> set xs"
    have "in_range ?u (?q x)" using valued_map_range [OF v u(1) x] .
    then have "?q x = take_bit ?N (?q x)" using wrap_in_range [of ?u "?q x"] u by (simp add: wrap_uint)
    then have "?q x XOR take_bit ?N (?sg x) = take_bit ?N (?q x XOR ?sg x)" by (metis take_bit_xor)
    also have "?q x XOR ?sg x = x div d"
      using q [OF x] flip_div [of d x] d(1) by (simp add: not_int_def)
    finally show "binary_intrinsic ?u ''bitwise_xor'' (?q x) (wrap ?u (?sg x)) = Some (wrap ?u (x div d)) \<and>
        in_range ?u (wrap ?u (x div d))"
      using u ux by (simp add: binary_intrinsic_def wrap_uint)
  qed (use u in auto)
  have tail: "emits r (rbind (operator_bitxor (Some v) (Some g)) (\<lambda>num. Inr (Codegen num))) ?u (map (\<lambda>x. wrap ?u (x div d)) xs)"
    if "valued_as r v ?u (map ?q xs)" "valued_as r g t (map ?sg xs)" for v g
    by (rule emits_Codegen [OF out [OF that]])
  show ?thesis
    unfolding signed_constant_div_def Let_def N row_def [symmetric] m_def [symmetric] s_def [symmetric]
    by (intro emits_bind [OF c] emits_bind [OF sign] emits_bind [OF num] emits_bind [OF flip] emits_bind [OF mult]
      emits_bind [OF hi] tail)
qed

subsection \<open>Facts: Euclidean division\<close>

lemma sign_mask: "in_range t x \<Longrightarrow> is_int t \<Longrightarrow> drop_bit (bits t - 1) x = (if x < 0 then - 1 else 0)"
  using int_range [of t x] by (intro drop_bit_sign) auto

lemma small_range: "itype t \<Longrightarrow> is_int t \<Longrightarrow> x \<in> {- 1, 0} \<Longrightarrow> in_range t x"
  by (auto simp: int_range intro: less_le_trans [of _ 0])

lemma sdiv_mult_between:
  fixes x y :: int
  shows "0 \<le> x \<Longrightarrow> 0 \<le> x sdiv y * y \<and> x sdiv y * y \<le> x" "x \<le> 0 \<Longrightarrow> x \<le> x sdiv y * y \<and> x sdiv y * y \<le> 0"
proof -
  define M where "M = \<bar>x\<bar> mod \<bar>y\<bar>"
  have M: "0 \<le> M" "M \<le> \<bar>x\<bar>"
    unfolding M_def by (cases "y = 0", simp, simp) (rule zmod_le_nonneg_dividend, simp)
  have "x sdiv y * y = x - x smod y" by (simp add: smod_eq_diff)
  then have e: "x sdiv y * y = x - sgn x * M" by (simp add: signed_modulo_int_def M_def)
  show "0 \<le> x \<Longrightarrow> 0 \<le> x sdiv y * y \<and> x sdiv y * y \<le> x" unfolding e using M by (simp add: sgn_if)
  show "x \<le> 0 \<Longrightarrow> x \<le> x sdiv y * y \<and> x sdiv y * y \<le> 0" unfolding e using M by (simp add: sgn_if)
qed

lemma sdiv_range:
  assumes "is_int t" and "in_range t x" and "in_range t y" and "c_div_defined t x y"
  shows "in_range t (x sdiv y)" "in_range t (x sdiv y * y)" "in_range t (x smod y)" "in_range t (ediv x y)"
    "\<bar>x smod y\<bar> < \<bar>y\<bar>" "x - x sdiv y * y = x smod y"
proof -
  have w: "in_width (bits t) x" "in_width (bits t) y" using assms int_range by (auto simp: in_width_def)
  have y: "y \<noteq> 0" "\<not> (x = int_min (bits t) \<and> y = - 1)"
    using assms(1,4) by (auto simp: c_div_defined_def type_lo_def int_min_def)
  show m: "\<bar>x smod y\<bar> < \<bar>y\<bar>" by (rule abs_smod_less [OF y(1)])
  show e: "x - x sdiv y * y = x smod y" by (simp add: smod_eq_diff)
  show "in_range t (x smod y)" using smod_in_width [OF w(2) y(1)] int_range [OF assms(1)] by (simp add: in_width_def)
  show "in_range t (ediv x y)" using ediv_in_width [OF w y] int_range [OF assms(1)] by (simp add: in_width_def)
  show p: "in_range t (x sdiv y * y)"
    using sdiv_mult_between [of x y] assms(2) int_range [OF assms(1)] by (cases "0 \<le> x") auto
  have q: "\<bar>x sdiv y\<bar> \<le> \<bar>x\<bar>" using sdiv_int_range [of x y] by auto
  show "in_range t (x sdiv y)"
  proof (cases "x sdiv y = \<bar>x\<bar> \<and> x < 0")
    case True
    then have x: "0 < - x" "x sdiv y = - x" by auto
    then have "(- x) * y \<le> (- x) * 0" "(- x) * (- 1) \<le> (- x) * y"
      using sdiv_mult_between(2) [of x y] by (simp_all del: minus_mult_minus mult_minus_left)
    then have "y \<le> 0" "- 1 \<le> y" using mult_le_cancel_left_pos [OF x(1)] by blast+
    then have "y = - 1" using y(1) by linarith
    then have "x \<noteq> - (2 ^ (bits t - 1))" using y(2) by (simp add: int_min_def)
    moreover have "- (2 ^ (bits t - 1)) \<le> x" using assms(2) int_range [OF assms(1)] by blast
    moreover have "(0::int) < 2 ^ (bits t - 1)" by simp
    ultimately show ?thesis unfolding int_range [OF assms(1)] x(2) using x(1) by linarith
  next
    case False
    then have n: "x sdiv y < - x \<or> 0 \<le> x" using q by linarith
    have xr: "- (2 ^ (bits t - 1)) \<le> x" "x < 2 ^ (bits t - 1)" using assms(2) int_range [OF assms(1)] by blast+
    show ?thesis unfolding int_range [OF assms(1)] using q n xr by linarith
  qed
qed

text \<open>The correction of the truncated quotient by the signs of the divisor and the remainder.\<close>

lemma sdiv_correction:
  assumes "y \<noteq> 0"
  shows "x sdiv y - ((if x smod y < 0 then - 1 else 0) AND (if y < 0 then - 1 else 0)) +
    ((if x smod y < 0 then - 1 else 0) AND NOT (if y < 0 then - 1 else 0)) = ediv x y"
proof -
  define q r where "q = x sdiv y" and "r = x smod y"
  have x: "x = q * y + r" by (simp add: q_def r_def smod_eq_diff)
  have small: "\<bar>r\<bar> < \<bar>y\<bar>" unfolding r_def by (rule abs_smod_less [OF assms])
  have "ediv x y = (if r < 0 then (if y < 0 then q + 1 else q - 1) else q)"
  proof (cases "r < 0")
    case True
    then show ?thesis
      using small x by (intro ediv_unique(1) [where r = "r + \<bar>y\<bar>"]) (auto simp: algebra_simps)
  next
    case False
    then show ?thesis using small x by (intro ediv_unique(1) [where r = r]) auto
  qed
  then show ?thesis by (auto simp flip: q_def r_def)
qed

lemma c_div_lanes:
  assumes r: "honours_intrinsics r" and a: "valued_as r a t (map f xs)" and b: "valued_as r b t (map g xs)" and t: "itype t" "is_int t"
    and d: "\<And>x. x \<in> set xs \<Longrightarrow> c_div_defined t (f x) (g x)"
  shows "builds r (pure_intrinsic (type_of a) ''div_round_to_zero'' [a, b]) t (map (\<lambda>x. f x sdiv g x) xs)"
    and "builds r (pure_intrinsic (type_of a) ''mod_round_to_zero'' [a, b]) t (map (\<lambda>x. f x smod g x) xs)"
proof -
  have ea: "type_eq (type_of a) t" "type_wf (type_of a)" using a valued_as_type(1) [OF a t(1)] by (auto simp: valued_as_def)
  have rg: "in_range t (f x sdiv g x)" "in_range t (f x smod g x)" if "x \<in> set xs" for x
    using sdiv_range [OF t(2) valued_map_range [OF a t(1) that] valued_map_range [OF b t(1) that] d [OF that]] by auto
  show "builds r (pure_intrinsic (type_of a) ''div_round_to_zero'' [a, b]) t (map (\<lambda>x. f x sdiv g x) xs)"
    by (rule binary_intrinsic_builds [OF r a b t(1) ea identity_names(9)])
      (use d rg in \<open>auto intro!: lift2_maps simp: binary_intrinsic_def\<close>)
  show "builds r (pure_intrinsic (type_of a) ''mod_round_to_zero'' [a, b]) t (map (\<lambda>x. f x smod g x) xs)"
    by (rule binary_intrinsic_builds [OF r a b t(1) ea identity_names(10)])
      (use d rg in \<open>auto intro!: lift2_maps simp: binary_intrinsic_def\<close>)
qed

lemma c_div_unsigned_lanes:
  assumes r: "honours_intrinsics r" and a: "valued_as r a t (map f xs)" and b: "valued_as r b t (map g xs)" and t: "itype t" "is_uint t"
    and d: "\<And>x. x \<in> set xs \<Longrightarrow> g x \<noteq> 0"
  shows "builds r (pure_intrinsic (type_of a) ''div_round_to_zero'' [a, b]) t (map (\<lambda>x. ediv (f x) (g x)) xs)"
    and "builds r (pure_intrinsic (type_of a) ''mod_round_to_zero'' [a, b]) t (map (\<lambda>x. emod (f x) (g x)) xs)"
proof -
  have ea: "type_eq (type_of a) t" "type_wf (type_of a)" using a valued_as_type(1) [OF a t(1)] by (auto simp: valued_as_def)
  have v: "f x sdiv g x = ediv (f x) (g x)" "f x smod g x = emod (f x) (g x)"
      "in_range t (ediv (f x) (g x))" "in_range t (emod (f x) (g x))" if x: "x \<in> set xs" for x
  proof -
    have fg: "0 \<le> f x" "f x < 2 ^ bits t" "0 < g x"
      using valued_map_range [OF a t(1) x] valued_map_range [OF b t(1) x] uint_range [OF t(2)] d [OF x] by (auto simp: less_le)
    have "f x div g x \<le> f x" using fg zdiv_mono2 [of "f x" 1 "g x"] by simp
    moreover have "f x mod g x \<le> f x" using fg by (intro zmod_le_nonneg_dividend)
    ultimately show "f x sdiv g x = ediv (f x) (g x)" "f x smod g x = emod (f x) (g x)"
        "in_range t (ediv (f x) (g x))" "in_range t (emod (f x) (g x))"
      using fg uint_range [OF t(2)]
      by (auto simp: ediv_def emod_def signed_divide_int_def signed_modulo_int_def sgn_if pos_imp_zdiv_nonneg_iff)
  qed
  have cd: "c_div_defined t (f x) (g x)" if "x \<in> set xs" for x
    using d [OF that] t(2) by (auto simp: c_div_defined_def is_int_def is_uint_def)
  show "builds r (pure_intrinsic (type_of a) ''div_round_to_zero'' [a, b]) t (map (\<lambda>x. ediv (f x) (g x)) xs)"
    by (rule binary_intrinsic_builds [OF r a b t(1) ea identity_names(9)])
      (use cd v in \<open>auto intro!: lift2_maps simp: binary_intrinsic_def\<close>)
  show "builds r (pure_intrinsic (type_of a) ''mod_round_to_zero'' [a, b]) t (map (\<lambda>x. emod (f x) (g x)) xs)"
    by (rule binary_intrinsic_builds [OF r a b t(1) ea identity_names(10)])
      (use cd v in \<open>auto intro!: lift2_maps simp: binary_intrinsic_def\<close>)
qed

lemma bitnot_lanes:
  assumes "honours_intrinsics r" and "valued_as r a t (map f xs)" and "itype t" and "\<And>x. x \<in> set xs \<Longrightarrow> in_range t (NOT (f x))"
  shows "builds r (operator_bitnot (Some a)) t (map (\<lambda>x. NOT (f x)) xs)"
proof -
  have e: "map (\<lambda>x. wrap t (NOT x)) (map f xs) = map (\<lambda>x. NOT (f x)) xs"
    using assms(4) by (simp add: wrap_in_range)
  show ?thesis using bitnot_builds [OF assms(1-3)] unfolding e .
qed

lemma lower_euclidean_div_lanes:
  assumes r: "honours_intrinsics r" and a: "valued_as r a t (map f xs)" and b: "valued_as r b t (map g xs)" and t: "itype t"
    and d: "\<And>x. x \<in> set xs \<Longrightarrow> c_div_defined t (f x) (g x)"
  shows "emits r (lower_euclidean_div a b) t (map (\<lambda>x. ediv (f x) (g x)) xs)"
proof -
  have te: "type_eq (type_of a) (type_of b)" by (rule valued_types [OF a b])
  have ea: "type_eq (type_of a) t" using a by (simp add: valued_as_def)
  show ?thesis
  proof (cases "is_int t")
    case False
    then have u: "is_uint t" "\<not> is_int (type_of a)" using itype_int [OF t] type_eq_cong(1) [OF ea] by auto
    have "g x \<noteq> 0" if "x \<in> set xs" for x using d [OF that] by (simp add: c_div_defined_def)
    from emits_Codegen [OF c_div_unsigned_lanes(1) [OF r a b t u(1) this]] show ?thesis
      using te u by (simp add: lower_euclidean_div_def)
  next
    case True
    then have i: "is_int (type_of a)" "bits (type_of a) = bits t"
      using type_eq_cong(1) [OF ea] type_eq_fields [OF ea] by auto
    let ?q = "\<lambda>x. f x sdiv g x" and ?m = "\<lambda>x. f x smod g x" and ?s = "\<lambda>y::int. if y < 0 then - 1 else 0 :: int"
    note fx = valued_map_range [OF a t] and gx = valued_map_range [OF b t]
    note sr = sdiv_range [OF True fx gx d]
    have b0: "0 \<le> int (bits t) - 1" "int (bits t) - 1 < int (bits t)" "nat (int (bits t) - 1) = bits t - 1"
      using itype_bits [OF t] by auto
    have sm: "in_range t z" if "z = - 1 \<or> z = 0" for z using small_range [OF t True] that by simp
    have 1: "builds r (pure_intrinsic (type_of a) ''div_round_to_zero'' [a, b]) t (map ?q xs)"
      by (rule c_div_lanes(1) [OF r a b t True d])
    have 2: "builds r (operator_ee MulOp (Some e) (Some b)) t (map (\<lambda>x. ?q x * g x) xs)"
      if "valued_as r e t (map ?q xs)" for e
      by (rule arith_lanes [OF that b t]) (use sr in auto)
    have 3: "builds r (operator_ee SubOp (Some a) (Some e)) t (map ?m xs)"
      if "valued_as r e t (map (\<lambda>x. ?q x * g x) xs)" for e
      by (rule arith_lanes [OF a that t]) (use sr in auto)
    have shr: "builds r (operator_shr_ei (Some e) (int (bits t) - 1)) t (map (\<lambda>x. ?s (h x)) xs)"
      if e: "valued_as r e t (map h xs)" for e h
      by (rule builds_map_cong [OF shr_ei_lanes [OF r e t b0(1,2)]])
        (use sign_mask [OF valued_map_range [OF e t] True] b0(3) in simp)
    have 4: "builds r (operator_bitand (Some u) (Some v)) t (map (\<lambda>x. ?s (?m x) AND h x) xs)"
      if "valued_as r u t (map (\<lambda>x. ?s (?m x)) xs)" "valued_as r v t (map h xs)" "\<And>x. x \<in> set xs \<Longrightarrow> h x = - 1 \<or> h x = 0" for u v h
      unfolding operator_bitand_def
      by (rule bitwise_lanes [OF r that(1,2) t t refl refl])
        (use that(3) sm in \<open>fastforce simp: binary_intrinsic_def wrap_in_range\<close>)+
    have 5: "builds r (operator_bitnot (Some v)) t (map (\<lambda>x. NOT (?s (g x))) xs)"
      if "valued_as r v t (map (\<lambda>x. ?s (g x)) xs)" for v
      by (rule bitnot_lanes [OF r that t]) (use sm in auto)
    have cor: "?q x - (?s (?m x) AND ?s (g x)) + (?s (?m x) AND NOT (?s (g x))) = ediv (f x) (g x)" if "x \<in> set xs" for x
      using d [OF that] by (intro sdiv_correction) (simp add: c_div_defined_def)
    have mid: "in_range t (?q x - (?s (?m x) AND ?s (g x)))" if "x \<in> set xs" for x
      using cor [OF that] sr(1,4) [OF that that that] by (auto split: if_splits)
    have 6: "builds r (operator_ee SubOp (Some e) (Some u)) t (map (\<lambda>x. ?q x - (?s (?m x) AND ?s (g x))) xs)"
      if "valued_as r e t (map ?q xs)" "valued_as r u t (map (\<lambda>x. ?s (?m x) AND ?s (g x)) xs)" for e u
      by (rule arith_lanes [OF that t]) (use mid in auto)
    have 7: "emits r (rbind (operator_ee AddOp (Some e) (Some v)) (\<lambda>q2. Inr (Codegen_after_CSE q2))) t (map (\<lambda>x. ediv (f x) (g x)) xs)"
      if "valued_as r e t (map (\<lambda>x. ?q x - (?s (?m x) AND ?s (g x))) xs)"
        "valued_as r v t (map (\<lambda>x. ?s (?m x) AND NOT (?s (g x))) xs)" for e v
    proof (intro emits_CSE arith_lanes [OF that t])
      fix x
      assume x: "x \<in> set xs"
      show "binop_val AddOp t (?q x - (?s (?m x) AND ?s (g x))) (?s (?m x) AND NOT (?s (g x))) = Some (ediv (f x) (g x))"
        unfolding binop_val.simps cor [OF x] using sr(4) [OF x x x] by simp
    qed simp
    show ?thesis
      unfolding lower_euclidean_div_def i(2) using te i(1)
      by (simp only: internal_assert_True rbind_Inr if_True)
        (rule emits_bind [OF 1], rule emits_bind [OF 2], assumption, rule emits_bind [OF 3], assumption,
         rule emits_bind [OF shr [OF b]], rule emits_bind [OF shr], assumption,
         rule emits_bind [OF 4], assumption, assumption, simp, rule emits_bind [OF 6], assumption, assumption,
         rule emits_bind [OF 5], assumption, rule emits_bind [OF 4], assumption, assumption, simp, rule 7)
  qed
qed

lemma emod_smod: "b \<noteq> 0 \<Longrightarrow> emod a b = (if a smod b < 0 then a smod b + \<bar>b\<bar> else a smod b)"
proof -
  define q r where "q = a sdiv b" and "r = a smod b"
  assume b: "b \<noteq> 0"
  have a: "a = q * b + r" by (simp add: q_def r_def smod_eq_diff)
  have small: "\<bar>r\<bar> < \<bar>b\<bar>" unfolding r_def by (rule abs_smod_less [OF b])
  show ?thesis
  proof (cases "r < 0")
    case True
    have "emod a b = r + \<bar>b\<bar>"
      using a small True by (intro ediv_unique(2) [where q = "q - sgn b"]) (auto simp: algebra_simps abs_sgn)
    with True show ?thesis by (simp add: r_def)
  next
    case False
    have "emod a b = r" using a small False by (intro ediv_unique(2)) auto
    with False show ?thesis by (simp add: r_def)
  qed
qed

text \<open>
  The remainder. The absolute value of the divisor is cast back to the signed type, where
  the least number has none.
\<close>

lemma itype_with_code:
  assumes "itype t" and "bits t \<noteq> 1"
  shows "itype (with_code halide_type_uint t)" "is_uint (with_code halide_type_uint t)"
    "bits (with_code halide_type_uint t) = bits t" "lanes (with_code halide_type_uint t) = lanes t"
  using assms itype_lanes [OF assms(1)]
  by (auto simp: with_code_def mk_Type_def itype_def const_type_def type_predicates type_wf_def nat_mod_distrib)

lemma abs_lanes:
  assumes r: "honours_intrinsics r" and b: "valued_as r b t (map g xs)" and t: "itype t" "is_int t"
  shows "builds r (abs_expr b) (with_code halide_type_uint t) (map (\<lambda>x. \<bar>g x\<bar>) xs)"
proof -
  let ?u = "with_code halide_type_uint t"
  have eb: "type_eq (type_of b) t" using b by (simp add: valued_as_def)
  have n1: "bits t \<noteq> 1" using t by (auto simp: itype_def const_type_def)
  note u = itype_with_code [OF t(1) n1]
  have "abs_expr b = pure_intrinsic ?u ''abs'' [b]"
    using type_eq_cong(1,2) [OF eb] t(2) with_code_cong [OF eb]
    by (simp add: abs_expr_def pure_intrinsic_def is_int_def is_uint_def)
  moreover have "builds r (pure_intrinsic ?u ''abs'' [b]) ?u (map (\<lambda>x. \<bar>g x\<bar>) xs)"
  proof (rule pure_intrinsic_builds [OF r u(1) type_eq_refl])
    show "type_wf ?u" using u(1) by (simp add: itype_def)
    show "list_all2 (\<lambda>a xs. wf_expr a \<and> eval r a = Some xs) [b] [map g xs]" using b by (simp add: valued_as_def)
    show "intrinsic_val ?u ''abs'' [map g xs] = Some (map (\<lambda>x. \<bar>g x\<bar>) xs)"
      by (simp add: intrinsic_val_def unary_intrinsic_def)
    show "length (map (\<lambda>x. \<bar>g x\<bar>) xs) = lanes ?u" using valued_map_length [OF b t(1)] u by simp
    have N: "(2::int) ^ (bits t - 1) < 2 ^ bits t"
      using itype_bits [OF t(1)] by (intro power_strict_increasing) auto
    have "in_range ?u \<bar>y\<bar>" if "in_range t y" for y
      using that N unfolding int_range [OF t(2)] uint_range [OF u(2)] u(3) by linarith
    then show "\<forall>z \<in> set (map (\<lambda>x. \<bar>g x\<bar>) xs). in_range ?u z" using valued_map_range [OF b t(1)] by simp
  qed (rule identity_names)
  ultimately show ?thesis by simp
qed

lemma mixed_arith_lanes:
  assumes a: "valued_as r a s (map f xs)" and b: "valued_as r b t (map g xs)" and s: "itype s" and t: "itype t"
    and l: "lanes s = lanes t" and n1: "type_eq s t \<or> bits s \<noteq> 1 \<or> bits t \<noteq> 1"
    and f: "\<And>x. x \<in> set xs \<Longrightarrow> fit (match_type s t) (f x) = Some (f' x)"
    and g: "\<And>x. x \<in> set xs \<Longrightarrow> fit (match_type s t) (g x) = Some (g' x)"
    and op: "op \<in> {AddOp, SubOp, MulOp, DivOp, MinOp, MaxOp}"
    and h: "\<And>x. x \<in> set xs \<Longrightarrow> binop_val op (match_type s t) (f' x) (g' x) = Some (h x)"
  shows "builds r (operator_ee op (Some a) (Some b)) (match_type s t) (map h xs)"
proof -
  have T: "itype (match_type s t)" by (rule itype_match [OF s t l n1])
  obtain a' b' where m: "match_types a b = Inr (a', b')"
    and v: "valued_as r a' (match_type s t) (map f' xs)" "valued_as r b' (match_type s t) (map g' xs)"
    using match_types_builds [OF a b s t l n1 those_maps those_maps, of f' g'] f g by blast
  have o: "op \<noteq> ModOp" "\<not> is_logical op" "is_arith op" using op by (auto simp: is_arith_def is_logical_def)
  then have "operator_ee op (Some a) (Some b) = binary_make op (Some a') (Some b')"
    by (simp add: operator_ee_def operand_def user_defined_def m)
  then show ?thesis using binary_builds [OF v T o(3) lift2_maps] h by simp
qed

lemma select_map: "length cs = length xs \<Longrightarrow> map2 (\<lambda>c (t, f). if c \<noteq> 0 then t else f) (map p xs) (zip (map f xs) (map g xs)) =
    map (\<lambda>x. if p x \<noteq> 0 then f x else g x) xs"
  by (induction xs arbitrary: cs) (auto simp: length_Suc_conv)

lemma select_lanes:
  assumes c: "valued_as r c (Bool_t (int (lanes t))) (map p xs)" "as_const_int c = None"
    and a: "valued_as r a t (map f xs)" and b: "valued_as r b t (map g xs)" and t: "itype t"
  shows "builds r (select c a b) t (map (\<lambda>x. if p x \<noteq> 0 then f x else g x) xs)"
proof -
  have te: "type_eq (type_of a) (type_of b)" "type_eq (type_of b) (type_of a)" "type_eq (type_of a) t"
    using valued_types [OF a b] valued_types [OF b a] a by (auto simp: valued_as_def)
  have ca: "cast (type_of b) a = Inr a" "cast (type_of a) b = Inr b" using te by (simp_all add: cast_def fold_cast_def)
  have ec: "type_eq (type_of c) (Bool_t (int (lanes t)))" using c by (simp add: valued_as_def)
  have lc: "lanes (type_of c) = lanes (type_of a)" "is_bool (type_of c)"
    using type_eq_fields [OF ec] type_eq_cong(5) [OF ec] type_eq_fields [OF te(3)] itype_lanes [OF t]
    by (auto simp: lanes_Bool_t) (simp add: Bool_t_def UInt_t_def mk_Type_def is_bool_def)
  have s: "select c a b = Inr (Select c a b)"
    using c(2) ca te lc by (simp add: select_def Select_make_def defined_handle_def)
  have l: "length xs = lanes t" "0 < lanes t" using valued_map_length [OF a t] t by (auto simp: itype_def)
  have "select_val (map p xs) (map f xs) (map g xs) = Some (map (\<lambda>x. if p x \<noteq> 0 then f x else g x) xs)"
  proof (cases "length xs = 1")
    case True
    then obtain x where "xs = [x]" by (auto simp: length_Suc_conv)
    then show ?thesis by (simp add: select_val_def)
  next
    case False
    then show ?thesis using select_map [of xs xs] by (simp add: select_val_def)
  qed
  then show ?thesis using s c a b te lc by (simp add: valued_as_def)
qed

lemma lower_euclidean_mod_lanes:
  assumes r: "honours_intrinsics r" and a: "valued_as r a t (map f xs)" and b: "valued_as r b t (map g xs)" and t: "itype t"
    and d: "\<And>x. x \<in> set xs \<Longrightarrow> c_div_defined t (f x) (g x)"
    and m: "\<And>x. x \<in> set xs \<Longrightarrow> no_overflow_int t \<Longrightarrow> \<bar>g x\<bar> \<le> 2 ^ (bits t - 2)"
  shows "emits r (lower_euclidean_mod a b) t (map (\<lambda>x. emod (f x) (g x)) xs)"
proof -
  have te: "type_eq (type_of a) (type_of b)" by (rule valued_types [OF a b])
  have ea: "type_eq (type_of a) t" using a by (simp add: valued_as_def)
  have nz: "g x \<noteq> 0" if "x \<in> set xs" for x using d [OF that] by (simp add: c_div_defined_def)
  show ?thesis
  proof (cases "is_int t")
    case False
    then have u: "is_uint t" "\<not> is_int (type_of a)" using itype_int [OF t] type_eq_cong(1) [OF ea] by auto
    from emits_Codegen [OF c_div_unsigned_lanes(2) [OF r a b t u(1) nz]] show ?thesis
      using te u by (simp add: lower_euclidean_mod_def)
  next
    case True
    then have i: "is_int (type_of a)" using type_eq_cong(1) [OF ea] by simp
    let ?m = "\<lambda>x. f x smod g x" and ?u = "with_code halide_type_uint t"
    let ?T = "match_type t ?u"
    have n1: "bits t \<noteq> 1" using t True by (auto simp: itype_def const_type_def)
    note u = itype_with_code [OF t n1] and ir = int_range [OF True]
    note fx = valued_map_range [OF a t] and gx = valued_map_range [OF b t]
    note sr = sdiv_range [OF True fx gx d]
    have T: "?T = Int_t (bits t) (int (lanes t))"
      using True u by (auto simp: match_type_def type_eq_def is_int_def is_uint_def)
    have Tt: "type_eq ?T t"
      using True itype_lanes [OF t] by (simp add: T type_eq_def type_ctor_simps is_int_def)
    note Tc = type_eq_cong [OF Tt]
    have mod: "builds r (pure_intrinsic (type_of a) ''mod_round_to_zero'' [a, b]) t (map ?m xs)"
      by (rule c_div_lanes(2) [OF r a b t True d])
    have cmp: "builds r (operator_ei LTOp (Some e) 0) (Bool_t (int (lanes t))) (map (\<lambda>x. of_bool (?m x < 0)) xs)"
      if "valued_as r e t (map ?m xs)" for e
      by (rule compare_ei_lanes [OF that t]) (use small_range [OF t True] in auto)
    have nc: "as_const_int e' = None" if "operator_ei LTOp (Some e) 0 = Inr e'" for e e'
      using that by (auto simp: operator_ei_def binary_make_def)
    have ab: "builds r (abs_expr b) ?u (map (\<lambda>x. \<bar>g x\<bar>) xs)" by (rule abs_lanes [OF r b t True])
    let ?v = "\<lambda>x. wrap t (?m x + \<bar>g x\<bar>)"
    have fita: "fit t \<bar>g x\<bar> = Some (wrap t \<bar>g x\<bar>)" "fit t (?m x + wrap t \<bar>g x\<bar>) = Some (?v x)" if x: "x \<in> set xs" for x
    proof -
      have "in_range t \<bar>g x\<bar> \<and> in_range t (?m x + \<bar>g x\<bar>)" if n: "no_overflow_int t"
      proof -
        have "32 \<le> bits t" using n by (simp add: no_overflow_int_def)
        then have "bits t - 1 = Suc (bits t - 2)" by arith
        then have N: "(2::int) ^ (bits t - 1) = 2 * 2 ^ (bits t - 2)" "(0::int) < 2 ^ (bits t - 2)" by simp_all
        show ?thesis unfolding ir N(1) using m [OF x n] sr(5) [OF x x x] nz [OF x] N(2) by linarith
      qed
      note rg = this
      have w: "wrap t (?m x + wrap t \<bar>g x\<bar>) = ?v x" using True take_bit_signed_take_bit [of "bits t" "bits t - 1" "\<bar>g x\<bar>"]
        by (simp add: wrap_def) (metis signed_take_bit_add signed_take_bit_signed_take_bit min.idem)
      show "fit t \<bar>g x\<bar> = Some (wrap t \<bar>g x\<bar>)" "fit t (?m x + wrap t \<bar>g x\<bar>) = Some (?v x)"
        using rg itype_int [OF t] w by (auto simp: fit_def wrap_in_range)
    qed
    have sum: "builds r (operator_ee AddOp (Some e) (Some v)) ?T (map ?v xs)"
      if "valued_as r e t (map ?m xs)" "valued_as r v ?u (map (\<lambda>x. \<bar>g x\<bar>) xs)" for e v
    proof (rule mixed_arith_lanes [OF that t u(1) u(4) [symmetric]])
      show "fit ?T (?m x) = Some (?m x)" if "x \<in> set xs" for x
        using sr(3) [OF that that that] Tc(11) by simp
      show "fit ?T \<bar>g x\<bar> = Some (wrap t \<bar>g x\<bar>)" "binop_val AddOp ?T (?m x) (wrap t \<bar>g x\<bar>) = Some (?v x)"
        if "x \<in> set xs" for x
        using fita [OF that] Tc(11) by simp_all
    qed (use n1 in auto)
    have sum': "builds r (operator_ee AddOp (Some e) (Some v)) t (map ?v xs)"
      if "valued_as r e t (map ?m xs)" "valued_as r v ?u (map (\<lambda>x. \<bar>g x\<bar>) xs)" for e v
      using sum [OF that] Tt by (auto simp: builds_def intro: valued_as_retype)
    have val: "(if of_bool (?m x < 0) \<noteq> (0::int) then ?v x else ?m x) = emod (f x) (g x)" if x: "x \<in> set xs" for x
    proof (cases "?m x < 0")
      case True
      have "in_range t (emod (f x) (g x))"
        using emod_range [OF nz [OF x], of "f x"] gx [OF x] True sr(3,5) [OF x x x] emod_smod [OF nz [OF x], of "f x"]
        unfolding ir by linarith
      then have "?v x = emod (f x) (g x)"
        using emod_smod [OF nz [OF x], of "f x"] True by (simp add: wrap_in_range)
      with True show ?thesis by simp
    next
      case False
      then show ?thesis using emod_smod [OF nz [OF x], of "f x"] by simp
    qed
    have sel: "emits r (rbind (select c v e) (\<lambda>s. Inr (Codegen_after_CSE s))) t (map (\<lambda>x. emod (f x) (g x)) xs)"
      if "operator_ei LTOp (Some e) 0 = Inr c" "valued_as r c (Bool_t (int (lanes t))) (map (\<lambda>x. of_bool (?m x < 0)) xs)"
        "valued_as r v t (map ?v xs)" "valued_as r e t (map ?m xs)" for c v e
      by (intro emits_CSE builds_map_cong [OF select_lanes [OF that(2) nc [OF that(1)] that(3,4) t]] val)
    have body: "emits r (rbind (operator_ei LTOp (Some e) 0) (\<lambda>c. rbind (abs_expr b) (\<lambda>ab.
        rbind (operator_ee AddOp (Some e) (Some ab)) (\<lambda>rb. rbind (select c rb e) (\<lambda>s. Inr (Codegen_after_CSE s))))))
        t (map (\<lambda>x. emod (f x) (g x)) xs)"
      if e: "valued_as r e t (map ?m xs)" for e
    proof -
      obtain c where c: "operator_ei LTOp (Some e) 0 = Inr c" "valued_as r c (Bool_t (int (lanes t))) (map (\<lambda>x. of_bool (?m x < 0)) xs)"
        using cmp [OF e] by (auto simp: builds_def)
      show ?thesis
        unfolding c(1) rbind_Inr
        by (rule emits_bind [OF ab], rule emits_bind [OF sum' [OF e]], assumption, rule sel [OF c _ e])
    qed
    show ?thesis
      using emits_bind [OF mod body] te i by (simp add: lower_euclidean_mod_def)
  qed
qed

subsection \<open>Facts: powers of two\<close>

lemma imm_power:
  assumes "is_const_power_of_two_integer e = Some k" and "eval r e = Some xs" and "wf_expr e"
    and "\<And>v n. e \<noteq> Broadcast v n" and "\<And>t v. e \<noteq> Cast t v"
  shows "\<forall>x \<in> set xs. x = 2 ^ k"
proof -
  have z: "pow2_bits 0 = None" by (simp add: pow2_bits_def)
  have p: "is_const_power_of_two_integer e =
     (if is_int (type_of e) \<or> is_uint (type_of e) then
        (case as_const_int e of
           Some i \<Rightarrow> if i < 0 then None else pow2_bits i
         | None \<Rightarrow> (case as_const_uint e of Some u \<Rightarrow> pow2_bits u | None \<Rightarrow> pow2_bits 0))
      else None)"
    using assms(4,5) by (cases e) (simp_all, blast+)
  show ?thesis
  proof (cases "as_const_int e")
    case (Some i)
    then have "0 \<le> i" "pow2_bits i = Some k" using assms(1) by (auto simp: p split: if_splits)
    then have "i = 2 ^ k" by (simp add: pow2_bits_iff)
    with as_const_int_eval [OF Some assms(3,2)] show ?thesis by simp
  next
    case None
    then obtain u where u: "as_const_uint e = Some u" "pow2_bits u = Some k"
      using assms(1) z by (auto simp: p split: if_splits option.splits)
    have e: "e = UIntImm (type_of e) u" using u(1) assms(4) by (cases e) auto
    have "0 \<le> u" using assms(3) e by (metis in_range_def type_lo_def wf_expr.simps(2) int_not_uint(2))
    then have "u = 2 ^ k" using u(2) by (simp add: pow2_bits_iff)
    with as_const_uint_eval [OF u(1) assms(3,2)] show ?thesis by simp
  qed
qed

text \<open>A cast of a constant must keep it: the test looks through casts.\<close>

lemma power_of_two_eval:
  "is_const_power_of_two_integer e = Some k \<Longrightarrow> wf_expr e \<Longrightarrow> casts_widen e \<Longrightarrow> eval r e = Some xs \<Longrightarrow>
   \<forall>x \<in> set xs. x = 2 ^ k"
proof (induction e arbitrary: xs)
  case (Cast t v)
  have "eval r v = Some xs" by (rule eval_Cast_widening [OF Cast.prems(2-4)])
  then show ?case using Cast by (auto split: if_splits)
next
  case (Broadcast v n)
  then obtain ys where ys: "eval r v = Some ys" "length ys = 1" "xs = replicate (nat n) (hd ys)"
    by (auto elim!: bind_eq_SomeE split: if_splits)
  then have "\<forall>y \<in> set ys. y = 2 ^ k" using Broadcast by (auto split: if_splits)
  then show ?case using ys by (cases ys) auto
qed (rule imm_power; assumption?; simp)+

lemma shift_is_div: "drop_bit k x = ediv x (2 ^ k)"
  by (simp add: ediv_def drop_bit_eq_div)

lemma power_in_range:
  assumes "itype t" and "in_range t (2 ^ k)"
  shows "k < bits t"
proof -
  have "(2::int) ^ k < 2 ^ bits t"
  proof (cases "is_int t")
    case True
    have "(2::int) ^ (bits t - 1) < 2 ^ bits t"
      using itype_bits [OF assms(1)] by (intro power_strict_increasing) auto
    then show ?thesis using assms(2) unfolding int_range [OF True] by linarith
  next
    case False
    then have "is_uint t" using itype_int [OF assms(1)] by blast
    then show ?thesis using assms(2) by (simp add: uint_range)
  qed
  then show ?thesis by simp
qed

lemma power_rows: "is_power d \<Longrightarrow> pow2_bits d \<noteq> None"
proof -
  assume "is_power d"
  then have "d = 2 ^ 0 \<or> d = 2 ^ 1 \<or> d = 2 ^ 2 \<or> d = 2 ^ 3 \<or> d = 2 ^ 4 \<or> d = 2 ^ 5 \<or> d = 2 ^ 6 \<or> d = 2 ^ 7 \<or> d = 2 ^ 8"
    by (simp add: is_power_def)
  then obtain k where "d = 2 ^ k" by metis
  then show ?thesis using pow2_bits_iff [of d k] by simp
qed

lemma const_int_power:
  "as_const_int b = Some d \<Longrightarrow> is_int (type_of b) \<Longrightarrow> 0 \<le> d \<Longrightarrow> is_const_power_of_two_integer b = pow2_bits d"
  "as_const_uint b = Some d \<Longrightarrow> is_uint (type_of b) \<Longrightarrow> is_const_power_of_two_integer b = pow2_bits d"
  by (induction b) (auto simp: type_predicates)

lemma pow2_shift:
  assumes r: "honours_intrinsics r" and a: "valued_as r a t xs" and t: "itype t" and k: "in_range t (2 ^ k)"
  shows "emits r (rbind (operator_shr_ei (Some a) (int k)) (\<lambda>e. Inr (Codegen e))) t (map (\<lambda>x. ediv x (2 ^ k)) xs)"
proof -
  have "k < bits t" by (rule power_in_range [OF t k])
  then have "builds r (operator_shr_ei (Some a) (int k)) t (map (\<lambda>x. drop_bit k x) xs)"
    using shr_ei_lanes [OF r, of a t "\<lambda>x. x" xs "int k"] a t by simp
  then show ?thesis by (intro emits_Codegen) (simp add: shift_is_div)
qed

text \<open>
  What the back end emits has the lanes of the quotient. Its type is that of the operands,
  or for the signed divisions by a small constant the unsigned type of the same width.
\<close>

definition same_bits :: "Type \<Rightarrow> Type \<Rightarrow> bool" where
  "same_bits s t \<longleftrightarrow> type_eq s t \<or> type_eq s (with_code halide_type_uint t)"

lemma zip_maps: "length xs = length ys \<Longrightarrow> xs = map fst (zip xs ys) \<and> ys = map snd (zip xs ys)"
  by simp

lemma map2_const: "map2 f xs (map (\<lambda>_. k) xs) = map (\<lambda>x. f x k) xs"
  by (induction xs) auto

lemma visit_Div_lanes:
  assumes r: "honours_intrinsics r" and a: "valued_as r a t xs" and b: "valued_as r b t ys" and t: "itype t"
    and cw: "casts_widen b" and d: "\<And>x y. (x, y) \<in> set (zip xs ys) \<Longrightarrow> c_div_defined t x y"
  shows "\<exists>s. same_bits s t \<and> emits r (visit_Div a b) s (map (wrap s) (map2 ediv xs ys))"
proof -
  have len: "length xs = lanes t" "length ys = lanes t" "0 < lanes t"
    using valued_as_type(3) [OF a t] valued_as_type(3) [OF b t] t by (auto simp: itype_def)
  define ps where "ps = zip xs ys"
  have ps: "xs = map fst ps" "ys = map snd ps" using zip_maps [of xs ys] len by (auto simp: ps_def)
  have m2: "map2 ediv xs ys = map (\<lambda>p. ediv (fst p) (snd p)) ps" by (simp add: ps_def case_prod_unfold)
  have eb: "wf_expr b" "eval r b = Some ys" "type_eq (type_of b) t" using b by (auto simp: valued_as_def)
  have ea: "type_eq (type_of a) t" using a by (simp add: valued_as_def)
  have ta: "\<not> is_float (type_of a)" "bits (type_of a) = bits t" "is_int (type_of a) = is_int t" "is_uint (type_of a) = is_uint t"
    using type_eq_cong(1,2,3) [OF ea] type_eq_fields [OF ea] itype_not_handle [OF t] by auto
  have dp: "c_div_defined t (fst p) (snd p)" if "p \<in> set ps" for p
    using d [of "fst p" "snd p"] that by (simp add: ps_def)
  obtain p0 where "p0 \<in> set ps" using len by (cases ps) (auto simp: ps_def)
  then have "\<exists>y \<in> set ys. y \<noteq> 0" using dp [of p0] by (auto simp: c_div_defined_def ps(2))
  then have nz: "\<not> is_zero b" using is_zero_eval [OF _ eb(2)] by blast
  have rg: "in_range t (ediv (fst p) (snd p))" if p: "p \<in> set ps" for p
  proof (cases "is_int t")
    case True
    then show ?thesis
      using sdiv_range(4) [OF True _ _ dp [OF p]] valued_as_type(4) [OF a t] valued_as_type(4) [OF b t] p
      by (simp add: ps)
  next
    case False
    then have u: "is_uint t" using itype_int [OF t] by blast
    have "builds r (pure_intrinsic (type_of a) ''div_round_to_zero'' [a, b]) t (map (\<lambda>p. ediv (fst p) (snd p)) ps)"
      using c_div_unsigned_lanes(1) [OF r _ _ t u, of a fst ps b snd] a b dp by (simp add: ps(1,2)[symmetric] c_div_defined_def)
    then show ?thesis using valued_map_range [OF _ t p] by (auto simp: builds_def)
  qed
  have id: "map (wrap t) (map2 ediv xs ys) = map2 ediv xs ys"
    unfolding m2 using rg by (simp add: wrap_in_range)
  have plain: "\<exists>s. same_bits s t \<and> emits r m s (map (wrap s) (map2 ediv xs ys))"
    if "emits r m t (map2 ediv xs ys)" for m
  proof (intro exI conjI)
    show "same_bits t t" by (simp add: same_bits_def)
    show "emits r m t (map (wrap t) (map2 ediv xs ys))" unfolding id by (rule that)
  qed
  have low: "emits r (lower_euclidean_div a b) t (map2 ediv xs ys)"
    using lower_euclidean_div_lanes [OF r _ _ t, of a fst ps b snd] a b dp by (simp add: m2 ps(1,2)[symmetric])
  have const: "map2 ediv xs ys = map (\<lambda>x. x div k) xs" if "\<forall>y \<in> set ys. y = k" "0 < k" for k
  proof -
    have "ys = map (\<lambda>_. k) xs" using that len by (intro nth_equalityI) auto
    then show ?thesis using that(2) map2_const [of ediv xs k] by (simp add: ediv_def)
  qed
  have start: "visit_Div a b =
      (if is_const_power_of_two_integer b \<noteq> None then
         rbind (operator_shr_ei (Some a) (int (the (is_const_power_of_two_integer b)))) (\<lambda>e. Inr (Codegen e))
       else case (as_const_int b, as_const_uint b) of
         (Some d, _) \<Rightarrow>
           if is_int t \<and> bits t \<in> {8, 16, 32} \<and> 1 < d \<and> (8 < bits t \<and> d < 256 \<or> d < 128)
           then signed_constant_div a d else lower_euclidean_div a b
       | (None, Some d) \<Rightarrow>
           if is_uint t \<and> bits t \<in> {8, 16, 32} \<and> 1 < d \<and> d < 256
           then unsigned_constant_div a d else lower_euclidean_div a b
       | (None, None) \<Rightarrow> lower_euclidean_div a b)"
    unfolding visit_Div_def Let_def ta(2-4) using itype_int [OF t] nz ta(1) by simp
  show ?thesis
  proof (cases "is_const_power_of_two_integer b")
    case (Some k)
    have k: "\<forall>y \<in> set ys. y = 2 ^ k" by (rule power_of_two_eval [OF Some eb(1) cw eb(2)])
    then have "in_range t (2 ^ k)" using valued_as_type(4) [OF b t] len by (cases ys) auto
    from pow2_shift [OF r a t this] have "emits r (visit_Div a b) t (map2 ediv xs ys)"
      using Some const [OF k] by (simp add: start ediv_def)
    then show ?thesis by (rule plain)
  next
    case np: None
    consider (int) d where "as_const_int b = Some d" "is_int t" "bits t \<in> {8, 16, 32}" "1 < d" "8 < bits t \<and> d < 256 \<or> d < 128"
      | (uint) d where "as_const_int b = None" "as_const_uint b = Some d" "is_uint t" "bits t \<in> {8, 16, 32}" "1 < d" "d < 256"
      | (rest) "visit_Div a b = lower_euclidean_div a b"
    proof -
      define P where "P d \<longleftrightarrow> is_int t \<and> bits t \<in> {8, 16, 32} \<and> 1 < d \<and> (8 < bits t \<and> d < 256 \<or> d < 128)" for d :: int
      define Q where "Q d \<longleftrightarrow> is_uint t \<and> bits t \<in> {8, 16, 32} \<and> 1 < d \<and> d < 256" for d :: int
      have "(\<exists>d. as_const_int b = Some d \<and> P d) \<or> (\<exists>d. as_const_int b = None \<and> as_const_uint b = Some d \<and> Q d) \<or>
          visit_Div a b = lower_euclidean_div a b"
        unfolding start np P_def [symmetric] Q_def [symmetric]
        by (cases "as_const_int b"; cases "as_const_uint b") auto
      then show thesis using that unfolding P_def Q_def by blast
    qed
    then show ?thesis
    proof cases
      case int
      have eq: "map2 ediv xs ys = map (\<lambda>x. x div d) xs"
        using const [of d] as_const_int_eval [OF int(1) eb(1,2)] int(4) by simp
      have "\<not> is_power d"
        using power_rows [of d] const_int_power(1) [OF int(1)] np int(2,4) type_eq_cong(1) [OF eb(3)] by auto
      then have "emits r (signed_constant_div a d) (with_code halide_type_uint t)
          (map (\<lambda>x. wrap (with_code halide_type_uint t) (x div d)) xs)"
        using int by (intro signed_constant_div_lanes [OF r a t]) auto
      moreover have "visit_Div a b = signed_constant_div a d" using np int by (simp add: start)
      ultimately show ?thesis
        by (intro exI [of _ "with_code halide_type_uint t"]) (simp add: same_bits_def eq comp_def)
    next
      case uint
      have eq: "map2 ediv xs ys = map (\<lambda>x. x div d) xs"
        using const [of d] as_const_uint_eval [OF uint(2) eb(1,2)] uint(5) by simp
      have "\<not> is_power d"
        using power_rows [of d] const_int_power(2) [OF uint(2)] np uint(3) type_eq_cong(2) [OF eb(3)] by auto
      then have "emits r (unsigned_constant_div a d) t (map (\<lambda>x. x div d) xs)"
        using uint by (intro unsigned_constant_div_lanes [OF r a t]) auto
      moreover have "visit_Div a b = unsigned_constant_div a d" using np uint by (simp add: start)
      ultimately show ?thesis by (intro plain) (simp add: eq)
    next
      case rest
      with low show ?thesis by (intro plain) simp
    qed
  qed
qed

lemma one_in_range: "itype t \<Longrightarrow> in_range t 1"
  by (auto simp: itype_def const_type_def in_range_def type_lo_def type_hi_def)

lemma mask_lanes:
  assumes r: "honours_intrinsics r" and a: "valued_as r a t xs" and b: "valued_as r b t (map (\<lambda>_. 2 ^ k) xs)" and t: "itype t"
    and k: "in_range t (2 ^ k)"
  shows "emits r (rbind (operator_ei SubOp (Some b) 1) (\<lambda>m. rbind (operator_bitand (Some a) (Some m)) (\<lambda>e. Inr (Codegen e))))
    t (map (\<lambda>x. emod x (2 ^ k)) xs)"
proof -
  have a': "valued_as r a t (map (\<lambda>x. x) xs)" using a by simp
  have lo: "type_lo t \<le> 0" by (simp add: type_lo_def)
  have up: "in_range t y" if "0 \<le> y" "y < 2 ^ k" for y
    using k that lo by (auto simp: in_range_def)
  have m: "builds r (operator_ei SubOp (Some b) 1) t (map (\<lambda>_. 2 ^ k - 1) xs)"
    by (rule arith_ei_lanes [OF b t one_in_range [OF t]]) (use up in auto)
  have e: "builds r (operator_bitand (Some a) (Some m)) t (map (\<lambda>x. emod x (2 ^ k)) xs)"
    if "valued_as r m t (map (\<lambda>_. 2 ^ k - 1) xs)" for m
    unfolding operator_bitand_def
  proof (rule bitwise_lanes [OF r a' that t t refl refl])
    fix x
    have "x AND (2 ^ k - 1) = emod x (2 ^ k)"
      by (simp add: emod_def flip: take_bit_eq_mod mask_eq_exp_minus_1 take_bit_eq_mask)
    moreover have "wrap t (2 ^ k - 1) = 2 ^ k - 1" using up by (intro wrap_in_range) simp
    moreover have "in_range t (emod x (2 ^ k))" using emod_range [of "2 ^ k" x] up by simp
    ultimately show "binary_intrinsic t ''bitwise_and'' x (wrap t (2 ^ k - 1)) = Some (emod x (2 ^ k)) \<and> in_range t (emod x (2 ^ k))"
      by (simp add: binary_intrinsic_def)
  qed simp
  show ?thesis by (rule emits_bind [OF m]) (rule emits_Codegen [OF e])
qed

lemma visit_Mod_lanes:
  assumes r: "honours_intrinsics r" and a: "valued_as r a t xs" and b: "valued_as r b t ys" and t: "itype t"
    and cw: "casts_widen b" and d: "\<And>x y. (x, y) \<in> set (zip xs ys) \<Longrightarrow> c_div_defined t x y"
    and m: "\<And>y. y \<in> set ys \<Longrightarrow> no_overflow_int t \<Longrightarrow> \<bar>y\<bar> \<le> 2 ^ (bits t - 2) \<or> is_const_power_of_two_integer b \<noteq> None"
  shows "emits r (visit_Mod a b) t (map2 emod xs ys)"
proof -
  have len: "length xs = lanes t" "length ys = lanes t" "0 < lanes t"
    using valued_as_type(3) [OF a t] valued_as_type(3) [OF b t] t by (auto simp: itype_def)
  have eb: "wf_expr b" "eval r b = Some ys" using b by (auto simp: valued_as_def)
  have nf: "\<not> is_float (type_of a)" using valued_not_handle [OF a t] by simp
  show ?thesis
  proof (cases "is_const_power_of_two_integer b")
    case (Some k)
    have k: "\<forall>y \<in> set ys. y = 2 ^ k" by (rule power_of_two_eval [OF Some eb(1) cw eb(2)])
    then have "in_range t (2 ^ k)" using valued_as_type(4) [OF b t] len by (cases ys) auto
    moreover have ys: "ys = map (\<lambda>_. 2 ^ k) xs" using k len by (intro nth_equalityI) auto
    ultimately have "emits r (visit_Mod a b) t (map (\<lambda>x. emod x (2 ^ k)) xs)"
      using mask_lanes [OF r a _ t, of b k] b nf Some by (simp add: visit_Mod_def)
    then show ?thesis unfolding ys map2_const .
  next
    case None
    define ps where "ps = zip xs ys"
    have ps: "xs = map fst ps" "ys = map snd ps" using zip_maps [of xs ys] len by (auto simp: ps_def)
    have m2: "map2 emod xs ys = map (\<lambda>p. emod (fst p) (snd p)) ps" by (simp add: ps_def case_prod_unfold)
    have "emits r (lower_euclidean_mod a b) t (map (\<lambda>p. emod (fst p) (snd p)) ps)"
    proof (rule lower_euclidean_mod_lanes [OF r _ _ t])
      show "valued_as r a t (map fst ps)" "valued_as r b t (map snd ps)" using a b unfolding ps [symmetric] .
      show "c_div_defined t (fst p) (snd p)" if "p \<in> set ps" for p
        using d [of "fst p" "snd p"] that by (simp add: ps_def)
      show "\<bar>snd p\<bar> \<le> 2 ^ (bits t - 2)" if "p \<in> set ps" "no_overflow_int t" for p
        using m [of "snd p"] that None by (auto simp: ps(2))
    qed
    then show ?thesis using None nf by (simp add: visit_Mod_def m2)
  qed
qed

subsection \<open>Properties\<close>

text \<open>C2: for integer operands of any width and any number of lanes, \<open>visit(const Div *)\<close>
  succeeds, and the expression it hands to \<open>codegen\<close> has in each lane the bits of the
  Euclidean quotient: by a shift for a constant power of two, by a multiplication with a
  number from the tables for another small constant, and by the corrected truncating
  division otherwise. Lanes that divide by zero or the least integer by minus one are
  excluded, and a constant divisor must not wrap in a cast.\<close>

theorem lowered_division_correct:
  assumes "honours_intrinsics r" and "wf_expr (Binary DivOp a b)" and "itype (type_of a)" and "casts_widen b"
    and "eval r a = Some xs" and "eval r b = Some ys"
    and "\<forall>(x, y) \<in> set (zip xs ys). c_div_defined (type_of a) x y"
  shows "\<exists>e. (visit_Div a b = Inr (Codegen e) \<or> visit_Div a b = Inr (Codegen_after_CSE e)) \<and>
    same_bits (type_of e) (type_of a) \<and> eval r e = Some (map (wrap (type_of e)) (map2 ediv xs ys))"
proof -
  have te: "type_eq (type_of b) (type_of a)" using assms(2) type_eq_sym by simp
  have a: "valued_as r a (type_of a) xs" and b: "valued_as r b (type_of a) ys"
    using assms(2,5,6) te by (auto simp: valued_as_def)
  obtain s where s: "same_bits s (type_of a)" "emits r (visit_Div a b) s (map (wrap s) (map2 ediv xs ys))"
    using visit_Div_lanes [OF assms(1) a b assms(3,4)] assms(7) by blast
  then obtain e where e: "visit_Div a b = Inr (Codegen e) \<or> visit_Div a b = Inr (Codegen_after_CSE e)"
    "valued_as r e s (map (wrap s) (map2 ediv xs ys))" by (auto simp: emits_def)
  then have "type_eq (type_of e) s" by (simp add: valued_as_def)
  then have "same_bits (type_of e) (type_of a)" "wrap (type_of e) = wrap s"
    using s(1) type_eq_trans by (auto simp: same_bits_def type_eq_cong(10))
  then show ?thesis using e by (auto simp: valued_as_def)
qed

definition int_env :: env where
  "int_env = \<lparr>var_val = (\<lambda>n. None), load_val = (\<lambda>n t i. None),
     call_val = (\<lambda>t n ct i vs. if ct = PureIntrinsic then intrinsic_val t n vs else None)\<rparr>"

lemma int_env_honours: "honours_intrinsics (int_env\<lparr>var_val := f\<rparr>)"
  by (simp add: honours_intrinsics_def int_env_def)

theorem lowered_division_correct_witness:
  "\<exists>e. (visit_Div (Variable (Int_t 32 1) ''x'' None None None) (IntImm (Int_t 32 1) 7) = Inr (Codegen e) \<or>
       visit_Div (Variable (Int_t 32 1) ''x'' None None None) (IntImm (Int_t 32 1) 7) = Inr (Codegen_after_CSE e)) \<and>
     same_bits (type_of e) (Int_t 32 1) \<and>
     eval (int_env\<lparr>var_val := [''x'' \<mapsto> [- 100]]\<rparr>) e = Some [wrap (type_of e) (- 15)]"
proof -
  let ?a = "Variable (Int_t 32 1) ''x'' None None None" and ?b = "IntImm (Int_t 32 1) 7"
  let ?r = "int_env\<lparr>var_val := [''x'' \<mapsto> [- 100]]\<rparr>"
  have "\<exists>e. (visit_Div ?a ?b = Inr (Codegen e) \<or> visit_Div ?a ?b = Inr (Codegen_after_CSE e)) \<and>
      same_bits (type_of e) (type_of ?a) \<and> eval ?r e = Some (map (wrap (type_of e)) (map2 ediv [- 100] [7]))"
    by (rule lowered_division_correct [OF int_env_honours])
      (simp_all add: eval_concrete itype_def const_type_def c_div_defined_def)
  then show ?thesis by (simp add: ediv_def)
qed

text \<open>C4: likewise \<open>visit(const Mod *)\<close> succeeds and emits an expression of the type
  of its operands whose lanes are the Euclidean remainders, in the range from zero to the
  absolute value of the divisor. Where overflow is undefined, a divisor that is not a
  constant power of two must not exceed a quarter of the range of the type.\<close>

theorem lowered_remainder_correct:
  assumes "honours_intrinsics r" and "wf_expr (Binary ModOp a b)" and "itype (type_of a)" and "casts_widen b"
    and "eval r a = Some xs" and "eval r b = Some ys"
    and "\<forall>(x, y) \<in> set (zip xs ys). c_div_defined (type_of a) x y"
    and "\<forall>y \<in> set ys. no_overflow_int (type_of a) \<longrightarrow>
      \<bar>y\<bar> \<le> 2 ^ (bits (type_of a) - 2) \<or> is_const_power_of_two_integer b \<noteq> None"
  shows "\<exists>e. (visit_Mod a b = Inr (Codegen e) \<or> visit_Mod a b = Inr (Codegen_after_CSE e)) \<and>
    type_eq (type_of e) (type_of a) \<and> eval r e = Some (map2 emod xs ys)"
proof -
  have te: "type_eq (type_of b) (type_of a)" using assms(2) type_eq_sym by simp
  have a: "valued_as r a (type_of a) xs" and b: "valued_as r b (type_of a) ys"
    using assms(2,5,6) te by (auto simp: valued_as_def)
  have "emits r (visit_Mod a b) (type_of a) (map2 emod xs ys)"
    using visit_Mod_lanes [OF assms(1) a b assms(3,4)] assms(7,8) by blast
  then show ?thesis by (auto simp: emits_def valued_as_def)
qed

theorem lowered_remainder_correct_witness:
  "\<exists>e. (visit_Mod (Variable (Int_t 32 1) ''x'' None None None) (IntImm (Int_t 32 1) 7) = Inr (Codegen e) \<or>
       visit_Mod (Variable (Int_t 32 1) ''x'' None None None) (IntImm (Int_t 32 1) 7) = Inr (Codegen_after_CSE e)) \<and>
     type_eq (type_of e) (Int_t 32 1) \<and> eval (int_env\<lparr>var_val := [''x'' \<mapsto> [- 100]]\<rparr>) e = Some [5]"
proof -
  let ?a = "Variable (Int_t 32 1) ''x'' None None None" and ?b = "IntImm (Int_t 32 1) 7"
  let ?r = "int_env\<lparr>var_val := [''x'' \<mapsto> [- 100]]\<rparr>"
  have "\<exists>e. (visit_Mod ?a ?b = Inr (Codegen e) \<or> visit_Mod ?a ?b = Inr (Codegen_after_CSE e)) \<and>
      type_eq (type_of e) (type_of ?a) \<and> eval ?r e = Some (map2 emod [- 100] [7])"
    by (rule lowered_remainder_correct [OF int_env_honours])
      (simp_all add: eval_concrete itype_def const_type_def c_div_defined_def)
  then show ?thesis by (simp add: emod_def)
qed

text \<open>C39: where the hypotheses on the divisor fail, so does the lowering. The test for a
  constant power of two looks through casts: a division of an \<open>int8\<close> by
  \<open>int8(128)\<close>, which is -128, is emitted as a shift by 7, and -100 gives -1 instead of
  1. And the remainder of 32-bit integers adds the absolute value of the divisor in both
  arms of its \<open>select\<close>, which overflows for 1 and the greatest integer.\<close>

theorem lowered_division_limits:
  "(\<exists>e. visit_Div (Variable (Int_t 8 1) ''x'' None None None) (Cast (Int_t 8 1) (IntImm (Int_t 32 1) 128)) = Inr (Codegen e) \<and>
     eval (int_env\<lparr>var_val := [''x'' \<mapsto> [- 100]]\<rparr>) e = Some [- 1] \<and>
     eval (int_env\<lparr>var_val := [''x'' \<mapsto> [- 100]]\<rparr>)
       (Binary DivOp (Variable (Int_t 8 1) ''x'' None None None) (Cast (Int_t 8 1) (IntImm (Int_t 32 1) 128))) = Some [1]) \<and>
   (\<exists>e. visit_Mod (Variable (Int_t 32 1) ''x'' None None None) (Variable (Int_t 32 1) ''y'' None None None) = Inr (Codegen_after_CSE e) \<and>
     eval (int_env\<lparr>var_val := [''x'' \<mapsto> [1], ''y'' \<mapsto> [2147483647]]\<rparr>) e = None \<and>
     eval (int_env\<lparr>var_val := [''x'' \<mapsto> [1], ''y'' \<mapsto> [2147483647]]\<rparr>)
       (Binary ModOp (Variable (Int_t 32 1) ''x'' None None None) (Variable (Int_t 32 1) ''y'' None None None)) = Some [1])"
proof (rule conjI)
  let ?a = "Variable (Int_t 8 1) ''x'' None None None" and ?b = "Cast (Int_t 8 1) (IntImm (Int_t 32 1) 128)"
  let ?r = "int_env\<lparr>var_val := [''x'' \<mapsto> [- 100]]\<rparr>"
  have "visit_Div ?a ?b = Inr (Codegen (Call (Int_t 8 1) ''shift_right'' [?a, IntImm (Int_t 8 1) 7] PureIntrinsic None 0 None None))"
    by code_simp
  moreover have "eval ?r (Call (Int_t 8 1) ''shift_right'' [?a, IntImm (Int_t 8 1) 7] PureIntrinsic None 0 None None) = Some [- 1]"
    by code_simp
  moreover have "eval ?r (Binary DivOp ?a ?b) = Some [1]" by code_simp
  ultimately show "\<exists>e. visit_Div ?a ?b = Inr (Codegen e) \<and> eval ?r e = Some [- 1] \<and> eval ?r (Binary DivOp ?a ?b) = Some [1]"
    by blast
next
  let ?x = "Variable (Int_t 32 1) ''x'' None None None" and ?y = "Variable (Int_t 32 1) ''y'' None None None"
  let ?r = "int_env\<lparr>var_val := [''x'' \<mapsto> [1], ''y'' \<mapsto> [2147483647]]\<rparr>"
  have "(case visit_Mod ?x ?y of Inr (Codegen_after_CSE e) \<Rightarrow> eval ?r e | _ \<Rightarrow> Some []) = None" by code_simp
  then obtain e where "visit_Mod ?x ?y = Inr (Codegen_after_CSE e)" "eval ?r e = None"
    by (auto split: sum.splits emitted.splits)
  moreover have "eval ?r (Binary ModOp ?x ?y) = Some [1]" by code_simp
  ultimately show "\<exists>e. visit_Mod ?x ?y = Inr (Codegen_after_CSE e) \<and> eval ?r e = None \<and> eval ?r (Binary ModOp ?x ?y) = Some [1]"
    by blast
qed

end
