(* ===== verification/FastDivide.thy ===== *)
theory FastDivide
  imports IntDivision
begin

text \<open>
  Division by a divisor known at run time, \<open>src/FastIntegerDivide.cpp\<close>, and what it is
  built on: the call that reads an image (\<open>ImageBase::operator()\<close> of
  \<open>src/Image.cpp\<close>) with the checks of its arguments
  (\<open>check_call_arg_types\<close> of \<open>src/Parameter.cpp\<close>).

  An image is its name, the handle of its buffer, its element type, its number of dimensions
  and its pixels, the list of the values of its second coordinate for each value of the first.
  The name and the handle of a table are made when its static image is initialised, and are
  arguments here. Second half: the expression divides, except for a signed numerator and a
  divisor of one.
\<close>

subsection \<open>Calls to images\<close>

record image =
  image_name :: string
  image_buffer :: nat
  image_type :: Type
  image_dims :: int
  image_pixels :: "int list list"

fun decimal :: "nat \<Rightarrow> string" where
  "decimal n = (if n < 10 then [char_of (48 + n)] else decimal (n div 10) @ [char_of (48 + n mod 10)])"

declare decimal.simps [simp del]

definition Var_is_placeholder :: "string \<Rightarrow> bool" where
  "Var_is_placeholder n \<longleftrightarrow> n = ''_''"

definition Var_implicit :: "nat \<Rightarrow> Expr" where
  "Var_implicit n = Some (Variable (Int_t 32 1) (''_'' @ decimal n) None None None)"

text \<open>The arguments so far and whether a placeholder was seen, with one more argument.\<close>

definition add_implicit_args_if_placeholder ::
  "int \<Rightarrow> nat \<Rightarrow> Expr list \<times> bool \<Rightarrow> Expr \<Rightarrow> (Expr list \<times> bool) result" where
  "add_implicit_args_if_placeholder dims total_args st last_arg =
     (case st of (args, seen) \<Rightarrow>
      let is_placeholder = (case last_arg of Some (Variable t n im p rd) \<Rightarrow> Var_is_placeholder n | _ \<Rightarrow> False) in
      if is_placeholder then
        rbind (user_assert (\<not> seen) ''Only one placeholder allowed in argument list for Image'') (\<lambda>_.
        Inr (args @ map Var_implicit [0..<nat (dims - int total_args + 1)], True))
      else
        let args = args @ [last_arg] in
        if \<not> seen \<and> length args = total_args \<and> int (length args) < dims
        then Inl (User_error ''Can't construct a reference to Image with too few arguments'')
        else Inr (args, seen))"

fun add_args :: "int \<Rightarrow> nat \<Rightarrow> Expr list \<times> bool \<Rightarrow> Expr list \<Rightarrow> (Expr list \<times> bool) result" where
  "add_args dims n st [] = Inr st"
| "add_args dims n st (e # es) =
     rbind (add_implicit_args_if_placeholder dims n st e) (\<lambda>st. add_args dims n st es)"

definition check_call_arg_type :: "Expr \<Rightarrow> expr result" where
  "check_call_arg_type arg =
     (case arg of None \<Rightarrow> Inl (User_error ''Argument is an undefined Expr'')
      | Some e \<Rightarrow>
          let t = type_of e in
          if is_float t \<or> (is_uint t \<and> 32 \<le> bits t) \<or> (is_int t \<and> 32 < bits t)
          then Inl (User_error ''Implicit cast to int in argument is not allowed'')
          else if type_neq t (Int_t 32 1) then Cast_make (Int_t 32 1) (Some e) else Inr e)"

definition check_call_arg_types :: "Expr list \<Rightarrow> int \<Rightarrow> expr list result" where
  "check_call_arg_types args dims =
     rbind (user_assert (int (length args) = dims) ''argument call with a different number of dimensions'') (\<lambda>_.
     rmap check_call_arg_type args)"

definition image_call :: "image \<Rightarrow> Expr list \<Rightarrow> expr result" where
  "image_call im args_passed =
     rbind (add_args (image_dims im) (length args_passed) ([], False) args_passed) (\<lambda>(args, seen).
     rbind (check_call_arg_types args (image_dims im)) (\<lambda>args.
     Call_make (image_type im) (image_name im) (map Some args) Image None 0 (Some (image_buffer im)) None))"

subsection \<open>The tables as images\<close>

text \<open>Two columns of a table, converted to the type of the elements of the image.\<close>

definition table_pixels :: "Type \<Rightarrow> division_row list \<Rightarrow> int list list" where
  "table_pixels t tbl = map (\<lambda>row. [wrap t (row_multiplier row), wrap t (row_shift row)]) (take 256 tbl)"

definition table_image :: "Type \<Rightarrow> division_row list \<Rightarrow> string \<times> nat \<Rightarrow> image" where
  "table_image t tbl ids =
     \<lparr>image_name = fst ids, image_buffer = snd ids, image_type = t, image_dims = 2, image_pixels = table_pixels t tbl\<rparr>"

definition integer_divide_table_u8 :: "string \<times> nat \<Rightarrow> image" where
  "integer_divide_table_u8 = table_image (UInt_t 8 1) table_runtime_u8"

definition integer_divide_table_s8 :: "string \<times> nat \<Rightarrow> image" where
  "integer_divide_table_s8 = table_image (UInt_t 8 1) table_runtime_s8"

definition integer_divide_table_u16 :: "string \<times> nat \<Rightarrow> image" where
  "integer_divide_table_u16 = table_image (UInt_t 16 1) table_runtime_u16"

definition integer_divide_table_s16 :: "string \<times> nat \<Rightarrow> image" where
  "integer_divide_table_s16 = table_image (UInt_t 16 1) table_runtime_s16"

definition integer_divide_table_u32 :: "string \<times> nat \<Rightarrow> image" where
  "integer_divide_table_u32 = table_image (UInt_t 32 1) table_runtime_u32"

definition integer_divide_table_s32 :: "string \<times> nat \<Rightarrow> image" where
  "integer_divide_table_s32 = table_image (UInt_t 32 1) table_runtime_s32"

text \<open>The name and the buffer of each of the six images, by signedness and width.\<close>

type_synonym image_ids = "bool \<Rightarrow> nat \<Rightarrow> string \<times> nat"

definition divide_table :: "image_ids \<Rightarrow> Type \<Rightarrow> image" where
  "divide_table ids t =
     (if is_uint t then
        (if bits t = 8 then integer_divide_table_u8 (ids False 8)
         else if bits t = 16 then integer_divide_table_u16 (ids False 16)
         else integer_divide_table_u32 (ids False 32))
      else
        (if bits t = 8 then integer_divide_table_s8 (ids True 8)
         else if bits t = 16 then integer_divide_table_s16 (ids True 16)
         else integer_divide_table_s32 (ids True 32)))"

subsection \<open>The division\<close>

text \<open>Multiply and keep the high half, narrow again.\<close>

definition high_half :: "Type \<Rightarrow> expr \<Rightarrow> expr \<Rightarrow> expr result" where
  "high_half t mul numerator =
     rbind (cast (with_bits (bits t * 2) t) mul) (\<lambda>w.
     rbind (operator_ee MulOp (Some w) (Some numerator)) (\<lambda>p.
     rbind (if bits t < 32 then operator_ei DivOp (Some p) (2 ^ bits t)
            else operator_shr_ei (Some p) (int (bits t))) (\<lambda>h. cast t h)))"

definition unsigned_fast_divide :: "Type \<Rightarrow> expr \<Rightarrow> expr \<Rightarrow> expr \<Rightarrow> expr result" where
  "unsigned_fast_divide t numerator mul shift =
     rbind (high_half t mul numerator) (\<lambda>q.
     rbind (operator_ee SubOp (Some numerator) (Some q)) (\<lambda>d.
     rbind (operator_ei DivOp (Some d) 2) (\<lambda>h.
     rbind (operator_ee AddOp (Some q) (Some h)) (\<lambda>q.
     operator_shr (Some q) (Some shift)))))"

text \<open>The signed division also replaces the numerator, by its flipped value.\<close>

definition signed_fast_divide :: "Type \<Rightarrow> expr \<Rightarrow> expr \<Rightarrow> expr \<Rightarrow> (expr \<times> expr) result" where
  "signed_fast_divide t numerator mul shift =
     rbind (operator_ei GTOp (Some numerator) 0) (\<lambda>c.
     rbind (cast t (IntImm (Int_t 32 1) 0)) (\<lambda>z.
     rbind (cast t (IntImm (Int_t 32 1) (- 1))) (\<lambda>m.
     rbind (select c z m) (\<lambda>xsign.
     rbind (operator_bitxor (Some xsign) (Some numerator)) (\<lambda>numerator.
     rbind (high_half t mul numerator) (\<lambda>q.
     rbind (operator_shr (Some q) (Some shift)) (\<lambda>q.
     rbind (operator_bitxor (Some xsign) (Some q)) (\<lambda>q. Inr (numerator, q)))))))))"

definition fast_integer_divide :: "image_ids \<Rightarrow> expr \<Rightarrow> expr \<Rightarrow> expr result" where
  "fast_integer_divide ids numerator denominator =
     (if is_const denominator then
        rbind (cast (UInt_t 8 1) denominator) (\<lambda>d. operator_ee DivOp (Some numerator) (Some d))
      else
        let t = type_of numerator; zero = IntImm (Int_t 32 1) 0; one = IntImm (Int_t 32 1) 1 in
        rbind (user_assert (type_eq (type_of denominator) (UInt_t 8 1))
          ''Fast integer divide requires a UInt(8) denominator'') (\<lambda>_.
        rbind (user_assert (is_uint t \<or> is_int t) ''Fast integer divide requires an integer numerator'') (\<lambda>_.
        rbind (user_assert (bits t = 8 \<or> bits t = 16 \<or> bits t = 32)
          ''Fast integer divide requires a numerator with 8, 16, or 32 bits'') (\<lambda>_.
        rbind (image_call (divide_table ids t) [Some denominator, Some zero]) (\<lambda>mul.
        rbind (image_call (divide_table ids t) [Some denominator, Some one]) (\<lambda>shift.
        rbind (if is_uint t then rbind (unsigned_fast_divide t numerator mul shift) (\<lambda>q. Inr (numerator, q))
               else signed_fast_divide t numerator mul shift) (\<lambda>(numerator, result).
        rbind (operator_ei EQOp (Some denominator) 1) (\<lambda>c.
        rbind (select c numerator result) (\<lambda>result.
        rbind (internal_assert (type_eq (type_of result) t) []) (\<lambda>_. Inr result))))))))))"

subsection \<open>Facts: reading a table\<close>

definition runtime_table :: "Type \<Rightarrow> division_row list" where
  "runtime_table t =
     (if is_uint t then
        (if bits t = 8 then table_runtime_u8 else if bits t = 16 then table_runtime_u16 else table_runtime_u32)
      else
        (if bits t = 8 then table_runtime_s8 else if bits t = 16 then table_runtime_s16 else table_runtime_s32))"

definition image_ids_of :: "image_ids \<Rightarrow> Type \<Rightarrow> string \<times> nat" where
  "image_ids_of ids t = ids (\<not> is_uint t) (bits t)"

lemma divide_table_eq:
  "bits t \<in> {8, 16, 32} \<Longrightarrow>
   divide_table ids t = table_image (UInt_t (bits t) 1) (runtime_table t) (image_ids_of ids t)"
  by (auto simp: divide_table_def runtime_table_def image_ids_of_def integer_divide_table_u8_def
      integer_divide_table_u16_def integer_divide_table_u32_def integer_divide_table_s8_def
      integer_divide_table_s16_def integer_divide_table_s32_def)

definition table_multiplier :: "Type \<Rightarrow> int \<Rightarrow> int" where
  "table_multiplier t d = wrap (UInt_t (bits t) 1) (row_multiplier (runtime_table t ! nat d))"

definition table_shift :: "Type \<Rightarrow> int \<Rightarrow> int" where
  "table_shift t d = wrap (UInt_t (bits t) 1) (row_shift (runtime_table t ! nat d))"

text \<open>The divisor that a \<open>uint8\<close> stands for.\<close>

definition divisor :: "int \<Rightarrow> int" where
  "divisor d = (if d = 0 then 256 else d)"

lemma rows_of_one:
  "row_multiplier (table_runtime_u8 ! 1) = 257" "row_shift (table_runtime_u8 ! 1) = 0"
  "row_multiplier (table_runtime_u16 ! 1) = 65537" "row_shift (table_runtime_u16 ! 1) = 0"
  "row_multiplier (table_runtime_u32 ! 1) = 4294967297" "row_shift (table_runtime_u32 ! 1) = 0"
  "row_multiplier (table_runtime_s8 ! 1) = 257" "row_shift (table_runtime_s8 ! 1) = 0"
  "row_multiplier (table_runtime_s16 ! 1) = 65537" "row_shift (table_runtime_s16 ! 1) = 0"
  "row_multiplier (table_runtime_s32 ! 1) = 4294967297" "row_shift (table_runtime_s32 ! 1) = 0"
  by code_simp+

lemma runtime_table_exact:
  assumes "is_int t \<or> is_uint t" and "bits t \<in> {8, 16, 32}"
  shows "runtime_rows_exact (bits t) (if is_uint t then 2 ^ bits t - 1 else 2 ^ (bits t - 1) - 1)
    (if is_uint t then 2 else 1) (runtime_table t)"
  using assms table_runtime_u8_exact table_runtime_u16_exact table_runtime_u32_exact
    table_runtime_s8_exact table_runtime_s16_exact table_runtime_s32_exact
  by (auto simp: runtime_table_def)

lemma runtime_row_one:
  assumes "bits t \<in> {8, 16, 32}"
  shows "row_multiplier (runtime_table t ! 1) = 2 ^ bits t + 1" "row_shift (runtime_table t ! 1) = 0"
  using assms rows_of_one by (auto simp: runtime_table_def)

lemma UInt_facts:
  assumes "N \<in> {8, 16, 32}"
  shows "itype (UInt_t N 1)" "is_uint (UInt_t N 1)" "bits (UInt_t N 1) = N" "lanes (UInt_t N 1) = 1"
  using assms by (auto simp: itype_def const_type_def type_ctor_simps type_predicates)

lemma table_values:
  assumes t: "is_int t \<or> is_uint t" "bits t \<in> {8, 16, 32}" and d: "0 \<le> d" "d < 256"
  shows "0 < table_multiplier t d" "table_multiplier t d < 2 ^ bits t" "0 \<le> table_shift t d" "table_shift t d < 8"
    and "d \<noteq> 1 \<Longrightarrow> is_uint t \<Longrightarrow>
      exact_multiplier (divisor d) (table_multiplier t d + 2 ^ bits t) (bits t + 1 + nat (table_shift t d)) (2 ^ bits t - 1)"
    and "d \<noteq> 1 \<Longrightarrow> is_int t \<Longrightarrow>
      exact_multiplier (divisor d) (table_multiplier t d) (bits t + nat (table_shift t d)) (2 ^ (bits t - 1) - 1)"
proof -
  let ?row = "runtime_table t ! nat d" and ?N = "bits t"
  note u = UInt_facts [OF t(2)]
  have nd: "nat d < 256" using d by simp
  have big: "(8::int) < 2 ^ ?N" using t(2) by auto
  have wrapped: "wrap (UInt_t ?N 1) x = x" if "0 \<le> x" "x < 2 ^ ?N" for x
    using that uint_range [OF u(2)] u(3) by (intro wrap_in_range) simp
  consider (one) "d = 1" | (row) "d \<noteq> 1" by blast
  then have *: "0 < table_multiplier t d \<and> table_multiplier t d < 2 ^ ?N \<and> 0 \<le> table_shift t d \<and> table_shift t d < 8 \<and>
      (d \<noteq> 1 \<longrightarrow> row_method ?row = (if is_uint t then 2 else 1) \<and> table_multiplier t d = row_multiplier ?row \<and> table_shift t d = row_shift ?row \<and>
        row_exact ?N (if is_uint t then 2 ^ ?N - 1 else 2 ^ (?N - 1) - 1) (divisor d) ?row)"
  proof cases
    case one
    have "take_bit ?N (2 ^ ?N + 1 :: int) = 1" using t(2) by auto
    then show ?thesis
      using runtime_row_one [OF t(2)] u big one by (simp add: table_multiplier_def table_shift_def wrap_uint)
  next
    case row
    have r: "row_method ?row = (if is_uint t then 2 else 1) \<and> 0 < row_multiplier ?row \<and>
      row_exact ?N (if is_uint t then 2 ^ ?N - 1 else 2 ^ (?N - 1) - 1) (divisor d) ?row"
    proof -
      have n1: "nat d \<noteq> 1" and e: "(if nat d = 0 then 256 else int (nat d)) = divisor d"
        using row d by (auto simp: divisor_def)
      show ?thesis using runtime_rows_exactD [OF runtime_table_exact [OF t] nd n1] unfolding e .
    qed
    then have b: "0 < row_multiplier ?row" "row_multiplier ?row < 2 ^ ?N" "0 \<le> row_shift ?row" "row_shift ?row < 8"
      unfolding row_exact_def by blast+
    have e: "table_multiplier t d = row_multiplier ?row" "table_shift t d = row_shift ?row"
      unfolding table_multiplier_def table_shift_def by (rule wrapped; use b big in linarith)+
    show ?thesis unfolding e using r b by blast
  qed
  then show "0 < table_multiplier t d" "table_multiplier t d < 2 ^ ?N" "0 \<le> table_shift t d" "table_shift t d < 8"
    by blast+
  show "exact_multiplier (divisor d) (table_multiplier t d + 2 ^ ?N) (?N + 1 + nat (table_shift t d)) (2 ^ ?N - 1)"
    if d1: "d \<noteq> 1" and u: "is_uint t"
  proof -
    have q: "row_method ?row = 2" "table_multiplier t d = row_multiplier ?row" "table_shift t d = row_shift ?row"
      "row_exact ?N (2 ^ ?N - 1) (divisor d) ?row" using * d1 u by presburger+
    then show ?thesis by (simp add: row_exact_def)
  qed
  show "exact_multiplier (divisor d) (table_multiplier t d) (?N + nat (table_shift t d)) (2 ^ (?N - 1) - 1)"
    if d1: "d \<noteq> 1" and u: "is_int t"
  proof -
    have "\<not> is_uint t" using u by simp
    then have q: "row_method ?row = 1" "table_multiplier t d = row_multiplier ?row" "table_shift t d = row_shift ?row"
      "row_exact ?N (2 ^ (?N - 1) - 1) (divisor d) ?row" using * d1 by presburger+
    then show ?thesis by (simp add: row_exact_def)
  qed
qed

text \<open>An environment in which the images of the tables have their pixels.\<close>

definition reads_image :: "env \<Rightarrow> image \<Rightarrow> bool" where
  "reads_image r im \<longleftrightarrow>
     (\<forall>x y. 0 \<le> x \<and> x < int (length (image_pixels im)) \<and> 0 \<le> y \<and> y < int (length (image_pixels im ! nat x)) \<longrightarrow>
        call_val r (image_type im) (image_name im) Image 0 [[x], [y]] = Some [image_pixels im ! nat x ! nat y])"

definition not_placeholder :: "expr \<Rightarrow> bool" where
  "not_placeholder e \<longleftrightarrow> (case e of Variable t n im p rd \<Rightarrow> \<not> Var_is_placeholder n | _ \<Rightarrow> True)"

lemma image_call_builds:
  assumes im: "reads_image r (table_image u tbl ids)" and u: "itype u" "lanes u = 1" and len: "256 \<le> length tbl"
    and d: "valued_as r d (UInt_t 8 1) [k]" "not_placeholder d" and k: "0 \<le> k" "k < 256" and j: "j = 0 \<or> j = 1"
  shows "builds r (image_call (table_image u tbl ids) [Some d, Some (IntImm (Int_t 32 1) j)]) u
    [wrap u (if j = 0 then row_multiplier (tbl ! nat k) else row_shift (tbl ! nat k))]"
proof -
  let ?i = "IntImm (Int_t 32 1) j" and ?d = "Cast (Int_t 32 1) d" and ?im = "table_image u tbl ids"
  let ?v = "wrap u (if j = 0 then row_multiplier (tbl ! nat k) else row_shift (tbl ! nat k))"
  have ed: "wf_expr d" "type_eq (type_of d) (UInt_t 8 1)" "eval r d = Some [k]" using d by (auto simp: valued_as_def)
  note ct = type_eq_cong [OF ed(2)] type_eq_fields [OF ed(2)]
  have args: "add_args 2 2 ([], False) [Some d, Some ?i] = Inr ([Some d, Some ?i], False)"
    using d(2) by (auto simp: add_implicit_args_if_placeholder_def Let_def not_placeholder_def split: expr.splits)
  have chk: "check_call_arg_types [Some d, Some ?i] 2 = Inr [?d, ?i]"
    using ct(1,2,3,13,14,15)
    by (simp add: check_call_arg_types_def check_call_arg_type_def Let_def Cast_make_def defined_handle_def type_neq_def
        type_ctor_simps type_predicates)
  let ?c = "Call u (fst ids) [?d, ?i] Image None 0 (Some (snd ids)) None"
  have call: "image_call ?im [Some d, Some ?i] = Inr ?c"
  proof -
    have two: "image_dims ?im = 2" "length [Some d, Some ?i] = 2" by (simp_all add: table_image_def)
    show ?thesis
      unfolding image_call_def two args rbind_Inr prod.case chk
      by (simp add: table_image_def Call_make_def defined_handle_def)
  qed
  have px: "image_pixels ?im ! nat k = [wrap u (row_multiplier (tbl ! nat k)), wrap u (row_shift (tbl ! nat k))]"
      "length (image_pixels ?im) = 256"
  proof -
    have "nat k < 256" using k by simp
    then show "image_pixels ?im ! nat k = [wrap u (row_multiplier (tbl ! nat k)), wrap u (row_shift (tbl ! nat k))]"
        "length (image_pixels ?im) = 256"
      using len by (simp_all add: table_image_def table_pixels_def)
  qed
  have "call_val r u (fst ids) Image 0 [[k], [j]] = Some [?v]"
    using im [unfolded reads_image_def, rule_format, of k j] px k j by (auto simp: table_image_def)
  moreover have "in_range u ?v" using wrap_range itype_int [OF u(1)] by blast
  moreover have "\<not> identity_intrinsic Image (fst ids)" by (simp add: identity_intrinsic_def call_is_intrinsic_def)
  moreover have "fit (Int_t 32 1) k = Some k" "in_range (Int_t 32 1) j"
    using k j by (auto simp: fit_def in_range_def type_lo_def type_hi_def type_ctor_simps type_predicates)
  ultimately have "eval r ?c = Some [?v]" using ed(3) u(2) by simp
  moreover have "wf_expr ?c"
    using ed(1) u ct(15) j by (auto simp: itype_def identity_intrinsic_def call_is_intrinsic_def type_ctor_simps type_eq_def
        is_int_def is_scalar_def in_range_def type_lo_def type_hi_def)
  moreover have "type_eq (type_of ?c) u" by simp
  ultimately have "valued_as r ?c u [?v]" unfolding valued_as_def by blast
  then show ?thesis unfolding call builds_Inr .
qed

subsection \<open>Facts: the steps of the division\<close>

text \<open>The scalar instances of the builders.\<close>

lemmas cast1 = cast_lanes [where xs = "[()]" and f = "\<lambda>_. x" and h = "\<lambda>_. y" for x y, simplified]
lemmas arith1 = arith_lanes [where xs = "[()]" and f = "\<lambda>_. x" and g = "\<lambda>_. y" and h = "\<lambda>_. z" for x y z, simplified]
lemmas arith_ei1 = arith_ei_lanes [where xs = "[()]" and f = "\<lambda>_. x" and h = "\<lambda>_. z" for x z, simplified]
lemmas compare_ei1 = compare_ei_lanes [where xs = "[()]" and f = "\<lambda>_. x" and h = "\<lambda>_. z" for x z, simplified]
lemmas mixed1 = mixed_arith_lanes [where xs = "[()]" and f = "\<lambda>_. x" and g = "\<lambda>_. y" and f' = "\<lambda>_. x'" and g' = "\<lambda>_. y'"
  and h = "\<lambda>_. z" for x y x' y' z, simplified]
lemmas shr_ei1 = shr_ei_lanes [where xs = "[()]" and f = "\<lambda>_. x" for x, simplified]
lemmas bitwise1 = bitwise_lanes [where xs = "[()]" and f = "\<lambda>_. x" and g = "\<lambda>_. y" and h = "\<lambda>_. z" for x y z, simplified]
lemmas select1 = select_lanes [where xs = "[()]" and p = "\<lambda>_. p" and f = "\<lambda>_. x" and g = "\<lambda>_. y" for p x y, simplified]

lemma high_half_value:
  fixes x m :: int
  assumes "0 < m" "m < 2 ^ N"
  shows "0 \<le> x \<Longrightarrow> 0 \<le> m * x div 2 ^ N \<and> m * x div 2 ^ N \<le> x" "x = - 1 \<Longrightarrow> m * x div 2 ^ N = - 1"
proof -
  assume x: "0 \<le> x"
  then have "m * x \<le> 2 ^ N * x" using assms by (intro mult_right_mono) auto
  then have "m * x div 2 ^ N \<le> 2 ^ N * x div 2 ^ N" by (intro zdiv_mono1) auto
  then show "0 \<le> m * x div 2 ^ N \<and> m * x div 2 ^ N \<le> x" using x assms by (simp add: pos_imp_zdiv_nonneg_iff)
next
  assume "x = - 1"
  then show "m * x div 2 ^ N = - 1" using assms by (intro int_div_pos_eq [where r = "2 ^ N - m"]) auto
qed

text \<open>The numerators of the multiplication, which are at least minus one.\<close>

definition numerator_ok :: "Type \<Rightarrow> int \<Rightarrow> bool" where
  "numerator_ok t x \<longleftrightarrow> in_range t x \<and> - 1 \<le> x"

lemma wide_range:
  assumes t: "itype t" "bits t \<in> {8, 16, 32}" and m: "0 < m" "m < 2 ^ bits t" and x: "numerator_ok t x"
  defines "w \<equiv> with_bits (bits t * 2) t"
  shows "in_range w m" "in_range w (2 ^ bits t)" "in_range w x" "in_range w (m * x)" "in_range w (m * x div 2 ^ bits t)"
    "in_range t (m * x div 2 ^ bits t)"
proof -
  let ?N = "bits t"
  note w = itype_wide [OF t, folded w_def]
  have P: "(0::int) < 2 ^ ?N" by simp
  have x1: "0 \<le> x \<or> x = - 1" using x by (auto simp: numerator_ok_def)
  define B :: int where "B = (if is_int t then 2 ^ (?N - 1) else 2 ^ ?N)"
  have "type_hi t = B - 1" "type_lo t \<le> 0" by (simp_all add: type_hi_def type_lo_def B_def)
  then have xB: "x < B" using x by (auto simp: numerator_ok_def in_range_def)
  have B1: "1 \<le> B" by (simp add: B_def)
  have "2 * ?N - 1 = ?N + (?N - 1)" using t(2) by auto
  then have hi: "type_hi w = 2 ^ ?N * B - 1" using w by (simp add: type_hi_def B_def power_add mult_2)
  have neg: "type_lo w \<le> - (2 ^ ?N)" if "is_int t"
  proof -
    have "(2::int) ^ ?N \<le> 2 ^ (2 * ?N - 1)" using t(2) by (intro power_increasing) auto
    then show ?thesis using that w by (simp add: type_lo_def)
  qed
  have lo0: "type_lo w \<le> 0" by (simp add: type_lo_def)
  have B2: "2 \<le> B" using t(2) by (auto simp: B_def)
  have PB: "2 ^ ?N * 2 \<le> 2 ^ ?N * B" using B2 by (intro mult_left_mono) auto
  have rg: "in_range w y" if "0 \<le> y" "y < 2 ^ ?N * B" for y
    using that hi lo0 itype_int [OF w(1)] by (simp add: in_range_def)
  show "in_range w m" "in_range w (2 ^ ?N)" by (rule rg; use m P PB in linarith)+
  have mx: "m * x < 2 ^ ?N * B" "0 \<le> x \<Longrightarrow> 0 \<le> m * x"
  proof -
    show "m * x < 2 ^ ?N * B"
    proof (cases "0 \<le> x")
      case True
      then show ?thesis using m xB by (intro mult_strict_mono') auto
    next
      case False
      then have "m * x < 0" using m by (simp add: mult_pos_neg)
      moreover have "0 < 2 ^ ?N * B" using B1 by simp
      ultimately show ?thesis by linarith
    qed
  qed (use m in simp)
  have isint: "is_int t" if "x < 0"
    using that x itype_int [OF t(1)] by (auto simp: numerator_ok_def in_range_def type_lo_def)
  have neg_rg: "in_range w y" if "x < 0" "- (2 ^ ?N) \<le> y" "y < 0" for y
  proof -
    have "0 < 2 ^ ?N * B" using B1 P by (intro mult_pos_pos) auto
    then have "- 1 \<le> type_hi w" using hi by linarith
    then show ?thesis using that neg [OF isint [OF that(1)]] itype_int [OF w(1)] by (simp add: in_range_def)
  qed
  show "in_range w (m * x)"
  proof (cases "0 \<le> x")
    case True
    then show ?thesis using mx by (intro rg) auto
  next
    case False
    then have "x = - 1" using x1 by auto
    then show ?thesis using m by (intro neg_rg) auto
  qed
  note hv = high_half_value [OF m, of x]
  have "1 * B \<le> 2 ^ ?N * B" using B1 by (intro mult_right_mono) auto
  then have xP: "x < 2 ^ ?N * B" using xB by linarith
  have one: "in_range w (- 1)" if "x < 0" by (rule neg_rg [OF that]) (use P in linarith)+
  show "in_range w x" using x1 xP one rg [of x] by auto
  show "in_range w (m * x div 2 ^ ?N)"
  proof (cases "0 \<le> x")
    case True
    then show ?thesis using hv(1) xP by (intro rg) linarith+
  next
    case False
    then show ?thesis using x1 hv(2) one by auto
  qed
  show "in_range t (m * x div 2 ^ ?N)"
  proof (cases "0 \<le> x")
    case True
    then show ?thesis using hv(1) x \<open>type_lo t \<le> 0\<close> by (auto simp: numerator_ok_def in_range_def)
  next
    case False
    then show ?thesis using x1 hv(2) x by (auto simp: numerator_ok_def)
  qed
qed

lemma type_eq_match_wide:
  assumes "itype t" and "bits t \<in> {8, 16, 32}"
  shows "type_eq (match_type (with_bits (bits t * 2) t) t) (with_bits (bits t * 2) t)"
proof -
  let ?w = "with_bits (bits t * 2) t"
  note w = itype_wide [OF assms]
  have ne: "\<not> type_eq ?w t" using w assms(2) by (auto simp: type_eq_def)
  show ?thesis
  proof (cases "is_uint t")
    case True
    then show ?thesis using ne w assms(2) by (auto simp: match_type_def)
  next
    case False
    then have i: "is_int t" using itype_int [OF assms(1)] by blast
    have "match_type ?w t = Int_t (2 * bits t) (int (lanes t))" using ne w False by (simp add: match_type_def)
    moreover have "code ?w = halide_type_int" using i w by (simp add: is_int_def)
    moreover have "2 * bits t < 256" using assms(2) by auto
    ultimately show ?thesis using w itype_lanes [OF assms(1)] by (simp add: type_eq_def type_ctor_simps)
  qed
qed

lemma high_half_builds:
  assumes r: "honours_intrinsics r" and t: "itype t" "bits t \<in> {8, 16, 32}" "lanes t = 1"
    and mul: "valued_as r mul (UInt_t (bits t) 1) [m]" and m: "0 < m" "m < 2 ^ bits t"
    and n: "valued_as r num t [x]" "numerator_ok t x"
  shows "builds r (high_half t mul num) t [m * x div 2 ^ bits t]"
proof -
  let ?w = "with_bits (bits t * 2) t" and ?N = "bits t"
  let ?T = "match_type ?w t"
  note w = itype_wide [OF t(1,2)] and u = UInt_facts [OF t(2)] and rg = wide_range [OF t(1,2) m n(2)]
  have Tw: "type_eq ?T ?w" by (rule type_eq_match_wide [OF t(1,2)])
  note Tc = type_eq_cong [OF Tw] type_eq_fields [OF Tw]
  have n1: "type_eq ?w t \<or> bits ?w \<noteq> 1 \<or> bits t \<noteq> 1" using t(2) by auto
  have n2: "bits ?w = Suc 0 \<longrightarrow> type_eq ?w t \<or> bits t \<noteq> Suc 0" using t(2) by auto
  have iT: "itype ?T" by (rule itype_match(1) [OF w(1) t(1) w(2) n1])
  have c: "builds r (cast ?w mul) ?w [m]"
    by (rule cast1 [OF mul u(1) w(1)]) (use w u t rg in auto)
  have p: "builds r (operator_ee MulOp (Some e) (Some num)) ?T [m * x]" if "valued_as r e ?w [m]" for e
    by (rule mixed1 [OF that n(1) w(1) t(1) w(2) n2]) (use Tc(11) rg in auto)
  have h: "builds r (if ?N < 32 then operator_ei DivOp (Some e) (2 ^ ?N) else operator_shr_ei (Some e) (int ?N)) ?T [m * x div 2 ^ ?N]"
    if e: "valued_as r e ?T [m * x]" for e
  proof (cases "?N < 32")
    case True
    have "builds r (operator_ei DivOp (Some e) (2 ^ ?N)) ?T [m * x div 2 ^ ?N]"
      by (rule arith_ei1 [OF e iT]) (use Tc(9,11) rg in \<open>auto simp: ediv_def\<close>)
    with True show ?thesis by simp
  next
    case False
    have "builds r (operator_shr_ei (Some e) (int ?N)) ?T [drop_bit (nat (int ?N)) (m * x)]"
      by (rule shr_ei1 [OF r e iT]) (use Tc(14) w t in auto)
    with False show ?thesis by (simp add: drop_bit_eq_div)
  qed
  have b: "builds r (cast t e) t [m * x div 2 ^ ?N]" if "valued_as r e ?T [m * x div 2 ^ ?N]" for e
    by (rule cast1 [OF that iT t(1)]) (use Tc(15) w rg in auto)
  show ?thesis
    unfolding high_half_def by (intro builds_bind [OF c] builds_bind [OF p] builds_bind [OF h] b)
qed

lemma shr_mixed1:
  assumes r: "honours_intrinsics r" and t: "itype t" "bits t \<in> {8, 16, 32}" "lanes t = 1"
    and q: "valued_as r q t [x]" and s: "valued_as r sh (UInt_t (bits t) 1) [k]" and k: "0 \<le> k" "k < 8"
  shows "builds r (operator_shr (Some q) (Some sh)) t [x div 2 ^ nat k]"
proof -
  let ?u = "UInt_t (bits t) 1"
  let ?T = "match_type t ?u"
  note u = UInt_facts [OF t(2)]
  have Tt: "type_eq ?T t"
  proof (cases "is_uint t")
    case True
    then show ?thesis using u t by (auto simp: match_type_def type_eq_def is_uint_def)
  next
    case False
    then have "is_int t" using itype_int [OF t(1)] by blast
    then have "\<not> type_eq t ?u" "code t = halide_type_int" using u by (auto simp: type_eq_def is_int_def is_uint_def)
    moreover have "bits t < 256" using t(2) by auto
    ultimately show ?thesis using u t False by (auto simp: match_type_def type_eq_def type_ctor_simps is_int_def)
  qed
  note Tc = type_eq_cong [OF Tt] type_eq_fields [OF Tt]
  have n1: "type_eq t ?u \<or> bits t \<noteq> 1 \<or> bits ?u \<noteq> 1" using t(2) by auto
  have kb: "k < int (bits t)" using k t(2) by auto
  have kr: "in_range t k" by (rule less_bits_range [OF t(1) k(1) kb])
  have xr: "in_range t x" using valued_as_type(4) [OF q t(1)] by simp
  have "builds r (shift_op ''shift_right'' (Some q) (Some sh)) ?T [x div 2 ^ nat k]"
  proof (rule shift_op_builds [OF r q s t(1) u(1) _ n1, where xs' = "[x]" and ys' = "[k]"])
    show "lift2 (binary_intrinsic ?T ''shift_right'') [x] [k] = Some [x div 2 ^ nat k]"
      using kb k Tc(14) by (simp add: binary_intrinsic_def drop_bit_eq_div)
    show "\<forall>z \<in> set [x div 2 ^ nat k]. in_range ?T z"
      using drop_bit_range [OF xr, of "nat k"] Tc(9) by (simp add: drop_bit_eq_div)
  qed (use t u Tc(11) xr kr in auto)
  then show ?thesis unfolding operator_shr_def using Tt by (auto simp: builds_def intro: valued_as_retype)
qed

lemma half_gap:
  fixes v x :: int
  shows "0 \<le> v \<Longrightarrow> v \<le> x \<Longrightarrow> 0 \<le> (x - v) div 2 \<and> (x - v) div 2 \<le> x \<and> 0 \<le> v + (x - v) div 2 \<and> v + (x - v) div 2 \<le> x"
  by presburger

lemma unsigned_fast_divide_builds:
  assumes r: "honours_intrinsics r" and t: "itype t" "bits t \<in> {8, 16, 32}" "lanes t = 1" "is_uint t"
    and mul: "valued_as r mul (UInt_t (bits t) 1) [m]" and m: "0 < m" "m < 2 ^ bits t"
    and s: "valued_as r sh (UInt_t (bits t) 1) [k]" and k: "0 \<le> k" "k < 8"
    and n: "valued_as r num t [x]"
  shows "builds r (unsigned_fast_divide t num mul sh) t
    [(x * m div 2 ^ bits t + (x - x * m div 2 ^ bits t) div 2) div 2 ^ nat k]"
proof -
  let ?v = "x * m div 2 ^ bits t"
  have x: "0 \<le> x" "x < 2 ^ bits t" using valued_as_type(4) [OF n t(1)] uint_range [OF t(4)] by auto
  have ok: "numerator_ok t x" using x uint_range [OF t(4)] by (simp add: numerator_ok_def)
  have v: "0 \<le> ?v" "?v \<le> x" using high_half_value(1) [OF m x(1)] by (simp_all add: mult.commute)
  have rg: "in_range t y" if "0 \<le> y" "y \<le> x" for y using that x uint_range [OF t(4)] by simp
  have two: "in_range t 2" by (rule less_bits_range [OF t(1)]) (use t(2) in auto)
  have h: "builds r (high_half t mul num) t [?v]"
    using high_half_builds [OF r t(1-3) mul m n ok] by (simp add: mult.commute)
  have d: "builds r (operator_ee SubOp (Some num) (Some q)) t [x - ?v]" if "valued_as r q t [?v]" for q
    by (rule arith1 [OF n that t(1)]) (use v rg in auto)
  have e: "builds r (operator_ei DivOp (Some q) 2) t [(x - ?v) div 2]" if "valued_as r q t [x - ?v]" for q
  proof (rule arith_ei1 [OF that t(1) two])
    show "binop_val DivOp t (x - ?v) 2 = Some ((x - ?v) div 2)" using rg half_gap [OF v] by (simp add: ediv_def)
  qed simp
  have a: "builds r (operator_ee AddOp (Some q) (Some h)) t [?v + (x - ?v) div 2]"
    if "valued_as r q t [?v]" "valued_as r h t [(x - ?v) div 2]" for q h
  proof (rule arith1 [OF that t(1)])
    show "binop_val AddOp t ?v ((x - ?v) div 2) = Some (?v + (x - ?v) div 2)" using rg half_gap [OF v] by simp
  qed simp
  show ?thesis
    unfolding unsigned_fast_divide_def
    by (rule builds_bind [OF h], rule builds_bind [OF d], assumption, rule builds_bind [OF e], assumption,
        rule builds_bind [OF a], assumption, assumption, rule shr_mixed1 [OF r t(1-3) _ s k])
qed

text \<open>What the signed division computes before the last \<open>select\<close>.\<close>

lemma cast_const1:
  assumes t: "itype t" "bits t \<in> {8, 16, 32}" "lanes t = 1" "is_int t" and j: "j \<in> {- 1, 0}"
  shows "builds r (cast t (IntImm (Int_t 32 1) j)) t [j]"
proof -
  have i: "itype (Int_t 32 1)" "lanes (Int_t 32 1) = 1" "is_int (Int_t 32 1)"
    by (auto simp: itype_def const_type_def type_ctor_simps type_predicates)
  have "in_range (Int_t 32 1) j" using small_range [OF i(1,3)] j by auto
  then have v: "valued_as r (IntImm (Int_t 32 1) j) (Int_t 32 1) [j]"
    by (simp add: valued_as_def type_ctor_simps is_int_def is_scalar_def)
  show ?thesis
    by (rule cast1 [OF v i(1) t(1)]) (use i t small_range [OF t(1,4) j] in auto)
qed

lemma as_const_comparison: "operator_ei op (Some e) k = Inr c \<Longrightarrow> as_const_int c = None"
  by (auto simp: operator_ei_def binary_make_def)

lemma flip_range:
  assumes "is_int t" and "itype t" and "in_range t x"
  shows "in_range t (x XOR (if 0 < y then 0 else - 1))" "in_range t ((if 0 < y then 0 else - 1) XOR x)"
  using assms(3) unfolding int_range [OF assms(1)] by (auto simp: not_int_def)

lemma signed_fast_divide_builds:
  assumes r: "honours_intrinsics r" and t: "itype t" "bits t \<in> {8, 16, 32}" "lanes t = 1" "is_int t"
    and mul: "valued_as r mul (UInt_t (bits t) 1) [m]" and m: "0 < m" "m < 2 ^ bits t"
    and s: "valued_as r sh (UInt_t (bits t) 1) [k]" and k: "0 \<le> k" "k < 8"
    and n: "valued_as r num t [x]"
  defines "sg \<equiv> if 0 < x then 0 else - 1 :: int"
  shows "\<exists>n' q. signed_fast_divide t num mul sh = Inr (n', q) \<and> valued_as r n' t [sg XOR x] \<and>
    valued_as r q t [sg XOR (m * (sg XOR x) div 2 ^ bits t div 2 ^ nat k)]"
proof -
  let ?y = "sg XOR x"
  have xr: "in_range t x" using valued_as_type(4) [OF n t(1)] by simp
  have yr: "in_range t ?y" unfolding sg_def by (rule flip_range(2) [OF t(4,1) xr])
  have y1: "- 1 \<le> ?y" by (auto simp: sg_def not_int_def)
  have ok: "numerator_ok t ?y" using yr y1 by (simp add: numerator_ok_def)
  have sgr: "in_range t sg" using small_range [OF t(1,4)] by (simp add: sg_def)
  have z: "in_range t 0" using small_range [OF t(1,4)] by simp
  obtain c where c: "operator_ei GTOp (Some num) 0 = Inr c" "valued_as r c (Bool_t 1) [of_bool (0 < x)]"
    using compare_ei1 [OF n t(1) z, of GTOp] t(3) by (auto simp: builds_def)
  obtain e0 where e0: "cast t (IntImm (Int_t 32 1) 0) = Inr e0" "valued_as r e0 t [0]"
    using cast_const1 [OF t, of 0 r] by (auto simp: builds_def)
  obtain e1 where e1: "cast t (IntImm (Int_t 32 1) (- 1)) = Inr e1" "valued_as r e1 t [- 1]"
    using cast_const1 [OF t, of "- 1" r] by (auto simp: builds_def)
  have c': "valued_as r c (Bool_t (int (lanes t))) [of_bool (0 < x)]" using c(2) t(3) by simp
  obtain xs where xs: "select c e0 e1 = Inr xs" "valued_as r xs t [sg]"
    using select1 [OF c' as_const_comparison [OF c(1)] e0(2) e1(2) t(1)] by (auto simp: builds_def sg_def)
  have xor: "builds r (operator_bitxor (Some xs) (Some e)) t [sg XOR v]" if e: "valued_as r e t [v]" for e v
  proof -
    have vr: "in_range t v" using valued_as_type(4) [OF e t(1)] by simp
    have "in_range t (sg XOR v)" unfolding sg_def by (rule flip_range(2) [OF t(4,1) vr])
    then show ?thesis
      unfolding operator_bitxor_def
      by (intro bitwise1 [OF r xs(2) e t(1) t(1)]) (use wrap_in_range [OF vr] in \<open>auto simp: binary_intrinsic_def\<close>)
  qed
  obtain n' where n': "operator_bitxor (Some xs) (Some num) = Inr n'" "valued_as r n' t [?y]"
    using xor [OF n] by (auto simp: builds_def)
  obtain h where h: "high_half t mul n' = Inr h" "valued_as r h t [m * ?y div 2 ^ bits t]"
    using high_half_builds [OF r t(1-3) mul m n'(2) ok] by (auto simp: builds_def)
  obtain q where q: "operator_shr (Some h) (Some sh) = Inr q" "valued_as r q t [m * ?y div 2 ^ bits t div 2 ^ nat k]"
    using shr_mixed1 [OF r t(1-3) h(2) s k] by (auto simp: builds_def)
  obtain q' where q': "operator_bitxor (Some xs) (Some q) = Inr q'" "valued_as r q' t [sg XOR (m * ?y div 2 ^ bits t div 2 ^ nat k)]"
    using xor [OF q(2)] by (auto simp: builds_def)
  have "signed_fast_divide t num mul sh = Inr (n', q')"
    by (simp add: signed_fast_divide_def c(1) e0(1) e1(1) xs(1) n'(1) h(1) q(1) q'(1))
  then show ?thesis using n'(2) q'(2) by blast
qed

lemma signed_fast_value:
  assumes ex: "exact_multiplier d m (N + s) hi" and d: "0 < d" and m: "0 < m" "m < 2 ^ N" and x: "- hi - 1 \<le> x" "x \<le> hi"
  defines "sg \<equiv> if 0 < x then 0 else - 1 :: int"
  shows "sg XOR (m * (sg XOR x) div 2 ^ N div 2 ^ s) = x div d"
proof -
  have e: "m * y div 2 ^ N div 2 ^ s = y div d" if "0 \<le> y" "y \<le> hi" for y
    using exact_multiplier_div [OF ex that] by (simp add: power_add zdiv_zmult2_eq mult.commute)
  consider (pos) "0 < x" | (zero) "x = 0" | (neg) "x < 0" by linarith
  then show ?thesis
  proof cases
    case pos
    then show ?thesis using e [of x] x by (simp add: sg_def)
  next
    case zero
    have "m * (- 1) div 2 ^ N = - 1" by (rule high_half_value(2) [OF m]) simp
    moreover have "(- 1 :: int) div 2 ^ s = - 1" by (intro int_div_pos_eq [where r = "2 ^ s - 1"]) auto
    ultimately show ?thesis using zero by (simp add: sg_def)
  next
    case neg
    then have "m * (- x - 1) div 2 ^ N div 2 ^ s = (- x - 1) div d" using e [of "- x - 1"] x by simp
    then show ?thesis using neg flip_div [OF d neg] by (simp add: sg_def not_int_def)
  qed
qed

subsection \<open>Facts: the whole division\<close>

lemma fast_divide_builds:
  assumes r: "honours_intrinsics r" and im: "reads_image r (divide_table ids (type_of num))"
    and t: "itype (type_of num)" "bits (type_of num) \<in> {8, 16, 32}" "lanes (type_of num) = 1"
    and n: "wf_expr num" "eval r num = Some [x]"
    and den: "wf_expr den" "type_eq (type_of den) (UInt_t 8 1)" "eval r den = Some [d]" "\<not> is_const den" "not_placeholder den"
  shows "builds r (fast_integer_divide ids num den) (type_of num)
    [if d = 1 then (if is_int (type_of num) \<and> x \<le> 0 then - x - 1 else x) else x div divisor d]"
proof -
  define t where "t = type_of num"
  have t': "itype t" "bits t \<in> {8, 16, 32}" "lanes t = 1" using t by (simp_all add: t_def)
  have ti: "is_int t \<or> is_uint t" using itype_int [OF t'(1)] .
  have nv: "valued_as r num t [x]" using n by (simp add: valued_as_def t_def)
  have dv: "valued_as r den (UInt_t 8 1) [d]" using den by (simp add: valued_as_def)
  have u8: "itype (UInt_t 8 1)" "is_uint (UInt_t 8 1)" "bits (UInt_t 8 1) = 8" "lanes (UInt_t 8 1) = 1"
    using UInt_facts [of 8] by simp_all
  have d: "0 \<le> d" "d < 256" using valued_as_type(4) [OF dv u8(1)] uint_range [OF u8(2)] u8(3) by auto
  let ?u = "UInt_t (bits t) 1" and ?m = "table_multiplier t d" and ?k = "table_shift t d"
  let ?im = "divide_table ids t"
  note u = UInt_facts [OF t'(2)]
  note tv = table_values [OF ti t'(2) d]
  have dd: "0 < divisor d" using d by (simp add: divisor_def)
  have ri: "reads_image r (table_image ?u (runtime_table t) (image_ids_of ids t))"
    using im divide_table_eq [OF t'(2)] by (simp add: t_def)
  have len: "256 \<le> length (runtime_table t)"
    using runtime_table_exact [OF ti t'(2)] by (simp add: runtime_rows_exact_def)
  note call = image_call_builds [OF ri u(1,4) len dv den(5) d]
  obtain mul where mul: "image_call ?im [Some den, Some (IntImm (Int_t 32 1) 0)] = Inr mul" "valued_as r mul ?u [?m]"
    using call [of 0] by (auto simp: builds_def divide_table_eq [OF t'(2)] table_multiplier_def)
  obtain sh where sh: "image_call ?im [Some den, Some (IntImm (Int_t 32 1) 1)] = Inr sh" "valued_as r sh ?u [?k]"
    using call [of 1] by (auto simp: builds_def divide_table_eq [OF t'(2)] table_shift_def)
  have xr: "in_range t x" using valued_as_type(4) [OF nv t'(1)] by simp
  let ?sg = "if 0 < x then 0 else - 1 :: int"
  let ?res = "\<lambda>n' q. if d = 1 then n' else q"
  obtain n' q a b where step: "(if is_uint t then rbind (unsigned_fast_divide t num mul sh) (\<lambda>q. Inr (num, q))
        else signed_fast_divide t num mul sh) = Inr (n', q)"
    and v: "valued_as r n' t [a]" "valued_as r q t [b]"
    and ab: "?res a b = (if d = 1 then (if is_int t \<and> x \<le> 0 then - x - 1 else x) else x div divisor d)"
  proof (cases "is_uint t")
    case True
    let ?b = "(x * ?m div 2 ^ bits t + (x - x * ?m div 2 ^ bits t) div 2) div 2 ^ nat ?k"
    obtain q where q: "unsigned_fast_divide t num mul sh = Inr q" "valued_as r q t [?b]"
      using unsigned_fast_divide_builds [OF r t' True mul(2) tv(1,2) sh(2) tv(3,4) nv] by (auto simp: builds_def)
    have "?b = x div divisor d" if "d \<noteq> 1"
      using exact_multiplier_div [OF tv(5) [OF that True], of x] average_div(2) [of x ?m "bits t" "nat ?k"]
        tv(1,2) xr uint_range [OF True] by simp
    then show thesis using that [of num q x ?b] q True nv by simp
  next
    case False
    then have i: "is_int t" using ti by blast
    obtain n' q where q: "signed_fast_divide t num mul sh = Inr (n', q)" "valued_as r n' t [?sg XOR x]"
        "valued_as r q t [?sg XOR (?m * (?sg XOR x) div 2 ^ bits t div 2 ^ nat ?k)]"
      using signed_fast_divide_builds [OF r t' i mul(2) tv(1,2) sh(2) tv(3,4) nv] by blast
    have "?sg XOR (?m * (?sg XOR x) div 2 ^ bits t div 2 ^ nat ?k) = x div divisor d" if "d \<noteq> 1"
      using signed_fast_value [OF tv(6) [OF that i] dd tv(1,2), of x] xr int_range [OF i] by simp
    moreover have "?sg XOR x = (if is_int t \<and> x \<le> 0 then - x - 1 else x)" using i by (simp add: not_int_def)
    ultimately show thesis using that [OF _ q(2,3)] q(1) False by simp
  qed
  have one: "in_range (UInt_t 8 1) 1" using uint_range [OF u8(2)] u8(3) by simp
  obtain c where c: "operator_ei EQOp (Some den) 1 = Inr c" "valued_as r c (Bool_t 1) [of_bool (d = 1)]"
    using compare_ei1 [OF dv u8(1) one, of EQOp] u8(4) by (auto simp: builds_def)
  have c': "valued_as r c (Bool_t (int (lanes t))) [of_bool (d = 1)]" using c(2) t'(3) by simp
  have sel: "builds r (select c n' q) t [?res a b]"
    using select1 [OF c' as_const_comparison [OF c(1)] v t'(1)] by simp
  then obtain e where e: "select c n' q = Inr e" "valued_as r e t [?res a b]" by (auto simp: builds_def)
  have te: "type_eq (type_of e) t" using e(2) by (simp add: valued_as_def)
  have as: "is_uint t \<or> is_int t" "bits t = 8 \<or> bits t = 16 \<or> bits t = 32" using ti t'(2) by auto
  have "fast_integer_divide ids num den = Inr e"
    unfolding fast_integer_divide_def Let_def t_def [symmetric]
    using den(4) by (simp only: if_False den(2) as user_assert_True rbind_Inr mul(1) sh(1) step prod.case c(1) e(1) te
      internal_assert_True)
  then show ?thesis using e(2) ab unfolding t_def [symmetric] by simp
qed

subsection \<open>Properties\<close>

text \<open>C3: for a numerator of 8, 16 or 32 bits and a divisor that is not a constant,
  \<open>fast_integer_divide\<close> succeeds, and its expression has the value of the quotient,
  rounded down, of the numerator by the divisor, where 0 stands for 256. The exception are
  signed numerators with the divisor one.\<close>

theorem fast_integer_divide_correct:
  assumes "honours_intrinsics r" and "reads_image r (divide_table ids (type_of num))"
    and "wf_expr num" and "is_int (type_of num) \<or> is_uint (type_of num)" and "bits (type_of num) \<in> {8, 16, 32}"
    and "lanes (type_of num) = 1" and "eval r num = Some [x]"
    and "wf_expr den" and "type_eq (type_of den) (UInt_t 8 1)" and "eval r den = Some [d]" and "\<not> is_const den"
    and "not_placeholder den" and "is_uint (type_of num) \<or> d \<noteq> 1"
  shows "\<exists>e. fast_integer_divide ids num den = Inr e \<and> type_eq (type_of e) (type_of num) \<and>
    eval r e = Some [x div divisor d]"
proof -
  have "itype (type_of num)"
    using wf_expr_type_wf [OF assms(3)] assms(4-6) by (auto simp: itype_def const_type_def)
  then have "builds r (fast_integer_divide ids num den) (type_of num)
      [if d = 1 then (if is_int (type_of num) \<and> x \<le> 0 then - x - 1 else x) else x div divisor d]"
    by (rule fast_divide_builds [OF assms(1,2) _ assms(5,6,3,7-12)])
  moreover have "(if d = 1 then (if is_int (type_of num) \<and> x \<le> 0 then - x - 1 else x) else x div divisor d) = x div divisor d"
    using assms(13) by (auto simp: divisor_def)
  ultimately show ?thesis by (auto simp: builds_def valued_as_def)
qed

definition image_env :: "image \<Rightarrow> env" where
  "image_env im = int_env\<lparr>call_val := (\<lambda>t n ct i vs.
     if ct = PureIntrinsic then intrinsic_val t n vs
     else case vs of [[x], [y]] \<Rightarrow> Some [image_pixels im ! nat x ! nat y] | _ \<Rightarrow> None)\<rparr>"

lemma image_env_ok: "honours_intrinsics (image_env im\<lparr>var_val := f\<rparr>)" "reads_image (image_env im\<lparr>var_val := f\<rparr>) im"
  by (simp_all add: honours_intrinsics_def reads_image_def image_env_def)

theorem fast_integer_divide_correct_witness:
  "\<exists>e. fast_integer_divide (\<lambda>s w. (''table'', w)) (Variable (Int_t 16 1) ''x'' None None None)
       (Variable (UInt_t 8 1) ''d'' None None None) = Inr e \<and> type_eq (type_of e) (Int_t 16 1) \<and>
     eval (image_env (divide_table (\<lambda>s w. (''table'', w)) (Int_t 16 1))\<lparr>var_val := [''x'' \<mapsto> [- 1000], ''d'' \<mapsto> [7]]\<rparr>) e = Some [- 143]"
proof -
  let ?x = "Variable (Int_t 16 1) ''x'' None None None" and ?d = "Variable (UInt_t 8 1) ''d'' None None None"
  let ?ids = "\<lambda>s w. (''table'', w) :: string \<times> nat"
  let ?r = "image_env (divide_table ?ids (Int_t 16 1))\<lparr>var_val := [''x'' \<mapsto> [- 1000], ''d'' \<mapsto> [7]]\<rparr>"
  have "\<exists>e. fast_integer_divide ?ids ?x ?d = Inr e \<and> type_eq (type_of e) (type_of ?x) \<and>
      eval ?r e = Some [- 1000 div divisor 7]"
    by (rule fast_integer_divide_correct)
      (simp_all add: image_env_ok eval_concrete not_placeholder_def Var_is_placeholder_def)
  then show ?thesis by (simp add: divisor_def)
qed

text \<open>C38: for a signed numerator and the divisor one, the numerator that the last
  \<open>select\<close> picks has already been flipped: unless it is positive, the result is not the
  numerator but its bitwise complement, minus one for zero and 4 for -5.\<close>

theorem fast_integer_divide_by_one:
  assumes "honours_intrinsics r" and "reads_image r (divide_table ids (type_of num))"
    and "wf_expr num" and "is_int (type_of num)" and "bits (type_of num) \<in> {8, 16, 32}"
    and "lanes (type_of num) = 1" and "eval r num = Some [x]" and "x \<le> 0"
    and "wf_expr den" and "type_eq (type_of den) (UInt_t 8 1)" and "eval r den = Some [1]" and "\<not> is_const den"
    and "not_placeholder den"
  shows "\<exists>e. fast_integer_divide ids num den = Inr e \<and> eval r e = Some [- x - 1]"
proof -
  have "itype (type_of num)"
    using wf_expr_type_wf [OF assms(3)] assms(4-6) by (auto simp: itype_def const_type_def)
  from fast_divide_builds [OF assms(1,2) this assms(5,6,3,7,9-13)] show ?thesis
    using assms(4,8) by (auto simp: builds_def valued_as_def)
qed

theorem fast_integer_divide_by_one_witness:
  "\<exists>e. fast_integer_divide (\<lambda>s w. (''table'', w)) (Variable (Int_t 32 1) ''x'' None None None)
       (Variable (UInt_t 8 1) ''d'' None None None) = Inr e \<and>
     eval (image_env (divide_table (\<lambda>s w. (''table'', w)) (Int_t 32 1))\<lparr>var_val := [''x'' \<mapsto> [- 5], ''d'' \<mapsto> [1]]\<rparr>) e = Some [4]"
proof -
  let ?x = "Variable (Int_t 32 1) ''x'' None None None" and ?d = "Variable (UInt_t 8 1) ''d'' None None None"
  let ?ids = "\<lambda>s w. (''table'', w) :: string \<times> nat"
  let ?r = "image_env (divide_table ?ids (Int_t 32 1))\<lparr>var_val := [''x'' \<mapsto> [- 5], ''d'' \<mapsto> [1]]\<rparr>"
  have "\<exists>e. fast_integer_divide ?ids ?x ?d = Inr e \<and> eval ?r e = Some [- (- 5) - 1]"
    by (rule fast_integer_divide_by_one)
      (simp_all add: image_env_ok eval_concrete not_placeholder_def Var_is_placeholder_def)
  then show ?thesis by simp
qed

text \<open>C40: a constant divisor is cast to \<open>uint8\<close> and divided by. Dividing an
  \<open>int8\<close> by the constant 200 then divides by -56, so that 112 gives -2; and the constant
  0, which should stand for 256, makes an expression without a value.\<close>

theorem fast_integer_divide_constants:
  "(\<exists>e. fast_integer_divide ids (Variable (Int_t 8 1) ''x'' None None None) (IntImm (Int_t 32 1) 200) = Inr e \<and>
      eval (int_env\<lparr>var_val := [''x'' \<mapsto> [112]]\<rparr>) e = Some [- 2]) \<and>
   (\<exists>e. fast_integer_divide ids (Variable (UInt_t 8 1) ''x'' None None None) (IntImm (Int_t 32 1) 0) = Inr e \<and>
      (\<forall>r. eval r e = None))"
proof (intro conjI exI)
  let ?x = "Variable (Int_t 8 1) ''x'' None None None" and ?y = "Variable (UInt_t 8 1) ''x'' None None None"
  let ?e = "Binary DivOp ?x (IntImm (Int_t 8 1) (- 56))" and ?f = "Binary DivOp ?y (UIntImm (UInt_t 8 1) 0)"
  have "rbind (cast (UInt_t 8 1) (IntImm (Int_t 32 1) 200)) (\<lambda>d. operator_ee DivOp (Some ?x) (Some d)) = Inr ?e" by code_simp
  then show "fast_integer_divide ids ?x (IntImm (Int_t 32 1) 200) = Inr ?e" by (simp add: fast_integer_divide_def)
  show "eval (int_env\<lparr>var_val := [''x'' \<mapsto> [112]]\<rparr>) ?e = Some [- 2]" by code_simp
  have "rbind (cast (UInt_t 8 1) (IntImm (Int_t 32 1) 0)) (\<lambda>d. operator_ee DivOp (Some ?y) (Some d)) = Inr ?f" by code_simp
  then show "fast_integer_divide ids ?y (IntImm (Int_t 32 1) 0) = Inr ?f" by (simp add: fast_integer_divide_def)
  show "\<forall>r. eval r ?f = None"
    by (auto simp: lift2_def length_Suc_conv split: option.splits)
qed

end
