(* ===== verification/Spec2Isabelle.thy ===== *)
theory Spec2Isabelle
  imports IROpsFacts IRMatch ModRem BoundsFacts MemoCacheFacts FastDivide
begin

text \<open>
  A model of the core of the Halide compiler with its CoreIR and HLS back ends: the typed
  intermediate representation, the helpers that build and inspect it, the comparison,
  rewriting, matching and analysis that the lowering passes are made of, and the memoization
  cache of the runtime that compiled pipelines call.

  \<^bold>\<open>How the parts work together.\<close> A front end builds expressions with the operators of
  \<open>src/IROperator.h\<close>, which match the types of the operands and call the checked
  constructors of \<open>src/IR.cpp\<close>. The passes are visitors and mutators over the tree;
  they compare subtrees (\<open>src/IREquality.cpp\<close>), substitute
  (\<open>src/Substitute.cpp\<close>), match patterns (\<open>src/IRMatch.cpp\<close>), keep their
  bindings in a \<open>Scope\<close> and ask analyses about the values of expressions
  (\<open>src/ModulusRemainder.cpp\<close>, \<open>src/Monotonic.cpp\<close>,
  \<open>src/Bounds.cpp\<close>). At the end the back end lowers divisions by small divisors to
  multiplications with the numbers of a table, with further expressions that the same
  operators build (\<open>src/CodeGen_LLVM.cpp\<close>). The code of a memoized stage looks its result up in
  the cache of \<open>src/runtime/cache.cpp\<close>, computes and stores it on a miss, and releases
  the buffers when it is done with them.

  \<^bold>\<open>Conventions.\<close> An assertion of the compiler is a value of the type
  \<open>'a result\<close>: \<open>Internal_error\<close> and \<open>User_error\<close> for the two kinds of
  assertion, \<open>Undefined_behaviour\<close> where the C++ expression has none. An \<open>Expr\<close>
  or \<open>Stmt\<close> handle is an option, \<open>None\<close> when it is undefined. C++ integers are
  mathematical integers with the wrap-around or the undefined overflow written out.

  \<^bold>\<open>Theories.\<close>
  \<^item> \<open>HalidePrelude\<close>: results, assertions, 32-bit checks, shared lemmas.
  \<^item> \<open>FloatBits\<close>: \<open>double\<close> values as 64 bits, rounding and conversions.
  \<^item> \<open>HalideType\<close>: \<open>struct Type\<close>, its predicates and ranges
    (\<open>src/Type.h\<close>, \<open>src/Type.cpp\<close>).
  \<^item> \<open>Scope\<close>: \<open>SmallStack\<close> and \<open>Scope\<close> (\<open>src/Scope.h\<close>), the interface
    \<open>name_scope\<close> that visitors rely on, interpreted on the model.
  \<^item> \<open>IR\<close>: nodes and constructors (\<open>src/Expr.h\<close>, \<open>src/IR.h\<close>,
    \<open>src/IR.cpp\<close>); blocks keep the order of their statements, the constant size of an
    allocation is a product that does not wrap.
  \<^item> \<open>IRSem\<close>: the reference semantics of integer expressions, and type soundness of the
    types that the constructors compute. It has two modes: overflow of a signed type of 32
    bits or more is undefined, or, as the analysis of bounds assumes, does not happen.
  \<^item> \<open>IROps\<close>, \<open>IROpsFacts\<close>: constant tests, constants, casts, type matching and
    operators (\<open>src/IROperator.cpp\<close>, \<open>src/IROperator.h\<close>, \<open>src/Simplify.h\<close>)
    and what they compute.
  \<^item> \<open>IREquality\<close>: the comparer and its lossy cache (\<open>src/IREquality.cpp\<close>): it
    refines a structural comparison, is a strict weak order and respects values.
  \<^item> \<open>IRMutate\<close>: the base mutator and the substitutions (\<open>src/IRMutator.cpp\<close>,
    \<open>src/Substitute.cpp\<close>, \<open>src/ExprUsesVar.h\<close>); the interface
    \<open>value_mutator\<close> of a mutator that keeps types and values is interpreted on each
    substitution.
  \<^item> \<open>IRMatch\<close>: pattern matching (\<open>src/IRMatch.cpp\<close>), undone by substitution.
  \<^item> \<open>ModRem\<close>: the congruence analysis (\<open>src/ModulusRemainder.cpp\<close>) and its
    soundness.
  \<^item> \<open>Monotonic\<close>: whether an expression increases with a variable
    (\<open>src/Monotonic.cpp\<close>), sound where nothing overflows and the variable is not
    rebound; the two cases where the code goes wrong are evaluated.
  \<^item> \<open>Interval\<close>: intervals of expressions with infinities (\<open>src/Interval.h\<close>,
    \<open>src/Interval.cpp\<close>): unions and intersections have the right bounds.
  \<^item> \<open>Bounds\<close>: the bounds of an expression over the ranges of its variables, the visitor
    \<open>Bounds\<close>, \<open>find_constant_bound\<close> and \<open>bounds_of_expr_in_scope\<close> of
    \<open>src/Bounds.cpp\<close>. \<open>BoundsVal\<close> says what it means that an interval brackets a
    value, \<open>BoundsArith\<close> and \<open>BoundsCases\<close> show it of the interval that each operation
    gets, \<open>BoundsVisit\<close> states the class of expressions and shows the visits of all nodes
    but ramps and calls, which \<open>BoundsFacts\<close> adds, with the induction over the fuel, the
    theorem about \<open>bounds_of_expr_in_scope\<close> and the intervals that are wrong.
  \<^item> \<open>DivisionTables\<close>: the multipliers and shifts of
    \<open>src/IntegerDivisionTable.cpp\<close>, and the criterion of exactness that every row in
    use meets. \<open>BitOps\<close>: the bitwise operators of \<open>src/IROperator.h\<close>, what the
    intrinsics they call compute, and the lemmas by which an expression under construction
    has a value. \<open>IntDivision\<close>: how the back end lowers \<open>Div\<close> and \<open>Mod\<close>
    (\<open>src/CodeGen_LLVM.cpp\<close>, \<open>src/CodeGen_Internal.cpp\<close>); the result is
    Euclidean division. \<open>FastDivide\<close>: division by a divisor known at run time
    (\<open>src/FastIntegerDivide.cpp\<close>) and the image reads it makes
    (\<open>src/Image.cpp\<close>, \<open>src/Parameter.cpp\<close>). The inputs on which these go wrong
    are evaluated.
  \<^item> \<open>MemoCache\<close>: the memoization cache (\<open>src/runtime/cache.cpp\<close>) on an explicit
    heap, a pointer that is not live being dangling. \<open>MemoCacheInv\<close> has the invariant
    (the list of recent use, the hash chains, the blocks an entry owns, the size counter) and
    what each step does to it; \<open>MemoCacheRefine\<close> the abstract cache, a list of entries in
    the order of use, that lookup, store, release and pruning refine, the sessions of a
    client as an inductive predicate, and the interface \<open>memo_table\<close> of a memoizing
    client, interpreted on the model; \<open>MemoCacheFacts\<close> the properties and the session
    that reads freed memory.

  \<^bold>\<open>Bounds and fuel.\<close> The recursions over the tree are structural, or have a measure
  (the loop of \<open>gcd\<close>, the halved exponent of \<open>raise_to_integer_power\<close>, the bits
  of a constant). \<open>Interval::make_max\<close> and \<open>make_min\<close> have fuel from the
  sizes of their operands, which is shown to be enough. The loops of the cache over linked entries have as much fuel as there are
  live entries; the invariant makes that enough, and the theorems on the cache state that its
  operations return.

  \<^bold>\<open>Not modelled.\<close> The addresses of nodes are a parameter of the comparison, with the law
  that one address holds one node; reference counts, the memo tables of the graph mutators
  and the printing of error messages are left out. In the cache, the lock, the debug
  validation and the device side of a buffer are left out, and the allocator is an arbitrary
  sequence of answers. The simplifier is not modelled: the analyses of monotonicity and of
  bounds, which ask it through \<open>can_prove\<close>, have it as an argument, with the hypothesis that
  it keeps values. The boxes that a statement touches (the rest of \<open>src/Bounds.cpp\<close>) are
  not modelled. The expressions that replace a division are modelled up to the call of
  \<open>codegen\<close>; the elimination of common subexpressions before it and LLVM's own
  instructions are not. What the intrinsics and a read of an image give is part of the
  environment, with their documented meaning as the hypotheses \<open>honours_intrinsics\<close> and
  \<open>reads_image\<close>. Bounds inference, the lowering passes over schedules, the front-end
  classes and the rest of the code generators are not part of the model; the latter call the
  LLVM and CoreIR libraries.
\<close>

end
